(* ===== verification/Osvr_Prelude.thy ===== *)
theory Osvr_Prelude
  imports Complex_Main "HOL-Library.Word" "HOL-Library.Monad_Syntax"
begin

text \<open>
  Shared vocabulary of the development: the exceptions the modelled code throws, the result
  types of throwing operations, fixed-width integers, and the generic list lemmas the
  component theories rewrite with.

  A C++ function that may throw is a function into \<open>('e, 'a) result\<close>. A function that
  changes a state and may throw afterwards keeps the changes it made before the throw (C++
  does not roll back), so it returns the new state together with a result.
\<close>

named_theorems wf_simps \<open>unfolding of well-formedness predicates\<close>
named_theorems wf_intros \<open>preservation of well-formedness\<close>

subsection \<open>Exceptions and results\<close>

text \<open>
  The exception types of \<^verbatim>\<open>inc/osvr/Common/RoutingExceptions.h\<close> and
  \<^verbatim>\<open>inc/osvr/Util/TreeNode.h\<close>, one constructor each; \<open>LogicError\<close>,
  \<open>RuntimeError\<close> and \<open>OutOfRange\<close> are the standard library's exceptions that the code
  throws with a message of its own.
\<close>

datatype exn =
    NoSuchChild string
  | LogicError string
  | RuntimeError string
  | OutOfRange
  | InvalidDeviceName string
  | EmptyPathComponent string
  | ImpossibleParentPath
  | ForbiddenAbsolutePath
  | ForbiddenParentPath
  | EmptyPath
  | PathNotAbsolute string
  | SensorMissingParent string
  | SensorMissingInterfaceParent string
  | InterfaceMissingParent string

type_synonym ('e, 'a) result = "'e + 'a"

definition result_bind :: "('e, 'a) result \<Rightarrow> ('a \<Rightarrow> ('e, 'b) result) \<Rightarrow> ('e, 'b) result" where
  "result_bind r f = (case r of Inl e \<Rightarrow> Inl e | Inr x \<Rightarrow> f x)"

lemma result_bind_simps [simp]:
  "result_bind (Inl e) f = Inl e"
  "result_bind (Inr x) f = f x"
  by (simp_all add: result_bind_def)

lemma result_bind_eq_Inr [simp]:
  "result_bind r f = Inr y \<longleftrightarrow> (\<exists>x. r = Inr x \<and> f x = Inr y)"
  by (cases r) simp_all

lemma result_bind_assoc:
  "result_bind (result_bind r f) g = result_bind r (\<lambda>x. result_bind (f x) g)"
  by (cases r) simp_all

lemma result_bind_cong [fundef_cong]:
  "r = r' \<Longrightarrow> (\<And>x. r' = Inr x \<Longrightarrow> f x = f' x) \<Longrightarrow> result_bind r f = result_bind r' f'"
  by (cases r') simp_all

subsection \<open>Machine integers\<close>

type_synonym u8 = "8 word"
type_synonym u16 = "16 word"
type_synonym u32 = "32 word"
type_synonym u64 = "64 word"

subsection \<open>Lists\<close>

lemma find_Some_in:
  "find P xs = Some x \<Longrightarrow> x \<in> set xs \<and> P x"
  by (auto simp: find_Some_iff)

lemma find_None_set:
  "find P xs = None \<longleftrightarrow> (\<forall>x\<in>set xs. \<not> P x)"
  by (auto simp: find_None_iff)

lemma find_append:
  "find P (xs @ ys) = (case find P xs of None \<Rightarrow> find P ys | Some x \<Rightarrow> Some x)"
  by (induction xs) auto

lemma find_cong_set:
  "(\<And>x. x \<in> set xs \<Longrightarrow> P x = Q x) \<Longrightarrow> find P xs = find Q xs"
  by (induction xs) auto

lemma find_unique:
  assumes "x \<in> set xs" and "P x" and "\<And>y. y \<in> set xs \<Longrightarrow> P y \<Longrightarrow> y = x"
  shows "find P xs = Some x"
proof (cases "find P xs")
  case None
  with assms(1,2) show ?thesis by (simp add: find_None_set)
next
  case (Some y)
  then have "y \<in> set xs" and "P y" by (simp_all add: find_Some_in)
  with assms(3) Some show ?thesis by simp
qed

lemma nth_append_left [simp]: "i < length xs \<Longrightarrow> (xs @ ys) ! i = xs ! i"
  by (simp add: nth_append)

lemma list_update_append_left [simp]: "i < length xs \<Longrightarrow> (xs @ ys)[i := v] = xs[i := v] @ ys"
  by (simp add: list_update_append)

end
