(* ===== verification/Tree_Node.thy ===== *)
theory Tree_Node
  imports Osvr_Prelude
begin

text \<open>
  The generic named tree of \<^verbatim>\<open>inc/osvr/Util/TreeNode.h\<close>, with the full-path printer of
  \<^verbatim>\<open>TreeNodeFullPath.h\<close> and the traversal of \<^verbatim>\<open>TreeTraversalVisitor.h\<close>.

  The code links nodes by pointers: an owning vector of child pointers and a raw parent
  pointer. The model keeps that shape: a tree is the list of its nodes in allocation order,
  a pointer is a position in the list, and the root is position 0. Nodes are never deleted.
  \<open>wf_tree\<close> is the representation invariant; \<open>walk\<close> and \<open>lookup\<close> are the abstract view
  (a partial map from name paths to values) that the operations are proved against.
\<close>

subsection \<open>Nodes and accessors\<close>

record 'v node =
  m_value :: 'v
  m_children :: "nat list"
  m_name :: string
  m_parent :: "nat option"

type_synonym 'v tree = "'v node list"

definition getName :: "'v tree \<Rightarrow> nat \<Rightarrow> string" where
  "getName t i = m_name (t ! i)"

definition getParent :: "'v tree \<Rightarrow> nat \<Rightarrow> nat option" where
  "getParent t i = m_parent (t ! i)"

definition isRoot :: "'v tree \<Rightarrow> nat \<Rightarrow> bool" where
  "isRoot t i \<longleftrightarrow> getParent t i = None"

definition children :: "'v tree \<Rightarrow> nat \<Rightarrow> nat list" where
  "children t i = m_children (t ! i)"

definition hasChildren :: "'v tree \<Rightarrow> nat \<Rightarrow> bool" where
  "hasChildren t i \<longleftrightarrow> children t i \<noteq> []"

definition numChildren :: "'v tree \<Rightarrow> nat \<Rightarrow> nat" where
  "numChildren t i = length (children t i)"

definition value_of :: "'v tree \<Rightarrow> nat \<Rightarrow> 'v" where
  "value_of t i = m_value (t ! i)"

definition set_value :: "'v tree \<Rightarrow> nat \<Rightarrow> 'v \<Rightarrow> 'v tree" where
  "set_value t i v = t[i := (t ! i)\<lparr>m_value := v\<rparr>]"

subsection \<open>Construction and child access\<close>

definition createRoot :: "'v \<Rightarrow> 'v tree" where
  "createRoot v = [\<lparr>m_value = v, m_children = [], m_name = [], m_parent = None\<rparr>]"

text \<open>\<^verbatim>\<open>std::find_if\<close> over the children: the first child of that name.\<close>

definition m_getChildByName :: "'v tree \<Rightarrow> nat \<Rightarrow> string \<Rightarrow> nat option" where
  "m_getChildByName t i name = find (\<lambda>j. getName t j = name) (children t i)"

definition m_addChild :: "'v tree \<Rightarrow> nat \<Rightarrow> nat \<Rightarrow> 'v tree" where
  "m_addChild t i c = t[i := (t ! i)\<lparr>m_children := children t i @ [c]\<rparr>]"

text \<open>The private constructor of a non-root node refuses an empty name.\<close>

definition new_node :: "nat \<Rightarrow> string \<Rightarrow> 'v \<Rightarrow> (exn, 'v node) result" where
  "new_node parent name v =
     (if name = [] then Inl (LogicError ''Can't create a named tree node with an empty name!'')
      else Inr \<lparr>m_value = v, m_children = [], m_name = name, m_parent = Some parent\<rparr>)"

text \<open>
  \<^verbatim>\<open>TreeNode::create\<close>, both overloads: the one without a value passes the value type's
  default.
\<close>

definition create :: "'v tree \<Rightarrow> nat \<Rightarrow> string \<Rightarrow> 'v \<Rightarrow> (exn, 'v tree \<times> nat) result" where
  "create t parent name v =
     (if m_getChildByName t parent name \<noteq> None
      then Inl (LogicError ''Can't create a child with the same name as an existing child!'')
      else result_bind (new_node parent name v)
             (\<lambda>n. Inr (m_addChild (t @ [n]) parent (length t), length t)))"

definition getOrCreateChildByName ::
    "'v \<Rightarrow> 'v tree \<Rightarrow> nat \<Rightarrow> string \<Rightarrow> (exn, 'v tree \<times> nat) result" where
  "getOrCreateChildByName dflt t i name =
     (case m_getChildByName t i name of
        Some c \<Rightarrow> Inr (t, c)
      | None \<Rightarrow> create t i name dflt)"

definition getChildByName :: "'v tree \<Rightarrow> nat \<Rightarrow> string \<Rightarrow> (exn, nat) result" where
  "getChildByName t i name =
     (case m_getChildByName t i name of
        Some c \<Rightarrow> Inr c
      | None \<Rightarrow> Inl (NoSuchChild name))"

subsection \<open>Walking up: root and full path\<close>

text \<open>
  Parent chains: a node is allocated after its parent, so the parent has the smaller
  position. The test \<open>p < i\<close> only serves termination; \<open>wf_tree\<close> implies it.
\<close>

function getRootOf :: "'v tree \<Rightarrow> nat \<Rightarrow> nat" where
  "getRootOf t i =
     (case getParent t i of
        None \<Rightarrow> i
      | Some p \<Rightarrow> if p < i then getRootOf t p else i)"
  by pat_completeness auto
termination
  by (relation "measure snd") auto

function buildPathRecursively :: "'v tree \<Rightarrow> string \<Rightarrow> nat \<Rightarrow> string" where
  "buildPathRecursively t sep i =
     (case getParent t i of
        None \<Rightarrow> []
      | Some p \<Rightarrow> (if p < i then buildPathRecursively t sep p else []) @ sep @ getName t i)"
  by pat_completeness auto
termination
  by (relation "measure (\<lambda>(t, sep, i). i)") auto

definition getTreeNodeFullPath :: "'v tree \<Rightarrow> nat \<Rightarrow> string \<Rightarrow> string" where
  "getTreeNodeFullPath t i sep = (if isRoot t i then sep else buildPathRecursively t sep i)"

declare getRootOf.simps [simp del] buildPathRecursively.simps [simp del]

subsection \<open>Traversal\<close>

text \<open>
  \<^verbatim>\<open>TreeTraversalWrapper\<close> applies the functor to a node and then visits its children. The
  loop of \<^verbatim>\<open>visitChildren\<close> re-evaluates the number of children at every turn, because the
  functor may add nodes; a functor that keeps adding nodes below the node being visited makes
  the traversal run forever, which is the value \<open>None\<close> here. \<open>'s\<close> is the state the functor
  changes, \<open>kids\<close> reads the children of a node in it. \<open>visitChildren kids f i k s\<close> is the
  loop of node \<open>i\<close> from index \<open>k\<close> on, each turn applying the wrapper to child \<open>k\<close>.
\<close>

partial_function (option) visitChildren ::
    "('s \<Rightarrow> nat \<Rightarrow> nat list) \<Rightarrow> (nat \<Rightarrow> 's \<Rightarrow> 's) \<Rightarrow> nat \<Rightarrow> nat \<Rightarrow> 's \<Rightarrow> 's option" where
  "visitChildren kids f i k s =
     (if k < length (kids s i)
      then Option.bind (visitChildren kids f (kids s i ! k) 0 (f (kids s i ! k) s))
             (\<lambda>s'. visitChildren kids f i (Suc k) s')
      else Some s)"

definition traverseWith ::
    "('s \<Rightarrow> nat \<Rightarrow> nat list) \<Rightarrow> (nat \<Rightarrow> 's \<Rightarrow> 's) \<Rightarrow> nat \<Rightarrow> 's \<Rightarrow> 's option" where
  "traverseWith kids f i s = visitChildren kids f i 0 (f i s)"

subsection \<open>Well-formed trees and their abstract view\<close>

definition wf_tree :: "'v tree \<Rightarrow> bool" where
  "wf_tree t \<longleftrightarrow>
     t \<noteq> [] \<and> getName t 0 = [] \<and> getParent t 0 = None \<and>
     (\<forall>i<length t. 0 < i \<longrightarrow>
        getName t i \<noteq> [] \<and> (\<exists>p<i. getParent t i = Some p \<and> i \<in> set (children t p))) \<and>
     (\<forall>i<length t. \<forall>c\<in>set (children t i). i < c \<and> c < length t \<and> getParent t c = Some i) \<and>
     (\<forall>i<length t. distinct (map (getName t) (children t i)))"

text \<open>The names from the root down to a node.\<close>

function node_path :: "'v tree \<Rightarrow> nat \<Rightarrow> string list" where
  "node_path t i =
     (case getParent t i of
        None \<Rightarrow> []
      | Some p \<Rightarrow> (if p < i then node_path t p else []) @ [getName t i])"
  by pat_completeness auto
termination
  by (relation "measure snd") auto

declare node_path.simps [simp del]

fun walk :: "'v tree \<Rightarrow> nat \<Rightarrow> string list \<Rightarrow> nat option" where
  "walk t i [] = Some i"
| "walk t i (c # cs) =
     (case m_getChildByName t i c of None \<Rightarrow> None | Some j \<Rightarrow> walk t j cs)"

definition lookup :: "'v tree \<Rightarrow> string list \<Rightarrow> 'v option" where
  "lookup t ps = map_option (value_of t) (walk t 0 ps)"

lemma walk_append:
  "walk t i (ps @ qs) = (case walk t i ps of None \<Rightarrow> None | Some j \<Rightarrow> walk t j qs)"
  by (induction ps arbitrary: i) (auto split: option.splits)

lemma wf_nonempty: "wf_tree t \<Longrightarrow> 0 < length t"
  by (simp add: wf_tree_def)

lemma wf_root [simp]: "wf_tree t \<Longrightarrow> getParent t 0 = None" "wf_tree t \<Longrightarrow> getName t 0 = []"
  by (simp_all add: wf_tree_def)

lemma wf_parent:
  assumes "wf_tree t" and "i < length t" and "0 < i"
  obtains p where "p < i" "getParent t i = Some p" "i \<in> set (children t p)" "getName t i \<noteq> []"
  using assms unfolding wf_tree_def by blast

lemma wf_child:
  assumes "wf_tree t" and "i < length t" and "c \<in> set (children t i)"
  shows "i < c" "c < length t" "getParent t c = Some i"
  using assms unfolding wf_tree_def by blast+

lemma wf_distinct_names:
  "wf_tree t \<Longrightarrow> i < length t \<Longrightarrow> distinct (map (getName t) (children t i))"
  unfolding wf_tree_def by blast

lemma isRoot_iff: "wf_tree t \<Longrightarrow> i < length t \<Longrightarrow> isRoot t i \<longleftrightarrow> i = 0"
  by (cases "i = 0") (auto simp: isRoot_def elim: wf_parent)

lemma m_getChildByName_Some:
  assumes "wf_tree t" and "i < length t" and "m_getChildByName t i c = Some j"
  shows "j \<in> set (children t i)" "getName t j = c" "i < j" "j < length t" "getParent t j = Some i"
  using assms find_Some_in [of _ "children t i" j] wf_child [OF assms(1,2)]
  by (auto simp: m_getChildByName_def)

lemma m_getChildByName_child:
  assumes "wf_tree t" and "i < length t" and "j \<in> set (children t i)"
  shows "m_getChildByName t i (getName t j) = Some j"
  unfolding m_getChildByName_def
proof (rule find_unique)
  show "j \<in> set (children t i)" by (rule assms(3))
  show "getName t j = getName t j" ..
  fix k assume "k \<in> set (children t i)" and "getName t k = getName t j"
  with wf_distinct_names [OF assms(1,2)] assms(3) show "k = j"
    by (auto simp: distinct_map inj_on_def)
qed

lemma node_path_root: "wf_tree t \<Longrightarrow> node_path t 0 = []"
  by (simp add: node_path.simps)

lemma node_path_child:
  "getParent t j = Some i \<Longrightarrow> i < j \<Longrightarrow> node_path t j = node_path t i @ [getName t j]"
  by (simp add: node_path.simps [of t j])

lemma walk_sound:
  assumes "wf_tree t" and "i < length t" and "walk t i ps = Some j"
  shows "j < length t \<and> node_path t j = node_path t i @ ps"
  using assms(2,3)
proof (induction ps arbitrary: i)
  case Nil
  then show ?case by simp
next
  case (Cons c cs)
  then obtain k where k: "m_getChildByName t i c = Some k" "walk t k cs = Some j"
    by (auto split: option.splits)
  note ch = m_getChildByName_Some [OF assms(1) Cons.prems(1) k(1)]
  with Cons.IH [OF ch(4) k(2)] show ?case
    by (simp add: node_path_child)
qed

lemma walk_node_path:
  assumes "wf_tree t" and "i < length t"
  shows "walk t 0 (node_path t i) = Some i"
  using assms(2)
proof (induction i rule: less_induct)
  case (less i)
  show ?case
  proof (cases "i = 0")
    case True
    with assms(1) show ?thesis by (simp add: node_path_root)
  next
    case False
    then obtain p where p: "p < i" "getParent t i = Some p" "i \<in> set (children t p)"
      using wf_parent [OF assms(1) less.prems] by blast
    then have "walk t 0 (node_path t p) = Some p" using less by simp
    moreover have "m_getChildByName t p (getName t i) = Some i"
      using m_getChildByName_child [OF assms(1) _ p(3)] p(1) less.prems by simp
    ultimately show ?thesis by (simp add: node_path_child [OF p(2,1)] walk_append)
  qed
qed

lemma node_path_inj:
  "wf_tree t \<Longrightarrow> i < length t \<Longrightarrow> j < length t \<Longrightarrow> node_path t i = node_path t j \<Longrightarrow> i = j"
  using walk_node_path by (metis option.inject)

lemma node_path_names_nonempty:
  assumes "wf_tree t" and "i < length t" and "c \<in> set (node_path t i)"
  shows "c \<noteq> []"
  using assms(2,3)
proof (induction i rule: less_induct)
  case (less i)
  show ?case
  proof (cases "i = 0")
    case True
    with less.prems assms(1) show ?thesis by (simp add: node_path_root)
  next
    case False
    then obtain p where p: "p < i" "getParent t i = Some p" "getName t i \<noteq> []"
      using wf_parent [OF assms(1) less.prems(1)] by blast
    with less show ?thesis by (auto simp: node_path_child [OF p(2,1)])
  qed
qed

lemma getRootOf_wf: "wf_tree t \<Longrightarrow> i < length t \<Longrightarrow> getRootOf t i = 0"
proof (induction i rule: less_induct)
  case (less i)
  show ?case
  proof (cases "i = 0")
    case True
    with less.prems show ?thesis by (simp add: getRootOf.simps [of t 0])
  next
    case False
    then obtain p where "p < i" "getParent t i = Some p"
      using wf_parent [OF less.prems] by blast
    with less show ?thesis by (simp add: getRootOf.simps [of t i])
  qed
qed

lemma buildPath_eq:
  "wf_tree t \<Longrightarrow> i < length t \<Longrightarrow> buildPathRecursively t sep i = concat (map ((@) sep) (node_path t i))"
proof (induction i rule: less_induct)
  case (less i)
  show ?case
  proof (cases "i = 0")
    case True
    with less.prems show ?thesis
      by (simp add: buildPathRecursively.simps [of t sep 0] node_path_root)
  next
    case False
    then obtain p where "p < i" "getParent t i = Some p"
      using wf_parent [OF less.prems] by blast
    with less show ?thesis
      by (simp add: buildPathRecursively.simps [of t sep i] node_path_child)
  qed
qed

lemma getTreeNodeFullPath_eq:
  assumes "wf_tree t" and "i < length t"
  shows "getTreeNodeFullPath t i sep =
    (if i = 0 then sep else concat (map ((@) sep) (node_path t i)))"
  using assms by (simp add: getTreeNodeFullPath_def isRoot_iff buildPath_eq)

subsection \<open>Trees with the same nodes\<close>

text \<open>
  \<open>same_shape\<close>: equal but for the values; writing through \<^verbatim>\<open>value()\<close> keeps it, and
  everything that reads only names and links agrees on such trees.
\<close>

definition same_shape :: "'v tree \<Rightarrow> 'v tree \<Rightarrow> bool" where
  "same_shape t t' \<longleftrightarrow> length t' = length t \<and>
     getName t' = getName t \<and> getParent t' = getParent t \<and> children t' = children t"

lemma same_shape_refl [simp]: "same_shape t t"
  by (simp add: same_shape_def)

lemma same_shape_trans: "same_shape t u \<Longrightarrow> same_shape u v \<Longrightarrow> same_shape t v"
  by (simp add: same_shape_def)

lemma same_shape_set_value [simp]: "same_shape t (set_value t i v)"
proof -
  have "m_name (set_value t i v ! j) = m_name (t ! j) \<and>
      m_parent (set_value t i v ! j) = m_parent (t ! j) \<and>
      m_children (set_value t i v ! j) = m_children (t ! j)" for j
    by (cases "i < length t"; cases "i = j") (simp_all add: set_value_def list_update_beyond)
  then show ?thesis
    by (simp add: same_shape_def set_value_def getName_def getParent_def children_def fun_eq_iff)
qed

lemma same_shape_wf: "same_shape t t' \<Longrightarrow> wf_tree t \<Longrightarrow> wf_tree t'"
  unfolding same_shape_def wf_tree_def by (metis length_0_conv)

lemma same_shape_child: "same_shape t t' \<Longrightarrow> m_getChildByName t' i c = m_getChildByName t i c"
  by (simp add: same_shape_def m_getChildByName_def)

lemma same_shape_walk: "same_shape t t' \<Longrightarrow> walk t' i ps = walk t i ps"
  by (induction ps arbitrary: i) (auto simp: same_shape_child split: option.splits)

lemma same_shape_node_path: "same_shape t t' \<Longrightarrow> node_path t' i = node_path t i"
proof (induction i rule: less_induct)
  case (less i)
  then have "getParent t' i = getParent t i" "getName t' i = getName t i"
    by (simp_all add: same_shape_def)
  with less show ?case
    by (simp add: node_path.simps [of t i] node_path.simps [of t' i] split: option.splits)
qed

lemma length_set_value [simp]: "length (set_value t i v) = length t"
  by (simp add: set_value_def)

lemma value_of_set_value:
  "i < length t \<Longrightarrow> value_of (set_value t i v) j = (if i = j then v else value_of t j)"
  by (simp add: set_value_def value_of_def nth_list_update)

lemma wf_set_value [wf_intros, simp]: "wf_tree t \<Longrightarrow> wf_tree (set_value t i v)"
  by (rule same_shape_wf [OF same_shape_set_value])

lemma lookup_set_value:
  assumes "wf_tree t" and "i < length t"
  shows "lookup (set_value t i v) = (lookup t)(node_path t i \<mapsto> v)"
proof
  fix ps
  show "lookup (set_value t i v) ps = ((lookup t)(node_path t i \<mapsto> v)) ps"
  proof (cases "walk t 0 ps")
    case None
    with walk_node_path [OF assms] show ?thesis
      by (auto simp: lookup_def same_shape_walk [OF same_shape_set_value])
  next
    case (Some j)
    then have "j < length t" and "node_path t j = ps"
      using walk_sound [OF assms(1) wf_nonempty [OF assms(1)] Some] assms(1)
      by (simp_all add: node_path_root)
    with assms Some show ?thesis
      by (auto simp: lookup_def same_shape_walk [OF same_shape_set_value] value_of_set_value
          dest: node_path_inj)
  qed
qed

subsection \<open>Adding a node\<close>

abbreviation added :: "'v tree \<Rightarrow> nat \<Rightarrow> string \<Rightarrow> 'v \<Rightarrow> 'v tree" where
  "added t p name v \<equiv>
     m_addChild (t @ [\<lparr>m_value = v, m_children = [], m_name = name, m_parent = Some p\<rparr>]) p (length t)"

lemma create_Inr_iff:
  "create t p name v = Inr r \<longleftrightarrow>
     m_getChildByName t p name = None \<and> name \<noteq> [] \<and> r = (added t p name v, length t)"
  by (auto simp: create_def new_node_def)

lemma length_added [simp]: "length (added t p name v) = Suc (length t)"
  by (simp add: m_addChild_def)

lemma added_old:
  assumes "p < length t" and "i < length t"
  shows "getName (added t p name v) i = getName t i"
    and "getParent (added t p name v) i = getParent t i"
    and "value_of (added t p name v) i = value_of t i"
    and "children (added t p name v) i = (if i = p then children t p @ [length t] else children t i)"
  using assms
  by (simp_all add: m_addChild_def getName_def getParent_def value_of_def children_def nth_list_update)

lemma added_new:
  assumes "p < length t"
  shows "getName (added t p name v) (length t) = name"
    and "getParent (added t p name v) (length t) = Some p"
    and "value_of (added t p name v) (length t) = v"
    and "children (added t p name v) (length t) = []"
  using assms
  by (simp_all add: m_addChild_def getName_def getParent_def value_of_def children_def nth_append)

lemmas added_simps = added_old added_new

lemma m_getChildByName_added:
  assumes "wf_tree t" and "p < length t" and "i < length t" and "m_getChildByName t p name = None"
  shows "m_getChildByName (added t p name v) i c =
    (if i = p \<and> c = name then Some (length t) else m_getChildByName t i c)"
proof -
  have *: "find (\<lambda>j. getName (added t p name v) j = c) (children t i) =
      find (\<lambda>j. getName t j = c) (children t i)"
    by (rule find_cong_set) (use wf_child [OF assms(1,3)] assms(2) in \<open>auto simp: added_old\<close>)
  show ?thesis
  proof (cases "i = p")
    case True
    with * assms show ?thesis
      by (auto simp: m_getChildByName_def added_simps find_append split: option.splits)
  next
    case False
    with * assms show ?thesis by (simp add: m_getChildByName_def added_simps)
  qed
qed

lemma wf_added:
  assumes "wf_tree t" and "p < length t" and "name \<noteq> []" and "m_getChildByName t p name = None"
  shows "wf_tree (added t p name v)" (is "wf_tree ?t'")
  unfolding wf_tree_def
proof (intro conjI)
  note wt = assms(1)
  have pos: "0 < length t" by (rule wf_nonempty [OF wt])
  show "?t' \<noteq> []" by (simp flip: length_greater_0_conv)
  show "getName ?t' 0 = []" and "getParent ?t' 0 = None"
    using assms(2) pos wt by (simp_all add: added_old)
  show "\<forall>i<length ?t'. 0 < i \<longrightarrow>
      getName ?t' i \<noteq> [] \<and> (\<exists>q<i. getParent ?t' i = Some q \<and> i \<in> set (children ?t' q))"
  proof (intro allI impI)
    fix i assume "i < length ?t'" and "0 < i"
    then consider "i < length t" | "i = length t" by fastforce
    then show "getName ?t' i \<noteq> [] \<and> (\<exists>q<i. getParent ?t' i = Some q \<and> i \<in> set (children ?t' q))"
    proof cases
      case 1
      with wt \<open>0 < i\<close> 1 obtain q where "q < i" "getParent t i = Some q" "i \<in> set (children t q)"
        "getName t i \<noteq> []" by (blast elim: wf_parent)
      with 1 assms(2) show ?thesis by (auto simp: added_old)
    next
      case 2
      with assms(2,3) show ?thesis by (auto simp: added_simps)
    qed
  qed
  show "\<forall>i<length ?t'. \<forall>c\<in>set (children ?t' i). i < c \<and> c < length ?t' \<and> getParent ?t' c = Some i"
  proof (intro allI impI ballI)
    fix i c assume i: "i < length ?t'" and c: "c \<in> set (children ?t' i)"
    then consider "i < length t" | "i = length t" by fastforce
    then show "i < c \<and> c < length ?t' \<and> getParent ?t' c = Some i"
    proof cases
      case 1
      with c assms(2) have "c \<in> set (children t i) \<or> i = p \<and> c = length t"
        by (auto simp: added_old split: if_splits)
      with wf_child [OF wt 1] 1 assms(2) show ?thesis by (auto simp: added_simps less_SucI)
    next
      case 2
      with c assms(2) show ?thesis by (simp add: added_new)
    qed
  qed
  show "\<forall>i<length ?t'. distinct (map (getName ?t') (children ?t' i))"
  proof (intro allI impI)
    fix i assume "i < length ?t'"
    then consider "i < length t" | "i = length t" by fastforce
    then show "distinct (map (getName ?t') (children ?t' i))"
    proof cases
      case 1
      have m: "map (getName ?t') (children t i) = map (getName t) (children t i)"
        using wf_child [OF wt 1] assms(2) by (auto simp: added_old)
      have d: "distinct (map (getName ?t') (children t i))"
        unfolding m by (rule wf_distinct_names [OF wt 1])
      have "name \<notin> getName t ` set (children t p)"
        using assms(4) by (auto simp: m_getChildByName_def find_None_set)
      moreover have "getName ?t' ` set (children t p) = getName t ` set (children t p)"
        using wf_child [OF wt assms(2)] assms(2) by (auto simp: added_old intro!: image_cong)
      ultimately show ?thesis using d 1 assms(2) by (cases "i = p") (simp_all add: added_simps)
    next
      case 2
      with assms(2) show ?thesis by (simp add: added_new)
    qed
  qed
qed

lemma node_path_added_old:
  assumes "wf_tree t" and "p < length t"
  shows "i < length t \<Longrightarrow> node_path (added t p name v) i = node_path t i"
proof (induction i rule: less_induct)
  case (less i)
  with assms(2) have "getParent (added t p name v) i = getParent t i"
    and "getName (added t p name v) i = getName t i" by (simp_all add: added_old)
  with less show ?case
    by (simp add: node_path.simps [of t i] node_path.simps [of "added t p name v" i] split: option.splits)
qed

lemma node_path_added_new:
  assumes "wf_tree t" and "p < length t"
  shows "node_path (added t p name v) (length t) = node_path t p @ [name]"
  using assms node_path_added_old [OF assms assms(2)]
  by (simp add: node_path_child [where i = p] added_simps)

lemma walk_added:
  assumes wf: "wf_tree t" and p: "p < length t" and nc: "m_getChildByName t p name = None"
  shows "i < length t \<Longrightarrow>
    walk (added t p name v) i ps =
      (if \<exists>qs. ps = qs @ [name] \<and> walk t i qs = Some p then Some (length t) else walk t i ps)"
proof (induction ps arbitrary: i)
  case Nil
  then show ?case by simp
next
  case (Cons c cs)
  note ch = m_getChildByName_added [OF wf p Cons.prems nc, of v c]
  have new: "m_getChildByName (added t p name v) (length t) d = None" for d
    using p by (simp add: m_getChildByName_def added_new)
  have wnew: "walk (added t p name v) (length t) ds = (if ds = [] then Some (length t) else None)" for ds
    by (cases ds) (simp_all add: new)
  show ?case
  proof (cases "i = p \<and> c = name")
    case True
    have up: "walk t p qs = Some p \<Longrightarrow> qs = []" for qs
      using walk_sound [OF wf p, of qs p] by simp
    have "(\<exists>qs. c # cs = qs @ [name] \<and> walk t i qs = Some p) \<longleftrightarrow> cs = []"
      using True by (auto simp: Cons_eq_append_conv dest: up)
    with True ch wnew nc show ?thesis by simp
  next
    case False
    show ?thesis
    proof (cases "m_getChildByName t i c")
      case None
      with False have "\<not> (\<exists>qs. c # cs = qs @ [name] \<and> walk t i qs = Some p)"
        by (auto simp: Cons_eq_append_conv)
      moreover have "walk (added t p name v) i (c # cs) = None" "walk t i (c # cs) = None"
        using False ch None by auto
      ultimately show ?thesis by simp
    next
      case (Some j)
      then have "j < length t" using m_getChildByName_Some [OF wf Cons.prems] by blast
      from Cons.IH [OF this] False ch Some show ?thesis
        by (auto simp: Cons_eq_append_conv)
    qed
  qed
qed

lemma lookup_added:
  assumes "wf_tree t" and "p < length t" and "m_getChildByName t p name = None"
  shows "lookup (added t p name v) = (lookup t)(node_path t p @ [name] \<mapsto> v)"
proof
  note w0 = wf_nonempty [OF assms(1)]
  fix ps
  show "lookup (added t p name v) ps = ((lookup t)(node_path t p @ [name] \<mapsto> v)) ps"
  proof (cases "ps = node_path t p @ [name]")
    case True
    with walk_node_path [OF assms(1,2)] walk_added [OF assms w0] assms(2) show ?thesis
      by (simp add: lookup_def added_new)
  next
    case False
    have "\<not> (\<exists>qs. ps = qs @ [name] \<and> walk t 0 qs = Some p)"
      using False walk_sound [OF assms(1) w0] assms(1) by (auto simp: node_path_root)
    then have "walk (added t p name v) 0 ps = walk t 0 ps"
      unfolding walk_added [OF assms w0] by (rule if_not_P)
    moreover have "walk t 0 ps = Some j \<Longrightarrow> value_of (added t p name v) j = value_of t j" for j
      using walk_sound [OF assms(1) w0] assms(2) by (simp add: added_old)
    ultimately show ?thesis using False
      by (cases "walk t 0 ps") (auto simp: lookup_def)
  qed
qed

lemma wf_createRoot [wf_intros, simp]: "wf_tree (createRoot v)"
  by (simp add: wf_tree_def createRoot_def getName_def getParent_def children_def)

lemma lookup_createRoot: "lookup (createRoot v) = [[] \<mapsto> v]"
proof
  fix ps
  show "lookup (createRoot v) ps = [[] \<mapsto> v] ps"
    by (cases ps) (simp_all add: lookup_def createRoot_def m_getChildByName_def children_def value_of_def)
qed

text \<open>What \<^verbatim>\<open>create\<close> and \<^verbatim>\<open>getOrCreateChildByName\<close> do, seen through \<open>lookup\<close>.\<close>

lemma create_spec:
  assumes "wf_tree t" and "p < length t" and "create t p name v = Inr (t', j)"
  shows "wf_tree t'" "j = length t" "length t' = Suc (length t)" "node_path t' j = node_path t p @ [name]"
    "lookup t' = (lookup t)(node_path t p @ [name] \<mapsto> v)"
    "\<And>i. i < length t \<Longrightarrow> node_path t' i = node_path t i"
proof -
  from assms(3) have *: "m_getChildByName t p name = None" "name \<noteq> []" "t' = added t p name v" "j = length t"
    by (auto simp: create_Inr_iff)
  show "wf_tree t'" "j = length t" "length t' = Suc (length t)" "node_path t' j = node_path t p @ [name]"
    "lookup t' = (lookup t)(node_path t p @ [name] \<mapsto> v)"
    "\<And>i. i < length t \<Longrightarrow> node_path t' i = node_path t i"
    using * wf_added [OF assms(1,2) *(2,1)] node_path_added_new [OF assms(1,2)]
      lookup_added [OF assms(1,2) *(1)] node_path_added_old [OF assms(1,2)] by simp_all
qed

lemma lookup_node_path:
  "wf_tree t \<Longrightarrow> i < length t \<Longrightarrow> lookup t (node_path t i) = Some (value_of t i)"
  by (simp add: lookup_def walk_node_path)

lemma lookup_child:
  assumes "wf_tree t" and "i < length t"
  shows "lookup t (node_path t i @ [c]) = map_option (value_of t) (m_getChildByName t i c)"
  using walk_node_path [OF assms] by (simp add: lookup_def walk_append split: option.splits)

lemma getOrCreate_spec:
  assumes "wf_tree t" and "i < length t" and "c \<noteq> []"
  shows "\<exists>t' j. getOrCreateChildByName d t i c = Inr (t', j) \<and> wf_tree t' \<and> j < length t' \<and>
    length t \<le> length t' \<and> node_path t' j = node_path t i @ [c] \<and>
    (\<forall>k<length t. node_path t' k = node_path t k) \<and>
    lookup t' = (if lookup t (node_path t i @ [c]) = None
                 then (lookup t)(node_path t i @ [c] \<mapsto> d) else lookup t)"
proof (cases "m_getChildByName t i c")
  case None
  then have "create t i c d = Inr (added t i c d, length t)"
    using assms(3) by (simp add: create_Inr_iff)
  with create_spec [OF assms(1,2) this] None lookup_child [OF assms(1,2)] show ?thesis
    by (auto simp: getOrCreateChildByName_def)
next
  case (Some j)
  with m_getChildByName_Some [OF assms(1,2) Some] lookup_child [OF assms(1,2), of c] assms(1) show ?thesis
    by (auto simp: getOrCreateChildByName_def node_path_child)
qed

subsection \<open>Traversals that add no nodes visit every descendant once\<close>

text \<open>The nodes of a subtree, a node before its children, children in order.\<close>

function preorder :: "'v tree \<Rightarrow> nat \<Rightarrow> nat list" where
  "preorder t i =
     i # concat (map (preorder t) (filter (\<lambda>c. i < c \<and> c < length t) (children t i)))"
  by pat_completeness auto
termination
  by (relation "measure (\<lambda>(t, i). length t - i)") auto

declare preorder.simps [simp del]

lemma preorder_wf:
  assumes "wf_tree t" and "i < length t"
  shows "preorder t i = i # concat (map (preorder t) (children t i))"
proof -
  have "filter (\<lambda>c. i < c \<and> c < length t) (children t i) = children t i"
    using wf_child [OF assms] by (simp add: filter_id_conv)
  then show ?thesis by (simp add: preorder.simps [of t i])
qed

lemma set_preorder:
  assumes "wf_tree t"
  shows "i < length t \<Longrightarrow>
    set (preorder t i) = {j. j < length t \<and> (\<exists>ps. node_path t j = node_path t i @ ps)}"
proof (induction "length t - i" arbitrary: i rule: less_induct)
  case less
  show ?case
  proof (rule set_eqI)
    fix j
    have "(\<exists>c\<in>set (children t i). j \<in> set (preorder t c)) \<longleftrightarrow>
        (\<exists>c\<in>set (children t i). j < length t \<and> (\<exists>ps. node_path t j = node_path t c @ ps))"
    proof (rule bex_cong [OF refl])
      fix c assume "c \<in> set (children t i)"
      then have "i < c" "c < length t" using wf_child [OF assms less.prems] by auto
      with less.prems have "set (preorder t c) = {j. j < length t \<and> (\<exists>ps. node_path t j = node_path t c @ ps)}"
        by (intro less.hyps) auto
      then show "j \<in> set (preorder t c) \<longleftrightarrow> j < length t \<and> (\<exists>ps. node_path t j = node_path t c @ ps)"
        by simp
    qed
    also have "\<dots> \<longleftrightarrow> j < length t \<and> (\<exists>c ps. node_path t j = node_path t i @ c # ps)"
    proof
      assume "\<exists>c\<in>set (children t i). j < length t \<and> (\<exists>ps. node_path t j = node_path t c @ ps)"
      then show "j < length t \<and> (\<exists>c ps. node_path t j = node_path t i @ c # ps)"
        using wf_child [OF assms less.prems] by (auto simp: node_path_child)
    next
      assume "j < length t \<and> (\<exists>c ps. node_path t j = node_path t i @ c # ps)"
      then obtain c ps where j: "j < length t" "node_path t j = node_path t i @ c # ps" by blast
      with walk_node_path [OF assms j(1)] walk_node_path [OF assms less.prems]
      obtain k where k: "m_getChildByName t i c = Some k"
        by (auto simp: walk_append split: option.splits)
      note m_getChildByName_Some [OF assms less.prems k]
      with j show "\<exists>c\<in>set (children t i). j < length t \<and> (\<exists>ps. node_path t j = node_path t c @ ps)"
        by (intro bexI [of _ k]) (auto simp: node_path_child)
    qed
    finally show "j \<in> set (preorder t i) \<longleftrightarrow>
        j \<in> {j. j < length t \<and> (\<exists>ps. node_path t j = node_path t i @ ps)}"
      using less.prems node_path_inj [OF assms _ less.prems, of j]
      by (auto simp: preorder_wf [OF assms less.prems] neq_Nil_conv) (metis append_Nil2 neq_Nil_conv)+
  qed
qed

lemma distinct_preorder:
  assumes "wf_tree t"
  shows "i < length t \<Longrightarrow> distinct (preorder t i)"
proof (induction "length t - i" arbitrary: i rule: less_induct)
  case less
  note i = less.prems
  have ch: "i < c \<and> c < length t \<and> node_path t c = node_path t i @ [getName t c]" if "c \<in> set (children t i)" for c
    using wf_child [OF assms i that] assms by (auto simp: node_path_child)
  have names: "distinct (map (getName t) (children t i))" by (rule wf_distinct_names [OF assms i])
  have disj: "set (preorder t c) \<inter> set (preorder t d) = {}"
    if "c \<in> set (children t i)" "d \<in> set (children t i)" "c \<noteq> d" for c d
  proof -
    have "getName t c \<noteq> getName t d" using names that by (auto simp: distinct_map inj_on_def)
    with that ch show ?thesis by (auto simp: set_preorder [OF assms])
  qed
  have "distinct (concat (map (preorder t) (children t i)))"
  proof (rule distinct_concat)
    have "inj_on (preorder t) (set (children t i))"
    proof (rule inj_onI, rule ccontr)
      fix c d assume cd: "c \<in> set (children t i)" "d \<in> set (children t i)" "preorder t c = preorder t d" "c \<noteq> d"
      then have "set (preorder t c) = {}" using disj [of c d] by simp
      with cd(1) ch [of c] preorder_wf [OF assms, of c] show False by simp
    qed
    then show "distinct (map (preorder t) (children t i))"
      using names by (simp add: distinct_map)
    show "\<And>ys. ys \<in> set (map (preorder t) (children t i)) \<Longrightarrow> distinct ys"
      using less.hyps ch i by fastforce
    show "\<And>ys zs. ys \<in> set (map (preorder t) (children t i)) \<Longrightarrow> zs \<in> set (map (preorder t) (children t i)) \<Longrightarrow>
        ys \<noteq> zs \<Longrightarrow> set ys \<inter> set zs = {}"
      using disj by auto
  qed
  moreover have "i \<notin> set (preorder t c)" if "c \<in> set (children t i)" for c
    using ch [OF that] by (auto simp: set_preorder [OF assms])
  ultimately show ?case unfolding preorder_wf [OF assms i] by simp
qed

lemma preorder_child_subset:
  assumes "wf_tree t" and "r < length t" and "i \<in> set (preorder t r)" and "c \<in> set (children t i)"
  shows "set (preorder t c) \<subseteq> set (preorder t r)"
proof -
  from set_preorder [OF assms(1,2)] assms(3) obtain ps
    where i: "i < length t" "node_path t i = node_path t r @ ps" by auto
  have "node_path t c = node_path t r @ (ps @ [getName t c])" "c < length t"
    using wf_child [OF assms(1) i(1) assms(4)] assms(1) i(2) by (auto simp: node_path_child)
  with set_preorder [OF assms(1)] assms(2) show ?thesis by auto
qed

text \<open>
  The general rule: a functor that keeps an invariant under which the children of the nodes
  below the starting node are as they were is applied to each of them once, in preorder. It
  may add nodes elsewhere.
\<close>

lemma visitChildren_inv:
  assumes wf: "wf_tree t" and r: "r < length t"
    and kids: "\<And>j s. j \<in> set (preorder t r) \<Longrightarrow> I s \<Longrightarrow> K s j = children t j"
    and keeps: "\<And>j s. j \<in> set (preorder t r) \<Longrightarrow> I s \<Longrightarrow> I (f j s)"
  shows "i \<in> set (preorder t r) \<Longrightarrow> I s \<Longrightarrow>
    visitChildren K f i k s = Some (fold f (concat (map (preorder t) (drop k (children t i)))) s)"
proof (induction "(length t - i, length (children t i) - k)" arbitrary: i k s
    rule: wf_induct [OF wf_lex_prod [OF wf_less_than wf_less_than]])
  case 1
  note IH = 1(1) [rule_format] and i = 1(2) and s = 1(3)
  have il: "i < length t" using i set_preorder [OF wf r] by auto
  show ?case
  proof (cases "k < length (children t i)")
    case False
    with kids [OF i s] show ?thesis by (simp add: visitChildren.simps)
  next
    case True
    define c where "c = children t i ! k"
    have c: "i < c" "c < length t" "set (preorder t c) \<subseteq> set (preorder t r)"
      using wf_child [OF wf il, of c] preorder_child_subset [OF wf r i, of c] True
      by (simp_all add: c_def)
    have cr: "c \<in> set (preorder t r)" using c(2,3) preorder_wf [OF wf] by auto
    let ?s = "fold f (preorder t c) s"
    have "visitChildren K f c 0 (f c s) =
        Some (fold f (concat (map (preorder t) (drop 0 (children t c)))) (f c s))"
      by (rule IH) (use c il cr s keeps in auto)
    then have v: "visitChildren K f c 0 (f c s) = Some ?s"
      using preorder_wf [OF wf c(2)] by simp
    have "I (fold f js s)" if "set js \<subseteq> set (preorder t r)" for js
      using that s keeps by (induction js arbitrary: s) auto
    then have "visitChildren K f i (Suc k) ?s =
        Some (fold f (concat (map (preorder t) (drop (Suc k) (children t i)))) ?s)"
      by (intro IH) (use True i c(3) in auto)
    moreover have "drop k (children t i) = c # drop (Suc k) (children t i)"
      using True by (simp add: c_def Cons_nth_drop_Suc)
    ultimately show ?thesis
      using True kids [OF i s] v by (simp add: visitChildren.simps [of K f i k s] flip: c_def)
  qed
qed

lemma traverseWith_inv:
  assumes "wf_tree t" and "i < length t" and "I s"
    and "\<And>j s. j \<in> set (preorder t i) \<Longrightarrow> I s \<Longrightarrow> K s j = children t j"
    and "\<And>j s. j \<in> set (preorder t i) \<Longrightarrow> I s \<Longrightarrow> I (f j s)"
  shows "traverseWith K f i s = Some (fold f (preorder t i) s)"
proof -
  have i: "i \<in> set (preorder t i)" by (simp add: preorder_wf [OF assms(1,2)])
  show ?thesis
    using visitChildren_inv [where K = K and f = f and I = I and r = i and i = i and k = 0 and s = "f i s",
        OF assms(1,2,4,5) i] assms(5) [OF i assms(3)] assms(1,2)
    by (simp add: traverseWith_def preorder_wf)
qed

lemma traverseWith_eq:
  assumes "wf_tree t" and "i < length t" and "K s = children t"
    and "\<And>j s. K s = children t \<Longrightarrow> K (f j s) = children t"
  shows "traverseWith K f i s = Some (fold f (preorder t i) s)"
  by (rule traverseWith_inv [where I = "\<lambda>s. K s = children t"]) (use assms in auto)

end
