(* ===== verification/Path_Retrieve.thy ===== *)
theory Path_Retrieve
  imports Tree_Node
begin

text \<open>
  Path syntax and retrieval: \<^verbatim>\<open>src/osvr/Common/PathParseAndRetrieve.h\<close> with the separator of
  \<^verbatim>\<open>RoutingConstants.cpp\<close> and \<^verbatim>\<open>getFullPath\<close> of \<^verbatim>\<open>PathNode.cpp\<close>.

  The retrieval functions may have created nodes before they throw, so they return the tree
  next to the result. The specification side is \<open>resolve_names\<close> (what a path means as a list
  of names) and \<open>touched_names\<close> (which positions it visits); the locale \<open>child_access\<close> states
  what the loop needs of the functor that steps to a child, and both functors of the code
  are shown to provide it.
\<close>

subsection \<open>Separator, splitting, full path\<close>

definition getPathSeparator :: string where
  "getPathSeparator = ''/''"

definition getPathSeparatorCharacter :: char where
  "getPathSeparatorCharacter = hd getPathSeparator"

lemma getPathSeparatorCharacter_eq [simp]: "getPathSeparatorCharacter = CHR ''/''"
  by (simp add: getPathSeparatorCharacter_def getPathSeparator_def)

text \<open>
  The components the loop of \<^verbatim>\<open>treePathRetrieveImplementation\<close> ranges over: the pieces of the
  path between separators. There is always at least one piece, the empty one for the empty
  path. \<open>split_components_unique\<close> below shows that being the pieces between separators
  determines this list.
\<close>

fun split_components :: "string \<Rightarrow> string list" where
  "split_components [] = [[]]"
| "split_components (c # cs) =
     (if c = getPathSeparatorCharacter then [] # split_components cs
      else (c # hd (split_components cs)) # tl (split_components cs))"

fun join_components :: "string list \<Rightarrow> string" where
  "join_components [] = []"
| "join_components [w] = w"
| "join_components (w # ws) = w @ getPathSeparator @ join_components ws"

definition getFullPath :: "'v tree \<Rightarrow> nat \<Rightarrow> string" where
  "getFullPath t i = getTreeNodeFullPath t i getPathSeparator"

lemma split_components_nonempty [simp]: "split_components s \<noteq> []"
  by (cases s) simp_all

lemma join_components_Cons:
  "ws \<noteq> [] \<Longrightarrow> join_components (w # ws) = w @ CHR ''/'' # join_components ws"
  by (cases ws) (simp_all add: getPathSeparator_def)

lemma join_components_prefix: "join_components ((c # w) # ws) = c # join_components (w # ws)"
  by (cases ws) simp_all

lemma join_split: "join_components (split_components s) = s"
proof (induction s)
  case Nil
  show ?case by simp
next
  case (Cons c cs)
  show ?case
  proof (cases "c = CHR ''/''")
    case True
    with Cons show ?thesis by (simp add: join_components_Cons)
  next
    case False
    with Cons show ?thesis by (simp add: join_components_prefix)
  qed
qed

lemma split_no_separator: "w \<in> set (split_components s) \<Longrightarrow> CHR ''/'' \<notin> set w"
proof (induction s arbitrary: w)
  case Nil
  then show ?case by simp
next
  case (Cons c cs)
  then show ?case
    by (auto split: if_splits dest: list.set_sel(2) [OF split_components_nonempty]
        intro: list.set_sel(1) [OF split_components_nonempty])
qed

lemma split_no_sep_word: "CHR ''/'' \<notin> set w \<Longrightarrow> split_components w = [w]"
  by (induction w) auto

lemma split_append_sep:
  "CHR ''/'' \<notin> set w \<Longrightarrow> split_components (w @ CHR ''/'' # s) = w # split_components s"
  by (induction w) auto

lemma split_components_unique:
  assumes "ws \<noteq> []" and "\<forall>w\<in>set ws. CHR ''/'' \<notin> set w" and "join_components ws = s"
  shows "ws = split_components s"
  using assms
proof (induction ws arbitrary: s)
  case Nil
  then show ?case by simp
next
  case (Cons w ws)
  show ?case
  proof (cases "ws = []")
    case True
    with Cons.prems show ?thesis by (simp add: split_no_sep_word)
  next
    case False
    with Cons.prems have s: "s = w @ CHR ''/'' # join_components ws" by (simp add: join_components_Cons)
    have "ws = split_components (join_components ws)" using Cons False by simp
    with Cons.prems(2) show ?thesis unfolding s by (simp add: split_append_sep)
  qed
qed

subsection \<open>Child functors and policies\<close>

datatype ParentPolicy = GETPARENT_PERMIT | GETPARENT_DENY
datatype AbsolutePolicy = ABSOLUTEPATH_PERMIT | ABSOLUTEPATH_DENY

type_synonym 'v child_functor = "'v tree \<Rightarrow> nat \<Rightarrow> string \<Rightarrow> 'v tree \<times> (exn, nat) result"

definition GetOrCreateFunctor :: "'v \<Rightarrow> 'v child_functor" where
  "GetOrCreateFunctor dflt t node component =
     (case getOrCreateChildByName dflt t node component of
        Inl e \<Rightarrow> (t, Inl e)
      | Inr (t', c) \<Rightarrow> (t', Inr c))"

definition GetChildFunctor :: "'v child_functor" where
  "GetChildFunctor t node component = (t, getChildByName t node component)"

subsection \<open>Retrieval\<close>

text \<open>
  The loop over the components. \<open>path\<close> is the string the exception for an empty component
  reports, which is the path with its leading and trailing separators already removed.
\<close>

fun retrieve_components ::
    "'v child_functor \<Rightarrow> ParentPolicy \<Rightarrow> string \<Rightarrow> 'v tree \<Rightarrow> nat \<Rightarrow> string list
     \<Rightarrow> 'v tree \<times> (exn, nat) result" where
  "retrieve_components f permitParent path t ret [] = (t, Inr ret)"
| "retrieve_components f permitParent path t ret (component # rest) =
     (if component = [] then (t, Inl (EmptyPathComponent path))
      else if component = ''.'' then retrieve_components f permitParent path t ret rest
      else if component = ''..'' then
        (if permitParent \<noteq> GETPARENT_PERMIT then (t, Inl ForbiddenParentPath)
         else (case getParent t ret of
                 None \<Rightarrow> (t, Inl ImpossibleParentPath)
               | Some p \<Rightarrow> retrieve_components f permitParent path t p rest))
      else (case f t ret component of
              (t', Inl e) \<Rightarrow> (t', Inl e)
            | (t', Inr c) \<Rightarrow> retrieve_components f permitParent path t' c rest))"

definition strip_trailing_separator :: "string \<Rightarrow> string" where
  "strip_trailing_separator path =
     (if path \<noteq> [] \<and> last path = getPathSeparatorCharacter then butlast path else path)"

definition treePathRetrieveImplementation ::
    "'v child_functor \<Rightarrow> 'v tree \<Rightarrow> nat \<Rightarrow> string \<Rightarrow> ParentPolicy \<Rightarrow> AbsolutePolicy
     \<Rightarrow> 'v tree \<times> (exn, nat) result" where
  "treePathRetrieveImplementation f t node path permitParent permitAbsolute =
     (if path = [] then (t, Inr node)
      else if hd path = getPathSeparatorCharacter then
        (if permitAbsolute \<noteq> ABSOLUTEPATH_PERMIT then (t, Inl ForbiddenAbsolutePath)
         else if path = getPathSeparator then (t, Inr (getRootOf t node))
         else let p = strip_trailing_separator (tl path)
              in retrieve_components f permitParent p t (getRootOf t node) (split_components p))
      else let p = strip_trailing_separator path
           in retrieve_components f permitParent p t node (split_components p))"

definition treePathRetrieve ::
    "'v \<Rightarrow> 'v tree \<Rightarrow> nat \<Rightarrow> string \<Rightarrow> bool \<Rightarrow> 'v tree \<times> (exn, nat) result" where
  "treePathRetrieve dflt t node path permitParent =
     treePathRetrieveImplementation (GetOrCreateFunctor dflt) t node path
       (if permitParent then GETPARENT_PERMIT else GETPARENT_DENY) ABSOLUTEPATH_PERMIT"

definition treePathRetrieve_const ::
    "'v tree \<Rightarrow> nat \<Rightarrow> string \<Rightarrow> bool \<Rightarrow> (exn, nat) result" where
  "treePathRetrieve_const t node path permitParent =
     snd (treePathRetrieveImplementation GetChildFunctor t node path
            (if permitParent then GETPARENT_PERMIT else GETPARENT_DENY) ABSOLUTEPATH_PERMIT)"

definition pathParseAndRetrieve ::
    "'v \<Rightarrow> 'v tree \<Rightarrow> nat \<Rightarrow> string \<Rightarrow> 'v tree \<times> (exn, nat) result" where
  "pathParseAndRetrieve dflt t rootNode path =
     (if path = [] then (t, Inl EmptyPath)
      else if path = getPathSeparator then (t, Inr rootNode)
      else if hd path \<noteq> getPathSeparatorCharacter then (t, Inl (PathNotAbsolute path))
      else treePathRetrieve dflt t rootNode path False)"

definition pathParseAndRetrieve_const ::
    "'v tree \<Rightarrow> nat \<Rightarrow> string \<Rightarrow> (exn, nat) result" where
  "pathParseAndRetrieve_const t rootNode path =
     (if path = [] then Inl EmptyPath
      else if path = getPathSeparator then Inr rootNode
      else if hd path \<noteq> getPathSeparatorCharacter then Inl (PathNotAbsolute path)
      else treePathRetrieve_const t rootNode path False)"

subsection \<open>What a path means\<close>

fun resolve_names ::
    "bool \<Rightarrow> string \<Rightarrow> string list \<Rightarrow> string list \<Rightarrow> (exn, string list) result" where
  "resolve_names permit path base [] = Inr base"
| "resolve_names permit path base (c # cs) =
     (if c = [] then Inl (EmptyPathComponent path)
      else if c = ''.'' then resolve_names permit path base cs
      else if c = ''..'' then
        (if \<not> permit then Inl ForbiddenParentPath
         else if base = [] then Inl ImpossibleParentPath
         else resolve_names permit path (butlast base) cs)
      else resolve_names permit path (base @ [c]) cs)"

fun touched_names :: "bool \<Rightarrow> string list \<Rightarrow> string list \<Rightarrow> string list set" where
  "touched_names permit base [] = {}"
| "touched_names permit base (c # cs) =
     (if c = [] then {}
      else if c = ''.'' then touched_names permit base cs
      else if c = ''..'' then
        (if \<not> permit \<or> base = [] then {} else touched_names permit (butlast base) cs)
      else insert (base @ [c]) (touched_names permit (base @ [c]) cs))"

text \<open>A tree grown from another: nothing moves, no value changes, nodes are only added.\<close>

definition grows :: "'v tree \<Rightarrow> 'v tree \<Rightarrow> bool" where
  "grows t t' \<longleftrightarrow> wf_tree t' \<and> length t \<le> length t' \<and>
     (\<forall>i<length t. node_path t' i = node_path t i) \<and> lookup t \<subseteq>\<^sub>m lookup t'"

lemma grows_refl [simp]: "wf_tree t \<Longrightarrow> grows t t"
  by (simp add: grows_def)

lemma grows_trans: "grows t u \<Longrightarrow> grows u v \<Longrightarrow> grows t v"
  unfolding grows_def by (auto intro: map_le_trans)

lemma grows_wf [wf_intros]: "grows t t' \<Longrightarrow> wf_tree t'"
  by (simp add: grows_def)

lemma grows_node: "grows t t' \<Longrightarrow> i < length t \<Longrightarrow> i < length t' \<and> node_path t' i = node_path t i"
  by (simp add: grows_def)

lemma parent_node_path:
  assumes "wf_tree t" and "i < length t"
  shows "getParent t i = None \<longleftrightarrow> node_path t i = []"
    and "getParent t i = Some p \<Longrightarrow> p < length t \<and> node_path t p = butlast (node_path t i)"
proof -
  show "getParent t i = None \<longleftrightarrow> node_path t i = []"
    by (simp add: node_path.simps [of t i] split: option.split)
  assume p: "getParent t i = Some p"
  then have "0 < i" using assms(1) by (cases "i = 0") auto
  with assms p show "p < length t \<and> node_path t p = butlast (node_path t i)"
    by (auto simp: node_path_child elim!: wf_parent)
qed

locale child_access =
  fixes f :: "'v child_functor"
  assumes step: "wf_tree t \<Longrightarrow> i < length t \<Longrightarrow> c \<noteq> [] \<Longrightarrow> f t i c = (t', r) \<Longrightarrow>
      grows t t' \<and> (\<forall>j. r = Inr j \<longrightarrow> j < length t' \<and> node_path t' j = node_path t i @ [c])"
begin

lemma retrieve_components_grows:
  "wf_tree t \<Longrightarrow> i < length t \<Longrightarrow> retrieve_components f pp path t i cs = (t', r) \<Longrightarrow>
     grows t t' \<and> (\<forall>j. r = Inr j \<longrightarrow> j < length t' \<and>
       resolve_names (pp = GETPARENT_PERMIT) path (node_path t i) cs = Inr (node_path t' j))"
proof (induction cs arbitrary: t i t' r)
  case Nil
  then show ?case by auto
next
  case (Cons c cs)
  note wf = Cons.prems(1) and i = Cons.prems(2)
  consider "c = []" | "c = ''.''" | "c = ''..''" | "c \<noteq> []" "c \<noteq> ''.''" "c \<noteq> ''..''" by blast
  then show ?case
  proof cases
    case 3
    show ?thesis
    proof (cases "pp = GETPARENT_PERMIT")
      case True
      show ?thesis
      proof (cases "getParent t i")
        case None
        with 3 True Cons.prems show ?thesis by auto
      next
        case (Some p)
        with 3 True Cons.prems have "retrieve_components f pp path t p cs = (t', r)" by simp
        with parent_node_path [OF wf i] 3 True Some Cons.IH [OF wf, of p t' r] show ?thesis
          by simp
      qed
    qed (use 3 Cons.prems in auto)
  next
    case 4
    obtain u ru where u: "f t i c = (u, ru)" by fastforce
    note st = step [OF wf i 4(1) u]
    show ?thesis
    proof (cases ru)
      case (Inl e)
      with u st 4 Cons.prems show ?thesis by auto
    next
      case (Inr k)
      with u 4 Cons.prems(3) have "retrieve_components f pp path u k cs = (t', r)" by simp
      with Cons.IH [of u k] st Inr
      have "grows u t' \<and> (\<forall>j. r = Inr j \<longrightarrow> j < length t' \<and>
          resolve_names (pp = GETPARENT_PERMIT) path (node_path u k) cs = Inr (node_path t' j))"
        by (auto simp: grows_def)
      with st Inr 4 show ?thesis by (auto intro: grows_trans)
    qed
  qed (use Cons in auto)
qed

lemma treePathRetrieveImplementation_grows:
  assumes "wf_tree t" and "i < length t"
    and "treePathRetrieveImplementation f t i path pp ap = (t', r)"
  shows "grows t t'" and "r = Inr j \<Longrightarrow> j < length t'"
proof -
  have root: "getRootOf t i = 0" "0 < length t"
    using getRootOf_wf [OF assms(1,2)] wf_nonempty [OF assms(1)] by blast+
  note c0 = retrieve_components_grows [OF assms(1) root(2)]
  note ci = retrieve_components_grows [OF assms(1,2)]
  show "grows t t'" and "r = Inr j \<Longrightarrow> j < length t'"
    using assms(3) root assms(1,2)
    by (auto simp: treePathRetrieveImplementation_def Let_def split: if_splits dest!: c0 ci)
qed

end

locale total_child_access = child_access +
  assumes total: "wf_tree t \<Longrightarrow> i < length t \<Longrightarrow> c \<noteq> [] \<Longrightarrow> \<exists>t' j. f t i c = (t', Inr j)"
begin

lemma retrieve_components_total:
  "wf_tree t \<Longrightarrow> i < length t \<Longrightarrow> retrieve_components f pp path t i cs = (t', Inl e) \<Longrightarrow>
     resolve_names (pp = GETPARENT_PERMIT) path (node_path t i) cs = Inl e"
proof (induction cs arbitrary: t i)
  case Nil
  then show ?case by simp
next
  case (Cons c cs)
  note wf = Cons.prems(1) and i = Cons.prems(2)
  consider "c = []" | "c = ''.''" | "c = ''..''" | "c \<noteq> []" "c \<noteq> ''.''" "c \<noteq> ''..''" by blast
  then show ?case
  proof cases
    case 3
    show ?thesis
    proof (cases "getParent t i")
      case None
      with 3 Cons.prems parent_node_path(1) [OF wf i] show ?thesis by (auto split: if_splits)
    next
      case (Some p)
      with 3 Cons.prems parent_node_path [OF wf i] Cons.IH [OF wf, of p] show ?thesis
        by (auto split: if_splits)
    qed
  next
    case 4
    then obtain u k where u: "f t i c = (u, Inr k)" using total [OF wf i] by blast
    note st = step [OF wf i 4(1) u]
    with u 4 Cons.prems(3) Cons.IH [of u k] show ?thesis by (auto simp: grows_def)
  qed (use Cons in auto)
qed

end

subsection \<open>Both functors provide the interface\<close>

lemma grows_added:
  assumes "wf_tree t" and "getOrCreateChildByName d t i c = Inr (t', j)" and "i < length t" and "c \<noteq> []"
  shows "grows t t' \<and> j < length t' \<and> node_path t' j = node_path t i @ [c]"
  using getOrCreate_spec [OF assms(1,3,4), of d] assms(2)
  by (auto simp: grows_def map_le_def)

interpretation get_or_create: total_child_access "GetOrCreateFunctor d"
proof
  fix t t' :: "'a tree" and i and c :: string and r
  assume wf: "wf_tree t" and i: "i < length t" and c: "c \<noteq> []"
  obtain u k where u: "getOrCreateChildByName d t i c = Inr (u, k)"
    using getOrCreate_spec [OF wf i c, of d] by blast
  then show "\<exists>t' j. GetOrCreateFunctor d t i c = (t', Inr j)"
    by (simp add: GetOrCreateFunctor_def)
  assume "GetOrCreateFunctor d t i c = (t', r)"
  with u grows_added [OF wf u i c]
  show "grows t t' \<and> (\<forall>j. r = Inr j \<longrightarrow> j < length t' \<and> node_path t' j = node_path t i @ [c])"
    by (auto simp: GetOrCreateFunctor_def)
qed

interpretation get_child: child_access "GetChildFunctor :: 'v child_functor"
proof
  fix t t' :: "'v tree" and i and c :: string and r
  assume wf: "wf_tree t" and i: "i < length t" and "GetChildFunctor t i c = (t', r)"
  then have t': "t' = t" and r: "r = getChildByName t i c" by (auto simp: GetChildFunctor_def)
  show "grows t t' \<and> (\<forall>j. r = Inr j \<longrightarrow> j < length t' \<and> node_path t' j = node_path t i @ [c])"
  proof (cases "m_getChildByName t i c")
    case None
    with wf t' r show ?thesis by (simp add: getChildByName_def)
  next
    case (Some j)
    with m_getChildByName_Some [OF wf i Some] wf t' r show ?thesis
      by (simp add: getChildByName_def node_path_child)
  qed
qed

subsection \<open>The get-or-create retrieval, seen through lookup\<close>

definition fill :: "'v \<Rightarrow> string list set \<Rightarrow> (string list \<rightharpoonup> 'v) \<Rightarrow> (string list \<rightharpoonup> 'v)" where
  "fill d S m = (\<lambda>ps. if ps \<in> S \<and> m ps = None then Some d else m ps)"

lemma fill_empty [simp]: "fill d {} m = m"
  by (simp add: fill_def fun_eq_iff)

lemma fill_fill: "fill d S (fill d T m) = fill d (S \<union> T) m"
  by (auto simp: fill_def fun_eq_iff)

lemma retrieve_components_lookup:
  "wf_tree t \<Longrightarrow> i < length t \<Longrightarrow>
     lookup (fst (retrieve_components (GetOrCreateFunctor d) pp path t i cs)) =
     fill d (touched_names (pp = GETPARENT_PERMIT) (node_path t i) cs) (lookup t)"
proof (induction cs arbitrary: t i)
  case Nil
  then show ?case by simp
next
  case (Cons c cs)
  note wf = Cons.prems(1) and i = Cons.prems(2)
  consider "c = []" | "c = ''.''" | "c = ''..''" | "c \<noteq> []" "c \<noteq> ''.''" "c \<noteq> ''..''" by blast
  then show ?case
  proof cases
    case 3
    show ?thesis
    proof (cases "getParent t i")
      case None
      with 3 parent_node_path(1) [OF wf i] show ?thesis by simp
    next
      case (Some p)
      with 3 parent_node_path [OF wf i] Cons.IH [OF wf, of p] show ?thesis
        by (cases "pp = GETPARENT_PERMIT") simp_all
    qed
  next
    case 4
    obtain u k where u: "getOrCreateChildByName d t i c = Inr (u, k)" "wf_tree u" "k < length u"
      "node_path u k = node_path t i @ [c]"
      "lookup u = (if lookup t (node_path t i @ [c]) = None
                 then (lookup t)(node_path t i @ [c] \<mapsto> d) else lookup t)"
      using getOrCreate_spec [OF wf i 4(1), of d] by blast
    then have "lookup u = fill d {node_path t i @ [c]} (lookup t)"
      by (auto simp: fill_def fun_eq_iff)
    moreover have "lookup (fst (retrieve_components (GetOrCreateFunctor d) pp path u k cs)) =
        fill d (touched_names (pp = GETPARENT_PERMIT) (node_path u k) cs) (lookup u)"
      by (rule Cons.IH) (use u in auto)
    moreover have "GetOrCreateFunctor d t i c = (u, Inr k)"
      using u(1) by (simp add: GetOrCreateFunctor_def)
    ultimately show ?thesis using 4 u(4) by (simp add: fill_fill)
  qed (use Cons in auto)
qed

lemma retrieve_getOrCreate:
  assumes "wf_tree t" and "i < length t"
    and "retrieve_components (GetOrCreateFunctor d) pp path t i cs = (t', r)"
  shows "grows t t'"
    and "lookup t' = fill d (touched_names (pp = GETPARENT_PERMIT) (node_path t i) cs) (lookup t)"
    and "case resolve_names (pp = GETPARENT_PERMIT) path (node_path t i) cs of
           Inl e \<Rightarrow> r = Inl e
         | Inr ps \<Rightarrow> \<exists>j. r = Inr j \<and> j < length t' \<and> node_path t' j = ps"
proof -
  show "grows t t'" using get_or_create.retrieve_components_grows [OF assms] by blast
  show "lookup t' = fill d (touched_names (pp = GETPARENT_PERMIT) (node_path t i) cs) (lookup t)"
    using retrieve_components_lookup [OF assms(1,2)] assms(3) by (metis fst_conv)
  show "case resolve_names (pp = GETPARENT_PERMIT) path (node_path t i) cs of
           Inl e \<Rightarrow> r = Inl e
         | Inr ps \<Rightarrow> \<exists>j. r = Inr j \<and> j < length t' \<and> node_path t' j = ps"
  proof (cases r)
    case (Inl e)
    with get_or_create.retrieve_components_total [OF assms(1,2)] assms(3) show ?thesis by fastforce
  next
    case (Inr j)
    with get_or_create.retrieve_components_grows [OF assms] show ?thesis by simp
  qed
qed

subsection \<open>Retrieval by absolute path\<close>

definition absolute_components :: "string \<Rightarrow> string list" where
  "absolute_components path =
     (if path = getPathSeparator then []
      else split_components (strip_trailing_separator (tl path)))"

lemma pathParseAndRetrieve_absolute:
  assumes "wf_tree t" and "path \<noteq> []" and "hd path = getPathSeparatorCharacter"
  shows "pathParseAndRetrieve d t 0 path =
      retrieve_components (GetOrCreateFunctor d) GETPARENT_DENY (strip_trailing_separator (tl path)) t 0
        (absolute_components path)"
    and "pathParseAndRetrieve_const t 0 path =
      snd (retrieve_components GetChildFunctor GETPARENT_DENY (strip_trailing_separator (tl path)) t 0
        (absolute_components path))"
  using assms getRootOf_wf [OF assms(1) wf_nonempty [OF assms(1)]]
  by (simp_all add: pathParseAndRetrieve_def pathParseAndRetrieve_const_def treePathRetrieve_def
      treePathRetrieve_const_def treePathRetrieveImplementation_def absolute_components_def Let_def)

lemma GetChild_fst: "fst (retrieve_components GetChildFunctor pp path t i cs) = t"
  by (induction cs arbitrary: i) (auto simp: GetChildFunctor_def split: option.splits sum.splits)

lemma lookup_prefix_closed:
  assumes "wf_tree t" and "lookup t (ps @ qs) \<noteq> None"
  shows "lookup t ps \<noteq> None"
  using assms(2) by (auto simp: lookup_def walk_append split: option.splits)

lemma resolve_names_base:
  "resolve_names False path base cs = Inr ps \<Longrightarrow> \<exists>qs. ps = base @ qs"
  by (induction cs arbitrary: base) (fastforce split: if_splits)+

lemma GetChild_complete:
  "wf_tree t \<Longrightarrow> i < length t \<Longrightarrow> j < length t \<Longrightarrow>
     resolve_names False path (node_path t i) cs = Inr (node_path t j) \<Longrightarrow>
     snd (retrieve_components GetChildFunctor GETPARENT_DENY path t i cs) = Inr j"
proof (induction cs arbitrary: i)
  case Nil
  then show ?case by (auto dest: node_path_inj)
next
  case (Cons c cs)
  note wf = Cons.prems(1) and i = Cons.prems(2)
  consider "c = ''.''" | "c \<noteq> []" "c \<noteq> ''.''" "c \<noteq> ''..''"
    using Cons.prems(4) by (auto split: if_splits)
  then show ?case
  proof cases
    case 1
    with Cons show ?thesis by simp
  next
    case 2
    with Cons.prems(4) have r: "resolve_names False path (node_path t i @ [c]) cs = Inr (node_path t j)"
      by simp
    then obtain qs where "node_path t j = (node_path t i @ [c]) @ qs"
      using resolve_names_base by blast
    then have "lookup t (node_path t i @ [c]) \<noteq> None"
      using lookup_prefix_closed [OF wf, of "node_path t i @ [c]" qs] lookup_node_path [OF wf Cons.prems(3)]
      by simp
    then obtain k where k: "m_getChildByName t i c = Some k"
      using lookup_child [OF wf i] by auto
    note kc = m_getChildByName_Some [OF wf i k]
    then have "node_path t k = node_path t i @ [c]" by (simp add: node_path_child)
    with r Cons.IH [OF wf kc(4) Cons.prems(3)] 2 k show ?thesis
      by (simp add: GetChildFunctor_def getChildByName_def)
  qed
qed

lemma retrieve_spec:
  assumes "wf_tree t" and "path \<noteq> []" and "hd path = getPathSeparatorCharacter"
    and "pathParseAndRetrieve d t 0 path = (t', r)"
  shows "wf_tree t' \<and> (\<forall>i<length t. node_path t' i = node_path t i) \<and>
    lookup t' = fill d (touched_names False [] (absolute_components path)) (lookup t) \<and>
    (case resolve_names False (strip_trailing_separator (tl path)) [] (absolute_components path) of
       Inl e \<Rightarrow> r = Inl e
     | Inr ps \<Rightarrow> \<exists>j. r = Inr j \<and> j < length t' \<and> node_path t' j = ps)"
  using retrieve_getOrCreate [OF assms(1) wf_nonempty [OF assms(1)], of d GETPARENT_DENY] assms
  by (simp add: pathParseAndRetrieve_absolute node_path_root grows_def)

text \<open>
  C1: retrieving an absolute path from the root. The result is the node the path denotes, or
  the exception the first bad component calls for; the tree afterwards is the tree before with
  the missing positions up to there filled with the default element, also when it throws; no
  existing node moves or loses its value, and the tree stays well-formed.
\<close>

theorem getNodeByPath_refines:
  assumes "wf_tree t" and "path \<noteq> []" and "hd path = getPathSeparatorCharacter"
    and "pathParseAndRetrieve d t 0 path = (t', r)"
  shows "wf_tree t' \<and> (\<forall>i<length t. node_path t' i = node_path t i) \<and>
    lookup t' = fill d (touched_names False [] (absolute_components path)) (lookup t) \<and>
    (case resolve_names False (strip_trailing_separator (tl path)) [] (absolute_components path) of
       Inl e \<Rightarrow> r = Inl e
     | Inr ps \<Rightarrow> \<exists>j. r = Inr j \<and> j < length t' \<and> node_path t' j = ps)"
  using retrieve_spec [OF assms] .

theorem getNodeByPath_refines_witness:
  "\<exists>t' r. pathParseAndRetrieve 0 (createRoot (7::nat)) 0 ''/a//b'' = (t', r) \<and>
     r = Inl (EmptyPathComponent ''a//b'') \<and> lookup t' = [[] \<mapsto> 7, [''a''] \<mapsto> 0]"
proof -
  obtain t' r where res: "pathParseAndRetrieve 0 (createRoot (7::nat)) 0 ''/a//b'' = (t', r)" by fastforce
  have "absolute_components ''/a//b'' = [''a'', [], ''b'']"
    by (simp add: absolute_components_def getPathSeparator_def strip_trailing_separator_def)
  with getNodeByPath_refines [OF wf_createRoot _ _ res] res show ?thesis
    by (auto simp: strip_trailing_separator_def lookup_createRoot fill_def fun_eq_iff)
qed

lemma retrieve_const_spec:
  assumes "wf_tree t" and "path \<noteq> []" and "hd path = getPathSeparatorCharacter"
  shows "pathParseAndRetrieve_const t 0 path = Inr j \<longleftrightarrow>
    j < length t \<and>
    resolve_names False (strip_trailing_separator (tl path)) [] (absolute_components path) =
      Inr (node_path t j)"
proof
  let ?p = "strip_trailing_separator (tl path)" and ?cs = "absolute_components path"
  note w0 = wf_nonempty [OF assms(1)] and eq = pathParseAndRetrieve_absolute(2) [OF assms]
  assume "pathParseAndRetrieve_const t 0 path = Inr j"
  then have "retrieve_components GetChildFunctor GETPARENT_DENY ?p t 0 ?cs = (t, Inr j)"
    using GetChild_fst [of GETPARENT_DENY ?p t 0 ?cs] eq by (metis prod.collapse)
  from get_child.retrieve_components_grows [OF assms(1) w0 this] assms(1)
  show "j < length t \<and> resolve_names False ?p [] ?cs = Inr (node_path t j)"
    by (simp add: node_path_root)
next
  assume "j < length t \<and> resolve_names False (strip_trailing_separator (tl path)) []
      (absolute_components path) = Inr (node_path t j)"
  with GetChild_complete [OF assms(1) wf_nonempty [OF assms(1)]] assms(1)
  show "pathParseAndRetrieve_const t 0 path = Inr j"
    by (simp add: pathParseAndRetrieve_absolute(2) [OF assms] node_path_root)
qed

text \<open>
  The const retrieval changes nothing and finds a node exactly when the path denotes an
  existing position: then it returns that node.
\<close>

lemma getNodeByPath_const_iff:
  assumes "wf_tree t" and "path \<noteq> []" and "hd path = getPathSeparatorCharacter"
  shows "pathParseAndRetrieve_const t 0 path = Inr j \<longleftrightarrow>
    j < length t \<and>
    resolve_names False (strip_trailing_separator (tl path)) [] (absolute_components path) =
      Inr (node_path t j)"
  using retrieve_const_spec [OF assms] .

lemma getNodeByPath_const_iff_witness:
  "pathParseAndRetrieve_const (fst (pathParseAndRetrieve (0::nat) (createRoot 7) 0 ''/a/./b'')) 0 ''/a/b/'' = Inr 2"
proof -
  let ?t = "fst (pathParseAndRetrieve (0::nat) (createRoot 7) 0 ''/a/./b'')"
  have "wf_tree ?t"
    using get_or_create.retrieve_components_grows [of "createRoot 7" 0]
    by (metis fst_conv retrieve_spec getPathSeparatorCharacter_eq list.discI list.sel(1)
        surj_pair wf_createRoot)
  moreover have "2 < length ?t \<and> resolve_names False (strip_trailing_separator (tl ''/a/b/'')) []
      (absolute_components ''/a/b/'') = Inr (node_path ?t 2)"
    by code_simp
  ultimately show ?thesis by (subst getNodeByPath_const_iff) simp_all
qed

lemma GetOrCreate_existing:
  "snd (retrieve_components GetChildFunctor pp path t i cs) = Inr j \<Longrightarrow>
     retrieve_components (GetOrCreateFunctor d) pp path t i cs = (t, Inr j)"
proof (induction cs arbitrary: i)
  case Nil
  then show ?case by simp
next
  case (Cons c cs)
  show ?case
  proof (cases "m_getChildByName t i c")
    case None
    then have "GetChildFunctor t i c = (t, Inl (NoSuchChild c))"
      by (simp add: GetChildFunctor_def getChildByName_def)
    with Cons show ?thesis by (cases pp) (simp_all split: if_splits option.splits)
  next
    case (Some k)
    then have "GetChildFunctor t i c = (t, Inr k)" "GetOrCreateFunctor d t i c = (t, Inr k)"
      by (simp_all add: GetChildFunctor_def getChildByName_def GetOrCreateFunctor_def
          getOrCreateChildByName_def)
    with Cons show ?thesis by (cases pp) (simp_all split: if_splits option.splits)
  qed
qed

lemma retrieve_again:
  assumes "wf_tree t" and "path \<noteq> []" and "hd path = getPathSeparatorCharacter"
    and "pathParseAndRetrieve d t 0 path = (t', Inr j)"
  shows "pathParseAndRetrieve_const t' 0 path = Inr j \<and>
    pathParseAndRetrieve d' t' 0 path = (t', Inr j)"
proof -
  from retrieve_spec [OF assms] have t': "wf_tree t'" "j < length t'"
    "resolve_names False (strip_trailing_separator (tl path)) [] (absolute_components path) =
      Inr (node_path t' j)"
    by (auto split: sum.splits)
  then have c: "pathParseAndRetrieve_const t' 0 path = Inr j"
    by (subst retrieve_const_spec) (use assms in simp_all)
  moreover from c have "pathParseAndRetrieve d' t' 0 path = (t', Inr j)"
    using pathParseAndRetrieve_absolute [OF t'(1) assms(2,3)] by (simp add: GetOrCreate_existing)
  ultimately show ?thesis ..
qed

text \<open>
  Get-or-create agrees with the const retrieval wherever that succeeds, and then leaves
  the tree alone; in particular retrieving a path a second time is a pure lookup.
\<close>

lemma getNodeByPath_idempotent:
  assumes "wf_tree t" and "path \<noteq> []" and "hd path = getPathSeparatorCharacter"
    and "pathParseAndRetrieve d t 0 path = (t', Inr j)"
  shows "pathParseAndRetrieve_const t' 0 path = Inr j \<and>
    pathParseAndRetrieve d' t' 0 path = (t', Inr j)"
  using retrieve_again [OF assms] .

lemma getNodeByPath_idempotent_witness:
  "\<exists>t'. pathParseAndRetrieve (0::nat) (createRoot 7) 0 ''/a/b'' = (t', Inr 2) \<and>
     pathParseAndRetrieve_const t' 0 ''/a/b'' = Inr 2 \<and>
     pathParseAndRetrieve 5 t' 0 ''/a/b'' = (t', Inr 2)"
proof -
  have "snd (pathParseAndRetrieve (0::nat) (createRoot 7) 0 ''/a/b'') = Inr 2" by code_simp
  then obtain t' where t': "pathParseAndRetrieve (0::nat) (createRoot 7) 0 ''/a/b'' = (t', Inr 2)"
    by (metis prod.collapse)
  with getNodeByPath_idempotent [OF wf_createRoot _ _ t', of 5] show ?thesis by auto
qed

subsection \<open>Printed paths lead back to their node\<close>

definition plain_name :: "string \<Rightarrow> bool" where
  "plain_name c \<longleftrightarrow> c \<noteq> [] \<and> c \<noteq> ''.'' \<and> c \<noteq> ''..'' \<and> CHR ''/'' \<notin> set c"

lemma resolve_plain:
  "(\<And>c. c \<in> set cs \<Longrightarrow> plain_name c) \<Longrightarrow> resolve_names permit path base cs = Inr (base @ cs)"
  by (induction cs arbitrary: base) (auto simp: plain_name_def)

lemma concat_sep_join:
  "ns \<noteq> [] \<Longrightarrow> concat (map ((@) getPathSeparator) ns) = CHR ''/'' # join_components ns"
proof (induction ns)
  case Nil
  then show ?case by simp
next
  case (Cons n ns)
  then show ?case by (cases ns) (simp_all add: getPathSeparator_def)
qed

lemma join_last:
  assumes "ns \<noteq> []" and "\<And>c. c \<in> set ns \<Longrightarrow> plain_name c"
  shows "join_components ns \<noteq> [] \<and> last (join_components ns) \<noteq> CHR ''/''"
  using assms
proof (induction ns)
  case Nil
  then show ?case by simp
next
  case (Cons n ns)
  then show ?case
    by (cases ns) (auto simp: plain_name_def getPathSeparator_def dest: last_in_set)
qed

lemma absolute_components_printed:
  assumes "ns \<noteq> []" and "\<And>c. c \<in> set ns \<Longrightarrow> plain_name c"
  shows "absolute_components (CHR ''/'' # join_components ns) = ns"
proof -
  have "ns = split_components (join_components ns)"
    using assms by (intro split_components_unique) (auto simp: plain_name_def)
  with join_last [OF assms] show ?thesis
    by (simp add: absolute_components_def getPathSeparator_def strip_trailing_separator_def)
qed

lemma getFullPath_eq:
  assumes "wf_tree t" and "i < length t"
  shows "getFullPath t i = CHR ''/'' # join_components (node_path t i)"
proof (cases "i = 0")
  case True
  with assms show ?thesis
    by (simp add: getFullPath_def getTreeNodeFullPath_eq node_path_root getPathSeparator_def)
next
  case False
  with assms have "node_path t i \<noteq> []"
    by (metis node_path_inj node_path_root wf_nonempty)
  with False assms show ?thesis
    by (simp add: getFullPath_def getTreeNodeFullPath_eq concat_sep_join)
qed

lemma retrieve_printed:
  assumes "wf_tree t" and "i < length t" and "\<forall>c\<in>set (node_path t i). plain_name c"
  shows "pathParseAndRetrieve d t 0 (getFullPath t i) = (t, Inr i) \<and>
    pathParseAndRetrieve_const t 0 (getFullPath t i) = Inr i"
proof (cases "node_path t i = []")
  case True
  with assms have "i = 0" by (metis node_path_inj node_path_root wf_nonempty)
  with True getFullPath_eq [OF assms(1,2)] show ?thesis
    by (simp add: pathParseAndRetrieve_def pathParseAndRetrieve_const_def getPathSeparator_def)
next
  case False
  let ?path = "CHR ''/'' # join_components (node_path t i)"
  have cs: "absolute_components ?path = node_path t i"
    by (rule absolute_components_printed) (use False assms(3) in auto)
  have "pathParseAndRetrieve_const t 0 ?path = Inr i"
    by (subst retrieve_const_spec) (use assms cs resolve_plain in auto)
  then show ?thesis
    using getFullPath_eq [OF assms(1,2)] pathParseAndRetrieve_absolute [OF assms(1), of ?path]
    by (simp add: GetOrCreate_existing)
qed

text \<open>
  The full path printed for a node, given to the retrieval, leads back to that node
  without changing the tree, when no name on the way contains a separator or is a dot
  component (all nodes made through path retrieval are of that kind).
\<close>

lemma getFullPath_roundtrip:
  assumes "wf_tree t" and "i < length t" and "\<forall>c\<in>set (node_path t i). plain_name c"
  shows "pathParseAndRetrieve d t 0 (getFullPath t i) = (t, Inr i) \<and>
    pathParseAndRetrieve_const t 0 (getFullPath t i) = Inr i"
  using retrieve_printed [OF assms] .

lemma getFullPath_roundtrip_witness:
  "\<exists>t. getFullPath t 2 = ''/a/b'' \<and> pathParseAndRetrieve (0::nat) t 0 ''/a/b'' = (t, Inr 2)"
proof -
  obtain t r where t: "pathParseAndRetrieve (0::nat) (createRoot 7) 0 ''/a/b'' = (t, r)" by fastforce
  have "t = fst (pathParseAndRetrieve (0::nat) (createRoot 7) 0 ''/a/b'')" using t by simp
  also have "\<dots> = [\<lparr>m_value = 7, m_children = [1], m_name = [], m_parent = None\<rparr>,
      \<lparr>m_value = 0, m_children = [2], m_name = ''a'', m_parent = Some 0\<rparr>,
      \<lparr>m_value = 0, m_children = [], m_name = ''b'', m_parent = Some 1\<rparr>]"
    by code_simp
  finally have te: "t = \<dots>" .
  have "getFullPath t 2 = ''/a/b'' \<and> 2 < length t \<and> node_path t 2 = [''a'', ''b'']"
    unfolding te by code_simp
  moreover have "wf_tree t" using retrieve_spec [OF wf_createRoot _ _ t] by simp
  ultimately show ?thesis
    using getFullPath_roundtrip [of t 2 0] by (auto simp: plain_name_def intro!: exI [of _ t])
qed

end
