(* ===== verification/Json_Value.thy ===== *)
theory Json_Value
  imports Osvr_Prelude "HOL-Library.Char_ord" "HOL-Library.List_Lexorder"
begin

text \<open>
  The JSON values the path tree, the routes and the device descriptors are made of: the
  \<^verbatim>\<open>Json::Value\<close> of the jsoncpp bundled under \<^verbatim>\<open>vendor/vrpn/submodules/jsoncpp\<close>, with the
  accessors the modelled code calls. jsoncpp is built with exceptions, so an accessor whose
  assertion fails throws \<^verbatim>\<open>std::runtime_error\<close>.

  The text side of jsoncpp (reader, the two writers, the text of a double) is not modelled: it
  is the parameter \<open>json_lib\<close> of the definitions that use it. Strings are C strings without
  NUL characters.
\<close>

subsection \<open>Values\<close>

text \<open>
  The constructors are the value types of \<^verbatim>\<open>Json::ValueType\<close>. An object is a
  \<^verbatim>\<open>std::map\<close> ordered by key: the list of its members in that order, without duplicates. A
  double is represented by its exact value.
\<close>

datatype json =
    JNull
  | JInt int
  | JUInt int
  | JReal rat
  | JString string
  | JBool bool
  | JArray "json list"
  | JObject "(string \<times> json) list"

type_synonym members = "(string \<times> json) list"

fun obj_put :: "string \<Rightarrow> json \<Rightarrow> members \<Rightarrow> members" where
  "obj_put k v [] = [(k, v)]"
| "obj_put k v ((k', v') # ms) =
     (if k = k' then (k, v) # ms
      else if k < k' then (k, v) # (k', v') # ms
      else (k', v') # obj_put k v ms)"

definition obj_remove :: "string \<Rightarrow> members \<Rightarrow> members" where
  "obj_remove k ms = filter (\<lambda>(k', v). k' \<noteq> k) ms"

definition wf_members :: "members \<Rightarrow> bool" where
  "wf_members ms \<longleftrightarrow> sorted_wrt (<) (map fst ms)"

lemma map_of_obj_put [simp]: "map_of (obj_put k v ms) = (map_of ms)(k \<mapsto> v)"
  by (induction k v ms rule: obj_put.induct) (auto simp: fun_eq_iff)

lemma fst_obj_put: "fst ` set (obj_put k v ms) = insert k (fst ` set ms)"
  by (induction k v ms rule: obj_put.induct) auto

lemma wf_members_put [wf_intros]: "wf_members ms \<Longrightarrow> wf_members (obj_put k v ms)"
proof (induction k v ms rule: obj_put.induct)
  case (2 k v k' v' ms)
  have "fst ` set (obj_put k v ms) = insert k (fst ` set ms)" by (rule fst_obj_put)
  with 2 show ?case by (auto simp: wf_members_def)
qed (simp add: wf_members_def)

lemma map_of_obj_remove [simp]: "map_of (obj_remove k ms) = (map_of ms)(k := None)"
  by (induction ms) (auto simp: obj_remove_def fun_eq_iff)

lemma wf_members_remove [wf_intros]: "wf_members ms \<Longrightarrow> wf_members (obj_remove k ms)"
  by (induction ms) (auto simp: wf_members_def obj_remove_def)

lemma wf_members_distinct: "wf_members ms \<Longrightarrow> distinct (map fst ms)"
  by (induction ms) (auto simp: wf_members_def)

text \<open>Two objects with the same members are the same object: equality is structural.\<close>

lemma wf_members_eqI:
  assumes "wf_members ms" and "wf_members ns" and "map_of ms = map_of ns"
  shows "ms = ns"
  using assms
proof (induction ms arbitrary: ns)
  case Nil
  then show ?case by (cases ns) (auto simp: fun_eq_iff split: if_splits)
next
  case (Cons m ms)
  obtain k v where m: "m = (k, v)" by fastforce
  show ?case
  proof (cases ns)
    case Nil
    with Cons.prems m show ?thesis by (auto simp: fun_eq_iff split: if_splits)
  next
    case (Cons n ns')
    obtain k' v' where n: "n = (k', v')" by fastforce
    have dom: "fst ` set (m # ms) = fst ` set ns"
      using Cons.prems(3) by (metis dom_map_of_conv_image_fst)
    have "k = k'"
      using Cons.prems(1,2) dom unfolding m n \<open>ns = n # ns'\<close> wf_members_def
      by simp (metis (no_types, lifting) image_iff insert_iff order_less_asym' fst_conv)
    moreover from this have "v = v'"
      using Cons.prems(3) by (simp add: m n \<open>ns = n # ns'\<close> fun_eq_iff) (metis option.inject)
    moreover have "map_of ms = map_of ns'"
    proof
      fix x
      have "k \<notin> fst ` set ms" "k' \<notin> fst ` set ns'"
        using Cons.prems(1,2) by (auto simp: wf_members_def m n \<open>ns = n # ns'\<close>)
      then show "map_of ms x = map_of ns' x"
        using Cons.prems(3) \<open>k = k'\<close> \<open>v = v'\<close>
        by (simp add: m n \<open>ns = n # ns'\<close> fun_eq_iff) (metis map_of_eq_None_iff)
    qed
    moreover have "wf_members ms" "wf_members ns'"
      using Cons.prems(1,2) by (auto simp: wf_members_def m n \<open>ns = n # ns'\<close>)
    ultimately show ?thesis using Cons.IH [of ns'] by (simp add: m n \<open>ns = n # ns'\<close>)
  qed
qed

subsection \<open>The text side of the library\<close>

record json_lib =
  lib_parse :: "string \<Rightarrow> json option"
  lib_fast :: "json \<Rightarrow> string"
  lib_styled :: "json \<Rightarrow> string"
  lib_real :: "rat \<Rightarrow> string"

subsection \<open>Accessors\<close>

definition isNull_json :: "json \<Rightarrow> bool" where
  "isNull_json v \<longleftrightarrow> v = JNull"

fun isObject :: "json \<Rightarrow> bool" where
  "isObject (JObject ms) = True"
| "isObject _ = False"

fun isString :: "json \<Rightarrow> bool" where
  "isString (JString s) = True"
| "isString _ = False"

fun isArray :: "json \<Rightarrow> bool" where
  "isArray (JArray xs) = True"
| "isArray _ = False"

text \<open>The const subscript: an absent member of an object, and every member of null, is null.\<close>

fun json_at :: "json \<Rightarrow> string \<Rightarrow> (exn, json) result" where
  "json_at JNull k = Inr JNull"
| "json_at (JObject ms) k = Inr (case map_of ms k of None \<Rightarrow> JNull | Some v \<Rightarrow> v)"
| "json_at _ k = Inl (RuntimeError ''operator[]: requires objectValue'')"

fun isMember :: "json \<Rightarrow> string \<Rightarrow> (exn, bool) result" where
  "isMember JNull k = Inr False"
| "isMember (JObject ms) k = Inr (map_of ms k \<noteq> None)"
| "isMember _ k = Inl (RuntimeError ''operator[]: requires objectValue'')"

fun json_get :: "json \<Rightarrow> string \<Rightarrow> json \<Rightarrow> (exn, json) result" where
  "json_get JNull k d = Inr d"
| "json_get (JObject ms) k d = Inr (case map_of ms k of None \<Rightarrow> d | Some v \<Rightarrow> v)"
| "json_get _ k d = Inl (RuntimeError ''operator[]: requires objectValue'')"

text \<open>Assignment through the non-const subscript turns null into an object.\<close>

fun json_set :: "json \<Rightarrow> string \<Rightarrow> json \<Rightarrow> (exn, json) result" where
  "json_set JNull k v = Inr (JObject [(k, v)])"
| "json_set (JObject ms) k v = Inr (JObject (obj_put k v ms))"
| "json_set _ k v = Inl (RuntimeError ''resolveReference(): requires objectValue'')"

fun removeMember :: "json \<Rightarrow> string \<Rightarrow> (exn, json) result" where
  "removeMember JNull k = Inr JNull"
| "removeMember (JObject ms) k = Inr (JObject (obj_remove k ms))"
| "removeMember _ k = Inl (RuntimeError ''removeMember(): requires objectValue'')"

fun getMemberNames :: "json \<Rightarrow> (exn, string list) result" where
  "getMemberNames JNull = Inr []"
| "getMemberNames (JObject ms) = Inr (map fst ms)"
| "getMemberNames _ = Inl (RuntimeError ''getMemberNames(), value must be objectValue'')"

fun json_size :: "json \<Rightarrow> nat" where
  "json_size (JArray xs) = length xs"
| "json_size (JObject ms) = length ms"
| "json_size _ = 0"

text \<open>Iterating over a value: the elements of an array, the members of an object, else nothing.\<close>

fun json_elements :: "json \<Rightarrow> json list" where
  "json_elements (JArray xs) = xs"
| "json_elements (JObject ms) = map snd ms"
| "json_elements _ = []"

fun decimal_text :: "nat \<Rightarrow> string" where
  "decimal_text n =
     (if n < 10 then [char_of (48 + n)] else decimal_text (n div 10) @ [char_of (48 + n mod 10)])"

declare decimal_text.simps [simp del]

definition int_text :: "int \<Rightarrow> string" where
  "int_text i = (if i < 0 then CHR ''-'' # decimal_text (nat (- i)) else decimal_text (nat i))"

fun asString :: "json_lib \<Rightarrow> json \<Rightarrow> (exn, string) result" where
  "asString L JNull = Inr []"
| "asString L (JString s) = Inr s"
| "asString L (JBool b) = Inr (if b then ''true'' else ''false'')"
| "asString L (JInt i) = Inr (int_text i)"
| "asString L (JUInt i) = Inr (int_text i)"
| "asString L (JReal x) = Inr (lib_real L x)"
| "asString L _ = Inl (RuntimeError ''Type is not convertible to string'')"

definition in_int_range :: "int \<Rightarrow> bool" where
  "in_int_range i \<longleftrightarrow> - (2 ^ 31) \<le> i \<and> i < 2 ^ 31"

text \<open>The conversion of a double to \<^verbatim>\<open>int\<close> drops the fraction.\<close>

definition truncate_rat :: "rat \<Rightarrow> int" where
  "truncate_rat x = (if x < 0 then - \<lfloor>- x\<rfloor> else \<lfloor>x\<rfloor>)"

fun asInt :: "json \<Rightarrow> (exn, int) result" where
  "asInt JNull = Inr 0"
| "asInt (JInt i) = (if in_int_range i then Inr i else Inl (RuntimeError ''LargestInt out of Int range''))"
| "asInt (JUInt i) = (if in_int_range i then Inr i else Inl (RuntimeError ''LargestUInt out of Int range''))"
| "asInt (JReal x) = (if - (2 ^ 31) \<le> x \<and> x \<le> 2 ^ 31 - 1 then Inr (truncate_rat x)
                      else Inl (RuntimeError ''double out of Int range''))"
| "asInt (JBool b) = Inr (if b then 1 else 0)"
| "asInt _ = Inl (RuntimeError ''Value is not convertible to Int.'')"

fun asBool :: "json \<Rightarrow> (exn, bool) result" where
  "asBool JNull = Inr False"
| "asBool (JInt i) = Inr (i \<noteq> 0)"
| "asBool (JUInt i) = Inr (i \<noteq> 0)"
| "asBool (JReal x) = Inr (x \<noteq> 0)"
| "asBool (JBool b) = Inr b"
| "asBool _ = Inl (RuntimeError ''Value is not convertible to bool.'')"

lemma json_at_member:
  "isMember v k = Inr b \<Longrightarrow> \<exists>x. json_at v k = Inr x \<and> (\<not> b \<longrightarrow> x = JNull)"
  by (cases v) (auto split: option.splits)

lemma isMember_isObject: "isObject v \<Longrightarrow> \<exists>ms. v = JObject ms"
  by (cases v) simp_all

text \<open>A value at which every write succeeds: a member can be set in null and in an object.\<close>

lemma json_set_total: "isObject v \<or> v = JNull \<Longrightarrow> \<exists>ms. json_set v k x = Inr (JObject ms) \<and> map_of ms k = Some x"
  by (cases v) simp_all

subsection \<open>The chain of child members\<close>

text \<open>
  The loops \<^verbatim>\<open>while (current->isObject() && current->isMember("child"))\<close> of
  \<^verbatim>\<open>ParsedAlias::m_leaf\<close>, \<^verbatim>\<open>GeneralizedTransform::nest\<close> and \<^verbatim>\<open>JSONTransformVisitor\<close>
  descend along this chain, which ends because a value is finite.
\<close>

fun child_of :: "json \<Rightarrow> json option" where
  "child_of (JObject ms) = map_of ms ''child''"
| "child_of _ = None"

lemma member_smaller: "map_of ms k = Some v \<Longrightarrow> size v < Suc (size_list (size_prod (\<lambda>x. 0) size) ms)"
  by (induction ms) (auto split: if_splits)

lemma child_smaller: "child_of v = Some c \<Longrightarrow> size c < size v"
  by (cases v) (auto dest: member_smaller)

function leaf_of :: "json \<Rightarrow> json" where
  "leaf_of v = (case child_of v of None \<Rightarrow> v | Some c \<Rightarrow> leaf_of c)"
  by pat_completeness auto
termination
  by (relation "measure size") (auto dest: child_smaller)

function set_leaf :: "json \<Rightarrow> json \<Rightarrow> json" where
  "set_leaf v x =
     (case v of
        JObject ms \<Rightarrow>
          (case child_of v of None \<Rightarrow> x | Some c \<Rightarrow> JObject (obj_put ''child'' (set_leaf c x) ms))
      | _ \<Rightarrow> x)"
  by pat_completeness auto
termination
  by (relation "measure (\<lambda>(v, x). size v)") (auto intro: member_smaller)

declare leaf_of.simps [simp del] set_leaf.simps [simp del]

lemma leaf_of_no_child: "child_of (leaf_of v) = None"
  by (induction v rule: leaf_of.induct) (subst leaf_of.simps, auto split: option.splits)

lemma child_of_set_leaf:
  "child_of v = Some c \<Longrightarrow> child_of (set_leaf v x) = Some (set_leaf c x)"
  by (subst set_leaf.simps, cases v) simp_all

lemma set_leaf_no_child: "child_of v = None \<Longrightarrow> set_leaf v x = x"
  by (subst set_leaf.simps, cases v) simp_all

lemma leaf_of_set_leaf: "child_of x = None \<Longrightarrow> leaf_of (set_leaf v x) = x"
proof (induction v x rule: set_leaf.induct)
  case (1 v x)
  show ?case
  proof (cases "child_of v")
    case None
    with 1 show ?thesis by (simp add: set_leaf_no_child leaf_of.simps [of x])
  next
    case (Some c)
    moreover from this obtain ms where "v = JObject ms" by (cases v) simp_all
    ultimately have "leaf_of (set_leaf c x) = x" using 1 by blast
    with Some show ?thesis by (simp add: leaf_of.simps [of "set_leaf v x"] child_of_set_leaf)
  qed
qed

subsection \<open>Comparison of text without regard to case\<close>

text \<open>
  \<^verbatim>\<open>boost::iequals\<close> and \<^verbatim>\<open>ireplace_first_copy\<close> fold case with the locale's \<^verbatim>\<open>toupper\<close>,
  which in the C locale concerns the ASCII letters.
\<close>

definition ascii_upper :: "char \<Rightarrow> char" where
  "ascii_upper c =
     (let n = of_char c :: nat in if 97 \<le> n \<and> n \<le> 122 then char_of (n - 32) else c)"

definition iequals :: "string \<Rightarrow> string \<Rightarrow> bool" where
  "iequals a b \<longleftrightarrow> map ascii_upper a = map ascii_upper b"

lemma iequals_refl [simp]: "iequals a a"
  by (simp add: iequals_def)

text \<open>Where a text first occurs, by a comparison of characters.\<close>

fun find_text :: "(char \<Rightarrow> char \<Rightarrow> bool) \<Rightarrow> string \<Rightarrow> string \<Rightarrow> nat option" where
  "find_text eq pat [] = (if pat = [] then Some 0 else None)"
| "find_text eq pat (c # cs) =
     (if length pat \<le> length (c # cs) \<and> list_all2 eq pat (take (length pat) (c # cs)) then Some 0
      else map_option Suc (find_text eq pat cs))"

definition ireplace_first :: "string \<Rightarrow> string \<Rightarrow> string \<Rightarrow> string" where
  "ireplace_first s pat new =
     (case find_text (\<lambda>a b. ascii_upper a = ascii_upper b) pat s of
        None \<Rightarrow> s
      | Some i \<Rightarrow> take i s @ new @ drop (i + length pat) s)"

end
