(* ===== verification/Path_Elements.thy ===== *)
theory Path_Elements
  imports Path_Retrieve Json_Value
begin

text \<open>
  The values of the path tree's nodes (\<^verbatim>\<open>inc/osvr/Common/PathElementTypes.h\<close>,
  \<^verbatim>\<open>PathElementTools\<close>), the \<^verbatim>\<open>PathTree\<close> that holds them, and its serialization to JSON
  (\<^verbatim>\<open>src/osvr/Common/PathElementSerialization.h\<close>, \<^verbatim>\<open>PathTreeSerialization.cpp\<close>), by which
  a server sends its tree to the clients and \<^verbatim>\<open>clonePathTree\<close> copies one.
\<close>

subsection \<open>Elements\<close>

type_synonym AliasPriority = u8

definition ALIASPRIORITY_MINIMUM :: AliasPriority where "ALIASPRIORITY_MINIMUM = 0"
definition ALIASPRIORITY_AUTOMATIC :: AliasPriority where "ALIASPRIORITY_AUTOMATIC = 127"
definition ALIASPRIORITY_SEMANTICROUTE :: AliasPriority where "ALIASPRIORITY_SEMANTICROUTE = 128"
definition ALIASPRIORITY_MANUAL :: AliasPriority where "ALIASPRIORITY_MANUAL = 255"

lemmas alias_priorities =
  ALIASPRIORITY_MINIMUM_def ALIASPRIORITY_AUTOMATIC_def ALIASPRIORITY_SEMANTICROUTE_def
  ALIASPRIORITY_MANUAL_def

text \<open>The alternatives of the variant, in the order of its type list.\<close>

datatype PathElement =
    NullElement
  | AliasElement (getSource: string) (alias_priority: AliasPriority)
  | SensorElement
  | InterfaceElement
  | DeviceElement (getDeviceName: string) (getServer: string) (getDescriptor: json)
  | PluginElement
  | StringElement (getString: string)

definition createVRPNDeviceElement :: "string \<Rightarrow> string \<Rightarrow> PathElement" where
  "createVRPNDeviceElement deviceName server = DeviceElement deviceName server JNull"

definition getFullDeviceName :: "PathElement \<Rightarrow> string" where
  "getFullDeviceName e = getDeviceName e @ ''@'' @ getServer e"

fun getTypeName :: "PathElement \<Rightarrow> string" where
  "getTypeName NullElement = ''NullElement''"
| "getTypeName (AliasElement s p) = ''AliasElement''"
| "getTypeName SensorElement = ''SensorElement''"
| "getTypeName InterfaceElement = ''InterfaceElement''"
| "getTypeName (DeviceElement n s d) = ''DeviceElement''"
| "getTypeName PluginElement = ''PluginElement''"
| "getTypeName (StringElement s) = ''StringElement''"

definition isNull :: "PathElement \<Rightarrow> bool" where
  "isNull e \<longleftrightarrow> e = NullElement"

definition ifNullReplaceWith :: "PathElement \<Rightarrow> PathElement \<Rightarrow> PathElement" where
  "ifNullReplaceWith dest src = (case dest of NullElement \<Rightarrow> src | _ \<Rightarrow> dest)"

text \<open>A default-constructed value of each alternative, the types \<^verbatim>\<open>for_each\<close> iterates over.\<close>

definition element_types :: "PathElement list" where
  "element_types =
     [NullElement, AliasElement [] ALIASPRIORITY_MINIMUM, SensorElement, InterfaceElement,
      DeviceElement [] [] JNull, PluginElement, StringElement []]"

definition getMaxTypeNameLength :: nat where
  "getMaxTypeNameLength = fold (\<lambda>e m. max m (length (getTypeName e))) element_types 0"

text \<open>
  What \<^verbatim>\<open>operator<<\<close> prints for a priority. For every value without a name of its own the
  code prints the number of \<open>ALIASPRIORITY_MANUAL\<close> in place of the priority's.
\<close>

definition outputPriority :: "AliasPriority \<Rightarrow> string" where
  "outputPriority p =
     (if p = ALIASPRIORITY_MINIMUM then ''Minimum ('' @ decimal_text 0 @ '')''
      else if p = ALIASPRIORITY_AUTOMATIC then ''Automatic ('' @ decimal_text 127 @ '')''
      else if p = ALIASPRIORITY_SEMANTICROUTE then ''Semantic Route ('' @ decimal_text 128 @ '')''
      else if p = ALIASPRIORITY_MANUAL then ''Manual/Max ('' @ decimal_text 255 @ '')''
      else decimal_text (unat ALIASPRIORITY_MANUAL))"

subsection \<open>The tree\<close>

type_synonym PathTree = "PathElement tree"

definition PathTree_create :: PathTree where
  "PathTree_create = createRoot NullElement"

text \<open>\<^verbatim>\<open>reset\<close> replaces the whole tree by a new root.\<close>

definition PathTree_reset :: "PathTree \<Rightarrow> PathTree" where
  "PathTree_reset t = createRoot NullElement"

text \<open>The three overloads of \<^verbatim>\<open>PathTree::getNodeByPath\<close>; a new node holds a null element.\<close>

definition getNodeByPath :: "PathTree \<Rightarrow> string \<Rightarrow> PathTree \<times> (exn, nat) result" where
  "getNodeByPath t path = pathParseAndRetrieve NullElement t 0 path"

definition getNodeByPath_const :: "PathTree \<Rightarrow> string \<Rightarrow> (exn, nat) result" where
  "getNodeByPath_const t path = pathParseAndRetrieve_const t 0 path"

definition getNodeByPath_default ::
    "PathTree \<Rightarrow> string \<Rightarrow> PathElement \<Rightarrow> PathTree \<times> (exn, nat) result" where
  "getNodeByPath_default t path finalComponentDefault =
     (case pathParseAndRetrieve NullElement t 0 path of
        (t', Inl e) \<Rightarrow> (t', Inl e)
      | (t', Inr i) \<Rightarrow>
          (set_value t' i (ifNullReplaceWith (value_of t' i) finalComponentDefault), Inr i))"

definition isPathAbsolute :: "string \<Rightarrow> bool" where
  "isPathAbsolute source \<longleftrightarrow> source \<noteq> [] \<and> hd source = getPathSeparatorCharacter"

text \<open>
  The content of a tree: what it holds apart from null elements, which only mark positions
  that exist.
\<close>

definition content :: "PathTree \<Rightarrow> (string list \<rightharpoonup> PathElement)" where
  "content t ps =
     (case lookup t ps of None \<Rightarrow> None | Some e \<Rightarrow> if isNull e then None else Some e)"

lemma content_fill:
  "lookup t' = fill NullElement S (lookup t) \<Longrightarrow> content t' = content t"
  by (auto simp: content_def fill_def isNull_def fun_eq_iff split: option.splits)

lemma content_set_value:
  assumes "wf_tree t" and "i < length t"
  shows "content (set_value t i e) =
    (content t)(node_path t i := if isNull e then None else Some e)"
  using lookup_set_value [OF assms, of e] by (auto simp: content_def fun_eq_iff)

lemma content_node:
  "wf_tree t \<Longrightarrow> i < length t \<Longrightarrow>
    content t (node_path t i) = (if isNull (value_of t i) then None else Some (value_of t i))"
  by (simp add: content_def lookup_node_path)

lemma content_create [simp]: "content PathTree_create = Map.empty"
  by (auto simp: content_def PathTree_create_def lookup_createRoot isNull_def fun_eq_iff)

lemma wf_PathTree_create [simp]: "wf_tree PathTree_create"
  by (simp add: PathTree_create_def)

subsection \<open>Elements to and from JSON\<close>

text \<open>The members \<^verbatim>\<open>serializationDescription\<close> names for each alternative.\<close>

fun pathElementToJson :: "PathElement \<Rightarrow> members" where
  "pathElementToJson (DeviceElement n s d) =
     obj_put ''descriptor'' d (obj_put ''server'' (JString s) (obj_put ''device_name'' (JString n) []))"
| "pathElementToJson (AliasElement s p) =
     obj_put ''priority'' (JInt (uint p)) (obj_put ''source'' (JString s) [])"
| "pathElementToJson (StringElement s) = obj_put ''string'' (JString s) []"
| "pathElementToJson NullElement = []"
| "pathElementToJson PluginElement = []"
| "pathElementToJson InterfaceElement = []"
| "pathElementToJson SensorElement = []"

definition m_requireName :: "json \<Rightarrow> string \<Rightarrow> (exn, unit) result" where
  "m_requireName val name =
     result_bind (isMember val name) (\<lambda>b.
       if b then Inr () else Inl (RuntimeError (''Missing JSON object member named '' @ name)))"

definition from_json_string :: "json_lib \<Rightarrow> json \<Rightarrow> string \<Rightarrow> (exn, string) result" where
  "from_json_string L val name =
     result_bind (m_requireName val name) (\<lambda>_. result_bind (json_at val name) (asString L))"

text \<open>\<^verbatim>\<open>static_cast<uint8_t>\<close> of the number keeps its low eight bits.\<close>

definition from_json_u8 :: "json \<Rightarrow> string \<Rightarrow> (exn, u8) result" where
  "from_json_u8 val name =
     result_bind (m_requireName val name) (\<lambda>_.
       result_bind (json_at val name) (\<lambda>v. result_bind (asInt v) (\<lambda>i. Inr (word_of_int i))))"

text \<open>A descriptor given as a string is parsed, and stays null when that fails.\<close>

definition from_json_value :: "json_lib \<Rightarrow> json \<Rightarrow> string \<Rightarrow> (exn, json) result" where
  "from_json_value L val name =
     result_bind (m_requireName val name) (\<lambda>_.
       result_bind (json_at val name) (\<lambda>v.
         case v of
           JString s \<Rightarrow> Inr (case lib_parse L s of None \<Rightarrow> JNull | Some d \<Rightarrow> d)
         | _ \<Rightarrow> Inr v))"

text \<open>\<^verbatim>\<open>serializationDescription\<close> with the reading functor, for the alternative of a type.\<close>

fun read_element :: "json_lib \<Rightarrow> json \<Rightarrow> PathElement \<Rightarrow> (exn, PathElement) result" where
  "read_element L val (DeviceElement _ _ _) =
     result_bind (from_json_string L val ''device_name'') (\<lambda>n.
       result_bind (from_json_string L val ''server'') (\<lambda>s.
         result_bind (from_json_value L val ''descriptor'') (\<lambda>d. Inr (DeviceElement n s d))))"
| "read_element L val (AliasElement _ _) =
     result_bind (from_json_string L val ''source'') (\<lambda>s.
       result_bind (from_json_u8 val ''priority'') (\<lambda>p. Inr (AliasElement s p)))"
| "read_element L val (StringElement _) =
     result_bind (from_json_string L val ''string'') (\<lambda>s. Inr (StringElement s))"
| "read_element L val e = Inr e"

text \<open>
  \<^verbatim>\<open>jsonToPathElement\<close>: every type whose name is the \<^verbatim>\<open>"type"\<close> member assigns the element
  read from the value; with no such type the element stays null.
\<close>

fun deserialize_types ::
    "json_lib \<Rightarrow> json \<Rightarrow> string \<Rightarrow> PathElement list \<Rightarrow> PathElement \<Rightarrow> (exn, PathElement) result" where
  "deserialize_types L val m_typename [] elt = Inr elt"
| "deserialize_types L val m_typename (T # Ts) elt =
     (if getTypeName T = m_typename
      then result_bind (read_element L val T) (\<lambda>v. deserialize_types L val m_typename Ts v)
      else deserialize_types L val m_typename Ts elt)"

definition jsonToPathElement :: "json_lib \<Rightarrow> json \<Rightarrow> (exn, PathElement) result" where
  "jsonToPathElement L val =
     result_bind (json_at val ''type'') (\<lambda>ty.
       result_bind (asString L ty) (\<lambda>m_typename.
         deserialize_types L val m_typename element_types NullElement))"

subsection \<open>Trees to and from JSON\<close>

definition pathNodeToJson :: "PathTree \<Rightarrow> nat \<Rightarrow> json" where
  "pathNodeToJson t i =
     JObject (obj_put ''type'' (JString (getTypeName (value_of t i)))
               (obj_put ''path'' (JString (getFullPath t i)) (pathElementToJson (value_of t i))))"

text \<open>
  The visitor appends the object of each node that is not null (or of every node with
  \<open>keepNulls\<close>) and then visits the children, which is the order of \<open>preorder\<close>.
\<close>

definition pathTreeToJson :: "PathTree \<Rightarrow> bool \<Rightarrow> json" where
  "pathTreeToJson t keepNulls =
     JArray (map (pathNodeToJson t)
               (filter (\<lambda>i. keepNulls \<or> \<not> isNull (value_of t i)) (preorder t 0)))"

fun add_nodes :: "json_lib \<Rightarrow> PathTree \<Rightarrow> json list \<Rightarrow> PathTree \<times> (exn, unit) result" where
  "add_nodes L t [] = (t, Inr ())"
| "add_nodes L t (node # nodes) =
     (case jsonToPathElement L node of
        Inl e \<Rightarrow> (t, Inl e)
      | Inr elt \<Rightarrow>
          (case result_bind (json_at node ''path'') (asString L) of
             Inl e \<Rightarrow> (t, Inl e)
           | Inr path \<Rightarrow>
               (case getNodeByPath t path of
                  (t', Inl e) \<Rightarrow> (t', Inl e)
                | (t', Inr i) \<Rightarrow> add_nodes L (set_value t' i elt) nodes)))"

definition jsonToPathTree :: "json_lib \<Rightarrow> PathTree \<Rightarrow> json \<Rightarrow> PathTree \<times> (exn, unit) result" where
  "jsonToPathTree L t nodes = add_nodes L t (json_elements nodes)"

definition clonePathTree :: "json_lib \<Rightarrow> PathTree \<Rightarrow> PathTree \<Rightarrow> PathTree \<times> (exn, unit) result" where
  "clonePathTree L src dest = jsonToPathTree L dest (pathTreeToJson src False)"

subsection \<open>Round trip\<close>

text \<open>
  The elements that survive serialization: a descriptor that is itself a JSON string would be
  parsed again by the reading side.
\<close>

definition serializable :: "PathElement \<Rightarrow> bool" where
  "serializable e \<longleftrightarrow> \<not> (is_DeviceElement e \<and> isString (getDescriptor e))"

lemmas json_read_simps =
  from_json_string_def from_json_u8_def from_json_value_def m_requireName_def

lemma jsonToPathElement_pathNodeToJson:
  assumes "serializable (value_of t i)"
  shows "jsonToPathElement L (pathNodeToJson t i) = Inr (value_of t i)"
proof (cases "value_of t i")
  case (AliasElement s p)
  have "- (2 ^ 31) \<le> uint p \<and> uint p < 2 ^ 31"
    using uint_bounded [of p] order_trans [of "- (2 ^ 31)" 0 "uint p"] by simp
  then show ?thesis
    by (simp add: AliasElement jsonToPathElement_def pathNodeToJson_def element_types_def
        json_read_simps in_int_range_def)
next
  case (DeviceElement n s d)
  with assms have "\<not> isString d" by (simp add: serializable_def)
  then show ?thesis
    by (cases d) (simp_all add: DeviceElement jsonToPathElement_def pathNodeToJson_def
        element_types_def json_read_simps)
qed (simp_all add: jsonToPathElement_def pathNodeToJson_def element_types_def json_read_simps)

text \<open>Adding the node of one position of \<open>t\<close> to a tree changes the content at that position only.\<close>

lemma getNodeByPath_printed:
  assumes "wf_tree t" and "i < length t" and "\<And>c. c \<in> set (node_path t i) \<Longrightarrow> plain_name c"
    and "wf_tree d"
  shows "\<exists>d' j. getNodeByPath d (getFullPath t i) = (d', Inr j) \<and> wf_tree d' \<and> j < length d' \<and>
    node_path d' j = node_path t i \<and> content d' = content d"
proof -
  let ?p = "CHR ''/'' # join_components (node_path t i)"
  obtain d' r where d': "pathParseAndRetrieve NullElement d 0 ?p = (d', r)" by fastforce
  have p: "getFullPath t i = ?p" by (rule getFullPath_eq [OF assms(1,2)])
  have eq: "getNodeByPath d (getFullPath t i) = (d', r)" by (simp add: getNodeByPath_def p d')
  show ?thesis
  proof (cases "node_path t i = []")
    case True
    then have "?p = ''/''" by simp
    with d' have "d' = d" "r = Inr 0"
      by (simp_all add: pathParseAndRetrieve_def getPathSeparator_def)
    with eq True assms(4) show ?thesis by (auto simp: node_path_root dest: wf_nonempty)
  next
    case False
    have cs: "absolute_components ?p = node_path t i"
      by (rule absolute_components_printed) (use False assms(3) in auto)
    have "resolve_names False (strip_trailing_separator (tl ?p)) [] (node_path t i) = Inr (node_path t i)"
      using resolve_plain assms(3) by simp
    with retrieve_spec [OF assms(4) _ _ d'] cs obtain j where "wf_tree d'" "r = Inr j" "j < length d'"
      "node_path d' j = node_path t i"
      "lookup d' = fill NullElement (touched_names False [] (node_path t i)) (lookup d)"
      by auto
    with eq content_fill show ?thesis by blast
  qed
qed

lemma add_nodes_spec:
  assumes "wf_tree t" and "wf_tree d"
    and "\<And>i. i \<in> set ns \<Longrightarrow> i < length t \<and> serializable (value_of t i) \<and> (\<forall>c\<in>set (node_path t i). plain_name c)"
  shows "\<exists>d'. add_nodes L d (map (pathNodeToJson t) ns) = (d', Inr ()) \<and> wf_tree d' \<and>
    (\<forall>ps. content d' ps = (if \<exists>i\<in>set ns. node_path t i = ps then content t ps else content d ps))"
  using assms(2,3)
proof (induction ns arbitrary: d)
  case Nil
  then show ?case by simp
next
  case (Cons i ns)
  have i: "i < length t" "serializable (value_of t i)" "\<And>c. c \<in> set (node_path t i) \<Longrightarrow> plain_name c"
    using Cons.prems(2) [of i] by auto
  obtain d1 j where d1: "getNodeByPath d (getFullPath t i) = (d1, Inr j)" "wf_tree d1" "j < length d1"
      "node_path d1 j = node_path t i" "content d1 = content d"
    using getNodeByPath_printed [OF assms(1) i(1,3) Cons.prems(1)] by blast
  let ?d2 = "set_value d1 j (value_of t i)"
  have c2: "content ?d2 = (content d)(node_path t i := content t (node_path t i))"
    using content_set_value [OF d1(2,3), of "value_of t i"] content_node [OF assms(1) i(1)] d1(4,5)
    by simp
  obtain d' where d': "add_nodes L ?d2 (map (pathNodeToJson t) ns) = (d', Inr ())" "wf_tree d'"
    "\<forall>ps. content d' ps = (if \<exists>k\<in>set ns. node_path t k = ps then content t ps else content ?d2 ps)"
    using Cons.IH [of ?d2] Cons.prems(2) d1(2) by auto
  have "json_at (pathNodeToJson t i) ''path'' = Inr (JString (getFullPath t i))"
    by (simp add: pathNodeToJson_def)
  then have "add_nodes L d (map (pathNodeToJson t) (i # ns)) = (d', Inr ())"
    using d'(1) d1(1) jsonToPathElement_pathNodeToJson [OF i(2)] by simp
  with d'(2,3) c2 show ?case by auto
qed

lemma preorder_all:
  assumes "wf_tree t"
  shows "set (preorder t 0) = {..<length t}"
  using set_preorder [OF assms wf_nonempty [OF assms]] assms
  by (auto simp: node_path_root)

lemma content_position:
  assumes "wf_tree t" and "content t ps = Some e"
  obtains i where "i < length t" and "node_path t i = ps" and "value_of t i = e" and "\<not> isNull e"
proof -
  from assms(2) obtain i where i: "walk t 0 ps = Some i" "value_of t i = e" "\<not> isNull e"
    by (auto simp: content_def lookup_def split: option.splits if_splits)
  with walk_sound [OF assms(1) wf_nonempty [OF assms(1)] i(1)] assms(1) show thesis
    by (intro that [of i]) (auto simp: node_path_root)
qed

text \<open>A library whose reader accepts nothing: every source is a plain path.\<close>

definition plain_lib :: json_lib where
  "plain_lib = \<lparr>lib_parse = (\<lambda>s. None), lib_fast = (\<lambda>v. ''null''), lib_styled = (\<lambda>v. ''null''), lib_real = (\<lambda>x. ''0'')\<rparr>"

text \<open>
  C2: the JSON a server sends for its path tree, read into a client's tree, adds exactly the
  content of the server's tree to it: no exception is thrown, every device, alias, string,
  interface and sensor is at its path with all its data, and what the client's tree held at
  other paths is kept. \<^verbatim>\<open>clonePathTree\<close> into a fresh tree is the case of an equal content.
  Required: node names that path retrieval can make, and no descriptor that is a bare string.
\<close>

theorem path_tree_json_roundtrip:
  assumes "wf_tree src" and "wf_tree dest"
    and "\<forall>i<length src. serializable (value_of src i) \<and> (\<forall>c\<in>set (node_path src i). plain_name c)"
  shows "\<exists>d'. jsonToPathTree L dest (pathTreeToJson src keepNulls) = (d', Inr ()) \<and> wf_tree d' \<and>
    (\<forall>ps. content d' ps =
      (if content src ps \<noteq> None \<or> keepNulls \<and> lookup src ps \<noteq> None then content src ps
       else content dest ps))"
proof -
  let ?ns = "filter (\<lambda>i. keepNulls \<or> \<not> isNull (value_of src i)) (preorder src 0)"
  have ns: "set ?ns = {i. i < length src \<and> (keepNulls \<or> \<not> isNull (value_of src i))}"
    using preorder_all [OF assms(1)] by auto
  obtain d' where d': "add_nodes L dest (map (pathNodeToJson src) ?ns) = (d', Inr ())" "wf_tree d'"
    "\<forall>ps. content d' ps = (if \<exists>i\<in>set ?ns. node_path src i = ps then content src ps else content dest ps)"
    using add_nodes_spec [OF assms(1,2), of ?ns L] assms(3) ns by blast
  have "(\<exists>i\<in>set ?ns. node_path src i = ps) \<longleftrightarrow>
      content src ps \<noteq> None \<or> keepNulls \<and> lookup src ps \<noteq> None" for ps
  proof
    assume "\<exists>i\<in>set ?ns. node_path src i = ps"
    then obtain i where "i < length src" "keepNulls \<or> \<not> isNull (value_of src i)" "node_path src i = ps"
      using ns by auto
    with content_node [OF assms(1), of i] lookup_node_path [OF assms(1), of i]
    show "content src ps \<noteq> None \<or> keepNulls \<and> lookup src ps \<noteq> None" by auto
  next
    assume *: "content src ps \<noteq> None \<or> keepNulls \<and> lookup src ps \<noteq> None"
    then obtain i where i: "walk src 0 ps = Some i"
      by (auto simp: content_def lookup_def split: option.splits)
    then have "i < length src" "node_path src i = ps"
      using walk_sound [OF assms(1) wf_nonempty [OF assms(1)] i] assms(1) by (auto simp: node_path_root)
    with i * show "\<exists>i\<in>set ?ns. node_path src i = ps"
      unfolding ns by (auto simp: content_def lookup_def split: if_splits intro!: exI [of _ i])
  qed
  with d' show ?thesis
    unfolding jsonToPathTree_def pathTreeToJson_def json_elements.simps by metis
qed

definition demo_tree :: PathTree where
  "demo_tree = (case getNodeByPath PathTree_create ''/a/b'' of (t, r) \<Rightarrow>
     set_value (set_value t 1 (DeviceElement ''a'' ''localhost'' (JObject [(''x'', JInt 3)])))
       2 (AliasElement ''/c'' 255))"

lemma demo_tree_eq:
  "demo_tree = [\<lparr>m_value = NullElement, m_children = [1], m_name = [], m_parent = None\<rparr>,
    \<lparr>m_value = DeviceElement ''a'' ''localhost'' (JObject [(''x'', JInt 3)]), m_children = [2], m_name = ''a'', m_parent = Some 0\<rparr>,
    \<lparr>m_value = AliasElement ''/c'' 255, m_children = [], m_name = ''b'', m_parent = Some 1\<rparr>]"
  by code_simp

lemma wf_demo_tree: "wf_tree demo_tree"
proof -
  obtain t r where t: "getNodeByPath PathTree_create ''/a/b'' = (t, r)" by fastforce
  then have "wf_tree t"
    using retrieve_spec [OF wf_createRoot _ _ t [unfolded getNodeByPath_def PathTree_create_def]] by simp
  with t show ?thesis by (simp add: demo_tree_def)
qed

theorem path_tree_json_roundtrip_witness:
  "\<exists>d'. jsonToPathTree plain_lib PathTree_create (pathTreeToJson demo_tree False) = (d', Inr ()) \<and>
    content d' [''a'', ''b''] = Some (AliasElement ''/c'' 255)"
proof -
  have "\<forall>i<length demo_tree. serializable (value_of demo_tree i) \<and> (\<forall>c\<in>set (node_path demo_tree i). plain_name c)"
    by code_simp
  from path_tree_json_roundtrip [OF wf_demo_tree wf_PathTree_create this, of plain_lib False]
  obtain d' where "jsonToPathTree plain_lib PathTree_create (pathTreeToJson demo_tree False) = (d', Inr ())"
    "content d' [''a'', ''b''] = content demo_tree [''a'', ''b'']" by auto
  moreover have "content demo_tree [''a'', ''b''] = Some (AliasElement ''/c'' 255)" by code_simp
  ultimately show ?thesis by auto
qed

end
