(* ===== verification/Alias_Processing.thy ===== *)
theory Alias_Processing
  imports Path_Elements
begin

text \<open>
  Aliases: parsing of alias sources (\<^verbatim>\<open>src/osvr/Common/ParseAlias.cpp\<close>), setting an alias at
  a node of the path tree (\<^verbatim>\<open>PathTree.cpp\<close>) and the processor of alias descriptions with
  their priorities and wildcards (\<^verbatim>\<open>AliasProcessor.cpp\<close>).

  An operation on the tree that may throw returns the tree it leaves behind with its result. A
  wildcard visits the tree while it adds nodes to it; the value \<open>None\<close> of the processing
  functions is that this traversal does not end.
\<close>

subsection \<open>Parsed aliases\<close>

record ParsedAlias =
  pa_simple :: bool
  pa_value :: json

text \<open>
  The source of an old-style route: a tracker name, perhaps with a sensor number. The code
  reads the first character of an empty name, which is its terminating NUL.
\<close>

definition getPathFromOldRouteSource :: "json_lib \<Rightarrow> json \<Rightarrow> (exn, string) result" where
  "getPathFromOldRouteSource L obj =
     (if \<not> isObject obj then Inr []
      else result_bind (isMember obj ''tracker'') (\<lambda>b.
        if \<not> b then Inr []
        else result_bind (result_bind (json_at obj ''tracker'') (asString L)) (\<lambda>tracker.
          let ret = (if tracker = [] \<or> hd tracker \<noteq> CHR ''/'' then ''/'' else []) @ tracker @ ''/tracker''
          in result_bind (isMember obj ''sensor'') (\<lambda>s.
               if \<not> s then Inr ret
               else result_bind (result_bind (json_at obj ''sensor'') asInt) (\<lambda>n.
                 Inr (ret @ ''/'' @ int_text n))))))"

text \<open>\<^verbatim>\<open>ParsedAlias::m_parse\<close> of a value, in an object whose flag is still as constructed.\<close>

function m_parse :: "json_lib \<Rightarrow> json \<Rightarrow> (exn, ParsedAlias) result" where
  "m_parse L val =
     (case val of
        JString s \<Rightarrow> Inr \<lparr>pa_simple = True, pa_value = val\<rparr>
      | JObject ms \<Rightarrow>
          (case map_of ms ''source'' of
             Some src \<Rightarrow> m_parse L src
           | None \<Rightarrow>
               if isString (leaf_of val) then Inr \<lparr>pa_simple = False, pa_value = val\<rparr>
               else result_bind (getPathFromOldRouteSource L (leaf_of val)) (\<lambda>trackerEquiv.
                 Inr \<lparr>pa_simple = False,
                      pa_value = (if trackerEquiv \<noteq> [] then set_leaf val (JString trackerEquiv) else JNull)\<rparr>))
      | _ \<Rightarrow> Inr \<lparr>pa_simple = True, pa_value = JNull\<rparr>)"
  by pat_completeness auto
termination
  by (relation "measure (\<lambda>(L, v). size v)") (auto intro: member_smaller)

declare m_parse.simps [simp del]

text \<open>The two constructors: text that is not JSON is a plain path.\<close>

definition ParsedAlias_string :: "json_lib \<Rightarrow> string \<Rightarrow> (exn, ParsedAlias) result" where
  "ParsedAlias_string L src =
     (case lib_parse L src of
        None \<Rightarrow> Inr \<lparr>pa_simple = True, pa_value = JString src\<rparr>
      | Some val \<Rightarrow> m_parse L val)"

definition ParsedAlias_json :: "json_lib \<Rightarrow> json \<Rightarrow> (exn, ParsedAlias) result" where
  "ParsedAlias_json L src = m_parse L src"

definition isValid :: "ParsedAlias \<Rightarrow> bool" where
  "isValid pa \<longleftrightarrow> \<not> isNull_json (pa_value pa)"

definition isSimple :: "ParsedAlias \<Rightarrow> bool" where
  "isSimple pa = pa_simple pa"

definition getLeaf :: "json_lib \<Rightarrow> ParsedAlias \<Rightarrow> (exn, string) result" where
  "getLeaf L pa = asString L (leaf_of (pa_value pa))"

definition setLeaf :: "ParsedAlias \<Rightarrow> string \<Rightarrow> ParsedAlias" where
  "setLeaf pa leaf = pa\<lparr>pa_value := set_leaf (pa_value pa) (JString leaf)\<rparr>"

text \<open>The compact text of the alias without the line end the writer puts behind it.\<close>

definition strip_newlines :: "string \<Rightarrow> string" where
  "strip_newlines s = rev (dropWhile (\<lambda>c. c = CHR 0x0A \<or> c = CHR 0x0D) (rev s))"

definition getAlias :: "json_lib \<Rightarrow> ParsedAlias \<Rightarrow> string" where
  "getAlias L pa =
     (case pa_value pa of JString s \<Rightarrow> s | v \<Rightarrow> strip_newlines (lib_fast L v))"

definition getAliasValue :: "ParsedAlias \<Rightarrow> json" where
  "getAliasValue pa = pa_value pa"

lemma isValid_setLeaf [simp]: "isValid (setLeaf pa s)"
  unfolding isValid_def setLeaf_def isNull_json_def
  by (subst set_leaf.simps) (simp split: json.split option.split)

lemma getLeaf_setLeaf [simp]: "getLeaf L (setLeaf pa s) = Inr s"
  by (simp add: getLeaf_def setLeaf_def leaf_of_set_leaf)

text \<open>A valid parsed alias always has a leaf: it is a string.\<close>

lemma m_parse_leaf:
  "m_parse L val = Inr pa \<Longrightarrow> isValid pa \<Longrightarrow> \<exists>s. leaf_of (pa_value pa) = JString s"
proof (induction L val rule: m_parse.induct)
  case (1 L val)
  show ?case
  proof (cases val)
    case (JString s)
    with 1(2) show ?thesis by (subst (asm) m_parse.simps) (auto simp: leaf_of.simps [of "JString s"])
  next
    case (JObject ms)
    show ?thesis
    proof (cases "map_of ms ''source''")
      case (Some src)
      with 1 JObject have "m_parse L src = Inr pa" by (subst (asm) (2) m_parse.simps) simp
      with 1(1) [OF JObject Some] 1(3) show ?thesis by simp
    next
      case None
      have "isString (leaf_of val) \<Longrightarrow> \<exists>s. leaf_of val = JString s"
        by (cases "leaf_of val") simp_all
      moreover have "leaf_of (set_leaf val (JString s)) = JString s" for s
        by (rule leaf_of_set_leaf) simp
      ultimately show ?thesis
        using 1(2,3) None unfolding JObject
        by (subst (asm) (1) m_parse.simps)
          (auto simp: isValid_def isNull_json_def split: if_splits)
    qed
  qed (use 1(2,3) in \<open>subst (asm) m_parse.simps, auto simp: isValid_def isNull_json_def\<close>)+
qed

lemma ParsedAlias_string_leaf:
  assumes "ParsedAlias_string L s = Inr pa" and "isValid pa"
  shows "\<exists>l. getLeaf L pa = Inr l"
  using assms m_parse_leaf [of L _ pa]
  by (force simp: ParsedAlias_string_def getLeaf_def leaf_of.simps [of "JString s"] split: option.splits)

subsection \<open>Setting an alias\<close>

definition aliasNeedsUpdate :: "PathElement \<Rightarrow> string \<Rightarrow> AliasPriority \<Rightarrow> bool" where
  "aliasNeedsUpdate e source prio =
     (case e of
        AliasElement s p \<Rightarrow>
          if prio > p then True
          else if prio = p \<and> source \<noteq> s then True
          else False
      | _ \<Rightarrow> True)"

definition addAliasImpl :: "PathTree \<Rightarrow> nat \<Rightarrow> string \<Rightarrow> AliasPriority \<Rightarrow> PathTree \<times> bool" where
  "addAliasImpl t node source prio =
     (if \<not> aliasNeedsUpdate (value_of t node) source prio then (t, False)
      else (set_value t node (AliasElement source prio), True))"

definition addAlias ::
    "json_lib \<Rightarrow> PathTree \<Rightarrow> nat \<Rightarrow> string \<Rightarrow> AliasPriority \<Rightarrow> PathTree \<times> (exn, bool) result" where
  "addAlias L t node source prio =
     (case ParsedAlias_string L source of
        Inl e \<Rightarrow> (t, Inl e)
      | Inr newSource \<Rightarrow>
          if \<not> isValid newSource then (t, Inr False)
          else (case getLeaf L newSource of
                  Inl e \<Rightarrow> (t, Inl e)
                | Inr leaf \<Rightarrow>
                    if \<not> isPathAbsolute leaf then (t, Inr False)
                    else (case addAliasImpl t node (getAlias L newSource) prio of
                            (t', b) \<Rightarrow> (t', Inr b))))"

definition getAbsolutePath ::
    "PathTree \<Rightarrow> nat \<Rightarrow> string \<Rightarrow> PathTree \<times> (exn, string) result" where
  "getAbsolutePath t node path =
     (if isPathAbsolute path then (t, Inr path)
      else (case treePathRetrieve NullElement t node path False of
              (t', Inl e) \<Rightarrow> (t', Inl e)
            | (t', Inr i) \<Rightarrow> (t', Inr (getFullPath t' i))))"

definition addAliasFromSourceAndRelativeDest ::
    "json_lib \<Rightarrow> PathTree \<Rightarrow> nat \<Rightarrow> string \<Rightarrow> string \<Rightarrow> AliasPriority
     \<Rightarrow> PathTree \<times> (exn, bool) result" where
  "addAliasFromSourceAndRelativeDest L t node source dest prio =
     (case treePathRetrieve NullElement t node dest False of
        (t1, Inl e) \<Rightarrow> (t1, Inl e)
      | (t1, Inr aliasNode) \<Rightarrow>
          (case ParsedAlias_string L source of
             Inl e \<Rightarrow> (t1, Inl e)
           | Inr newSource \<Rightarrow>
               if \<not> isValid newSource then (t1, Inr False)
               else (case getLeaf L newSource of
                       Inl e \<Rightarrow> (t1, Inl e)
                     | Inr leaf \<Rightarrow>
                         (case getAbsolutePath t1 node leaf of
                            (t2, Inl e) \<Rightarrow> (t2, Inl e)
                          | (t2, Inr absSource) \<Rightarrow>
                              (case addAliasImpl t2 aliasNode (getAlias L (setLeaf newSource absSource)) prio of
                                 (t3, b) \<Rightarrow> (t3, Inr b))))))"

subsection \<open>Priorities over a history of aliases\<close>

text \<open>The text stored for a source, or \<open>None\<close> for a source that \<open>addAlias\<close> does not accept.\<close>

definition accepted_alias :: "json_lib \<Rightarrow> string \<Rightarrow> string option" where
  "accepted_alias L source =
     (case ParsedAlias_string L source of
        Inl e \<Rightarrow> None
      | Inr pa \<Rightarrow>
          if isValid pa \<and> (case getLeaf L pa of Inl e \<Rightarrow> False | Inr leaf \<Rightarrow> isPathAbsolute leaf)
          then Some (getAlias L pa) else None)"

fun add_aliases :: "json_lib \<Rightarrow> PathTree \<Rightarrow> nat \<Rightarrow> (string \<times> AliasPriority) list \<Rightarrow> PathTree" where
  "add_aliases L t node [] = t"
| "add_aliases L t node ((source, prio) # hist) =
     add_aliases L (fst (addAlias L t node source prio)) node hist"

text \<open>The last of the entries with the greatest priority.\<close>

definition winner :: "('a \<times> AliasPriority) list \<Rightarrow> 'a \<times> AliasPriority" where
  "winner hist = last (filter (\<lambda>x. snd x = Max (snd ` set hist)) hist)"

lemma addAlias_tree:
  "fst (addAlias L t node source prio) =
    (case accepted_alias L source of None \<Rightarrow> t | Some a \<Rightarrow> fst (addAliasImpl t node a prio))"
  by (auto simp: addAlias_def accepted_alias_def split: sum.splits prod.splits)

lemma winner_single [simp]: "winner [x] = x"
  by (simp add: winner_def)

lemma winner_max:
  assumes "hist \<noteq> []"
  shows "snd (winner hist) = Max (snd ` set hist)" and "winner hist \<in> set hist"
proof -
  let ?f = "filter (\<lambda>x. snd x = Max (snd ` set hist)) hist"
  have "Max (snd ` set hist) \<in> snd ` set hist" using assms by (intro Max_in) auto
  then have "?f \<noteq> []" by (force simp: filter_empty_conv)
  then have "last ?f \<in> set ?f" by (rule last_in_set)
  then show "snd (winner hist) = Max (snd ` set hist)" "winner hist \<in> set hist"
    by (auto simp: winner_def)
qed

lemma winner_snoc:
  assumes "hist \<noteq> []"
  shows "winner (hist @ [x]) = (if snd x \<ge> snd (winner hist) then x else winner hist)"
proof -
  let ?m = "Max (snd ` set hist)"
  have M: "Max (snd ` set (hist @ [x])) = max (snd x) ?m"
    using assms by (simp add: Max_insert)
  have "\<And>y. y \<in> set hist \<Longrightarrow> snd y \<le> ?m" by simp
  then have le: "filter (\<lambda>y. snd y = max (snd x) ?m) hist = (if snd x \<le> ?m then filter (\<lambda>y. snd y = ?m) hist else [])"
    by (force simp: max_def filter_empty_conv intro!: filter_cong)
  show ?thesis
    using winner_max(1) [OF assms] unfolding winner_def M
    by (auto simp: max_def le [unfolded max_def])
qed

lemma addAliasImpl_alias:
  assumes "node < length t"
  shows "addAliasImpl (set_value t node (AliasElement s p)) node s' p' =
    (if p' > p \<or> p' = p \<and> s' \<noteq> s then (set_value t node (AliasElement s' p'), True)
     else (set_value t node (AliasElement s p), False))"
  using assms by (auto simp: addAliasImpl_def aliasNeedsUpdate_def value_of_set_value)
    (simp_all add: set_value_def)

lemma add_aliases_snoc:
  "add_aliases L t node (hist @ [(s, p)]) = fst (addAlias L (add_aliases L t node hist) node s p)"
  by (induction hist arbitrary: t) auto

definition accepted_entries ::
    "json_lib \<Rightarrow> (string \<times> AliasPriority) list \<Rightarrow> (string \<times> AliasPriority) list" where
  "accepted_entries L hist =
     map (\<lambda>(s, p). (the (accepted_alias L s), p)) (filter (\<lambda>(s, p). accepted_alias L s \<noteq> None) hist)"

lemma add_aliases_eq:
  assumes "node < length t" and "\<not> is_AliasElement (value_of t node)"
  shows "add_aliases L t node hist =
      (if accepted_entries L hist = [] then t
       else case winner (accepted_entries L hist) of (s, p) \<Rightarrow> set_value t node (AliasElement s p))"
proof (induction hist rule: rev_induct)
  case Nil
  then show ?case by (simp add: accepted_entries_def)
next
  case (snoc x hist)
  obtain s p where x: "x = (s, p)" by fastforce
  let ?acc = "accepted_entries L hist"
  show ?case
  proof (cases "accepted_alias L s")
    case None
    then have "accepted_entries L (hist @ [x]) = ?acc" by (simp add: accepted_entries_def x)
    with None snoc show ?thesis by (simp add: x add_aliases_snoc addAlias_tree)
  next
    case (Some a)
    then have acc: "accepted_entries L (hist @ [x]) = ?acc @ [(a, p)]"
      by (simp add: accepted_entries_def x)
    have step: "add_aliases L t node (hist @ [x]) = fst (addAliasImpl (add_aliases L t node hist) node a p)"
      by (simp add: x add_aliases_snoc addAlias_tree Some)
    show ?thesis
    proof (cases "?acc = []")
      case True
      with snoc assms(2) show ?thesis
        unfolding step acc by (cases "value_of t node") (simp_all add: addAliasImpl_def aliasNeedsUpdate_def)
    next
      case False
      obtain s0 p0 where w: "winner ?acc = (s0, p0)" by fastforce
      with False snoc have "add_aliases L t node hist = set_value t node (AliasElement s0 p0)" by simp
      with step have "add_aliases L t node (hist @ [x]) =
          (if p > p0 \<or> p = p0 \<and> a \<noteq> s0 then set_value t node (AliasElement a p)
           else set_value t node (AliasElement s0 p0))"
        by (simp add: addAliasImpl_alias [OF assms(1)])
      with winner_snoc [OF False, of "(a, p)"] w show ?thesis
        unfolding acc by auto
    qed
  qed
qed

lemma addAlias_changed:
  "node < length t \<Longrightarrow> addAlias L t node source prio = (t', Inr changed) \<Longrightarrow>
    changed \<longleftrightarrow> value_of t' node \<noteq> value_of t node"
  by (auto simp: addAlias_def addAliasImpl_def aliasNeedsUpdate_def value_of_set_value
      split: sum.splits if_splits PathElement.splits)

text \<open>
  C21: whatever sequence of aliases is added to a node that holds none, the node ends with the
  last accepted source among those of the greatest priority, under that priority: an automatic
  or semantic alias never displaces a manual one, and among equals the last wins. Sources that
  do not parse or are relative leave no trace, no other node changes, and a further call
  reports a change exactly when it changes the node's value.
\<close>

theorem alias_priority_history:
  assumes "node < length t" and "\<not> is_AliasElement (value_of t node)"
    and "add_aliases L t node hist = u"
  shows "u = (if accepted_entries L hist = [] then t
       else case winner (accepted_entries L hist) of (s, p) \<Rightarrow> set_value t node (AliasElement s p)) \<and>
    (\<forall>source prio u' changed. addAlias L u node source prio = (u', Inr changed) \<longrightarrow>
      (changed \<longleftrightarrow> value_of u' node \<noteq> value_of u node))"
proof
  show u: "u = (if accepted_entries L hist = [] then t
       else case winner (accepted_entries L hist) of (s, p) \<Rightarrow> set_value t node (AliasElement s p))"
    using add_aliases_eq [OF assms(1,2)] assms(3) by simp
  have "length u = length t" by (simp add: u split: prod.split)
  with assms(1) show "\<forall>source prio u' changed. addAlias L u node source prio = (u', Inr changed) \<longrightarrow>
      (changed \<longleftrightarrow> value_of u' node \<noteq> value_of u node)"
    using addAlias_changed [of node u L] by simp
qed

theorem alias_priority_history_witness:
  "add_aliases plain_lib PathTree_create 0 [(''/a'', 128), (''/b'', 255), (''/c'', 127), (''rel'', 255)] =
     set_value PathTree_create 0 (AliasElement ''/b'' 255)"
proof -
  have acc: "accepted_entries plain_lib [(''/a'', 128), (''/b'', 255), (''/c'', 127), (''rel'', 255)] =
      [(''/a'', 128), (''/b'', 255), (''/c'', 127)]"
    by code_simp
  have w: "winner [(''/a'', 128), (''/b'', 255), (''/c'', 127 :: u8)] = (''/b'', 255)"
    by (simp add: winner_def)
  show ?thesis
    using alias_priority_history [of 0 PathTree_create plain_lib
        "[(''/a'', 128), (''/b'', 255), (''/c'', 127), (''rel'', 255)]", OF _ _ refl] unfolding acc w
    by (simp add: PathTree_create_def createRoot_def value_of_def)
qed

subsection \<open>The alias processor\<close>

record AliasProcessorOptions =
  permitRelativePath :: bool
  permitRelativeSource :: bool
  permitWildcard :: bool
  defaultPriority :: AliasPriority

definition AliasProcessor_create :: AliasProcessorOptions where
  "AliasProcessor_create =
     \<lparr>permitRelativePath = False, permitRelativeSource = False, permitWildcard = False,
      defaultPriority = ALIASPRIORITY_AUTOMATIC\<rparr>"

definition enableRelativePath :: "AliasProcessorOptions \<Rightarrow> AliasProcessorOptions" where
  "enableRelativePath opts = opts\<lparr>permitRelativePath := True\<rparr>"

definition enableRelativeSource :: "AliasProcessorOptions \<Rightarrow> AliasProcessorOptions" where
  "enableRelativeSource opts = opts\<lparr>permitRelativeSource := True\<rparr>"

definition enableWildcard :: "AliasProcessorOptions \<Rightarrow> AliasProcessorOptions" where
  "enableWildcard opts = opts\<lparr>permitWildcard := True\<rparr>"

definition setDefaultPriority :: "AliasPriority \<Rightarrow> AliasProcessorOptions \<Rightarrow> AliasProcessorOptions" where
  "setDefaultPriority prio opts = opts\<lparr>defaultPriority := prio\<rparr>"

definition PRIORITY_KEY :: string where "PRIORITY_KEY = ''$priority''"
definition WILDCARD_SUFFIX :: string where "WILDCARD_SUFFIX = ''/*''"

text \<open>
  A run of the processor: the tree, whether it changed so far, the parsed source of the entry
  at hand (whose leaf a wildcard rewrites), and the exception thrown, after which nothing more
  is done.
\<close>

record alias_run =
  ar_tree :: PathTree
  ar_flag :: bool
  ar_source :: ParsedAlias
  ar_exn :: "exn option"

definition m_processSingleEntry ::
    "json_lib \<Rightarrow> nat \<Rightarrow> string \<Rightarrow> string \<Rightarrow> AliasPriority \<Rightarrow> alias_run \<Rightarrow> alias_run" where
  "m_processSingleEntry L devNode path source prio run =
     (case addAliasFromSourceAndRelativeDest L (ar_tree run) devNode source path prio of
        (t, Inl e) \<Rightarrow> run\<lparr>ar_tree := t, ar_exn := Some e\<rparr>
      | (t, Inr b) \<Rightarrow> run\<lparr>ar_tree := t, ar_flag := (ar_flag run \<or> b)\<rparr>)"

definition doesPathContainWildcard :: "string \<Rightarrow> bool" where
  "doesPathContainWildcard path \<longleftrightarrow>
     length WILDCARD_SUFFIX \<le> length path \<and>
     drop (length path - length WILDCARD_SUFFIX) path = WILDCARD_SUFFIX"

text \<open>
  The functor of \<^verbatim>\<open>applyWildcard\<close> at one node: null nodes are skipped, for the others the path
  relative to the starting node is what follows the starting path and a separator.
\<close>

definition wildcard_visit ::
    "nat \<Rightarrow> (nat \<Rightarrow> string \<Rightarrow> alias_run \<Rightarrow> alias_run) \<Rightarrow> nat \<Rightarrow> alias_run \<Rightarrow> alias_run" where
  "wildcard_visit absoluteStartingPathLen functor i run =
     (if ar_exn run \<noteq> None then run
      else if isNull (value_of (ar_tree run) i) then run
      else functor i (drop (absoluteStartingPathLen + 1) (getFullPath (ar_tree run) i)) run)"

definition run_children :: "alias_run \<Rightarrow> nat \<Rightarrow> nat list" where
  "run_children run i = (if ar_exn run \<noteq> None then [] else children (ar_tree run) i)"

definition applyWildcard ::
    "nat \<Rightarrow> string \<Rightarrow> (nat \<Rightarrow> string \<Rightarrow> alias_run \<Rightarrow> alias_run) \<Rightarrow> alias_run \<Rightarrow> alias_run option" where
  "applyWildcard node pathWithWildcard functor run =
     (let startingPath = take (length pathWithWildcard - length WILDCARD_SUFFIX) pathWithWildcard
      in case treePathRetrieve NullElement (ar_tree run) node startingPath False of
           (t, Inl e) \<Rightarrow> Some (run\<lparr>ar_tree := t, ar_exn := Some e\<rparr>)
         | (t, Inr startingNode) \<Rightarrow>
             traverseWith run_children (wildcard_visit (length (getFullPath t startingNode)) functor)
               startingNode (run\<lparr>ar_tree := t\<rparr>))"

text \<open>
  One entry of an alias description. A wildcard that the options do not permit is reported on
  the log and then processed all the same.
\<close>

definition m_processEntry ::
    "json_lib \<Rightarrow> AliasProcessorOptions \<Rightarrow> nat \<Rightarrow> string \<Rightarrow> json \<Rightarrow> AliasPriority
     \<Rightarrow> alias_run \<Rightarrow> alias_run option" where
  "m_processEntry L opts devNode path source prio run =
     (if \<not> permitRelativePath opts \<and> \<not> isPathAbsolute path then Some run
      else (case ParsedAlias_json L source of
              Inl e \<Rightarrow> Some (run\<lparr>ar_exn := Some e\<rparr>)
            | Inr parsedSource \<Rightarrow>
                (case getLeaf L parsedSource of
                   Inl e \<Rightarrow> Some (run\<lparr>ar_exn := Some e\<rparr>)
                 | Inr leaf \<Rightarrow>
                     if \<not> permitRelativeSource opts \<and> \<not> isPathAbsolute leaf then Some run
                     else if \<not> doesPathContainWildcard leaf then
                       Some (m_processSingleEntry L devNode path (getAlias L parsedSource) prio run)
                     else if isSimple parsedSource then
                       applyWildcard devNode leaf
                         (\<lambda>i relPath run.
                            m_processSingleEntry L devNode (path @ getPathSeparator @ relPath)
                              (getFullPath (ar_tree run) i) prio run)
                         run
                     else
                       applyWildcard devNode leaf
                         (\<lambda>i relPath run.
                            let parsed = setLeaf (ar_source run) (getFullPath (ar_tree run) i)
                            in m_processSingleEntry L devNode (path @ getPathSeparator @ relPath)
                                 (getAlias L parsed) prio (run\<lparr>ar_source := parsed\<rparr>))
                         (run\<lparr>ar_source := parsedSource\<rparr>))))"

text \<open>The members of an object in key order; the first exception ends the loop.\<close>

fun process_members ::
    "json_lib \<Rightarrow> AliasProcessorOptions \<Rightarrow> nat \<Rightarrow> AliasPriority \<Rightarrow> members
     \<Rightarrow> alias_run \<Rightarrow> alias_run option" where
  "process_members L opts devNode prio [] run = Some run"
| "process_members L opts devNode prio ((key, v) # ms) run =
     (if ar_exn run \<noteq> None then Some run
      else if key = PRIORITY_KEY then process_members L opts devNode prio ms run
      else Option.bind (m_processEntry L opts devNode key v prio run)
             (process_members L opts devNode prio ms))"

definition m_processObject ::
    "json_lib \<Rightarrow> AliasProcessorOptions \<Rightarrow> nat \<Rightarrow> members \<Rightarrow> alias_run \<Rightarrow> alias_run option" where
  "m_processObject L opts devNode ms run =
     (case map_of ms PRIORITY_KEY of
        None \<Rightarrow> process_members L opts devNode (defaultPriority opts) ms run
      | Some v \<Rightarrow>
          (case asInt v of
             Inl e \<Rightarrow> Some (run\<lparr>ar_exn := Some e\<rparr>)
           | Inr n \<Rightarrow> process_members L opts devNode (word_of_int n) ms run))"

fun m_processArray ::
    "json_lib \<Rightarrow> AliasProcessorOptions \<Rightarrow> nat \<Rightarrow> json list \<Rightarrow> alias_run \<Rightarrow> alias_run option" where
  "m_processArray L opts devNode [] run = Some run"
| "m_processArray L opts devNode (elt # arr) run =
     (if ar_exn run \<noteq> None then Some run
      else (case elt of
              JObject ms \<Rightarrow> Option.bind (m_processObject L opts devNode ms run)
                               (m_processArray L opts devNode arr)
            | _ \<Rightarrow> m_processArray L opts devNode arr run))"

definition AutomaticAliases ::
    "json_lib \<Rightarrow> AliasProcessorOptions \<Rightarrow> nat \<Rightarrow> json \<Rightarrow> alias_run \<Rightarrow> alias_run option" where
  "AutomaticAliases L opts devNode val run =
     (case val of
        JArray arr \<Rightarrow> m_processArray L opts devNode arr run
      | JObject ms \<Rightarrow> m_processObject L opts devNode ms run
      | _ \<Rightarrow> Some run)"

definition start_run :: "PathTree \<Rightarrow> alias_run" where
  "start_run t = \<lparr>ar_tree = t, ar_flag = False, ar_source = \<lparr>pa_simple = True, pa_value = JNull\<rparr>, ar_exn = None\<rparr>"

definition run_result :: "alias_run \<Rightarrow> PathTree \<times> (exn, bool) result" where
  "run_result run =
     (ar_tree run, case ar_exn run of Some e \<Rightarrow> Inl e | None \<Rightarrow> Inr (ar_flag run))"

definition process_alias ::
    "json_lib \<Rightarrow> AliasProcessorOptions \<Rightarrow> PathTree \<Rightarrow> nat \<Rightarrow> json
     \<Rightarrow> (PathTree \<times> (exn, bool) result) option" where
  "process_alias L opts t node val =
     map_option run_result (AutomaticAliases L opts node val (start_run t))"

subsection \<open>Routes as aliases\<close>

definition createJSONAlias :: "string \<Rightarrow> json \<Rightarrow> json" where
  "createJSONAlias path destination =
     (if path = [] then JNull
      else if isNull_json destination then JNull
      else JObject [(path, destination)])"

definition convertRouteToAlias :: "json_lib \<Rightarrow> json \<Rightarrow> (exn, json) result" where
  "convertRouteToAlias L val =
     (case val of
        JObject ms \<Rightarrow>
          (case (map_of ms ''destination'', map_of ms ''source'') of
             (Some d, Some s) \<Rightarrow> result_bind (asString L d) (\<lambda>path. Inr (createJSONAlias path s))
           | _ \<Rightarrow> Inr val)
      | _ \<Rightarrow> Inr val)"

definition applyPriorityToAlias :: "json \<Rightarrow> AliasPriority \<Rightarrow> json" where
  "applyPriorityToAlias alias prio =
     (case alias of
        JObject ms \<Rightarrow> JObject (obj_put PRIORITY_KEY (JInt (uint prio)) ms)
      | _ \<Rightarrow> alias)"

text \<open>\<^verbatim>\<open>jsonParse\<close> of \<^verbatim>\<open>JSONHelpers.h\<close>: null for text that is not JSON.\<close>

definition jsonParse :: "json_lib \<Rightarrow> string \<Rightarrow> json" where
  "jsonParse L str = (case lib_parse L str of None \<Rightarrow> JNull | Some v \<Rightarrow> v)"

definition addAliasFromRoute ::
    "json_lib \<Rightarrow> PathTree \<Rightarrow> nat \<Rightarrow> string \<Rightarrow> AliasPriority
     \<Rightarrow> (PathTree \<times> (exn, bool) result) option" where
  "addAliasFromRoute L t node route prio =
     (case convertRouteToAlias L (jsonParse L route) of
        Inl e \<Rightarrow> Some (t, Inl e)
      | Inr alias \<Rightarrow> process_alias L AliasProcessor_create t node (applyPriorityToAlias alias prio))"

end
