(* ===== verification/Alias_Effects.thy ===== *)
theory Alias_Effects
  imports Alias_Processing "HOL-Library.Sublist"
begin

text \<open>
  What the alias operations of \<open>Alias_Processing\<close> do to the content of the tree: the effect of
  one alias entry, of an old-style route, and of a wildcard entry, whose traversal ends when
  the aliases it makes lie outside the traversed subtree.
\<close>

subsection \<open>Where a path given at a node leads\<close>

definition target :: "string list \<Rightarrow> string \<Rightarrow> (exn, string list) result" where
  "target base path =
     (if path = [] then Inr base
      else if hd path = CHR ''/'' then
        (if path = ''/'' then Inr []
         else resolve_names False (strip_trailing_separator (tl path)) []
                (split_components (strip_trailing_separator (tl path))))
      else resolve_names False (strip_trailing_separator path) base
             (split_components (strip_trailing_separator path)))"

text \<open>Nodes off the way of a retrieval keep their children and their value.\<close>

lemma retrieve_components_off_way:
  "wf_tree t \<Longrightarrow> i < length t \<Longrightarrow> j < length t \<Longrightarrow>
     resolve_names False path (node_path t i) cs = Inr ps \<Longrightarrow> \<not> prefix (node_path t j) ps \<Longrightarrow>
     children (fst (retrieve_components (GetOrCreateFunctor d) GETPARENT_DENY path t i cs)) j = children t j"
proof (induction cs arbitrary: t i)
  case Nil
  then show ?case by simp
next
  case (Cons c cs)
  note wf = Cons.prems(1) and i = Cons.prems(2) and j = Cons.prems(3)
  consider "c = ''.''" | "c \<noteq> []" "c \<noteq> ''.''" "c \<noteq> ''..''"
    using Cons.prems(4) by (auto split: if_splits)
  then show ?case
  proof cases
    case 1
    with Cons show ?thesis by simp
  next
    case 2
    with Cons.prems(4) have res: "resolve_names False path (node_path t i @ [c]) cs = Inr ps" by simp
    then have "prefix (node_path t i) ps"
      using resolve_names_base [of path "node_path t i @ [c]"] by (auto simp: prefix_def)
    with Cons.prems(5) have ne: "j \<noteq> i" by auto
    obtain u k where u: "getOrCreateChildByName d t i c = Inr (u, k)" "wf_tree u" "length t \<le> length u"
        "k < length u" "node_path u k = node_path t i @ [c]" "node_path u j = node_path t j"
        "children u j = children t j"
    proof (cases "m_getChildByName t i c")
      case (Some k)
      with m_getChildByName_Some [OF wf i Some] wf that [of t k] show thesis
        by (auto simp: getOrCreateChildByName_def node_path_child)
    next
      case None
      have nc: "create t i c d = Inr (added t i c d, length t)"
        using 2(1) None by (simp add: create_Inr_iff)
      with None wf i j ne wf_added [OF wf i 2(1) None, of d] node_path_added_new [OF wf i]
        node_path_added_old [OF wf i j] added_old [OF i j] that [of "added t i c d" "length t"]
      show thesis by (auto simp: getOrCreateChildByName_def children_def)
    qed
    have "children (fst (retrieve_components (GetOrCreateFunctor d) GETPARENT_DENY path u k cs)) j = children u j"
      by (rule Cons.IH) (use u res j Cons.prems(5) in auto)
    moreover have "GetOrCreateFunctor d t i c = (u, Inr k)" using u(1) by (simp add: GetOrCreateFunctor_def)
    ultimately show ?thesis using u 2 by simp
  qed
qed

text \<open>
  What a retrieval from a node does, in one rule: nothing moves, the content stays, the result
  is the node at the target; nodes that are not on the way keep their children.
\<close>

lemma treePathRetrieve_spec:
  assumes "wf_tree t" and "i < length t" and "treePathRetrieve NullElement t i path False = (t', r)"
  shows "grows t t' \<and> content t' = content t \<and>
    (case target (node_path t i) path of
       Inl e \<Rightarrow> r = Inl e
     | Inr ps \<Rightarrow> (\<exists>k. r = Inr k \<and> k < length t' \<and> node_path t' k = ps) \<and>
         (\<forall>j<length t. \<not> prefix (node_path t j) ps \<longrightarrow> children t' j = children t j))"
proof -
  have gen: "grows t t' \<and> content t' = content t \<and>
    (case resolve_names False p (node_path t n) (split_components p) of
       Inl e \<Rightarrow> r = Inl e
     | Inr ps \<Rightarrow> (\<exists>k. r = Inr k \<and> k < length t' \<and> node_path t' k = ps) \<and>
         (\<forall>j<length t. \<not> prefix (node_path t j) ps \<longrightarrow> children t' j = children t j))"
    if "n < length t" "retrieve_components (GetOrCreateFunctor NullElement) GETPARENT_DENY p t n (split_components p) = (t', r)"
    for p n
    using retrieve_getOrCreate [OF assms(1) that] retrieve_components_off_way [OF assms(1) that(1)] that(2)
    by (auto split: sum.splits dest: content_fill) (metis fst_conv)+
  note w0 = wf_nonempty [OF assms(1)] and r0 = getRootOf_wf [OF assms(1,2)]
  consider "path = []" | "path = ''/''" | "path \<noteq> []" "hd path = CHR ''/''" "path \<noteq> ''/''"
    | "path \<noteq> []" "hd path \<noteq> CHR ''/''" by blast
  then show ?thesis
  proof cases
    case 1
    with assms show ?thesis
      by (auto simp: treePathRetrieve_def treePathRetrieveImplementation_def target_def)
  next
    case 2
    with assms r0 w0 show ?thesis
      by (auto simp: treePathRetrieve_def treePathRetrieveImplementation_def target_def
          getPathSeparator_def node_path_root)
  next
    case 3
    with assms(1,3) r0 w0 gen [of 0 "strip_trailing_separator (tl path)"] show ?thesis
      by (simp add: treePathRetrieve_def treePathRetrieveImplementation_def target_def
          getPathSeparator_def node_path_root Let_def)
  next
    case 4
    with assms(2,3) gen [of i "strip_trailing_separator path"] show ?thesis
      by (auto simp: treePathRetrieve_def treePathRetrieveImplementation_def target_def Let_def)
  qed
qed

subsection \<open>The effect of one entry\<close>

definition stored_alias :: "string \<Rightarrow> AliasPriority \<Rightarrow> PathElement option \<Rightarrow> PathElement" where
  "stored_alias source prio old =
     (case old of
        None \<Rightarrow> AliasElement source prio
      | Some e \<Rightarrow> if aliasNeedsUpdate e source prio then AliasElement source prio else e)"

text \<open>The parts of the tree that an alias operation with target \<open>ps\<close> leaves as they are.\<close>

definition alias_frame :: "PathTree \<Rightarrow> PathTree \<Rightarrow> string list \<Rightarrow> bool" where
  "alias_frame t t' ps \<longleftrightarrow>
     wf_tree t' \<and> length t \<le> length t' \<and> (\<forall>j<length t. node_path t' j = node_path t j) \<and>
     (\<forall>j<length t. \<not> prefix (node_path t j) ps \<longrightarrow> children t' j = children t j)"

lemma alias_stored:
  assumes "wf_tree t" and "k < length t"
  shows "\<exists>t' changed. addAliasImpl t k source prio = (t', changed) \<and> wf_tree t' \<and> same_shape t t' \<and>
    content t' = (content t)(node_path t k := Some (stored_alias source prio (content t (node_path t k)))) \<and>
    (changed \<longleftrightarrow> content t' \<noteq> content t)"
proof -
  let ?e = "value_of t k"
  have c: "content t (node_path t k) = (if isNull ?e then None else Some ?e)"
    by (rule content_node [OF assms])
  show ?thesis
  proof (cases "aliasNeedsUpdate ?e source prio")
    case True
    let ?t' = "set_value t k (AliasElement source prio)"
    have "stored_alias source prio (content t (node_path t k)) = AliasElement source prio"
      using True c by (simp add: stored_alias_def)
    moreover have ct: "content ?t' = (content t)(node_path t k := Some (AliasElement source prio))"
      using content_set_value [OF assms] by (simp add: isNull_def)
    moreover have "\<not> aliasNeedsUpdate (AliasElement source prio) source prio"
      by (simp add: aliasNeedsUpdate_def)
    then have "?e \<noteq> AliasElement source prio" using True by metis
    then have "content ?t' (node_path t k) \<noteq> content t (node_path t k)"
      unfolding c ct by simp
    then have "content ?t' \<noteq> content t" by metis
    moreover have "addAliasImpl t k source prio = (?t', True)" using True by (simp add: addAliasImpl_def)
    ultimately show ?thesis using assms by (intro exI [of _ ?t'] exI [of _ True]) simp
  next
    case False
    then have "\<not> isNull ?e" by (auto simp: aliasNeedsUpdate_def isNull_def)
    with c have "content t (node_path t k) = Some (stored_alias source prio (content t (node_path t k)))"
      using False by (simp add: stored_alias_def)
    then have "content t = (content t)(node_path t k := Some (stored_alias source prio (content t (node_path t k))))"
      by (metis fun_upd_triv)
    with False assms show ?thesis by (auto simp: addAliasImpl_def)
  qed
qed

lemma addAliasFromSource_spec:
  assumes "wf_tree t" and "i < length t" and "ParsedAlias_string L source = Inr pa" and "isValid pa"
    and "getLeaf L pa = Inr leaf" and "isPathAbsolute leaf" and "target (node_path t i) dest = Inr ps"
  shows "\<exists>t' changed. addAliasFromSourceAndRelativeDest L t i source dest prio = (t', Inr changed) \<and>
    alias_frame t t' ps \<and>
    content t' = (content t)(ps := Some (stored_alias (getAlias L (setLeaf pa leaf)) prio (content t ps))) \<and>
    (changed \<longleftrightarrow> content t' \<noteq> content t)"
proof -
  obtain t1 r where t1: "treePathRetrieve NullElement t i dest False = (t1, r)" by fastforce
  from treePathRetrieve_spec [OF assms(1,2) t1] assms(7) obtain k where k: "r = Inr k" "k < length t1"
      "node_path t1 k = ps" "grows t t1" "content t1 = content t"
      "\<forall>j<length t. \<not> prefix (node_path t j) ps \<longrightarrow> children t1 j = children t j" by auto
  from k(4) have w1: "wf_tree t1" "length t \<le> length t1" "\<forall>j<length t. node_path t1 j = node_path t j"
    by (simp_all add: grows_def)
  obtain t' changed where t': "addAliasImpl t1 k (getAlias L (setLeaf pa leaf)) prio = (t', changed)"
      "wf_tree t'" "same_shape t1 t'"
      "content t' = (content t)(ps := Some (stored_alias (getAlias L (setLeaf pa leaf)) prio (content t ps)))"
      "changed \<longleftrightarrow> content t' \<noteq> content t"
    using alias_stored [OF w1(1) k(2)] k(3,5) by metis
  have "alias_frame t t' ps"
    using t'(2,3) w1 k(6) same_shape_node_path [OF t'(3)]
    by (auto simp: alias_frame_def same_shape_def children_def)
  with t' assms(3-6) k(1) t1 show ?thesis
    by (auto simp: addAliasFromSourceAndRelativeDest_def getAbsolutePath_def)
qed

text \<open>The case of a source that is a plain absolute path.\<close>

lemma plain_source:
  assumes "lib_parse L source = None" and "isPathAbsolute source"
  shows "\<exists>pa. ParsedAlias_string L source = Inr pa \<and> isValid pa \<and> getLeaf L pa = Inr source \<and>
    getAlias L (setLeaf pa source) = source"
  using assms
  by (simp add: ParsedAlias_string_def isValid_def isNull_json_def getLeaf_def setLeaf_def getAlias_def
      leaf_of.simps [of "JString source"] set_leaf_no_child)

lemma addAliasFromSource_plain:
  assumes "wf_tree t" and "i < length t" and "lib_parse L source = None" and "isPathAbsolute source"
    and "target (node_path t i) dest = Inr ps"
  shows "\<exists>t' changed. addAliasFromSourceAndRelativeDest L t i source dest prio = (t', Inr changed) \<and>
    alias_frame t t' ps \<and>
    content t' = (content t)(ps := Some (stored_alias source prio (content t ps))) \<and>
    (changed \<longleftrightarrow> content t' \<noteq> content t)"
proof -
  obtain pa where "ParsedAlias_string L source = Inr pa" "isValid pa" "getLeaf L pa = Inr source"
    "getAlias L (setLeaf pa source) = source"
    using plain_source [OF assms(3,4)] by blast
  with addAliasFromSource_spec [OF assms(1,2) _ _ _ assms(4,5), of L source pa] show ?thesis by simp
qed

lemma absolute_target: "isPathAbsolute path \<Longrightarrow> target base path = target [] path"
  by (simp add: target_def isPathAbsolute_def)

lemma processEntry_plain:
  assumes "wf_tree t" and "i < length t" and "permitRelativePath opts \<or> isPathAbsolute path"
    and "isPathAbsolute src" and "\<not> doesPathContainWildcard src" and "lib_parse L src = None"
    and "target (node_path t i) path = Inr ps" and "ar_tree run = t"
  shows "\<exists>t' changed. m_processEntry L opts i path (JString src) prio run =
      Some (run\<lparr>ar_tree := t', ar_flag := (ar_flag run \<or> changed)\<rparr>) \<and>
    wf_tree t' \<and> content t' = (content t)(ps := Some (stored_alias src prio (content t ps))) \<and>
    (changed \<longleftrightarrow> content t' \<noteq> content t)"
proof -
  obtain t' changed where
    "addAliasFromSourceAndRelativeDest L t i src path prio = (t', Inr changed)" "alias_frame t t' ps"
    "content t' = (content t)(ps := Some (stored_alias src prio (content t ps)))"
    "changed \<longleftrightarrow> content t' \<noteq> content t"
    using addAliasFromSource_plain [OF assms(1,2,6,4,7)] by blast
  moreover have "m_processEntry L opts i path (JString src) prio run =
      Some (m_processSingleEntry L i path src prio run)"
    using assms(3-5) by (auto simp: m_processEntry_def ParsedAlias_json_def
        m_parse.simps [of L "JString src"] getLeaf_def leaf_of.simps [of "JString src"] getAlias_def)
  ultimately show ?thesis
    using assms(8)
    by (intro exI [of _ t'] exI [of _ changed]) (simp add: m_processSingleEntry_def alias_frame_def)
qed

text \<open>
  An old-style route given to \<^verbatim>\<open>addAliasFromRoute\<close> (a JSON object whose destination is an
  absolute path and whose source is an absolute path without a wildcard) always returns, and
  stores at the destination an alias to the source with the given priority, unless an alias of
  higher priority is there; it creates the missing nodes on the way as null elements, changes
  nothing else, and reports a change exactly when there was one.
\<close>

lemma route_adds_alias:
  assumes "wf_tree t" and "lib_parse L route = Some (JObject ms)"
    and "map_of ms ''destination'' = Some (JString dest)" and "map_of ms ''source'' = Some (JString src)"
    and "isPathAbsolute dest" and "isPathAbsolute src" and "\<not> doesPathContainWildcard src"
    and "lib_parse L src = None" and "target [] dest = Inr ps"
  shows "\<exists>t' changed. addAliasFromRoute L t 0 route prio = Some (t', Inr changed) \<and> wf_tree t' \<and>
    content t' = (content t)(ps := Some (stored_alias src prio (content t ps))) \<and>
    (changed \<longleftrightarrow> content t' \<noteq> content t)"
proof -
  have d: "dest \<noteq> []" "dest \<noteq> PRIORITY_KEY"
    using assms(5) by (auto simp: isPathAbsolute_def PRIORITY_KEY_def)
  have p: "(word_of_int (uint prio) :: u8) = prio" "in_int_range (uint prio)"
    using uint_bounded [of prio] order_trans [of "- (2 ^ 31)" 0 "uint prio"]
    by (simp_all add: in_int_range_def)
  obtain t' changed where
    "m_processEntry L AliasProcessor_create 0 dest (JString src) prio (start_run t) =
      Some ((start_run t)\<lparr>ar_tree := t', ar_flag := (ar_flag (start_run t) \<or> changed)\<rparr>)"
    "wf_tree t'" "content t' = (content t)(ps := Some (stored_alias src prio (content t ps)))"
    "changed \<longleftrightarrow> content t' \<noteq> content t"
    using processEntry_plain [OF assms(1) wf_nonempty [OF assms(1)] _ assms(6-8),
        of AliasProcessor_create dest ps "start_run t" prio] assms(1,5,9)
    by (auto simp: node_path_root start_run_def)
  then show ?thesis
    using assms(2-4) d p
    by (auto simp: addAliasFromRoute_def jsonParse_def convertRouteToAlias_def createJSONAlias_def
        isNull_json_def applyPriorityToAlias_def process_alias_def AutomaticAliases_def
        m_processObject_def run_result_def start_run_def)
qed

definition route_lib :: json_lib where
  "route_lib = plain_lib\<lparr>lib_parse := (\<lambda>s.
     if s = ''{}'' then Some (JObject [(''destination'', JString ''/me/head''), (''source'', JString ''/dev/0'')]) else None)\<rparr>"

lemma route_adds_alias_witness:
  "\<exists>t'. addAliasFromRoute route_lib PathTree_create 0 ''{}'' 255 = Some (t', Inr True) \<and>
     content t' [''me'', ''head''] = Some (AliasElement ''/dev/0'' 255)"
proof -
  let ?ms = "[(''destination'', JString ''/me/head''), (''source'', JString ''/dev/0'')]"
  have hyps: "lib_parse route_lib ''{}'' = Some (JObject ?ms)" "map_of ?ms ''destination'' = Some (JString ''/me/head'')"
    "map_of ?ms ''source'' = Some (JString ''/dev/0'')" "isPathAbsolute ''/me/head''" "isPathAbsolute ''/dev/0''"
    "\<not> doesPathContainWildcard ''/dev/0''" "lib_parse route_lib ''/dev/0'' = None"
    "target [] ''/me/head'' = Inr [''me'', ''head'']"
    by (simp_all add: route_lib_def isPathAbsolute_def doesPathContainWildcard_def WILDCARD_SUFFIX_def
        target_def strip_trailing_separator_def)
  from route_adds_alias [OF wf_PathTree_create hyps, of 255] show ?thesis
    by (auto simp: stored_alias_def fun_eq_iff)
qed

subsection \<open>Wildcards\<close>

text \<open>The text of the path of a position, as \<open>getFullPath\<close> prints it.\<close>

definition printed :: "string list \<Rightarrow> string" where
  "printed ps = CHR ''/'' # join_components ps"

lemma join_append:
  "ps \<noteq> [] \<Longrightarrow> qs \<noteq> [] \<Longrightarrow> join_components (ps @ qs) = join_components ps @ CHR ''/'' # join_components qs"
proof (induction ps)
  case Nil
  then show ?case by simp
next
  case (Cons p ps)
  then show ?case by (cases "ps = []"; cases qs) (simp_all add: join_components_Cons getPathSeparator_def)
qed

text \<open>The relative path the functor receives is the printed path below the starting node.\<close>

lemma relative_printed:
  assumes "sp \<noteq> []"
  shows "drop (length (printed sp) + 1) (printed (sp @ rel)) = join_components rel"
  using assms by (cases "rel = []") (simp_all add: printed_def join_append)

text \<open>
  The destination of the alias for a relative path, below a destination \<open>ds\<close> that is absolute or
  relative to the device node.
\<close>

definition dest_base :: "bool \<Rightarrow> string list \<Rightarrow> string list" where
  "dest_base absolute base = (if absolute then [] else base)"

lemma target_plain:
  assumes "ds \<noteq> []" and "\<And>c. c \<in> set (ds @ rel) \<Longrightarrow> plain_name c"
  shows "target base ((if absolute then ''/'' else []) @ join_components ds @ ''/'' @ join_components rel) =
    Inr (dest_base absolute base @ ds @ rel)"
proof -
  define p where "p = join_components ds @ ''/'' @ join_components rel"
  have strip: "strip_trailing_separator p = join_components (ds @ rel)"
  proof (cases "rel = []")
    case True
    then show ?thesis by (simp add: p_def strip_trailing_separator_def)
  next
    case False
    then have "p = join_components (ds @ rel)" using assms(1) by (simp add: p_def join_append)
    with join_last [of "ds @ rel"] assms show ?thesis by (simp add: strip_trailing_separator_def)
  qed
  have comps: "split_components (join_components (ds @ rel)) = ds @ rel"
    using assms by (intro split_components_unique [symmetric]) (auto simp: plain_name_def)
  have hd: "hd p \<noteq> CHR ''/''" "p \<noteq> []"
  proof -
    obtain d ds' where ds: "ds = d # ds'" using assms(1) by (cases ds) auto
    then have "plain_name d" using assms(2) by simp
    then obtain x xs where "d = x # xs" "x \<noteq> CHR ''/''" by (cases d) (auto simp: plain_name_def)
    with ds show "hd p \<noteq> CHR ''/''" "p \<noteq> []"
      by (simp_all add: p_def join_components_prefix)
  qed
  have "resolve_names False (join_components (ds @ rel)) b (ds @ rel) = Inr (b @ ds @ rel)" for b
    by (rule resolve_plain) (rule assms(2))
  moreover have "p \<noteq> ''/''" using hd(1) by auto
  ultimately have "target base ((if absolute then ''/'' else []) @ p) = Inr (dest_base absolute base @ ds @ rel)"
    using strip comps hd by (simp add: target_def dest_base_def)
  then show ?thesis by (simp add: p_def)
qed

text \<open>
  What stays true of the run while a wildcard traverses the subtree of \<open>S\<close>, which was \<open>t1\<close> when
  the traversal began.
\<close>

definition wild_inv :: "PathTree \<Rightarrow> nat \<Rightarrow> alias_run \<Rightarrow> bool" where
  "wild_inv t1 S run \<longleftrightarrow>
     ar_exn run = None \<and> wf_tree (ar_tree run) \<and> length t1 \<le> length (ar_tree run) \<and>
     (\<forall>j<length t1. node_path (ar_tree run) j = node_path t1 j) \<and>
     (\<forall>j\<in>set (preorder t1 S). children (ar_tree run) j = children t1 j) \<and>
     (\<forall>ps. prefix (node_path t1 S) ps \<longrightarrow> content (ar_tree run) ps = content t1 ps)"

lemma not_under:
  assumes "\<not> prefix sp D" and "\<not> prefix D sp"
  shows "\<not> prefix (sp @ x) (D @ y)"
  using assms by (meson append_prefixD prefix_def prefix_same_cases)

definition wild_functor ::
    "json_lib \<Rightarrow> nat \<Rightarrow> string \<Rightarrow> AliasPriority \<Rightarrow> nat \<Rightarrow> string \<Rightarrow> alias_run \<Rightarrow> alias_run" where
  "wild_functor L devNode path prio i relPath run =
     m_processSingleEntry L devNode (path @ getPathSeparator @ relPath)
       (getFullPath (ar_tree run) i) prio run"

lemma wildcard_step:
  assumes t1: "wf_tree t1" "S < length t1" "dev < length t1" "node_path t1 S = sp" "sp \<noteq> []"
    and ds: "ds \<noteq> []" "\<And>c. c \<in> set ds \<Longrightarrow> plain_name c"
    and path: "path = (if absolute then ''/'' else []) @ join_components ds"
    and D: "D = dest_base absolute (node_path t1 dev) @ ds" "\<not> prefix sp D" "\<not> prefix D sp"
    and names: "\<And>ps. prefix sp ps \<Longrightarrow> content t1 ps \<noteq> None \<Longrightarrow>
      (\<forall>c\<in>set ps. plain_name c) \<and> lib_parse L (printed ps) = None"
    and run: "wild_inv t1 S run"
    and j: "j \<in> set (preorder t1 S)" "node_path t1 j = sp @ rel"
  shows "\<exists>t' changed. wildcard_visit (length (printed sp)) (wild_functor L dev path prio) j run =
      run\<lparr>ar_tree := t', ar_flag := (ar_flag run \<or> changed)\<rparr> \<and>
    wild_inv t1 S (run\<lparr>ar_tree := t', ar_flag := (ar_flag run \<or> changed)\<rparr>) \<and>
    content t' = (if content t1 (sp @ rel) = None then content (ar_tree run)
      else (content (ar_tree run))(D @ rel :=
        Some (stored_alias (printed (sp @ rel)) prio (content (ar_tree run) (D @ rel))))) \<and>
    (changed \<longleftrightarrow> content t' \<noteq> content (ar_tree run))"
proof -
  let ?t = "ar_tree run"
  have jl: "j < length t1" using set_preorder [OF t1(1,2)] j(1) by auto
  have inv: "ar_exn run = None" "wf_tree ?t" "length t1 \<le> length ?t" "node_path ?t j = sp @ rel"
      "dev < length ?t" "node_path ?t dev = node_path t1 dev" "j < length ?t"
      "content ?t (sp @ rel) = content t1 (sp @ rel)"
    using run jl t1(3,4) j(2) by (auto simp: wild_inv_def)
  have full: "getFullPath ?t j = printed (sp @ rel)"
    using getFullPath_eq [OF inv(2,7)] inv(4) by (simp add: printed_def)
  have null: "isNull (value_of ?t j) \<longleftrightarrow> content t1 (sp @ rel) = None"
    using content_node [OF inv(2,7)] inv(4,8) by (auto split: if_splits)
  show ?thesis
  proof (cases "content t1 (sp @ rel) = None")
    case True
    with null inv(1) run show ?thesis
      by (intro exI [of _ ?t] exI [of _ False]) (simp add: wildcard_visit_def)
  next
    case False
    with names [of "sp @ rel"] have n: "\<forall>c\<in>set (sp @ rel). plain_name c"
      "lib_parse L (printed (sp @ rel)) = None" by auto
    have nn: "\<not> isNull (value_of ?t j)" using null False by simp
    let ?dest = "path @ getPathSeparator @ join_components rel"
    have "\<And>c. c \<in> set (ds @ rel) \<Longrightarrow> plain_name c" using ds(2) n(1) by auto
    from target_plain [OF ds(1) this, where absolute = absolute and base = "node_path t1 dev"]
    have tgt: "target (node_path ?t dev) ?dest = Inr (D @ rel)"
      using inv(6) by (simp add: path D(1) getPathSeparator_def)
    have abs: "isPathAbsolute (printed (sp @ rel))" by (simp add: isPathAbsolute_def printed_def)
    obtain t' changed where t': "addAliasFromSourceAndRelativeDest L ?t dev (printed (sp @ rel)) ?dest prio = (t', Inr changed)"
      "alias_frame ?t t' (D @ rel)"
      "content t' = (content ?t)(D @ rel := Some (stored_alias (printed (sp @ rel)) prio (content ?t (D @ rel))))"
      "changed \<longleftrightarrow> content t' \<noteq> content ?t"
      using addAliasFromSource_plain [OF inv(2,5) n(2) abs tgt] by blast
    have kids: "children t' k = children t1 k" if k: "k \<in> set (preorder t1 S)" for k
    proof -
      from set_preorder [OF t1(1,2)] k t1(4) obtain x where x: "k < length t1" "node_path t1 k = sp @ x"
        by auto
      with run have "node_path ?t k = sp @ x" "children ?t k = children t1 k"
        using k by (auto simp: wild_inv_def)
      with t'(2) x(1) inv(3) not_under [OF D(2,3)] show ?thesis by (simp add: alias_frame_def)
    qed
    have "\<not> prefix sp (D @ rel)" using not_under [OF D(2,3), of "[]" rel] by simp
    then have under: "content t' ps = content t1 ps" if "prefix sp ps" for ps
      using that t'(3) run t1(4) by (auto simp: wild_inv_def)
    have "wild_inv t1 S (run\<lparr>ar_tree := t', ar_flag := (ar_flag run \<or> changed)\<rparr>)"
      using t'(2) run kids under t1(4) by (simp add: wild_inv_def alias_frame_def)
    moreover have "wildcard_visit (length (printed sp)) (wild_functor L dev path prio) j run =
        run\<lparr>ar_tree := t', ar_flag := (ar_flag run \<or> changed)\<rparr>"
      using nn inv(1) full t'(1) relative_printed [OF t1(5), of rel]
      by (simp add: wildcard_visit_def wild_functor_def m_processSingleEntry_def)
    ultimately show ?thesis
      unfolding if_not_P [OF False] using t'(3,4) by blast
  qed
qed

text \<open>The content after aliases for the positions \<open>A\<close> below \<open>sp\<close> were stored below \<open>D\<close>.\<close>

definition aliased ::
    "(string list \<Rightarrow> bool) \<Rightarrow> string list \<Rightarrow> string list \<Rightarrow> AliasPriority
     \<Rightarrow> (string list \<rightharpoonup> PathElement) \<Rightarrow> (string list \<rightharpoonup> PathElement)" where
  "aliased A sp D prio m = (\<lambda>ps.
     if take (length D) ps = D \<and> A (sp @ drop (length D) ps)
     then Some (stored_alias (printed (sp @ drop (length D) ps)) prio (m ps)) else m ps)"

lemma aliased_insert:
  assumes "\<not> A (sp @ rel)"
  shows "aliased (\<lambda>q. q = sp @ rel \<or> A q) sp D prio m =
    aliased A sp D prio (m(D @ rel := Some (stored_alias (printed (sp @ rel)) prio (m (D @ rel)))))"
proof
  fix ps
  have "ps = D @ rel \<longleftrightarrow> take (length D) ps = D \<and> drop (length D) ps = rel"
    by (metis append_eq_conv_conj)
  with assms show "aliased (\<lambda>q. q = sp @ rel \<or> A q) sp D prio m ps =
    aliased A sp D prio (m(D @ rel := Some (stored_alias (printed (sp @ rel)) prio (m (D @ rel))))) ps"
    by (cases "ps = D @ rel") (auto simp: aliased_def)
qed

lemma aliased_other: "\<not> A (sp @ rel) \<Longrightarrow> aliased A sp D prio m (D @ rel) = m (D @ rel)"
  by (simp add: aliased_def)

lemma wildcard_fold:
  assumes t1: "wf_tree t1" "S < length t1" "dev < length t1" "node_path t1 S = sp" "sp \<noteq> []"
    and ds: "ds \<noteq> []" "\<And>c. c \<in> set ds \<Longrightarrow> plain_name c"
    and path: "path = (if absolute then ''/'' else []) @ join_components ds"
    and D: "D = dest_base absolute (node_path t1 dev) @ ds" "\<not> prefix sp D" "\<not> prefix D sp"
    and names: "\<And>ps. prefix sp ps \<Longrightarrow> content t1 ps \<noteq> None \<Longrightarrow>
      (\<forall>c\<in>set ps. plain_name c) \<and> lib_parse L (printed ps) = None"
  shows "wild_inv t1 S run \<Longrightarrow> set js \<subseteq> set (preorder t1 S) \<Longrightarrow> distinct js \<Longrightarrow>
    \<exists>run'. fold (wildcard_visit (length (printed sp)) (wild_functor L dev path prio)) js run = run' \<and>
      wild_inv t1 S run' \<and>
      content (ar_tree run') = aliased (\<lambda>q. content t1 q \<noteq> None \<and> (\<exists>j\<in>set js. node_path t1 j = q)) sp D prio
        (content (ar_tree run)) \<and>
      (ar_flag run' \<longleftrightarrow> ar_flag run \<or> content (ar_tree run') \<noteq> content (ar_tree run))"
proof (induction js arbitrary: run)
  case Nil
  then show ?case by (auto simp: aliased_def)
next
  case (Cons j js)
  let ?A = "\<lambda>js q. content t1 q \<noteq> None \<and> (\<exists>j\<in>set js. node_path t1 j = q)"
  have sub: "\<And>k. k \<in> set (j # js) \<Longrightarrow> k < length t1" and j: "j \<in> set (preorder t1 S)"
    using Cons.prems(2) set_preorder [OF t1(1,2)] by auto
  obtain rel where rel: "node_path t1 j = sp @ rel"
    using j set_preorder [OF t1(1,2)] t1(4) by auto
  obtain t' changed where step: "wildcard_visit (length (printed sp)) (wild_functor L dev path prio) j run =
      run\<lparr>ar_tree := t', ar_flag := (ar_flag run \<or> changed)\<rparr>"
    "wild_inv t1 S (run\<lparr>ar_tree := t', ar_flag := (ar_flag run \<or> changed)\<rparr>)"
    "content t' = (if content t1 (sp @ rel) = None then content (ar_tree run)
      else (content (ar_tree run))(D @ rel :=
        Some (stored_alias (printed (sp @ rel)) prio (content (ar_tree run) (D @ rel)))))"
    "changed \<longleftrightarrow> content t' \<noteq> content (ar_tree run)"
    using wildcard_step [OF t1 ds path D names Cons.prems(1) j rel, of prio] by blast
  obtain run' where run': "fold (wildcard_visit (length (printed sp)) (wild_functor L dev path prio)) js
      (run\<lparr>ar_tree := t', ar_flag := (ar_flag run \<or> changed)\<rparr>) = run'"
    "wild_inv t1 S run'" "content (ar_tree run') = aliased (?A js) sp D prio (content t')"
    "ar_flag run' \<longleftrightarrow> (ar_flag run \<or> changed) \<or> content (ar_tree run') \<noteq> content t'"
    using Cons.IH [OF step(2)] Cons.prems(2,3) by auto
  have notA: "\<not> ?A js (sp @ rel)"
    using Cons.prems(3) sub rel node_path_inj [OF t1(1)] by (metis distinct.simps(2) list.set_intros)
  have c: "content (ar_tree run') = aliased (?A (j # js)) sp D prio (content (ar_tree run))"
  proof (cases "content t1 (sp @ rel) = None")
    case True
    then have "?A (j # js) = ?A js" using rel by (auto simp: fun_eq_iff)
    with True run'(3) step(3) show ?thesis by simp
  next
    case False
    then have "?A (j # js) = (\<lambda>q. q = sp @ rel \<or> ?A js q)" using rel by (auto simp: fun_eq_iff)
    moreover from False have "content t' = (content (ar_tree run))(D @ rel :=
        Some (stored_alias (printed (sp @ rel)) prio (content (ar_tree run) (D @ rel))))"
      using step(3) by (simp only: if_False simp_thms)
    ultimately show ?thesis
      unfolding run'(3) by (simp only: aliased_insert [where A = "?A js", OF notA])
  qed
  have "content (ar_tree run') (D @ rel) = content t' (D @ rel)"
    unfolding run'(3) by (rule aliased_other) (rule notA)
  moreover have "content t' ps = content (ar_tree run) ps" if "ps \<noteq> D @ rel" for ps
    using that step(3) by simp
  ultimately have "changed \<or> content (ar_tree run') \<noteq> content t' \<longleftrightarrow> content (ar_tree run') \<noteq> content (ar_tree run)"
    using step(4) by (metis ext)
  with run'(1,2,4) c step(1) show ?case by auto
qed


definition demo_device_tree :: PathTree where
  "demo_device_tree =
    [\<lparr>m_value = NullElement, m_children = [1], m_name = [], m_parent = None\<rparr>,
     \<lparr>m_value = DeviceElement ''dev'' ''localhost'' JNull, m_children = [2], m_name = ''dev'', m_parent = Some 0\<rparr>,
     \<lparr>m_value = InterfaceElement, m_children = [3], m_name = ''tracker'', m_parent = Some 1\<rparr>,
     \<lparr>m_value = SensorElement, m_children = [], m_name = ''0'', m_parent = Some 2\<rparr>]"

lemma wf_demo_device_tree: "wf_tree demo_device_tree"
  by code_simp


end
