(* ===== verification/Tree_Resolution.thy ===== *)
theory Tree_Resolution
  imports Alias_Effects
begin

text \<open>
  Resolving a path of the tree to the device, interface and sensor that feed it, through the
  aliases on the way: \<^verbatim>\<open>src/osvr/Common/GeneralizedTransform.cpp\<close>, \<^verbatim>\<open>OriginalSource.cpp\<close>,
  \<^verbatim>\<open>ResolveTreeNode.cpp\<close> and \<^verbatim>\<open>ResolveFullTree.cpp\<close>.

  An alias may lead, directly or through others, to itself; the code then recurses without
  end. The resolution is a partial function here, and \<open>None\<close> is that it does not return.
  Assertions (\<^verbatim>\<open>BOOST_ASSERT\<close>) are those of a release build, which has none.
\<close>

subsection \<open>Transforms\<close>

text \<open>The levels of nested transforms, outermost first, each without its child member.\<close>

type_synonym GeneralizedTransform = "json list"

text \<open>\<^verbatim>\<open>pushLevelBack\<close> on the levels of a transform, the loop of \<^verbatim>\<open>nest\<close>.\<close>

definition without_child :: "json \<Rightarrow> json" where
  "without_child level = (case level of JObject ms \<Rightarrow> JObject (obj_remove ''child'' ms) | _ \<Rightarrow> level)"

function nest_levels :: "json \<Rightarrow> json list" where
  "nest_levels v = (case child_of v of None \<Rightarrow> [] | Some c \<Rightarrow> without_child v # nest_levels c)"
  by pat_completeness auto
termination
  by (relation "measure size") (auto dest: child_smaller)

declare nest_levels.simps [simp del]

definition nest :: "json \<Rightarrow> GeneralizedTransform \<Rightarrow> GeneralizedTransform" where
  "nest transform gt = (if \<not> isObject transform then gt else gt @ nest_levels transform)"

definition wrap :: "json \<Rightarrow> GeneralizedTransform \<Rightarrow> GeneralizedTransform" where
  "wrap transform gt = (if isObject transform then transform # gt else gt)"

text \<open>
  \<^verbatim>\<open>recompose\<close>: from the innermost level outwards, each level gets what was built so far as its
  child, unless that is null. The levels are objects.
\<close>

definition with_child :: "json \<Rightarrow> json \<Rightarrow> json" where
  "with_child level state =
     (if isNull_json state then level
      else case level of JObject ms \<Rightarrow> JObject (obj_put ''child'' state ms) | _ \<Rightarrow> level)"

definition recompose :: "GeneralizedTransform \<Rightarrow> json \<Rightarrow> json" where
  "recompose gt leaf = foldr with_child gt leaf"

definition gt_get :: "GeneralizedTransform \<Rightarrow> string \<Rightarrow> json" where
  "gt_get gt leaf = recompose gt (if leaf = [] then JNull else JString leaf)"

subsection \<open>The original source\<close>

record OriginalSource =
  os_device :: "nat option"
  os_interface :: "nat option"
  os_sensor :: "nat option"
  os_transform :: GeneralizedTransform

definition OriginalSource_create :: OriginalSource where
  "OriginalSource_create = \<lparr>os_device = None, os_interface = None, os_sensor = None, os_transform = []\<rparr>"

definition isResolved :: "OriginalSource \<Rightarrow> bool" where
  "isResolved src \<longleftrightarrow> os_device src \<noteq> None \<and> os_interface src \<noteq> None"

definition setDevice :: "nat \<Rightarrow> OriginalSource \<Rightarrow> OriginalSource" where
  "setDevice node src = src\<lparr>os_device := Some node\<rparr>"

definition setInterface :: "nat \<Rightarrow> OriginalSource \<Rightarrow> OriginalSource" where
  "setInterface node src = src\<lparr>os_interface := Some node\<rparr>"

definition setSensor :: "nat \<Rightarrow> OriginalSource \<Rightarrow> OriginalSource" where
  "setSensor node src = src\<lparr>os_sensor := Some node\<rparr>"

definition nestTransform :: "json \<Rightarrow> OriginalSource \<Rightarrow> OriginalSource" where
  "nestTransform transform src = src\<lparr>os_transform := nest transform (os_transform src)\<rparr>"

definition getDevicePath :: "PathTree \<Rightarrow> OriginalSource \<Rightarrow> string" where
  "getDevicePath t src = (case os_device src of None \<Rightarrow> [] | Some d \<Rightarrow> getFullPath t d)"

definition getDeviceElement :: "PathTree \<Rightarrow> OriginalSource \<Rightarrow> PathElement option" where
  "getDeviceElement t src =
     (case os_device src of
        None \<Rightarrow> None
      | Some d \<Rightarrow> (case value_of t d of DeviceElement n s desc \<Rightarrow> Some (DeviceElement n s desc) | _ \<Rightarrow> None))"

definition getInterfaceName :: "PathTree \<Rightarrow> OriginalSource \<Rightarrow> string" where
  "getInterfaceName t src = (case os_interface src of None \<Rightarrow> [] | Some i \<Rightarrow> getName t i)"

text \<open>The sensor's name read as a number by \<^verbatim>\<open>boost::lexical_cast\<close>, the parameter \<open>lexical_cast\<close>.\<close>

definition getSensorNumber :: "(string \<Rightarrow> 'a option) \<Rightarrow> PathTree \<Rightarrow> OriginalSource \<Rightarrow> 'a option" where
  "getSensorNumber lexical_cast t src =
     (case os_sensor src of None \<Rightarrow> None | Some s \<Rightarrow> lexical_cast (getName t s))"

definition os_path :: "PathTree \<Rightarrow> OriginalSource \<Rightarrow> string" where
  "os_path t src =
     (case os_sensor src of
        Some s \<Rightarrow> getFullPath t s
      | None \<Rightarrow>
          (case os_interface src of
             Some i \<Rightarrow> getFullPath t i
           | None \<Rightarrow> (case os_device src of Some d \<Rightarrow> getFullPath t d | None \<Rightarrow> [])))"

definition getTransformJson :: "PathTree \<Rightarrow> OriginalSource \<Rightarrow> json" where
  "getTransformJson t src = gt_get (os_transform src) (os_path t src)"

definition hasTransform :: "OriginalSource \<Rightarrow> bool" where
  "hasTransform src \<longleftrightarrow> os_transform src \<noteq> []"

text \<open>
  \<^verbatim>\<open>DecomposeOriginalSource\<close>: from a node up through its parents to a device. In a
  well-formed tree a parent precedes its child, so the guard only makes the recursion total.
\<close>

function decompose ::
    "PathTree \<Rightarrow> nat \<Rightarrow> OriginalSource \<Rightarrow> OriginalSource \<times> (exn, unit) result" where
  "decompose t node src =
     (case value_of t node of
        SensorElement \<Rightarrow>
          let src1 = setSensor node src
          in (case getParent t node of
                None \<Rightarrow> (src1, Inl (SensorMissingParent (getFullPath t node)))
              | Some p \<Rightarrow>
                  if \<not> p < node then (src1, Inl (LogicError ''parent cycle''))
                  else (case decompose t p src1 of
                          (src2, Inl e) \<Rightarrow> (src2, Inl e)
                        | (src2, Inr u) \<Rightarrow>
                            if os_interface src2 = None
                            then (src2, Inl (SensorMissingInterfaceParent (getFullPath t node)))
                            else (src2, Inr ())))
      | InterfaceElement \<Rightarrow>
          let src1 = setInterface node src
          in (case getParent t node of
                None \<Rightarrow> (src1, Inl (InterfaceMissingParent (getFullPath t node)))
              | Some p \<Rightarrow>
                  if \<not> p < node then (src1, Inl (LogicError ''parent cycle''))
                  else decompose t p src1)
      | DeviceElement n s d \<Rightarrow> (setDevice node src, Inr ())
      | _ \<Rightarrow> (src, Inl (RuntimeError ''Element type encountered that is not recognized in decomposition!'')))"
  by pat_completeness auto
termination
  by (relation "measure (\<lambda>(t, node, src). node)") auto

declare decompose.simps [simp del]

subsection \<open>Resolution\<close>

definition ifNullTryInferFromParent :: "PathTree \<Rightarrow> nat \<Rightarrow> PathTree" where
  "ifNullTryInferFromParent t node =
     (if \<not> isNull (value_of t node) then t
      else (case getParent t node of
              None \<Rightarrow> t
            | Some p \<Rightarrow> if value_of t p \<noteq> InterfaceElement then t else set_value t node SensorElement))"

partial_function (option) resolveTreeNodeImpl ::
    "json_lib \<Rightarrow> PathTree \<Rightarrow> string \<Rightarrow> OriginalSource
     \<Rightarrow> (PathTree \<times> OriginalSource \<times> (exn, unit) result) option" where
  "resolveTreeNodeImpl L pathTree path source =
     (case getNodeByPath pathTree path of
        (t1, Inl e) \<Rightarrow> Some (t1, source, Inl e)
      | (t1, Inr node) \<Rightarrow>
          let t2 = ifNullTryInferFromParent t1 node
          in (case value_of t2 node of
                AliasElement s p \<Rightarrow>
                  (case ParsedAlias_string L s of
                     Inl e \<Rightarrow> Some (t2, source, Inl e)
                   | Inr parsed \<Rightarrow>
                       if \<not> isValid parsed then Some (t2, source, Inr ())
                       else let source' = (if \<not> isSimple parsed
                                           then nestTransform (getAliasValue parsed) source else source)
                            in (case getLeaf L parsed of
                                  Inl e \<Rightarrow> Some (t2, source', Inl e)
                                | Inr leaf \<Rightarrow> resolveTreeNodeImpl L t2 leaf source'))
              | SensorElement \<Rightarrow> Some (t2, decompose t2 node source)
              | InterfaceElement \<Rightarrow> Some (t2, decompose t2 node source)
              | _ \<Rightarrow> Some (t2, source, Inr ())))"

definition resolveTreeNode ::
    "json_lib \<Rightarrow> PathTree \<Rightarrow> string \<Rightarrow> (PathTree \<times> (exn, OriginalSource option) result) option" where
  "resolveTreeNode L pathTree path =
     map_option (\<lambda>(t, source, r).
        case r of
          Inl e \<Rightarrow> (t, Inl e)
        | Inr u \<Rightarrow> (t, Inr (if isResolved source then Some source else None)))
       (resolveTreeNodeImpl L pathTree path OriginalSource_create)"

text \<open>
  \<^verbatim>\<open>resolveFullTree\<close> resolves the path of every node, the nodes that resolution itself creates
  included; \<open>None\<close> is that the traversal or a resolution does not end, and the first exception
  ends it.
\<close>

partial_function (option) resolve_visit ::
    "json_lib \<Rightarrow> nat \<Rightarrow> nat \<Rightarrow> PathTree \<Rightarrow> (PathTree \<times> (exn, unit) result) option" where
  "resolve_visit L node k t =
     (if k < length (children t node)
      then let c = children t node ! k
           in Option.bind (resolveTreeNode L t (getFullPath t c)) (\<lambda>(t1, r).
                case r of
                  Inl e \<Rightarrow> Some (t1, Inl e)
                | Inr os \<Rightarrow>
                    Option.bind (resolve_visit L c 0 t1) (\<lambda>(t2, r2).
                      case r2 of
                        Inl e \<Rightarrow> Some (t2, Inl e)
                      | Inr u \<Rightarrow> resolve_visit L node (Suc k) t2))
      else Some (t, Inr ()))"

definition resolveFullTree :: "json_lib \<Rightarrow> PathTree \<Rightarrow> (PathTree \<times> (exn, unit) result) option" where
  "resolveFullTree L t =
     Option.bind (resolveTreeNode L t (getFullPath t 0)) (\<lambda>(t1, r).
       case r of Inl e \<Rightarrow> Some (t1, Inl e) | Inr os \<Rightarrow> resolve_visit L 0 0 t1)"

subsection \<open>Transforms compose\<close>

fun json_sorted :: "json \<Rightarrow> bool" where
  "json_sorted (JObject ms) \<longleftrightarrow> wf_members ms \<and> (\<forall>(k, v)\<in>set ms. json_sorted v)"
| "json_sorted (JArray xs) \<longleftrightarrow> (\<forall>x\<in>set xs. json_sorted x)"
| "json_sorted v \<longleftrightarrow> True"

lemma put_removed: "wf_members ms \<Longrightarrow> obj_put k v (obj_remove k ms) = obj_put k v ms"
  by (rule wf_members_eqI) (auto intro: wf_intros)

lemma json_sorted_child: "json_sorted v \<Longrightarrow> child_of v = Some c \<Longrightarrow> json_sorted c"
  by (cases v) (auto dest: map_of_SomeD)

lemma recompose_nest_levels:
  "json_sorted v \<Longrightarrow> \<not> isNull_json x \<Longrightarrow> recompose (nest_levels v) x = set_leaf v x"
proof (induction v rule: nest_levels.induct)
  case (1 v)
  show ?case
  proof (cases "child_of v")
    case None
    then show ?thesis by (simp add: nest_levels.simps [of v] recompose_def set_leaf_no_child)
  next
    case (Some c)
    then obtain ms where v: "v = JObject ms" by (cases v) simp_all
    have IH: "recompose (nest_levels c) x = set_leaf c x"
      using 1 Some json_sorted_child by blast
    have "\<not> isNull_json (set_leaf c x)"
      using 1(3) by (subst set_leaf.simps) (simp add: isNull_json_def split: json.split option.split)
    then show ?thesis
      using Some 1(2) IH put_removed [of ms]
      by (simp add: v nest_levels.simps [of "JObject ms"] recompose_def with_child_def without_child_def
          set_leaf.simps [of "JObject ms"])
  qed
qed

lemma recompose_append: "recompose (gt1 @ gt2) leaf = recompose gt1 (recompose gt2 leaf)"
  by (simp add: recompose_def)

text \<open>
  Collecting the transforms of the aliases passed on the way and recomposing them around
  the path of the source gives the nesting of the aliases' own JSON: the first alias's
  transform is outermost, and the leaf of each is replaced by what follows.
\<close>

lemma transforms_nest:
  assumes "json_sorted v" and "json_sorted w" and "isObject v" and "isObject w" and "path \<noteq> []"
  shows "gt_get (nest w (nest v [])) path = set_leaf v (set_leaf w (JString path))"
proof -
  have ne: "\<not> isNull_json (set_leaf w (JString path))"
    by (subst set_leaf.simps) (simp add: isNull_json_def split: json.split option.split)
  have "gt_get (nest w (nest v [])) path = recompose (nest_levels v) (recompose (nest_levels w) (JString path))"
    using assms(3-5) by (simp add: gt_get_def nest_def recompose_append)
  also have "recompose (nest_levels w) (JString path) = set_leaf w (JString path)"
    by (rule recompose_nest_levels [OF assms(2)]) (simp add: isNull_json_def)
  also have "recompose (nest_levels v) (set_leaf w (JString path)) = set_leaf v (set_leaf w (JString path))"
    by (rule recompose_nest_levels [OF assms(1) ne])
  finally show ?thesis .
qed

lemma transforms_nest_witness:
  "gt_get (nest (JObject [(''child'', JString ''/b''), (''rotate'', JInt 2)])
      (nest (JObject [(''changeBasis'', JInt 1), (''child'', JString ''/a'')]) [])) ''/dev/0'' =
    set_leaf (JObject [(''changeBasis'', JInt 1), (''child'', JString ''/a'')])
      (set_leaf (JObject [(''child'', JString ''/b''), (''rotate'', JInt 2)]) (JString ''/dev/0''))"
proof (rule transforms_nest)
  have "''child'' < ''rotate''" by code_simp
  then show "json_sorted (JObject [(''child'', JString ''/b''), (''rotate'', JInt 2)])"
    by (simp add: wf_members_def)
next
  have "''changeBasis'' < ''child''" by code_simp
  then show "json_sorted (JObject [(''changeBasis'', JInt 1), (''child'', JString ''/a'')])"
    by (simp add: wf_members_def)
qed simp_all

subsection \<open>Where a chain of aliases leads\<close>

text \<open>
  The path the resolution goes on with from a path, in a tree of a given content; \<open>None\<close> when
  it stops there.
\<close>

definition alias_next :: "json_lib \<Rightarrow> (string list \<rightharpoonup> PathElement) \<Rightarrow> string \<Rightarrow> string option" where
  "alias_next L c path =
     (if \<not> isPathAbsolute path then None
      else (case target [] path of
              Inl e \<Rightarrow> None
            | Inr qs \<Rightarrow>
                (case c qs of
                   Some (AliasElement s p) \<Rightarrow>
                     (case ParsedAlias_string L s of
                        Inl e \<Rightarrow> None
                      | Inr parsed \<Rightarrow>
                          if \<not> isValid parsed then None
                          else (case getLeaf L parsed of Inl e \<Rightarrow> None | Inr leaf \<Rightarrow> Some leaf))
                 | _ \<Rightarrow> None)))"

text \<open>The transforms the alias at a path adds.\<close>

definition transforms_at :: "json_lib \<Rightarrow> (string list \<rightharpoonup> PathElement) \<Rightarrow> string \<Rightarrow> GeneralizedTransform" where
  "transforms_at L c path =
     (case target [] path of
        Inl e \<Rightarrow> []
      | Inr qs \<Rightarrow>
          (case c qs of
             Some (AliasElement s p) \<Rightarrow>
               (case ParsedAlias_string L s of
                  Inl e \<Rightarrow> []
                | Inr parsed \<Rightarrow> if isSimple parsed then [] else nest_levels (getAliasValue parsed))
           | _ \<Rightarrow> []))"

lemma nest_append: "nest v gt = gt @ nest_levels v"
  by (cases v) (simp_all add: nest_def nest_levels.simps)

text \<open>The chain from a path stops within \<open>n\<close> aliases.\<close>

fun walk_ends :: "json_lib \<Rightarrow> (string list \<rightharpoonup> PathElement) \<Rightarrow> nat \<Rightarrow> string \<Rightarrow> bool" where
  "walk_ends L c 0 path \<longleftrightarrow> alias_next L c path = None"
| "walk_ends L c (Suc n) path \<longleftrightarrow>
     (case alias_next L c path of None \<Rightarrow> True | Some path' \<Rightarrow> walk_ends L c n path')"

lemma getNodeByPath_spec:
  assumes "wf_tree t" and "getNodeByPath t path = (t', r)"
  shows "wf_tree t' \<and> content t' = content t \<and> length t \<le> length t' \<and>
    (if \<not> isPathAbsolute path then \<exists>e. r = Inl e
     else (case target [] path of
             Inl e \<Rightarrow> r = Inl e
           | Inr ps \<Rightarrow> \<exists>i. r = Inr i \<and> i < length t' \<and> node_path t' i = ps))"
proof (cases "isPathAbsolute path")
  case False
  with assms show ?thesis
    by (auto simp: getNodeByPath_def pathParseAndRetrieve_def isPathAbsolute_def getPathSeparator_def
        split: if_splits)
next
  case True
  show ?thesis
  proof (cases "path = ''/''")
    case t: True
    with assms True show ?thesis
      by (auto simp: getNodeByPath_def pathParseAndRetrieve_def target_def getPathSeparator_def
          node_path_root dest: wf_nonempty)
  next
    case False
    with True have "treePathRetrieve NullElement t 0 path False = (t', r)"
      using assms(2) by (simp add: getNodeByPath_def pathParseAndRetrieve_def isPathAbsolute_def getPathSeparator_def)
    from treePathRetrieve_spec [OF assms(1) wf_nonempty [OF assms(1)] this] True assms(1)
    show ?thesis by (auto simp: node_path_root grows_def split: sum.splits)
  qed
qed

lemma infer_spec:
  assumes "wf_tree t" and "i < length t"
  shows "wf_tree (ifNullTryInferFromParent t i)"
    and "\<not> isNull (value_of t i) \<Longrightarrow> ifNullTryInferFromParent t i = t"
    and "is_AliasElement (value_of (ifNullTryInferFromParent t i) i) \<longleftrightarrow> is_AliasElement (value_of t i)"
  using assms by (auto simp: ifNullTryInferFromParent_def value_of_set_value isNull_def split: option.split)

text \<open>One step of the resolution: it goes on exactly when there is a next path, with the same content.\<close>

lemma resolve_step:
  assumes "wf_tree t"
  shows "(case alias_next L (content t) path of
      None \<Rightarrow> \<exists>r. resolveTreeNodeImpl L t path source = Some r
    | Some leaf \<Rightarrow> \<exists>t'. resolveTreeNodeImpl L t path source = resolveTreeNodeImpl L t' leaf
          (source\<lparr>os_transform := os_transform source @ transforms_at L (content t) path\<rparr>) \<and>
        wf_tree t' \<and> content t' = content t)"
proof -
  obtain t1 r where t1: "getNodeByPath t path = (t1, r)" by fastforce
  note sp = getNodeByPath_spec [OF assms t1]
  show ?thesis
  proof (cases r)
    case (Inl e)
    then have "alias_next L (content t) path = None"
      using sp by (auto simp: alias_next_def split: if_splits sum.splits)
    with Inl t1 show ?thesis by (simp add: resolveTreeNodeImpl.simps [of L t path])
  next
    case (Inr i)
    with sp obtain qs where i: "isPathAbsolute path" "target [] path = Inr qs" "i < length t1"
      "node_path t1 i = qs" "wf_tree t1" "content t1 = content t"
      by (auto split: if_splits sum.splits)
    have c: "content t qs = (if isNull (value_of t1 i) then None else Some (value_of t1 i))"
      using content_node [OF i(5,3)] i(4,6) by simp
    show ?thesis
    proof (cases "is_AliasElement (value_of t1 i)")
      case False
      then have "alias_next L (content t) path = None"
        using i(1,2) c by (auto simp: alias_next_def split: PathElement.split option.split)
      moreover have "\<not> is_AliasElement (value_of (ifNullTryInferFromParent t1 i) i)"
        using False infer_spec(3) [OF i(5,3)] by simp
      then have "\<exists>r. resolveTreeNodeImpl L t path source = Some r"
        using t1 Inr by (cases "value_of (ifNullTryInferFromParent t1 i) i")
          (simp_all add: resolveTreeNodeImpl.simps [of L t path] Let_def)
      ultimately show ?thesis by simp
    next
      case True
      then obtain s p where v: "value_of t1 i = AliasElement s p" by (cases "value_of t1 i") simp_all
      then have t2: "ifNullTryInferFromParent t1 i = t1" "content t qs = Some (AliasElement s p)"
        using infer_spec(2) [OF i(5,3)] c by (simp_all add: isNull_def)
      show ?thesis
        using i(1,2,5,6) t1 Inr v t2
        by (auto simp: alias_next_def transforms_at_def resolveTreeNodeImpl.simps [of L t path] Let_def
            nestTransform_def nest_append split: sum.split option.split)
    qed
  qed
qed

lemma walk_ends_resolves:
  "wf_tree t \<Longrightarrow> walk_ends L (content t) n path \<Longrightarrow> \<exists>r. resolveTreeNodeImpl L t path source = Some r"
proof (induction n arbitrary: t path source)
  case 0
  with resolve_step [OF 0(1), of L path source] show ?case by simp
next
  case (Suc n)
  show ?case
  proof (cases "alias_next L (content t) path")
    case None
    with resolve_step [OF Suc.prems(1), of L path source] show ?thesis by simp
  next
    case (Some leaf)
    with resolve_step [OF Suc.prems(1), of L path source] obtain t' source'
      where t': "resolveTreeNodeImpl L t path source = resolveTreeNodeImpl L t' leaf source'"
        "wf_tree t'" "content t' = content t" by auto
    with Suc.prems(2) Some Suc.IH [OF t'(2), of leaf source'] show ?thesis by simp
  qed
qed

lemma resolves_walk_ends:
  assumes "resolveTreeNodeImpl L t path source = Some r"
  shows "wf_tree t \<longrightarrow> (\<exists>n. walk_ends L (content t) n path)"
proof (rule resolveTreeNodeImpl.raw_induct [where P = "\<lambda>L t path source r.
    wf_tree t \<longrightarrow> (\<exists>n. walk_ends L (content t) n path)", OF _ assms])
  fix resolve L t path source r
  assume 1: "\<And>L t path source r. resolve L t path source = Some r \<Longrightarrow>
      wf_tree t \<longrightarrow> (\<exists>n. walk_ends L (content t) n path)"
    "(case getNodeByPath t path of
        (t1, Inl e) \<Rightarrow> Some (t1, source, Inl e)
      | (t1, Inr node) \<Rightarrow>
          let t2 = ifNullTryInferFromParent t1 node
          in (case value_of t2 node of
                AliasElement s p \<Rightarrow>
                  (case ParsedAlias_string L s of
                     Inl e \<Rightarrow> Some (t2, source, Inl e)
                   | Inr parsed \<Rightarrow>
                       if \<not> isValid parsed then Some (t2, source, Inr ())
                       else let source' = (if \<not> isSimple parsed
                                           then nestTransform (getAliasValue parsed) source else source)
                            in (case getLeaf L parsed of
                                  Inl e \<Rightarrow> Some (t2, source', Inl e)
                                | Inr leaf \<Rightarrow> resolve L t2 leaf source'))
              | SensorElement \<Rightarrow> Some (t2, decompose t2 node source)
              | InterfaceElement \<Rightarrow> Some (t2, decompose t2 node source)
              | _ \<Rightarrow> Some (t2, source, Inr ()))) = Some r"
  show "wf_tree t \<longrightarrow> (\<exists>n. walk_ends L (content t) n path)"
  proof
    assume wf: "wf_tree t"
    show "\<exists>n. walk_ends L (content t) n path"
    proof (cases "alias_next L (content t) path")
      case None
      then have "walk_ends L (content t) 0 path" by simp
      then show ?thesis ..
    next
      case (Some leaf)
      obtain t1 r1 where t1: "getNodeByPath t path = (t1, r1)" by fastforce
      note sp = getNodeByPath_spec [OF wf t1]
      from Some obtain qs s p pa where a: "isPathAbsolute path" "target [] path = Inr qs"
        "content t qs = Some (AliasElement s p)" "ParsedAlias_string L s = Inr pa" "isValid pa"
        "getLeaf L pa = Inr leaf"
        by (auto simp: alias_next_def split: if_splits sum.splits option.splits PathElement.splits)
      with sp obtain i where i: "r1 = Inr i" "i < length t1" "node_path t1 i = qs" "wf_tree t1" "content t1 = content t"
        by auto
      with content_node [OF i(4,2)] a(3) have v: "value_of t1 i = AliasElement s p"
        by (auto split: if_splits)
      then have t2: "ifNullTryInferFromParent t1 i = t1" using infer_spec(2) [OF i(4,2)] by (simp add: isNull_def)
      obtain source' where "resolve L t1 leaf source' = Some r"
        using 1(2) t1 i(1) v t2 a(4-6) by (auto simp: Let_def)
      from 1(1) [OF this] i(4,5) obtain n where "walk_ends L (content t) n leaf" by auto
      then have "walk_ends L (content t) (Suc n) path" using Some by simp
      then show ?thesis ..
    qed
  qed
qed

text \<open>The paths along the chain, and the pigeonhole bound on a chain that stops.\<close>

fun chain :: "json_lib \<Rightarrow> (string list \<rightharpoonup> PathElement) \<Rightarrow> nat \<Rightarrow> string \<Rightarrow> string option" where
  "chain L c 0 path = Some path"
| "chain L c (Suc n) path = Option.bind (chain L c n path) (alias_next L c)"

lemma chain_Suc: "chain L c (Suc n) path = Option.bind (alias_next L c path) (chain L c n)"
  by (induction n) (auto split: Option.bind_split)

lemma walk_ends_chain: "walk_ends L c n path \<longleftrightarrow> chain L c (Suc n) path = None"
proof (induction n arbitrary: path)
  case 0
  show ?case by simp
next
  case (Suc n)
  show ?case unfolding chain_Suc [of L c "Suc n"] by (simp add: Suc split: option.split)
qed

lemma chain_add: "chain L c (n + m) path = Option.bind (chain L c n path) (chain L c m)"
  by (induction m) (auto simp: chain_Suc split: Option.bind_split)

lemma chain_mono: "chain L c (n + m) path \<noteq> None \<Longrightarrow> chain L c n path \<noteq> None"
  by (auto simp: chain_add split: Option.bind_splits)

text \<open>The position of an alias on the chain determines the next path.\<close>

definition alias_position :: "json_lib \<Rightarrow> (string list \<rightharpoonup> PathElement) \<Rightarrow> string \<Rightarrow> string list" where
  "alias_position L c path = (case target [] path of Inr qs \<Rightarrow> qs | Inl e \<Rightarrow> [])"

lemma alias_next_position:
  assumes "alias_next L c p \<noteq> None" and "alias_next L c q \<noteq> None"
    and "alias_position L c p = alias_position L c q"
  shows "alias_next L c p = alias_next L c q" and "c (alias_position L c p) \<noteq> None"
  using assms by (auto simp: alias_next_def alias_position_def split: if_splits sum.splits option.splits)

lemma finite_content:
  assumes "wf_tree t"
  shows "finite (dom (content t))" and "card (dom (content t)) \<le> length t"
proof -
  have sub: "dom (content t) \<subseteq> node_path t ` {..<length t}"
    using content_position [OF assms] by (metis (no_types, lifting) domD image_eqI lessThan_iff subsetI)
  then show "finite (dom (content t))" by (rule finite_subset) simp
  show "card (dom (content t)) \<le> length t"
    using card_mono [OF _ sub] card_image_le [of "{..<length t}" "node_path t"] by simp
qed

lemma chain_pigeonhole:
  assumes "finite (dom c)" and "card (dom c) \<le> n" and "chain L c (Suc n) path \<noteq> None"
  shows "chain L c m path \<noteq> None"
proof -
  let ?at = "\<lambda>i. the (chain L c i path)"
  have at: "chain L c i path = Some (?at i)" "alias_next L c (?at i) \<noteq> None" if "i \<le> n" for i
  proof -
    have "chain L c (Suc i + (n - i)) path \<noteq> None" using assms(3) that by simp
    then have "chain L c (Suc i) path \<noteq> None" by (rule chain_mono)
    then show "chain L c i path = Some (?at i)" "alias_next L c (?at i) \<noteq> None"
      by (auto split: Option.bind_splits)
  qed
  have "alias_position L c (?at i) \<in> dom c" if "i \<le> n" for i
    using alias_next_position(2) [OF at(2) [OF that] at(2) [OF that] refl] by auto
  then have "(\<lambda>i. alias_position L c (?at i)) ` {..n} \<subseteq> dom c" by auto
  then have "card ((\<lambda>i. alias_position L c (?at i)) ` {..n}) \<le> card (dom c)"
    by (rule card_mono [OF assms(1)])
  also have "\<dots> < card {..n}" using assms(2) by simp
  finally have ninj: "\<not> inj_on (\<lambda>i. alias_position L c (?at i)) {..n}" by (rule pigeonhole)
  obtain i j where ij: "i < j" "j \<le> n" "alias_position L c (?at i) = alias_position L c (?at j)"
  proof -
    from ninj obtain a b where ab: "a \<le> n" "b \<le> n" "a \<noteq> b"
        "alias_position L c (?at a) = alias_position L c (?at b)"
      by (auto simp: inj_on_def simp del: chain.simps)
    show thesis
    proof (cases "a < b")
      case True
      with ab show ?thesis by (intro that [of a b])
    next
      case False
      with ab show ?thesis by (intro that [of b a]) simp_all
    qed
  qed
  then have "alias_next L c (?at i) = alias_next L c (?at j)"
    using alias_next_position(1) at(2) by simp
  then have again: "chain L c (Suc i) path = chain L c (Suc j) path"
  proof -
    obtain x y where "chain L c i path = Some x" "chain L c j path = Some y"
      using at(1) [of i] at(1) [of j] ij by (metis less_imp_le order_trans)
    with \<open>alias_next L c (?at i) = alias_next L c (?at j)\<close> show ?thesis by simp
  qed
  show ?thesis
  proof (induction m rule: less_induct)
    case (less m)
    show ?case
    proof (cases "m \<le> Suc n")
      case True
      then show ?thesis using assms(3) chain_mono [of L c m "Suc n - m" path] by simp
    next
      case False
      then have m: "m = Suc j + (m - Suc j)" using ij by simp
      have "chain L c m path = chain L c (Suc i + (m - Suc j)) path"
        by (subst m) (simp only: chain_add again)
      with less [of "Suc i + (m - Suc j)"] ij False show ?thesis by simp
    qed
  qed
qed

text \<open>
  C23: resolving a path returns exactly when its chain of aliases stops, and that is decided
  within as many steps as the tree has nodes: an alias cycle, and nothing else, makes
  \<^verbatim>\<open>resolveTreeNode\<close> recurse for ever. No length of chain is rejected.
\<close>

theorem resolve_terminates_iff:
  assumes "wf_tree t"
  shows "resolveTreeNode L t path \<noteq> None \<longleftrightarrow> walk_ends L (content t) (length t) path"
proof
  assume "resolveTreeNode L t path \<noteq> None"
  then obtain r where "resolveTreeNodeImpl L t path OriginalSource_create = Some r"
    by (auto simp: resolveTreeNode_def)
  from resolves_walk_ends [OF this] assms obtain n where "walk_ends L (content t) n path" by auto
  then have "chain L (content t) (Suc n) path = None" by (simp add: walk_ends_chain)
  then have "chain L (content t) (Suc (length t)) path = None"
    using chain_pigeonhole [OF finite_content [OF assms]] by blast
  then show "walk_ends L (content t) (length t) path" by (simp add: walk_ends_chain)
next
  assume "walk_ends L (content t) (length t) path"
  then show "resolveTreeNode L t path \<noteq> None"
    using walk_ends_resolves [OF assms] by (auto simp: resolveTreeNode_def)
qed

definition cyclic_tree :: PathTree where
  "cyclic_tree =
    [\<lparr>m_value = NullElement, m_children = [1, 2], m_name = [], m_parent = None\<rparr>,
     \<lparr>m_value = AliasElement ''/b'' 255, m_children = [], m_name = ''a'', m_parent = Some 0\<rparr>,
     \<lparr>m_value = AliasElement ''/a'' 255, m_children = [], m_name = ''b'', m_parent = Some 0\<rparr>]"

theorem resolve_terminates_iff_witness:
  "resolveTreeNode plain_lib cyclic_tree ''/a'' = None \<and> resolveTreeNode plain_lib demo_device_tree ''/dev'' \<noteq> None"
proof -
  have wf: "wf_tree cyclic_tree" by code_simp
  have "\<not> walk_ends plain_lib (content cyclic_tree) (length cyclic_tree) ''/a''"
    "walk_ends plain_lib (content demo_device_tree) (length demo_device_tree) ''/dev''"
    by code_simp+
  with resolve_terminates_iff [OF wf] resolve_terminates_iff [OF wf_demo_device_tree] show ?thesis
    by blast
qed

subsection \<open>What a resolution finds\<close>

text \<open>Following a chain for up to \<open>n\<close> aliases: the transforms on the way and the path reached.\<close>

fun follow :: "json_lib \<Rightarrow> (string list \<rightharpoonup> PathElement) \<Rightarrow> nat \<Rightarrow> string \<Rightarrow> GeneralizedTransform \<times> string" where
  "follow L c 0 path = ([], path)"
| "follow L c (Suc n) path =
     (case alias_next L c path of
        None \<Rightarrow> ([], path)
      | Some leaf \<Rightarrow> (case follow L c n leaf of (ts, p) \<Rightarrow> (transforms_at L c path @ ts, p)))"

lemma resolve_follow:
  "wf_tree t \<Longrightarrow> follow L (content t) n path = (ts, p) \<Longrightarrow>
    \<exists>t'. wf_tree t' \<and> content t' = content t \<and>
      resolveTreeNodeImpl L t path source =
      resolveTreeNodeImpl L t' p (source\<lparr>os_transform := os_transform source @ ts\<rparr>)"
proof (induction n arbitrary: t path source ts)
  case 0
  then show ?case by auto
next
  case (Suc n)
  show ?case
  proof (cases "alias_next L (content t) path")
    case None
    with Suc.prems show ?thesis by auto
  next
    case (Some leaf)
    obtain us where us: "follow L (content t) n leaf = (us, p)" "ts = transforms_at L (content t) path @ us"
      using Suc.prems(2) Some by (auto split: prod.splits)
    let ?s = "source\<lparr>os_transform := os_transform source @ transforms_at L (content t) path\<rparr>"
    obtain t1 where t1: "resolveTreeNodeImpl L t path source = resolveTreeNodeImpl L t1 leaf ?s"
        "wf_tree t1" "content t1 = content t"
      using resolve_step [OF Suc.prems(1), of L path source] Some by auto
    have "follow L (content t1) n leaf = (us, p)" using us(1) t1(3) by simp
    from Suc.IH [OF t1(2) this, of ?s] t1 us(2) show ?thesis by auto
  qed
qed

lemma content_value:
  assumes "wf_tree t" and "content t ps = Some e" and "i < length t" and "node_path t i = ps"
  shows "value_of t i = e"
  using content_node [OF assms(1,3)] assms(2,4) by (auto split: if_splits)

text \<open>Decomposition at an interface below a device, and at a sensor below such an interface.\<close>

lemma decompose_interface:
  assumes "wf_tree t" and "i < length t" and "node_path t i = ds @ [iface]"
    and "content t (ds @ [iface]) = Some InterfaceElement" and "content t ds = Some (DeviceElement n s desc)"
  shows "\<exists>d<length t. node_path t d = ds \<and> getParent t i = Some d \<and>
    decompose t i source = (source\<lparr>os_interface := Some i, os_device := Some d\<rparr>, Inr ())"
proof -
  have "getParent t i \<noteq> None" using parent_node_path(1) [OF assms(1,2)] assms(3) by simp
  then obtain d where d: "getParent t i = Some d" by auto
  with parent_node_path(2) [OF assms(1,2)] assms(3) have dp: "d < length t" "node_path t d = ds" by auto
  have "d < i" using d assms(1,2) wf_root(1) [OF assms(1)] by (cases "i = 0") (auto elim: wf_parent)
  have "value_of t i = InterfaceElement" by (rule content_value [OF assms(1,4,2,3)])
  moreover have "value_of t d = DeviceElement n s desc" by (rule content_value [OF assms(1,5) dp])
  ultimately show ?thesis
    using d dp \<open>d < i\<close>
    by (intro exI [of _ d]) (simp add: decompose.simps [of t i] decompose.simps [of t d] setInterface_def setDevice_def)
qed

lemma decompose_sensor:
  assumes "wf_tree t" and "k < length t" and "node_path t k = ds @ [iface, sensor]"
    and "value_of t k = SensorElement"
    and "content t (ds @ [iface]) = Some InterfaceElement" and "content t ds = Some (DeviceElement n s desc)"
  shows "\<exists>i d. i < length t \<and> d < length t \<and> node_path t i = ds @ [iface] \<and> node_path t d = ds \<and>
    decompose t k source = (source\<lparr>os_sensor := Some k, os_interface := Some i, os_device := Some d\<rparr>, Inr ())"
proof -
  have "getParent t k \<noteq> None" using parent_node_path(1) [OF assms(1,2)] assms(3) by simp
  then obtain i where i: "getParent t k = Some i" by auto
  with parent_node_path(2) [OF assms(1,2)] assms(3) have ip: "i < length t" "node_path t i = ds @ [iface]"
    by (auto simp: butlast_append)
  have "i < k" using i assms(1,2) wf_root(1) [OF assms(1)] by (cases "k = 0") (auto elim: wf_parent)
  obtain d where d: "d < length t" "node_path t d = ds" and dec:
      "decompose t i (source\<lparr>os_sensor := Some k\<rparr>) = (source\<lparr>os_sensor := Some k, os_interface := Some i, os_device := Some d\<rparr>, Inr ())"
    using decompose_interface [OF assms(1) ip assms(5,6)] by blast
  have "decompose t k source = (source\<lparr>os_sensor := Some k, os_interface := Some i, os_device := Some d\<rparr>, Inr ())"
    using i \<open>i < k\<close> dec assms(4) by (simp add: decompose.simps [of t k] setSensor_def Let_def)
  with ip d show ?thesis by blast
qed

text \<open>The path at which a chain ends, with its kind of node: an interface, or a sensor of one.\<close>

lemma resolve_at_source:
  assumes "wf_tree t" and "isPathAbsolute p" and "target [] p = Inr (ds @ iface # sensor)"
    and "content t ds = Some (DeviceElement n s desc)" and "content t (ds @ [iface]) = Some InterfaceElement"
    and "sensor = [] \<or> (\<exists>x. sensor = [x] \<and> content t (ds @ [iface, x]) \<in> {None, Some SensorElement})"
  shows "\<exists>t' src d i. resolveTreeNodeImpl L t p source = Some (t', src, Inr ()) \<and> wf_tree t' \<and>
    content t' = (if sensor = [] then content t else (content t)(ds @ iface # sensor := Some SensorElement)) \<and>
    d < length t' \<and> i < length t' \<and> node_path t' d = ds \<and> node_path t' i = ds @ [iface] \<and>
    (if sensor = [] then src = source\<lparr>os_interface := Some i, os_device := Some d\<rparr>
     else \<exists>k<length t'. node_path t' k = ds @ iface # sensor \<and>
       src = source\<lparr>os_sensor := Some k, os_interface := Some i, os_device := Some d\<rparr>)"
proof -
  obtain t1 r where t1: "getNodeByPath t p = (t1, r)" by fastforce
  from getNodeByPath_spec [OF assms(1) t1] assms(2,3) obtain k where k: "r = Inr k" "k < length t1"
    "node_path t1 k = ds @ iface # sensor" "wf_tree t1" "content t1 = content t" by auto
  show ?thesis
  proof (cases "sensor = []")
    case True
    have kp: "node_path t1 k = ds @ [iface]" using k(3) True by simp
    have v: "value_of t1 k = InterfaceElement"
      by (rule content_value [OF k(4) _ k(2) kp]) (simp add: k(5) assms(5))
    then have t2: "ifNullTryInferFromParent t1 k = t1" by (simp add: ifNullTryInferFromParent_def isNull_def)
    obtain d where "d < length t1" "node_path t1 d = ds"
      "decompose t1 k source = (source\<lparr>os_interface := Some k, os_device := Some d\<rparr>, Inr ())"
      using decompose_interface [OF k(4,2) kp] assms(4,5) k(5) by metis
    with True k t1 t2 v kp show ?thesis by (auto simp: resolveTreeNodeImpl.simps [of L t p])
  next
    case False
    then obtain x where x: "sensor = [x]" "content t (ds @ [iface, x]) \<in> {None, Some SensorElement}"
      using assms(6) by blast
    have kp: "node_path t1 k = ds @ [iface, x]" using k(3) x(1) by simp
    let ?t2 = "ifNullTryInferFromParent t1 k"
    have "getParent t1 k \<noteq> None" using parent_node_path(1) [OF k(4,2)] kp by simp
    then obtain i where i: "getParent t1 k = Some i" by auto
    with parent_node_path(2) [OF k(4,2)] kp have ip: "i < length t1" "node_path t1 i = ds @ [iface]"
      by (auto simp: butlast_append)
    have vi: "value_of t1 i = InterfaceElement"
      by (rule content_value [OF k(4) _ ip]) (simp add: k(5) assms(5))
    have vk: "isNull (value_of t1 k) \<or> value_of t1 k = SensorElement"
      using content_node [OF k(4,2)] kp k(5) x(2) by (auto split: if_splits)
    have t2: "?t2 = set_value t1 k SensorElement \<or> ?t2 = t1 \<and> value_of t1 k = SensorElement"
      using vk i vi by (auto simp: ifNullTryInferFromParent_def)
    have w2: "wf_tree ?t2" "length ?t2 = length t1" "value_of ?t2 k = SensorElement"
        "\<And>j. node_path ?t2 j = node_path t1 j"
        "content ?t2 = (content t)(ds @ [iface, x] := Some SensorElement)"
    proof -
      show "wf_tree ?t2" "length ?t2 = length t1" "value_of ?t2 k = SensorElement"
          "\<And>j. node_path ?t2 j = node_path t1 j"
        using t2 k(2,4) by (auto simp: value_of_set_value same_shape_node_path [OF same_shape_set_value])
      show "content ?t2 = (content t)(ds @ [iface, x] := Some SensorElement)"
        using t2 content_set_value [OF k(4,2), of SensorElement] content_node [OF k(4,2)] kp k(5)
        by (auto simp: isNull_def fun_eq_iff)
    qed
    have c2: "content ?t2 (ds @ [iface]) = Some InterfaceElement" "content ?t2 ds = Some (DeviceElement n s desc)"
      using assms(4,5) by (simp_all add: w2(5))
    obtain i' d where d: "i' < length ?t2" "d < length ?t2" "node_path ?t2 i' = ds @ [iface]" "node_path ?t2 d = ds"
      "decompose ?t2 k source = (source\<lparr>os_sensor := Some k, os_interface := Some i', os_device := Some d\<rparr>, Inr ())"
      using decompose_sensor [OF w2(1) _ _ w2(3) c2] w2(2,4) k(2) kp by metis
    have "resolveTreeNodeImpl L t p source = Some (?t2, decompose ?t2 k source)"
      using t1 k(1) w2(3) by (simp add: resolveTreeNodeImpl.simps [of L t p] Let_def)
    with d x(1) w2 k(2) kp show ?thesis
      by (intro exI [of _ ?t2] exI [of _ "source\<lparr>os_sensor := Some k, os_interface := Some i', os_device := Some d\<rparr>"]
          exI [of _ d] exI [of _ i']) auto
  qed
qed

lemma resolve_source:
  assumes "wf_tree t" and "follow L (content t) n path = (ts, p)"
    and "isPathAbsolute p" and "target [] p = Inr (ds @ iface # sensor)"
    and "content t ds = Some (DeviceElement name server desc)" and "content t (ds @ [iface]) = Some InterfaceElement"
    and "sensor = [] \<or> (\<exists>x. sensor = [x] \<and> content t (ds @ [iface, x]) \<in> {None, Some SensorElement})"
  shows "\<exists>t' src. resolveTreeNode L t path = Some (t', Inr (Some src)) \<and> wf_tree t' \<and>
    content t' = (if sensor = [] then content t else (content t)(ds @ iface # sensor := Some SensorElement)) \<and>
    getDevicePath t' src = printed ds \<and> getDeviceElement t' src = Some (DeviceElement name server desc) \<and>
    getInterfaceName t' src = iface \<and> getSensorNumber Some t' src = (if sensor = [] then None else Some (hd sensor)) \<and>
    os_path t' src = printed (ds @ iface # sensor) \<and> os_transform src = ts"
proof -
  let ?s0 = "OriginalSource_create\<lparr>os_transform := ts\<rparr>"
  have s0: "OriginalSource_create\<lparr>os_transform := os_transform OriginalSource_create @ ts\<rparr> = ?s0"
    by (simp add: OriginalSource_create_def)
  obtain t1 where t1: "wf_tree t1" "content t1 = content t"
    "resolveTreeNodeImpl L t path OriginalSource_create = resolveTreeNodeImpl L t1 p ?s0"
    using resolve_follow [OF assms(1,2), of OriginalSource_create] unfolding s0 by blast
  obtain t' src d i where res: "resolveTreeNodeImpl L t1 p ?s0 = Some (t', src, Inr ())" "wf_tree t'"
    "content t' = (if sensor = [] then content t else (content t)(ds @ iface # sensor := Some SensorElement))"
    "d < length t'" "i < length t'" "node_path t' d = ds" "node_path t' i = ds @ [iface]"
    "if sensor = [] then src = ?s0\<lparr>os_interface := Some i, os_device := Some d\<rparr>
     else \<exists>k<length t'. node_path t' k = ds @ iface # sensor \<and>
       src = ?s0\<lparr>os_sensor := Some k, os_interface := Some i, os_device := Some d\<rparr>"
    using resolve_at_source [OF t1(1) assms(3,4), of name server desc L ?s0] assms(5-7) t1(2) by auto
  have dv: "value_of t' d = DeviceElement name server desc"
  proof (rule content_value [OF res(2) _ res(4,6)])
    show "content t' ds = Some (DeviceElement name server desc)" by (simp add: res(3) assms(5))
  qed
  have fp: "getFullPath t' j = printed (node_path t' j)" if "j < length t'" for j
    using getFullPath_eq [OF res(2) that] by (simp add: printed_def)
  have nm: "node_path t' j \<noteq> [] \<Longrightarrow> j < length t' \<Longrightarrow> getName t' j = last (node_path t' j)" for j
    by (simp add: node_path.simps [of t' j] split: option.splits)
  have "getInterfaceName t' src = iface" "isResolved src"
    using res(5,7,8) nm [of i] by (auto simp: getInterfaceName_def isResolved_def split: if_splits)
  moreover have "getSensorNumber Some t' src = (if sensor = [] then None else Some (hd sensor))"
    using res(8) nm assms(7) by (auto simp: getSensorNumber_def OriginalSource_create_def split: if_splits)
  moreover have "os_path t' src = printed (ds @ iface # sensor)"
    using res(5,7,8) fp by (auto simp: os_path_def OriginalSource_create_def split: if_splits)
  ultimately show ?thesis
    using t1(3) res dv fp
    by (intro exI [of _ t'] exI [of _ src])
      (auto simp: resolveTreeNode_def getDevicePath_def getDeviceElement_def OriginalSource_create_def split: if_splits)
qed

text \<open>
  C3: when the chain of aliases from a path stops at an interface of a device, or below one at
  a sensor (or at a position that holds nothing yet, which is then made a sensor), resolving
  returns that device, interface and sensor with the transforms met on the way in their order.
  The rest of the tree's content is unchanged.
\<close>

theorem resolve_finds_source:
  assumes "wf_tree t" and "follow L (content t) n path = (ts, p)"
    and "isPathAbsolute p" and "target [] p = Inr (ds @ iface # sensor)"
    and "content t ds = Some (DeviceElement name server desc)" and "content t (ds @ [iface]) = Some InterfaceElement"
    and "sensor = [] \<or> (\<exists>x. sensor = [x] \<and> content t (ds @ [iface, x]) \<in> {None, Some SensorElement})"
  shows "\<exists>t' src. resolveTreeNode L t path = Some (t', Inr (Some src)) \<and> wf_tree t' \<and>
    content t' = (if sensor = [] then content t else (content t)(ds @ iface # sensor := Some SensorElement)) \<and>
    getDevicePath t' src = printed ds \<and> getDeviceElement t' src = Some (DeviceElement name server desc) \<and>
    getInterfaceName t' src = iface \<and> getSensorNumber Some t' src = (if sensor = [] then None else Some (hd sensor)) \<and>
    os_path t' src = printed (ds @ iface # sensor) \<and> os_transform src = ts"
  by (rule resolve_source [OF assms])

definition aliased_device_tree :: PathTree where
  "aliased_device_tree =
    [\<lparr>m_value = NullElement, m_children = [1, 4], m_name = [], m_parent = None\<rparr>,
     \<lparr>m_value = DeviceElement ''dev'' ''localhost'' JNull, m_children = [2], m_name = ''dev'', m_parent = Some 0\<rparr>,
     \<lparr>m_value = InterfaceElement, m_children = [3], m_name = ''tracker'', m_parent = Some 1\<rparr>,
     \<lparr>m_value = SensorElement, m_children = [], m_name = ''0'', m_parent = Some 2\<rparr>,
     \<lparr>m_value = AliasElement ''/dev/tracker/1'' 255, m_children = [], m_name = ''me'', m_parent = Some 0\<rparr>]"

theorem resolve_finds_source_witness:
  "\<exists>t' src. resolveTreeNode plain_lib aliased_device_tree ''/me'' = Some (t', Inr (Some src)) \<and>
     getDevicePath t' src = ''/dev'' \<and> getInterfaceName t' src = ''tracker'' \<and>
     getSensorNumber Some t' src = Some ''1'' \<and> os_transform src = []"
proof -
  let ?t = aliased_device_tree
  have wf: "wf_tree ?t" by code_simp
  have h: "follow plain_lib (content ?t) 5 ''/me'' = ([], ''/dev/tracker/1'')" "isPathAbsolute ''/dev/tracker/1''"
    "target [] ''/dev/tracker/1'' = Inr ([''dev''] @ ''tracker'' # [''1''])"
    "content ?t [''dev''] = Some (DeviceElement ''dev'' ''localhost'' JNull)"
    "content ?t ([''dev''] @ [''tracker'']) = Some InterfaceElement"
    "content ?t ([''dev''] @ [''tracker'', ''1'']) = None"
    by code_simp+
  have "printed [''dev''] = ''/dev''" by code_simp
  with resolve_finds_source [OF wf h(1-5)] h(6) show ?thesis by auto
qed

end
