(* ===== verification/Wire_Buffer.thy ===== *)
theory Wire_Buffer
  imports Osvr_Prelude
begin

text \<open>
  Byte buffers: \<^verbatim>\<open>inc/osvr/Common/Buffer.h\<close>, \<^verbatim>\<open>AlignmentPadding.h\<close>, and the byte-order
  conversions of \<^verbatim>\<open>Endianness.h\<close> and \<^verbatim>\<open>IntegerByteSwap.h\<close>.

  A buffer is its list of bytes; a reader is the list it reads and the number of bytes it has
  read. What a scalar looks like in memory depends on the host's byte order, which is a
  parameter; \<open>wire_bytes_host_independent\<close> shows that what is sent does not.
\<close>

unbundle bit_operations_syntax

subsection \<open>Alignment\<close>

definition computeAlignmentPadding :: "nat \<Rightarrow> nat \<Rightarrow> nat" where
  "computeAlignmentPadding alignment currentSize =
     (if 2 > alignment then 0
      else let leftover = currentSize mod alignment
           in if leftover = 0 then 0 else alignment - leftover)"

lemma computeAlignmentPadding_aligned:
  "0 < alignment \<Longrightarrow> alignment dvd currentSize + computeAlignmentPadding alignment currentSize"
proof (cases "2 \<le> alignment")
  case True
  then have lt: "currentSize mod alignment < alignment" by simp
  have "currentSize = currentSize div alignment * alignment + currentSize mod alignment" by simp
  with lt have "currentSize + (alignment - currentSize mod alignment) =
      currentSize div alignment * alignment + alignment"
    by linarith
  then have "currentSize + (alignment - currentSize mod alignment) =
      (currentSize div alignment + 1) * alignment"
    by simp
  then have "alignment dvd currentSize + (alignment - currentSize mod alignment)"
    by (metis dvd_triv_right)
  with True show ?thesis
    by (auto simp: computeAlignmentPadding_def Let_def mod_eq_0_iff_dvd)
next
  case False
  moreover assume "0 < alignment"
  ultimately have "alignment = 1" by simp
  then show ?thesis by simp
qed

lemma computeAlignmentPadding_less:
  "0 < alignment \<Longrightarrow> computeAlignmentPadding alignment currentSize < alignment"
  by (simp add: computeAlignmentPadding_def Let_def)

subsection \<open>Reading\<close>

record reader =
  rd_bytes :: "u8 list"
  rd_pos :: nat

definition startReading :: "u8 list \<Rightarrow> reader" where
  "startReading buf = \<lparr>rd_bytes = buf, rd_pos = 0\<rparr>"

definition bytesRead :: "reader \<Rightarrow> nat" where
  "bytesRead r = rd_pos r"

definition bytesRemaining :: "reader \<Rightarrow> nat" where
  "bytesRemaining r = length (rd_bytes r) - rd_pos r"

definition advance :: "nat \<Rightarrow> reader \<Rightarrow> reader" where
  "advance n r = r\<lparr>rd_pos := rd_pos r + n\<rparr>"

text \<open>
  \<^verbatim>\<open>read\<close> copies the bytes of one object, \<^verbatim>\<open>readBytes\<close> hands out the position of a run of
  bytes; both check the same bound, so both are modelled as the bytes and the reader past
  them. \<^verbatim>\<open>read\<close> has a message of its own.
\<close>

definition read_object :: "nat \<Rightarrow> reader \<Rightarrow> (exn, u8 list \<times> reader) result" where
  "read_object n r =
     (if bytesRemaining r < n
      then Inl (RuntimeError ''Not enough data in the buffer to read this type!'')
      else Inr (take n (drop (rd_pos r) (rd_bytes r)), advance n r))"

definition readBytes :: "nat \<Rightarrow> reader \<Rightarrow> (exn, u8 list \<times> reader) result" where
  "readBytes n r =
     (if bytesRemaining r < n
      then Inl (RuntimeError ''Not enough data in the buffer to read that many bytes!'')
      else Inr (take n (drop (rd_pos r) (rd_bytes r)), advance n r))"

definition skipPadding :: "nat \<Rightarrow> reader \<Rightarrow> (exn, reader) result" where
  "skipPadding bytes r =
     (if bytes = 0 then Inr r
      else if bytesRemaining r < bytes
      then Inl (RuntimeError ''Can't skip that many padding bytes, not that many bytes left!'')
      else Inr (advance bytes r))"

definition readAligned :: "nat \<Rightarrow> nat \<Rightarrow> reader \<Rightarrow> (exn, u8 list \<times> reader) result" where
  "readAligned n alignment r =
     result_bind (skipPadding (computeAlignmentPadding alignment (bytesRead r)) r) (read_object n)"

definition readBytesAligned :: "nat \<Rightarrow> nat \<Rightarrow> reader \<Rightarrow> (exn, u8 list \<times> reader) result" where
  "readBytesAligned n alignment r =
     result_bind (skipPadding (computeAlignmentPadding alignment (bytesRead r)) r) (readBytes n)"

subsection \<open>Writing\<close>

definition appendPadding :: "nat \<Rightarrow> u8 list \<Rightarrow> u8 list" where
  "appendPadding bytes buf = (if bytes = 0 then buf else buf @ replicate bytes 0)"

definition append_bytes :: "u8 list \<Rightarrow> u8 list \<Rightarrow> u8 list" where
  "append_bytes v buf = buf @ v"

definition appendAligned :: "u8 list \<Rightarrow> nat \<Rightarrow> u8 list \<Rightarrow> u8 list" where
  "appendAligned v alignment buf =
     append_bytes v (appendPadding (computeAlignmentPadding alignment (length buf)) buf)"

lemma appendAligned_eq:
  "appendAligned v alignment buf =
     buf @ replicate (computeAlignmentPadding alignment (length buf)) 0 @ v"
  by (simp add: appendAligned_def append_bytes_def appendPadding_def)

text \<open>Readers stay inside their bytes.\<close>

definition reader_ok :: "reader \<Rightarrow> bool" where
  "reader_ok r \<longleftrightarrow> rd_pos r \<le> length (rd_bytes r)"

definition reads_forward :: "reader \<Rightarrow> reader \<Rightarrow> bool" where
  "reads_forward r r' \<longleftrightarrow> rd_bytes r' = rd_bytes r \<and> rd_pos r \<le> rd_pos r' \<and> reader_ok r'"

lemma reads_forward_refl [simp]: "reader_ok r \<Longrightarrow> reads_forward r r"
  by (simp add: reads_forward_def)

lemma reads_forward_trans: "reads_forward r s \<Longrightarrow> reads_forward s u \<Longrightarrow> reads_forward r u"
  by (auto simp: reads_forward_def)

lemma reads_forward_ok: "reads_forward r r' \<Longrightarrow> reader_ok r'"
  by (simp add: reads_forward_def)

lemma read_object_forward:
  "reader_ok r \<Longrightarrow> read_object n r = Inr (bs, r') \<Longrightarrow> reads_forward r r' \<and> length bs = n"
  by (auto simp: read_object_def bytesRemaining_def advance_def reads_forward_def reader_ok_def
      split: if_splits)

lemma readBytes_forward:
  "reader_ok r \<Longrightarrow> readBytes n r = Inr (bs, r') \<Longrightarrow> reads_forward r r' \<and> length bs = n"
  by (auto simp: readBytes_def bytesRemaining_def advance_def reads_forward_def reader_ok_def
      split: if_splits)

lemma skipPadding_forward:
  "reader_ok r \<Longrightarrow> skipPadding n r = Inr r' \<Longrightarrow> reads_forward r r'"
  by (auto simp: skipPadding_def bytesRemaining_def advance_def reads_forward_def reader_ok_def
      split: if_splits)

lemma readAligned_forward:
  assumes "reader_ok r" and "readAligned n a r = Inr (bs, r')"
  shows "reads_forward r r' \<and> length bs = n"
proof -
  from assms(2) obtain s where s: "skipPadding (computeAlignmentPadding a (bytesRead r)) r = Inr s"
    "read_object n s = Inr (bs, r')"
    by (auto simp: readAligned_def)
  from skipPadding_forward [OF assms(1) s(1)] read_object_forward [OF _ s(2)]
  show ?thesis using reads_forward_ok reads_forward_trans by blast
qed

lemma readBytesAligned_forward:
  assumes "reader_ok r" and "readBytesAligned n a r = Inr (bs, r')"
  shows "reads_forward r r' \<and> length bs = n"
proof -
  from assms(2) obtain s where s: "skipPadding (computeAlignmentPadding a (bytesRead r)) r = Inr s"
    "readBytes n s = Inr (bs, r')"
    by (auto simp: readBytesAligned_def)
  from skipPadding_forward [OF assms(1) s(1)] readBytes_forward [OF _ s(2)]
  show ?thesis using reads_forward_ok reads_forward_trans by blast
qed

text \<open>What was appended with an alignment is read back with that alignment.\<close>

lemma readAligned_appendAligned:
  assumes "length v = n"
  shows "readAligned n a \<lparr>rd_bytes = appendAligned v a buf @ rest, rd_pos = length buf\<rparr> =
    Inr (v, \<lparr>rd_bytes = appendAligned v a buf @ rest, rd_pos = length (appendAligned v a buf)\<rparr>)"
  using assms
  by (simp add: readAligned_def appendAligned_eq skipPadding_def read_object_def bytesRead_def
      bytesRemaining_def advance_def)

lemma readBytesAligned_appendAligned:
  assumes "length v = n"
  shows "readBytesAligned n a \<lparr>rd_bytes = appendAligned v a buf @ rest, rd_pos = length buf\<rparr> =
    Inr (v, \<lparr>rd_bytes = appendAligned v a buf @ rest, rd_pos = length (appendAligned v a buf)\<rparr>)"
  using assms
  by (simp add: readBytesAligned_def appendAligned_eq skipPadding_def readBytes_def bytesRead_def
      bytesRemaining_def advance_def)

lemma readBytes_append:
  assumes "length v = n"
  shows "readBytes n \<lparr>rd_bytes = append_bytes v buf @ rest, rd_pos = length buf\<rparr> =
    Inr (v, \<lparr>rd_bytes = append_bytes v buf @ rest, rd_pos = length (append_bytes v buf)\<rparr>)"
  using assms by (simp add: readBytes_def append_bytes_def bytesRemaining_def advance_def)

subsection \<open>Scalars in memory and byte order\<close>

datatype byte_order = LittleEndian | BigEndian

definition sizeof :: "'a::len word \<Rightarrow> nat" where
  "sizeof w = LENGTH('a) div 8"

definition le_bytes :: "'a::len word \<Rightarrow> u8 list" where
  "le_bytes w = map (\<lambda>i. ucast (drop_bit (8 * i) w)) [0..<sizeof w]"

fun of_le_bytes :: "u8 list \<Rightarrow> 'a::len word" where
  "of_le_bytes [] = 0"
| "of_le_bytes (b # bs) = ucast b OR push_bit 8 (of_le_bytes bs)"

definition memory_of :: "byte_order \<Rightarrow> 'a::len word \<Rightarrow> u8 list" where
  "memory_of bo w = (case bo of LittleEndian \<Rightarrow> le_bytes w | BigEndian \<Rightarrow> rev (le_bytes w))"

definition from_memory :: "byte_order \<Rightarrow> u8 list \<Rightarrow> 'a::len word" where
  "from_memory bo bs = (case bo of LittleEndian \<Rightarrow> of_le_bytes bs | BigEndian \<Rightarrow> of_le_bytes (rev bs))"

definition genericByteSwap :: "byte_order \<Rightarrow> 'a::len word \<Rightarrow> 'a word" where
  "genericByteSwap bo v =
     from_memory bo (map (\<lambda>i. memory_of bo v ! (sizeof v - 1 - i)) [0..<sizeof v])"

text \<open>
  The byte swapper of one-byte integers is the identity (\<^verbatim>\<open>NoOpFunction\<close>); wider integers
  use the generic loop, as on a platform without byte-swap intrinsics.
\<close>

definition integerByteSwap :: "byte_order \<Rightarrow> 'a::len word \<Rightarrow> 'a word" where
  "integerByteSwap bo v = (if sizeof v = 1 then v else genericByteSwap bo v)"

definition hton :: "byte_order \<Rightarrow> 'a::len word \<Rightarrow> 'a word" where
  "hton bo v = (case bo of BigEndian \<Rightarrow> v | LittleEndian \<Rightarrow> integerByteSwap bo v)"

definition ntoh :: "byte_order \<Rightarrow> 'a::len word \<Rightarrow> 'a word" where
  "ntoh bo v = hton bo v"

lemma length_le_bytes [simp]: "length (le_bytes w) = sizeof w"
  by (simp add: le_bytes_def)

lemma length_memory_of [simp]: "length (memory_of bo w) = sizeof w"
  by (simp add: memory_of_def split: byte_order.split)

lemma bit_of_le_bytes:
  "bit (of_le_bytes bs :: 'a::len word) k \<longleftrightarrow>
     k < LENGTH('a) \<and> k div 8 < length bs \<and> bit (bs ! (k div 8)) (k mod 8)"
proof (induction bs arbitrary: k)
  case Nil
  then show ?case by simp
next
  case (Cons b bs)
  show ?case
  proof (cases "k < 8")
    case True
    then show ?thesis by (auto simp: bit_or_iff bit_push_bit_iff bit_ucast_iff)
  next
    case False
    then obtain m where "k = m + 8" by (metis add.commute le_Suc_ex not_less)
    with Cons [of m] show ?thesis
      by (auto simp: bit_or_iff bit_push_bit_iff bit_ucast_iff dest: bit_imp_le_length)
  qed
qed

lemma bit_le_bytes_nth:
  fixes w :: "'a::len word"
  assumes "i < sizeof w"
  shows "bit (le_bytes w ! i) n \<longleftrightarrow> n < 8 \<and> bit w (8 * i + n)"
  using assms by (auto simp: le_bytes_def bit_ucast_iff bit_drop_bit_eq)

lemma of_le_bytes_inverse:
  fixes w :: "'a::len word"
  assumes "8 dvd LENGTH('a)"
  shows "of_le_bytes (le_bytes w) = w"
proof (rule bit_word_eqI)
  fix k assume k: "k < LENGTH('a)"
  with assms have "k div 8 < sizeof w"
    by (auto simp: sizeof_def elim!: dvdE)
  with k show "bit (of_le_bytes (le_bytes w) :: 'a word) k \<longleftrightarrow> bit w k"
    by (simp add: bit_of_le_bytes bit_le_bytes_nth)
qed

lemma le_bytes_inverse:
  assumes "8 dvd LENGTH('a::len)" and "length bs = LENGTH('a) div 8"
  shows "le_bytes (of_le_bytes bs :: 'a word) = bs"
proof (rule nth_equalityI)
  show len: "length (le_bytes (of_le_bytes bs :: 'a word)) = length bs"
    using assms(2) by (simp add: sizeof_def)
  fix i assume i: "i < length (le_bytes (of_le_bytes bs :: 'a word))"
  then have i': "i < sizeof (of_le_bytes bs :: 'a word)" "i < length bs" using len by simp_all
  show "le_bytes (of_le_bytes bs :: 'a word) ! i = bs ! i"
  proof (rule bit_word_eqI)
    fix n assume n: "n < LENGTH(8)"
    then have "8 * i + n < LENGTH('a)"
      using assms i' by (auto elim!: dvdE)
    with n i' show "bit (le_bytes (of_le_bytes bs :: 'a word) ! i) n \<longleftrightarrow> bit (bs ! i) n"
      by (simp add: bit_le_bytes_nth bit_of_le_bytes)
  qed
qed

lemma from_memory_inverse:
  "8 dvd LENGTH('a) \<Longrightarrow> from_memory bo (memory_of bo w) = (w :: 'a::len word)"
  by (simp add: from_memory_def memory_of_def of_le_bytes_inverse split: byte_order.split)

lemma memory_of_inverse:
  "8 dvd LENGTH('a) \<Longrightarrow> length bs = LENGTH('a) div 8 \<Longrightarrow>
     memory_of bo (from_memory bo bs :: 'a::len word) = bs"
  by (simp add: from_memory_def memory_of_def le_bytes_inverse split: byte_order.split)

lemma rev_map_upt: "map (\<lambda>i. xs ! (length xs - 1 - i)) [0..<length xs] = rev xs"
  by (rule nth_equalityI) (simp_all add: rev_nth)

lemma memory_of_genericByteSwap:
  fixes v :: "'a::len word"
  assumes "8 dvd LENGTH('a)"
  shows "memory_of bo (genericByteSwap bo v) = rev (memory_of bo v)"
proof -
  have "map (\<lambda>i. memory_of bo v ! (sizeof v - 1 - i)) [0..<sizeof v] = rev (memory_of bo v)"
    using rev_map_upt [of "memory_of bo v"] by simp
  moreover have "length (rev (memory_of bo v)) = LENGTH('a) div 8" by (simp add: sizeof_def)
  ultimately show ?thesis
    using assms by (simp add: genericByteSwap_def memory_of_inverse)
qed

lemma rev_length_1: "length xs = Suc 0 \<Longrightarrow> rev xs = xs"
  by (cases xs) auto

lemma memory_of_hton:
  fixes v :: "'a::len word"
  assumes "8 dvd LENGTH('a)"
  shows "memory_of bo (hton bo v) = rev (le_bytes v)"
  using memory_of_genericByteSwap [OF assms, of LittleEndian v] rev_length_1 [of "le_bytes v"]
  by (simp add: hton_def integerByteSwap_def memory_of_def split: byte_order.split)

lemma memory_of_inj:
  "8 dvd LENGTH('a) \<Longrightarrow> memory_of bo v = memory_of bo w \<Longrightarrow> v = (w :: 'a::len word)"
  by (metis from_memory_inverse)

lemma ntoh_hton:
  fixes v :: "'a::len word"
  assumes "8 dvd LENGTH('a)"
  shows "ntoh bo (hton bo v) = v"
proof (cases bo)
  case LittleEndian
  have "memory_of bo (ntoh bo (hton bo v)) = rev (le_bytes (hton bo v))"
    using assms by (simp add: ntoh_def memory_of_hton)
  also have "le_bytes (hton bo v) = rev (le_bytes v)"
    using memory_of_hton [OF assms, of bo v] LittleEndian by (simp add: memory_of_def)
  also have "rev (rev (le_bytes v)) = memory_of bo v"
    using LittleEndian by (simp add: memory_of_def)
  finally show ?thesis by (rule memory_of_inj [OF assms])
qed (simp add: ntoh_def hton_def)

end
