(* ===== verification/Serialization.thy ===== *)
theory Serialization
  imports Wire_Buffer
begin

text \<open>
  The serialization traits of \<^verbatim>\<open>inc/osvr/Common/SerializationTraits.h\<close>, their tags
  (\<^verbatim>\<open>SerializationTags.h\<close>) and the two functors of \<^verbatim>\<open>Serialization.h\<close>.

  A specialization of \<^verbatim>\<open>SerializationTraits\<close> is a pair of functions: \<^verbatim>\<open>serialize\<close> extends a
  buffer, \<^verbatim>\<open>deserialize\<close> takes a reader to a value and the reader past it, or throws. The
  locale \<open>codec\<close> is the contract between the two: what is written is read back wherever it
  stands in a message, \<^verbatim>\<open>spaceRequired\<close> is the number of bytes written, and no input at all
  makes a reader leave its bytes. Structures and vectors are built from codecs by the locales
  \<open>codec_pair\<close>, \<open>codec_map\<close> and \<open>codec\<close> itself; every trait of the code is interpreted.
\<close>

type_synonym 'a serializer = "'a \<Rightarrow> u8 list \<Rightarrow> u8 list"
type_synonym 'a deserializer = "reader \<Rightarrow> (exn, 'a \<times> reader) result"

subsection \<open>Arithmetic types\<close>

text \<open>
  \<^verbatim>\<open>ArithmeticSerializationTraits\<close> with the alignment equal to the size. A \<^verbatim>\<open>double\<close> is its
  64-bit pattern: \<^verbatim>\<open>TypePunByteOrder\<close> converts it through the unsigned integer of its size.
\<close>

definition arith_serialize :: "byte_order \<Rightarrow> 'a::len word serializer" where
  "arith_serialize bo val buf = appendAligned (memory_of bo (hton bo val)) (sizeof val) buf"

definition arith_deserialize :: "byte_order \<Rightarrow> 'a::len word deserializer" where
  "arith_deserialize bo r =
     result_bind (readAligned (LENGTH('a) div 8) (LENGTH('a) div 8) r)
       (\<lambda>(bs, r'). Inr (ntoh bo (from_memory bo bs), r'))"

definition arith_spaceRequired :: "nat \<Rightarrow> 'a::len word \<Rightarrow> nat" where
  "arith_spaceRequired existingBytes val =
     computeAlignmentPadding (sizeof val) existingBytes + sizeof val"

subsection \<open>bool, enumerations, strings, raw data\<close>

definition OSVR_TRUE :: u8 where "OSVR_TRUE = 1"
definition OSVR_FALSE :: u8 where "OSVR_FALSE = 0"

definition bool_serialize :: "byte_order \<Rightarrow> bool serializer" where
  "bool_serialize bo val buf = arith_serialize bo (if val then OSVR_TRUE else OSVR_FALSE) buf"

definition bool_deserialize :: "byte_order \<Rightarrow> bool deserializer" where
  "bool_deserialize bo r =
     result_bind (arith_deserialize bo r) (\<lambda>(cVal, r'). Inr (cVal = OSVR_TRUE, r'))"

text \<open>
  Enumerations travel as the unsigned integer type given in the tag; \<open>to_rep\<close> and \<open>of_rep\<close> are
  the two casts.
\<close>

definition enum_serialize :: "byte_order \<Rightarrow> ('e \<Rightarrow> 'a::len word) \<Rightarrow> 'e serializer" where
  "enum_serialize bo to_rep val buf = arith_serialize bo (to_rep val) buf"

definition enum_deserialize :: "byte_order \<Rightarrow> ('a::len word \<Rightarrow> 'e) \<Rightarrow> 'e deserializer" where
  "enum_deserialize bo of_rep r =
     result_bind (arith_deserialize bo r) (\<lambda>(intVal, r'). Inr (of_rep intVal, r'))"

text \<open>
  A string is its 32-bit length and its bytes; the length is narrowed to 32 bits before it is
  used for both.
\<close>

definition string_serialize :: "byte_order \<Rightarrow> u8 list serializer" where
  "string_serialize bo val buf =
     (let len = of_nat (length val) :: u32
      in append_bytes (take (unat len) val) (arith_serialize bo len buf))"

definition string_deserialize :: "byte_order \<Rightarrow> u8 list deserializer" where
  "string_deserialize bo r =
     result_bind (arith_deserialize bo r) (\<lambda>(len :: u32, r'). readBytes (unat len) r')"

definition string_spaceRequired :: "nat \<Rightarrow> u8 list \<Rightarrow> nat" where
  "string_spaceRequired existingBytes val = arith_spaceRequired existingBytes (0 :: u32) + length val"

definition stringonly_serialize :: "u8 list serializer" where
  "stringonly_serialize val buf = append_bytes val buf"

definition stringonly_deserialize :: "u8 list deserializer" where
  "stringonly_deserialize r = readBytes (bytesRemaining r) r"

definition stringonly_spaceRequired :: "nat \<Rightarrow> u8 list \<Rightarrow> nat" where
  "stringonly_spaceRequired existingBytes val = length val"

text \<open>
  The aligned data buffer: length and alignment come from the tag, not from the wire. The
  source pointer is the bytes it points to, of which the first \<^verbatim>\<open>length\<close> are copied.
\<close>

record AlignedDataBufferTag =
  tag_length :: nat
  tag_alignment :: nat

definition aligned_serialize :: "AlignedDataBufferTag \<Rightarrow> u8 list serializer" where
  "aligned_serialize tag val buf = appendAligned (take (tag_length tag) val) (tag_alignment tag) buf"

definition aligned_deserialize :: "AlignedDataBufferTag \<Rightarrow> u8 list deserializer" where
  "aligned_deserialize tag r = readBytesAligned (tag_length tag) (tag_alignment tag) r"

definition aligned_spaceRequired :: "AlignedDataBufferTag \<Rightarrow> nat \<Rightarrow> u8 list \<Rightarrow> nat" where
  "aligned_spaceRequired tag existingBytes val =
     computeAlignmentPadding (tag_alignment tag) existingBytes + tag_length tag"

subsection \<open>Structures and vectors\<close>

text \<open>
  A structure (\<^verbatim>\<open>SimpleStructSerialization\<close>) and a message (\<^verbatim>\<open>processMessage\<close>) apply the functor
  to their members one after the other; the functors of \<^verbatim>\<open>Serialization.h\<close> write to one buffer
  or read from one reader throughout. Two members in sequence:
\<close>

definition pair_serialize :: "'a serializer \<Rightarrow> 'b serializer \<Rightarrow> ('a \<times> 'b) serializer" where
  "pair_serialize s1 s2 v buf = s2 (snd v) (s1 (fst v) buf)"

definition pair_deserialize :: "'a deserializer \<Rightarrow> 'b deserializer \<Rightarrow> ('a \<times> 'b) deserializer" where
  "pair_deserialize d1 d2 r =
     result_bind (d1 r) (\<lambda>(a, r1). result_bind (d2 r1) (\<lambda>(b, r2). Inr ((a, b), r2)))"

definition pair_spaceRequired ::
    "(nat \<Rightarrow> 'a \<Rightarrow> nat) \<Rightarrow> (nat \<Rightarrow> 'b \<Rightarrow> nat) \<Rightarrow> nat \<Rightarrow> 'a \<times> 'b \<Rightarrow> nat" where
  "pair_spaceRequired p1 p2 existingBytes v =
     (let m_bytes = existingBytes + p1 existingBytes (fst v);
          m_bytes' = m_bytes + p2 m_bytes (snd v)
      in m_bytes' - existingBytes)"

definition map_serialize :: "('b \<Rightarrow> 'a) \<Rightarrow> 'a serializer \<Rightarrow> 'b serializer" where
  "map_serialize f s v buf = s (f v) buf"

definition map_deserialize :: "('a \<Rightarrow> 'b) \<Rightarrow> 'a deserializer \<Rightarrow> 'b deserializer" where
  "map_deserialize g d r = result_bind (d r) (\<lambda>(a, r'). Inr (g a, r'))"

definition vector_serialize :: "byte_order \<Rightarrow> 'a serializer \<Rightarrow> 'a list serializer" where
  "vector_serialize bo s val buf =
     fold s val (arith_serialize bo (of_nat (length val) :: u32) buf)"

fun vector_elements :: "'a deserializer \<Rightarrow> nat \<Rightarrow> 'a list deserializer" where
  "vector_elements d 0 r = Inr ([], r)"
| "vector_elements d (Suc n) r =
     result_bind (d r)
       (\<lambda>(elt, r1). result_bind (vector_elements d n r1) (\<lambda>(es, r2). Inr (elt # es, r2)))"

definition vector_deserialize :: "byte_order \<Rightarrow> 'a deserializer \<Rightarrow> 'a list deserializer" where
  "vector_deserialize bo d r =
     result_bind (arith_deserialize bo r) (\<lambda>(n :: u32, r'). vector_elements d (unat n) r')"

definition vector_spaceRequired :: "(nat \<Rightarrow> 'a \<Rightarrow> nat) \<Rightarrow> nat \<Rightarrow> 'a list \<Rightarrow> nat" where
  "vector_spaceRequired p existingBytes val =
     (let bytes = existingBytes +
            arith_spaceRequired existingBytes (of_nat (length val) :: u32)
      in fold (\<lambda>elt bytes. bytes + p bytes elt) val bytes - existingBytes)"

subsection \<open>The contract\<close>

locale codec =
  fixes ser :: "'a serializer" and deser :: "'a deserializer"
    and space :: "nat \<Rightarrow> 'a \<Rightarrow> nat" and valid :: "'a \<Rightarrow> bool"
  assumes ser_appends: "valid v \<Longrightarrow> \<exists>bs. ser v buf = buf @ bs \<and> length bs = space (length buf) v"
    and roundtrip: "valid v \<Longrightarrow>
      deser \<lparr>rd_bytes = ser v buf @ rest, rd_pos = length buf\<rparr> =
        Inr (v, \<lparr>rd_bytes = ser v buf @ rest, rd_pos = length (ser v buf)\<rparr>)"
    and in_bounds: "reader_ok r \<Longrightarrow> deser r = Inr (v, r') \<Longrightarrow> reads_forward r r'"
begin

lemma length_ser: "valid v \<Longrightarrow> length (ser v buf) = length buf + space (length buf) v"
  using ser_appends [of v buf] by auto

text \<open>The message case: an empty buffer, read from its start.\<close>

lemma message_roundtrip:
  "valid v \<Longrightarrow> \<exists>r'. deser (startReading (ser v [])) = Inr (v, r') \<and> bytesRemaining r' = 0"
  using roundtrip [of v "[]" "[]"] by (simp add: startReading_def bytesRemaining_def)

lemma ser_inj: "valid v \<Longrightarrow> valid w \<Longrightarrow> ser v buf = ser w buf \<Longrightarrow> v = w"
  using roundtrip [of v buf "[]"] roundtrip [of w buf "[]"] by simp

lemma fold_ser:
  "\<forall>v\<in>set vs. valid v \<Longrightarrow>
    \<exists>bs. fold ser vs buf = buf @ bs \<and>
      length buf + length bs = fold (\<lambda>v n. n + space n v) vs (length buf)"
proof (induction vs arbitrary: buf)
  case Nil
  then show ?case by simp
next
  case (Cons v vs)
  then obtain bs where bs: "ser v buf = buf @ bs" "length bs = space (length buf) v"
    using ser_appends [of v buf] by auto
  obtain cs where cs: "fold ser vs (buf @ bs) = (buf @ bs) @ cs"
    "length (buf @ bs) + length cs = fold (\<lambda>v n. n + space n v) vs (length (buf @ bs))"
    using Cons.IH [of "buf @ bs"] Cons.prems by auto
  with bs show ?case by (intro exI [of _ "bs @ cs"]) simp
qed

lemma vector_elements_roundtrip:
  "\<forall>v\<in>set vs. valid v \<Longrightarrow>
    vector_elements deser (length vs) \<lparr>rd_bytes = fold ser vs buf @ rest, rd_pos = length buf\<rparr> =
      Inr (vs, \<lparr>rd_bytes = fold ser vs buf @ rest, rd_pos = length (fold ser vs buf)\<rparr>)"
proof (induction vs arbitrary: buf)
  case Nil
  then show ?case by simp
next
  case (Cons v vs)
  obtain cs where cs: "fold ser vs (ser v buf) = ser v buf @ cs"
    using fold_ser [of vs "ser v buf"] Cons.prems by auto
  have "deser \<lparr>rd_bytes = ser v buf @ (cs @ rest), rd_pos = length buf\<rparr> =
      Inr (v, \<lparr>rd_bytes = ser v buf @ (cs @ rest), rd_pos = length (ser v buf)\<rparr>)"
    by (rule roundtrip) (use Cons.prems in simp)
  with Cons.IH [of "ser v buf"] Cons.prems cs show ?case by simp
qed

lemma vector_elements_bounds:
  "reader_ok r \<Longrightarrow> vector_elements deser n r = Inr (vs, r') \<Longrightarrow>
     reads_forward r r' \<and> length vs = n"
proof (induction n arbitrary: r vs)
  case 0
  then show ?case by simp
next
  case (Suc n)
  then obtain v r1 ws where "deser r = Inr (v, r1)" "vector_elements deser n r1 = Inr (ws, r')" "vs = v # ws"
    by auto
  with Suc.IH [of r1 ws] in_bounds [OF Suc.prems(1)] show ?case
    using reads_forward_ok reads_forward_trans by fastforce
qed

end

locale codec_pair =
  first: codec s1 d1 p1 v1 + second: codec s2 d2 p2 v2
  for s1 :: "'a serializer" and d1 p1 v1 and s2 :: "'b serializer" and d2 p2 v2
begin

lemma pair_codec:
  "codec (pair_serialize s1 s2) (pair_deserialize d1 d2) (pair_spaceRequired p1 p2)
     (\<lambda>(a, b). v1 a \<and> v2 b)"
proof
  fix v :: "'a \<times> 'b" and buf rest :: "u8 list"
  assume "case v of (a, b) \<Rightarrow> v1 a \<and> v2 b"
  then have va: "v1 (fst v)" and vb: "v2 (snd v)" by (simp_all add: case_prod_unfold)
  obtain as where as: "s1 (fst v) buf = buf @ as" "length as = p1 (length buf) (fst v)"
    using first.ser_appends [OF va] by blast
  obtain bs where bs: "s2 (snd v) (buf @ as) = (buf @ as) @ bs" "length bs = p2 (length (buf @ as)) (snd v)"
    using second.ser_appends [OF vb] by blast
  show "\<exists>bs. pair_serialize s1 s2 v buf = buf @ bs \<and> length bs = pair_spaceRequired p1 p2 (length buf) v"
    using as bs by (simp add: pair_serialize_def pair_spaceRequired_def Let_def)
  have "d1 \<lparr>rd_bytes = s1 (fst v) buf @ (bs @ rest), rd_pos = length buf\<rparr> =
      Inr (fst v, \<lparr>rd_bytes = s1 (fst v) buf @ (bs @ rest), rd_pos = length (s1 (fst v) buf)\<rparr>)"
    by (rule first.roundtrip [OF va])
  with second.roundtrip [OF vb, of "buf @ as" rest] as bs
  show "pair_deserialize d1 d2 \<lparr>rd_bytes = pair_serialize s1 s2 v buf @ rest, rd_pos = length buf\<rparr> =
      Inr (v, \<lparr>rd_bytes = pair_serialize s1 s2 v buf @ rest, rd_pos = length (pair_serialize s1 s2 v buf)\<rparr>)"
    by (simp add: pair_serialize_def pair_deserialize_def)
next
  fix r r' v
  assume "reader_ok r" and "pair_deserialize d1 d2 r = Inr (v, r')"
  then show "reads_forward r r'"
    by (auto simp: pair_deserialize_def dest!: first.in_bounds)
      (meson reads_forward_ok reads_forward_trans second.in_bounds)
qed

end

sublocale codec_pair \<subseteq> codec "pair_serialize s1 s2" "pair_deserialize d1 d2"
  "pair_spaceRequired p1 p2" "\<lambda>(a, b). v1 a \<and> v2 b"
  by (rule pair_codec)

locale codec_map = inner: codec s d p v
  for s :: "'a serializer" and d p v and f :: "'b \<Rightarrow> 'a" and g :: "'a \<Rightarrow> 'b"
    and w :: "'b \<Rightarrow> bool" +
  assumes map_valid: "w b \<Longrightarrow> v (f b)"
    and map_back: "w b \<Longrightarrow> g (f b) = b"
begin

lemma map_codec:
  "codec (map_serialize f s) (map_deserialize g d) (\<lambda>n b. p n (f b)) w"
proof
  fix b :: 'b and buf rest :: "u8 list"
  assume b: "w b"
  show "\<exists>bs. map_serialize f s b buf = buf @ bs \<and> length bs = p (length buf) (f b)"
    using inner.ser_appends [OF map_valid [OF b]] by (simp add: map_serialize_def)
  show "map_deserialize g d \<lparr>rd_bytes = map_serialize f s b buf @ rest, rd_pos = length buf\<rparr> =
      Inr (b, \<lparr>rd_bytes = map_serialize f s b buf @ rest, rd_pos = length (map_serialize f s b buf)\<rparr>)"
    using inner.roundtrip [OF map_valid [OF b]] map_back [OF b]
    by (simp add: map_serialize_def map_deserialize_def)
next
  fix r r' b
  assume "reader_ok r" and "map_deserialize g d r = Inr (b, r')"
  then show "reads_forward r r'"
    by (auto simp: map_deserialize_def dest: inner.in_bounds)
qed

end

sublocale codec_map \<subseteq> codec "map_serialize f s" "map_deserialize g d" "\<lambda>n b. p n (f b)" w
  by (rule map_codec)

text \<open>
  A member whose tag is computed from the members before it, as the pixels of an image message
  are read with the length the metadata give.
\<close>

definition dep_serialize :: "'a serializer \<Rightarrow> ('a \<Rightarrow> 'b serializer) \<Rightarrow> ('a \<times> 'b) serializer" where
  "dep_serialize s1 s2 v buf = s2 (fst v) (snd v) (s1 (fst v) buf)"

definition dep_deserialize :: "'a deserializer \<Rightarrow> ('a \<Rightarrow> 'b deserializer) \<Rightarrow> ('a \<times> 'b) deserializer" where
  "dep_deserialize d1 d2 r =
     result_bind (d1 r) (\<lambda>(a, r1). result_bind (d2 a r1) (\<lambda>(b, r2). Inr ((a, b), r2)))"

definition dep_spaceRequired ::
    "(nat \<Rightarrow> 'a \<Rightarrow> nat) \<Rightarrow> ('a \<Rightarrow> nat \<Rightarrow> 'b \<Rightarrow> nat) \<Rightarrow> nat \<Rightarrow> 'a \<times> 'b \<Rightarrow> nat" where
  "dep_spaceRequired p1 p2 n v = p1 n (fst v) + p2 (fst v) (n + p1 n (fst v)) (snd v)"

locale codec_dep = first: codec s1 d1 p1 v1
  for s1 :: "'a serializer" and d1 p1 v1 and s2 :: "'a \<Rightarrow> 'b serializer" and d2 p2 v2 +
  assumes second: "codec (s2 a) (d2 a) (p2 a) (v2 a)"
begin

lemma dep_codec:
  "codec (dep_serialize s1 s2) (dep_deserialize d1 d2) (dep_spaceRequired p1 p2)
     (\<lambda>(a, b). v1 a \<and> v2 a b)"
proof
  fix v :: "'a \<times> 'b" and buf rest :: "u8 list"
  assume "case v of (a, b) \<Rightarrow> v1 a \<and> v2 a b"
  then have va: "v1 (fst v)" and vb: "v2 (fst v) (snd v)" by (simp_all add: case_prod_unfold)
  obtain as where as: "s1 (fst v) buf = buf @ as" "length as = p1 (length buf) (fst v)"
    using first.ser_appends [OF va] by blast
  obtain bs where bs: "s2 (fst v) (snd v) (buf @ as) = (buf @ as) @ bs"
    "length bs = p2 (fst v) (length (buf @ as)) (snd v)"
    using codec.ser_appends [OF second vb] by blast
  show "\<exists>bs. dep_serialize s1 s2 v buf = buf @ bs \<and> length bs = dep_spaceRequired p1 p2 (length buf) v"
    using as bs by (simp add: dep_serialize_def dep_spaceRequired_def)
  have "d1 \<lparr>rd_bytes = s1 (fst v) buf @ (bs @ rest), rd_pos = length buf\<rparr> =
      Inr (fst v, \<lparr>rd_bytes = s1 (fst v) buf @ (bs @ rest), rd_pos = length (s1 (fst v) buf)\<rparr>)"
    by (rule first.roundtrip [OF va])
  with codec.roundtrip [OF second vb, of "buf @ as" rest] as bs
  show "dep_deserialize d1 d2 \<lparr>rd_bytes = dep_serialize s1 s2 v buf @ rest, rd_pos = length buf\<rparr> =
      Inr (v, \<lparr>rd_bytes = dep_serialize s1 s2 v buf @ rest, rd_pos = length (dep_serialize s1 s2 v buf)\<rparr>)"
    by (simp add: dep_serialize_def dep_deserialize_def)
next
  fix r r' v
  assume "reader_ok r" and "dep_deserialize d1 d2 r = Inr (v, r')"
  then show "reads_forward r r'"
    by (auto simp: dep_deserialize_def dest!: first.in_bounds)
      (meson codec.in_bounds reads_forward_ok reads_forward_trans second)
qed

end

sublocale codec_dep \<subseteq> codec "dep_serialize s1 s2" "dep_deserialize d1 d2"
  "dep_spaceRequired p1 p2" "\<lambda>(a, b). v1 a \<and> v2 a b"
  by (rule dep_codec)

subsection \<open>The traits satisfy the contract\<close>

lemma codec_arith:
  assumes "8 dvd LENGTH('a::len)"
  shows "codec (arith_serialize bo :: 'a word serializer) (arith_deserialize bo) arith_spaceRequired (\<lambda>_. True)"
proof
  fix v :: "'a word" and buf rest :: "u8 list"
  show "\<exists>bs. arith_serialize bo v buf = buf @ bs \<and> length bs = arith_spaceRequired (length buf) v"
    by (simp add: arith_serialize_def arith_spaceRequired_def appendAligned_eq sizeof_def)
  have "readAligned (LENGTH('a) div 8) (LENGTH('a) div 8)
      \<lparr>rd_bytes = appendAligned (memory_of bo (hton bo v)) (LENGTH('a) div 8) buf @ rest,
        rd_pos = length buf\<rparr> =
      Inr (memory_of bo (hton bo v),
        \<lparr>rd_bytes = appendAligned (memory_of bo (hton bo v)) (LENGTH('a) div 8) buf @ rest,
          rd_pos = length (appendAligned (memory_of bo (hton bo v)) (LENGTH('a) div 8) buf)\<rparr>)"
    by (rule readAligned_appendAligned) (simp add: sizeof_def)
  then show "arith_deserialize bo \<lparr>rd_bytes = arith_serialize bo v buf @ rest, rd_pos = length buf\<rparr> =
      Inr (v, \<lparr>rd_bytes = arith_serialize bo v buf @ rest, rd_pos = length (arith_serialize bo v buf)\<rparr>)"
    by (simp add: arith_deserialize_def arith_serialize_def sizeof_def from_memory_inverse ntoh_hton assms)
next
  fix r r' and v :: "'a word"
  assume "reader_ok r" and "arith_deserialize bo r = Inr (v, r')"
  then show "reads_forward r r'"
    by (auto simp: arith_deserialize_def dest: readAligned_forward)
qed

interpretation u8: codec "arith_serialize bo :: u8 serializer" "arith_deserialize bo" arith_spaceRequired "\<lambda>_. True"
  for bo by (rule codec_arith) simp

interpretation u16: codec "arith_serialize bo :: u16 serializer" "arith_deserialize bo" arith_spaceRequired "\<lambda>_. True"
  for bo by (rule codec_arith) simp

interpretation u32: codec "arith_serialize bo :: u32 serializer" "arith_deserialize bo" arith_spaceRequired "\<lambda>_. True"
  for bo by (rule codec_arith) simp

interpretation u64: codec "arith_serialize bo :: u64 serializer" "arith_deserialize bo" arith_spaceRequired "\<lambda>_. True"
  for bo by (rule codec_arith) simp

text \<open>The bytes on the wire do not depend on the host: both ends may differ in byte order.\<close>

lemma wire_bytes_host_independent:
  fixes v :: "'a::len word"
  assumes "8 dvd LENGTH('a)"
  shows "memory_of bo (hton bo v) = memory_of bo' (hton bo' v)"
  by (simp add: memory_of_hton assms)

lemma arith_serialize_host_independent:
  fixes v :: "'a::len word"
  assumes "8 dvd LENGTH('a)"
  shows "arith_serialize bo v buf = arith_serialize bo' v buf"
  using wire_bytes_host_independent [OF assms, of bo v bo'] by (simp add: arith_serialize_def)

lemma OSVR_TRUE_FALSE [simp]: "OSVR_TRUE \<noteq> OSVR_FALSE" "OSVR_FALSE \<noteq> OSVR_TRUE"
  by (simp_all add: OSVR_TRUE_def OSVR_FALSE_def)

interpretation bool: codec_map "arith_serialize bo :: u8 serializer" "arith_deserialize bo"
  arith_spaceRequired "\<lambda>_. True" "\<lambda>b. if b then OSVR_TRUE else OSVR_FALSE" "\<lambda>c. c = OSVR_TRUE"
  "\<lambda>_. True" for bo by unfold_locales auto

lemma bool_serialize_eq:
  "bool_serialize bo = map_serialize (\<lambda>b. if b then OSVR_TRUE else OSVR_FALSE) (arith_serialize bo)"
  by (simp add: fun_eq_iff bool_serialize_def map_serialize_def)

lemma bool_deserialize_eq:
  "bool_deserialize bo = map_deserialize (\<lambda>c. c = OSVR_TRUE) (arith_deserialize bo)"
  by (simp add: fun_eq_iff bool_deserialize_def map_deserialize_def)

lemma enum_serialize_eq: "enum_serialize bo f = map_serialize f (arith_serialize bo)"
  by (simp add: fun_eq_iff enum_serialize_def map_serialize_def)

lemma enum_deserialize_eq: "enum_deserialize bo g = map_deserialize g (arith_deserialize bo)"
  by (simp add: fun_eq_iff enum_deserialize_def map_deserialize_def)

definition short_string :: "u8 list \<Rightarrow> bool" where
  "short_string s \<longleftrightarrow> length s < 2 ^ 32"

lemma unat_of_nat_u32: "n < 2 ^ 32 \<Longrightarrow> unat (of_nat n :: u32) = n"
  by (simp add: unat_of_nat take_bit_nat_eq_self)

interpretation str: codec "string_serialize bo" "string_deserialize bo" string_spaceRequired short_string
  for bo
proof
  fix v buf rest :: "u8 list"
  assume "short_string v"
  then have len [simp]: "unat (of_nat (length v) :: u32) = length v"
    by (simp add: short_string_def unat_of_nat_u32)
  show "\<exists>bs. string_serialize bo v buf = buf @ bs \<and> length bs = string_spaceRequired (length buf) v"
    using u32.ser_appends [of bo "of_nat (length v)" buf]
    by (auto simp: string_serialize_def string_spaceRequired_def append_bytes_def arith_spaceRequired_def
        sizeof_def)
  let ?b = "arith_serialize bo (of_nat (length v) :: u32) buf"
  have "arith_deserialize bo \<lparr>rd_bytes = ?b @ (v @ rest), rd_pos = length buf\<rparr> =
      Inr (of_nat (length v) :: u32, \<lparr>rd_bytes = ?b @ (v @ rest), rd_pos = length ?b\<rparr>)"
    by (rule u32.roundtrip) simp
  then show "string_deserialize bo \<lparr>rd_bytes = string_serialize bo v buf @ rest, rd_pos = length buf\<rparr> =
      Inr (v, \<lparr>rd_bytes = string_serialize bo v buf @ rest, rd_pos = length (string_serialize bo v buf)\<rparr>)"
    using readBytes_append [of v "length v" ?b rest]
    by (simp add: string_deserialize_def string_serialize_def append_bytes_def)
next
  fix r r' v
  assume "reader_ok r" and "string_deserialize bo r = Inr (v, r')"
  then show "reads_forward r r'"
    unfolding string_deserialize_def
    by (auto dest!: u32.in_bounds) (meson readBytes_forward reads_forward_ok reads_forward_trans)
qed

interpretation aligned: codec "aligned_serialize tag" "aligned_deserialize tag" "aligned_spaceRequired tag"
  "\<lambda>v. length v = tag_length tag" for tag
proof
  fix v buf rest :: "u8 list"
  assume len: "length v = tag_length tag"
  then show "\<exists>bs. aligned_serialize tag v buf = buf @ bs \<and> length bs = aligned_spaceRequired tag (length buf) v"
    by (simp add: aligned_serialize_def aligned_spaceRequired_def appendAligned_eq)
  show "aligned_deserialize tag \<lparr>rd_bytes = aligned_serialize tag v buf @ rest, rd_pos = length buf\<rparr> =
      Inr (v, \<lparr>rd_bytes = aligned_serialize tag v buf @ rest, rd_pos = length (aligned_serialize tag v buf)\<rparr>)"
    using readBytesAligned_appendAligned [OF len, of "tag_alignment tag" buf rest] len
    by (simp add: aligned_deserialize_def aligned_serialize_def)
next
  fix r r' v
  assume "reader_ok r" and "aligned_deserialize tag r = Inr (v, r')"
  then show "reads_forward r r'"
    by (auto simp: aligned_deserialize_def dest: readBytesAligned_forward)
qed

text \<open>
  The string-only message has no length: it takes all that is left, so it comes back when it
  stands last, and any bytes after it would become part of it.
\<close>

lemma stringonly_roundtrip:
  "stringonly_deserialize \<lparr>rd_bytes = stringonly_serialize v buf @ rest, rd_pos = length buf\<rparr> =
     Inr (v @ rest, \<lparr>rd_bytes = stringonly_serialize v buf @ rest,
       rd_pos = length (stringonly_serialize v buf @ rest)\<rparr>)"
  by (simp add: stringonly_deserialize_def stringonly_serialize_def append_bytes_def readBytes_def
      bytesRemaining_def advance_def)

lemma stringonly_space:
  "\<exists>bs. stringonly_serialize v buf = buf @ bs \<and> length bs = stringonly_spaceRequired (length buf) v"
  by (simp add: stringonly_serialize_def stringonly_spaceRequired_def append_bytes_def)

text \<open>A vector of elements with a codec.\<close>

context codec
begin

lemma vector_codec:
  "codec (vector_serialize bo ser) (vector_deserialize bo deser) (vector_spaceRequired space)
     (\<lambda>vs. length vs < 2 ^ 32 \<and> (\<forall>v\<in>set vs. valid v))"
proof
  fix vs and buf rest :: "u8 list"
  assume "length vs < 2 ^ 32 \<and> (\<forall>v\<in>set vs. valid v)"
  then have len: "unat (of_nat (length vs) :: u32) = length vs" and ok: "\<forall>v\<in>set vs. valid v"
    by (simp_all add: unat_of_nat_u32)
  let ?n = "of_nat (length vs) :: u32"
  let ?b = "arith_serialize bo ?n buf"
  obtain bs where bs: "?b = buf @ bs" "length bs = arith_spaceRequired (length buf) ?n"
    using u32.ser_appends [of bo ?n buf] by auto
  obtain cs where cs: "fold ser vs ?b = ?b @ cs"
    "length ?b + length cs = fold (\<lambda>v n. n + space n v) vs (length ?b)"
    using fold_ser [OF ok, of ?b] by auto
  show "\<exists>bs. vector_serialize bo ser vs buf = buf @ bs \<and>
      length bs = vector_spaceRequired space (length buf) vs"
    using bs cs by (intro exI [of _ "bs @ cs"]) (simp add: vector_serialize_def vector_spaceRequired_def)
  have "arith_deserialize bo \<lparr>rd_bytes = ?b @ (cs @ rest), rd_pos = length buf\<rparr> =
      Inr (?n, \<lparr>rd_bytes = ?b @ (cs @ rest), rd_pos = length ?b\<rparr>)"
    by (rule u32.roundtrip) simp
  with vector_elements_roundtrip [OF ok, of ?b rest] cs(1) len
  show "vector_deserialize bo deser \<lparr>rd_bytes = vector_serialize bo ser vs buf @ rest, rd_pos = length buf\<rparr> =
      Inr (vs, \<lparr>rd_bytes = vector_serialize bo ser vs buf @ rest,
        rd_pos = length (vector_serialize bo ser vs buf)\<rparr>)"
    by (simp add: vector_deserialize_def vector_serialize_def)
next
  fix r r' vs
  assume "reader_ok r" and "vector_deserialize bo deser r = Inr (vs, r')"
  then show "reads_forward r r'"
    unfolding vector_deserialize_def
    by (auto dest!: u32.in_bounds) (meson vector_elements_bounds reads_forward_ok reads_forward_trans)
qed

end

end
