(* ===== verification/Messages.thy ===== *)
theory Messages
  imports Serialization
begin

text \<open>
  The messages of the device components: the \<^verbatim>\<open>MessageSerialization\<close> classes of
  \<^verbatim>\<open>EyeTrackerComponent.cpp\<close>, \<^verbatim>\<open>Location2DComponent.cpp\<close>, \<^verbatim>\<open>DirectionComponent.cpp\<close>,
  \<^verbatim>\<open>LocomotionComponent.cpp\<close> and \<^verbatim>\<open>ImagingComponent.cpp\<close>, the small structures they contain,
  and the \<^verbatim>\<open>SimpleStructSerialization\<close>s of those.

  Each message is the sequence of calls its \<^verbatim>\<open>processMessage\<close> makes, once with the serializing
  functor and once with the deserializing one; each is interpreted as a codec, so it comes back
  from its bytes, on a host of either byte order. A \<^verbatim>\<open>double\<close> is its bit pattern.
\<close>

type_synonym OSVR_ChannelCount = u32

subsection \<open>Vectors\<close>

record OSVR_Vec2 =
  vec2_0 :: u64
  vec2_1 :: u64

record OSVR_Vec3 =
  vec3_0 :: u64
  vec3_1 :: u64
  vec3_2 :: u64

definition Vec2_serialize :: "byte_order \<Rightarrow> OSVR_Vec2 serializer" where
  "Vec2_serialize bo =
     map_serialize (\<lambda>v. (vec2_0 v, vec2_1 v)) (pair_serialize (arith_serialize bo) (arith_serialize bo))"

definition Vec2_deserialize :: "byte_order \<Rightarrow> OSVR_Vec2 deserializer" where
  "Vec2_deserialize bo =
     map_deserialize (\<lambda>(x, y). \<lparr>vec2_0 = x, vec2_1 = y\<rparr>)
       (pair_deserialize (arith_deserialize bo) (arith_deserialize bo))"

definition Vec2_spaceRequired :: "nat \<Rightarrow> OSVR_Vec2 \<Rightarrow> nat" where
  "Vec2_spaceRequired n v =
     pair_spaceRequired arith_spaceRequired arith_spaceRequired n (vec2_0 v, vec2_1 v)"

definition Vec3_serialize :: "byte_order \<Rightarrow> OSVR_Vec3 serializer" where
  "Vec3_serialize bo =
     map_serialize (\<lambda>v. (vec3_0 v, vec3_1 v, vec3_2 v))
       (pair_serialize (arith_serialize bo) (pair_serialize (arith_serialize bo) (arith_serialize bo)))"

definition Vec3_deserialize :: "byte_order \<Rightarrow> OSVR_Vec3 deserializer" where
  "Vec3_deserialize bo =
     map_deserialize (\<lambda>(x, y, z). \<lparr>vec3_0 = x, vec3_1 = y, vec3_2 = z\<rparr>)
       (pair_deserialize (arith_deserialize bo)
         (pair_deserialize (arith_deserialize bo) (arith_deserialize bo)))"

definition Vec3_spaceRequired :: "nat \<Rightarrow> OSVR_Vec3 \<Rightarrow> nat" where
  "Vec3_spaceRequired n v =
     pair_spaceRequired arith_spaceRequired (pair_spaceRequired arith_spaceRequired arith_spaceRequired) n
       (vec3_0 v, vec3_1 v, vec3_2 v)"

interpretation u64_pair: codec_pair
  "arith_serialize bo :: u64 serializer" "arith_deserialize bo" arith_spaceRequired "\<lambda>_. True"
  "arith_serialize bo :: u64 serializer" "arith_deserialize bo" arith_spaceRequired "\<lambda>_. True"
  for bo by unfold_locales

interpretation u64_triple: codec_pair
  "arith_serialize bo :: u64 serializer" "arith_deserialize bo" arith_spaceRequired "\<lambda>_. True"
  "pair_serialize (arith_serialize bo) (arith_serialize bo) :: (u64 \<times> u64) serializer"
  "pair_deserialize (arith_deserialize bo) (arith_deserialize bo)"
  "pair_spaceRequired arith_spaceRequired arith_spaceRequired" "\<lambda>(a, b). True \<and> True"
  for bo by unfold_locales

interpretation vec2_map: codec_map
  "pair_serialize (arith_serialize bo) (arith_serialize bo) :: (u64 \<times> u64) serializer"
  "pair_deserialize (arith_deserialize bo) (arith_deserialize bo)"
  "pair_spaceRequired arith_spaceRequired arith_spaceRequired" "\<lambda>(a, b). True \<and> True"
  "\<lambda>v. (vec2_0 v, vec2_1 v)" "\<lambda>(x, y). \<lparr>vec2_0 = x, vec2_1 = y\<rparr>" "\<lambda>_. True"
  for bo by unfold_locales auto

interpretation vec3_map: codec_map
  "pair_serialize (arith_serialize bo) (pair_serialize (arith_serialize bo) (arith_serialize bo))
    :: (u64 \<times> u64 \<times> u64) serializer"
  "pair_deserialize (arith_deserialize bo) (pair_deserialize (arith_deserialize bo) (arith_deserialize bo))"
  "pair_spaceRequired arith_spaceRequired (pair_spaceRequired arith_spaceRequired arith_spaceRequired)"
  "\<lambda>(a, b). True \<and> (\<lambda>(a, b). True \<and> True) b"
  "\<lambda>v. (vec3_0 v, vec3_1 v, vec3_2 v)" "\<lambda>(x, y, z). \<lparr>vec3_0 = x, vec3_1 = y, vec3_2 = z\<rparr>" "\<lambda>_. True"
  for bo by unfold_locales auto

interpretation vec2: codec "Vec2_serialize bo" "Vec2_deserialize bo" Vec2_spaceRequired "\<lambda>_. True"
  for bo
  using vec2_map.map_codec [of bo]
  unfolding Vec2_serialize_def Vec2_deserialize_def Vec2_spaceRequired_def [abs_def] .

interpretation vec3: codec "Vec3_serialize bo" "Vec3_deserialize bo" Vec3_spaceRequired "\<lambda>_. True"
  for bo
  using vec3_map.map_codec [of bo]
  unfolding Vec3_serialize_def Vec3_deserialize_def Vec3_spaceRequired_def [abs_def] .

text \<open>The two ways of building codecs, as rules, for structures of many members.\<close>

lemma codec_pairI:
  "codec s1 d1 p1 v1 \<Longrightarrow> codec s2 d2 p2 v2 \<Longrightarrow>
     codec (pair_serialize s1 s2) (pair_deserialize d1 d2) (pair_spaceRequired p1 p2)
       (\<lambda>(a, b). v1 a \<and> v2 b)"
  by (rule codec_pair.pair_codec) (simp add: codec_pair_def)

lemma codec_mapI:
  "codec s d p v \<Longrightarrow> (\<And>b. w b \<Longrightarrow> v (f b) \<and> g (f b) = b) \<Longrightarrow>
     codec (map_serialize f s) (map_deserialize g d) (\<lambda>n b. p n (f b)) w"
  by (rule codec_map.map_codec [of s d p v]) (simp add: codec_map_def codec_map_axioms_def)

subsection \<open>Sensor records\<close>

text \<open>The eye tracker's notification is its sensor number only.\<close>

record OSVR_EyeNotification =
  en_sensor :: OSVR_ChannelCount

definition EyeRegion_serialize :: "byte_order \<Rightarrow> OSVR_EyeNotification serializer" where
  "EyeRegion_serialize bo = map_serialize en_sensor (arith_serialize bo)"

definition EyeRegion_deserialize :: "byte_order \<Rightarrow> OSVR_EyeNotification deserializer" where
  "EyeRegion_deserialize bo = map_deserialize (\<lambda>s. \<lparr>en_sensor = s\<rparr>) (arith_deserialize bo)"

text \<open>
  \<^verbatim>\<open>LocationRecord\<close>, \<^verbatim>\<open>NaviVelocityRecord\<close> and \<^verbatim>\<open>NaviPositionRecord\<close> are a \<^verbatim>\<open>OSVR_Vec2\<close> and a
  sensor, \<^verbatim>\<open>DirectionRecord\<close> a \<^verbatim>\<open>OSVR_Vec3\<close> and a sensor.
\<close>

record LocationData =
  ld_sensor :: OSVR_ChannelCount
  ld_location :: OSVR_Vec2

record DirectionData =
  dd_sensor :: OSVR_ChannelCount
  dd_direction :: OSVR_Vec3

record NaviVelocityData =
  nv_sensor :: OSVR_ChannelCount
  nv_naviVelState :: OSVR_Vec2

record NaviPositionData =
  np_sensor :: OSVR_ChannelCount
  np_naviPosnState :: OSVR_Vec2

definition LocationRecord_serialize :: "byte_order \<Rightarrow> LocationData serializer" where
  "LocationRecord_serialize bo =
     map_serialize (\<lambda>d. (ld_location d, ld_sensor d)) (pair_serialize (Vec2_serialize bo) (arith_serialize bo))"

definition LocationRecord_deserialize :: "byte_order \<Rightarrow> LocationData deserializer" where
  "LocationRecord_deserialize bo =
     map_deserialize (\<lambda>(l, s). \<lparr>ld_sensor = s, ld_location = l\<rparr>)
       (pair_deserialize (Vec2_deserialize bo) (arith_deserialize bo))"

definition DirectionRecord_serialize :: "byte_order \<Rightarrow> DirectionData serializer" where
  "DirectionRecord_serialize bo =
     map_serialize (\<lambda>d. (dd_direction d, dd_sensor d)) (pair_serialize (Vec3_serialize bo) (arith_serialize bo))"

definition DirectionRecord_deserialize :: "byte_order \<Rightarrow> DirectionData deserializer" where
  "DirectionRecord_deserialize bo =
     map_deserialize (\<lambda>(v, s). \<lparr>dd_sensor = s, dd_direction = v\<rparr>)
       (pair_deserialize (Vec3_deserialize bo) (arith_deserialize bo))"

definition NaviVelocityRecord_serialize :: "byte_order \<Rightarrow> NaviVelocityData serializer" where
  "NaviVelocityRecord_serialize bo =
     map_serialize (\<lambda>d. (nv_naviVelState d, nv_sensor d)) (pair_serialize (Vec2_serialize bo) (arith_serialize bo))"

definition NaviVelocityRecord_deserialize :: "byte_order \<Rightarrow> NaviVelocityData deserializer" where
  "NaviVelocityRecord_deserialize bo =
     map_deserialize (\<lambda>(v, s). \<lparr>nv_sensor = s, nv_naviVelState = v\<rparr>)
       (pair_deserialize (Vec2_deserialize bo) (arith_deserialize bo))"

definition NaviPositionRecord_serialize :: "byte_order \<Rightarrow> NaviPositionData serializer" where
  "NaviPositionRecord_serialize bo =
     map_serialize (\<lambda>d. (np_naviPosnState d, np_sensor d)) (pair_serialize (Vec2_serialize bo) (arith_serialize bo))"

definition NaviPositionRecord_deserialize :: "byte_order \<Rightarrow> NaviPositionData deserializer" where
  "NaviPositionRecord_deserialize bo =
     map_deserialize (\<lambda>(v, s). \<lparr>np_sensor = s, np_naviPosnState = v\<rparr>)
       (pair_deserialize (Vec2_deserialize bo) (arith_deserialize bo))"

interpretation vec2_sensor: codec_pair "Vec2_serialize bo" "Vec2_deserialize bo" Vec2_spaceRequired "\<lambda>_. True"
  "arith_serialize bo :: u32 serializer" "arith_deserialize bo" arith_spaceRequired "\<lambda>_. True"
  for bo by unfold_locales

interpretation vec3_sensor: codec_pair "Vec3_serialize bo" "Vec3_deserialize bo" Vec3_spaceRequired "\<lambda>_. True"
  "arith_serialize bo :: u32 serializer" "arith_deserialize bo" arith_spaceRequired "\<lambda>_. True"
  for bo by unfold_locales

text \<open>\<open>report_codec\<close>: a codec without restrictions on its values, whatever space it needs.\<close>

locale report_codec = codec ser deser space "\<lambda>_. True" for ser :: "'a serializer" and deser space
begin

lemma reads_back: "\<exists>r'. deser (startReading (ser v [])) = Inr (v, r') \<and> bytesRemaining r' = 0"
  by (rule message_roundtrip) simp

end

interpretation eye_map: codec_map "arith_serialize bo :: u32 serializer" "arith_deserialize bo"
  arith_spaceRequired "\<lambda>_. True" en_sensor "\<lambda>s. \<lparr>en_sensor = s\<rparr>" "\<lambda>_. True" for bo
  by unfold_locales auto

interpretation eye: report_codec "EyeRegion_serialize bo" "EyeRegion_deserialize bo"
  "\<lambda>n d. arith_spaceRequired n (en_sensor d)" for bo
  unfolding report_codec_def EyeRegion_serialize_def EyeRegion_deserialize_def
  by (rule eye_map.map_codec)

interpretation location_map: codec_map
  "pair_serialize (Vec2_serialize bo) (arith_serialize bo) :: (OSVR_Vec2 \<times> u32) serializer"
  "pair_deserialize (Vec2_deserialize bo) (arith_deserialize bo)"
  "pair_spaceRequired Vec2_spaceRequired arith_spaceRequired" "\<lambda>(a, b). True \<and> True"
  "\<lambda>d. (ld_location d, ld_sensor d)" "\<lambda>(l, s). \<lparr>ld_sensor = s, ld_location = l\<rparr>" "\<lambda>_. True" for bo
  by unfold_locales auto

interpretation location: report_codec "LocationRecord_serialize bo" "LocationRecord_deserialize bo"
  "\<lambda>n d. pair_spaceRequired Vec2_spaceRequired arith_spaceRequired n (ld_location d, ld_sensor d)" for bo
  unfolding report_codec_def LocationRecord_serialize_def LocationRecord_deserialize_def
  by (rule location_map.map_codec)

interpretation direction_map: codec_map
  "pair_serialize (Vec3_serialize bo) (arith_serialize bo) :: (OSVR_Vec3 \<times> u32) serializer"
  "pair_deserialize (Vec3_deserialize bo) (arith_deserialize bo)"
  "pair_spaceRequired Vec3_spaceRequired arith_spaceRequired" "\<lambda>(a, b). True \<and> True"
  "\<lambda>d. (dd_direction d, dd_sensor d)" "\<lambda>(l, s). \<lparr>dd_sensor = s, dd_direction = l\<rparr>" "\<lambda>_. True" for bo
  by unfold_locales auto

interpretation direction: report_codec "DirectionRecord_serialize bo" "DirectionRecord_deserialize bo"
  "\<lambda>n d. pair_spaceRequired Vec3_spaceRequired arith_spaceRequired n (dd_direction d, dd_sensor d)" for bo
  unfolding report_codec_def DirectionRecord_serialize_def DirectionRecord_deserialize_def
  by (rule direction_map.map_codec)

interpretation navi_velocity_map: codec_map
  "pair_serialize (Vec2_serialize bo) (arith_serialize bo) :: (OSVR_Vec2 \<times> u32) serializer"
  "pair_deserialize (Vec2_deserialize bo) (arith_deserialize bo)"
  "pair_spaceRequired Vec2_spaceRequired arith_spaceRequired" "\<lambda>(a, b). True \<and> True"
  "\<lambda>d. (nv_naviVelState d, nv_sensor d)" "\<lambda>(l, s). \<lparr>nv_sensor = s, nv_naviVelState = l\<rparr>" "\<lambda>_. True" for bo
  by unfold_locales auto

interpretation navi_velocity: report_codec "NaviVelocityRecord_serialize bo" "NaviVelocityRecord_deserialize bo"
  "\<lambda>n d. pair_spaceRequired Vec2_spaceRequired arith_spaceRequired n (nv_naviVelState d, nv_sensor d)" for bo
  unfolding report_codec_def NaviVelocityRecord_serialize_def NaviVelocityRecord_deserialize_def
  by (rule navi_velocity_map.map_codec)

interpretation navi_position_map: codec_map
  "pair_serialize (Vec2_serialize bo) (arith_serialize bo) :: (OSVR_Vec2 \<times> u32) serializer"
  "pair_deserialize (Vec2_deserialize bo) (arith_deserialize bo)"
  "pair_spaceRequired Vec2_spaceRequired arith_spaceRequired" "\<lambda>(a, b). True \<and> True"
  "\<lambda>d. (np_naviPosnState d, np_sensor d)" "\<lambda>(l, s). \<lparr>np_sensor = s, np_naviPosnState = l\<rparr>" "\<lambda>_. True" for bo
  by unfold_locales auto

interpretation navi_position: report_codec "NaviPositionRecord_serialize bo" "NaviPositionRecord_deserialize bo"
  "\<lambda>n d. pair_spaceRequired Vec2_spaceRequired arith_spaceRequired n (np_naviPosnState d, np_sensor d)" for bo
  unfolding report_codec_def NaviPositionRecord_serialize_def NaviPositionRecord_deserialize_def
  by (rule navi_position_map.map_codec)

subsection \<open>Imaging messages\<close>

text \<open>
  The enumeration is sent as one byte; a received byte that is no enumerator is cast to the
  enumeration all the same, which \<open>IVT_Other\<close> stands for.
\<close>

datatype OSVR_ImagingValueType =
  OSVR_IVT_UNSIGNED_INT | OSVR_IVT_SIGNED_INT | OSVR_IVT_FLOATING_POINT | IVT_Other u8

fun ivt_to_u8 :: "OSVR_ImagingValueType \<Rightarrow> u8" where
  "ivt_to_u8 OSVR_IVT_UNSIGNED_INT = 0"
| "ivt_to_u8 OSVR_IVT_SIGNED_INT = 1"
| "ivt_to_u8 OSVR_IVT_FLOATING_POINT = 2"
| "ivt_to_u8 (IVT_Other b) = b"

definition ivt_of_u8 :: "u8 \<Rightarrow> OSVR_ImagingValueType" where
  "ivt_of_u8 b =
     (if b = 0 then OSVR_IVT_UNSIGNED_INT else if b = 1 then OSVR_IVT_SIGNED_INT
      else if b = 2 then OSVR_IVT_FLOATING_POINT else IVT_Other b)"

fun proper_ivt :: "OSVR_ImagingValueType \<Rightarrow> bool" where
  "proper_ivt (IVT_Other b) = (b \<noteq> 0 \<and> b \<noteq> 1 \<and> b \<noteq> 2)"
| "proper_ivt _ = True"

lemma ivt_of_to [simp]: "proper_ivt t \<Longrightarrow> ivt_of_u8 (ivt_to_u8 t) = t"
  by (cases t) (auto simp: ivt_of_u8_def)

record OSVR_ImagingMetadata =
  im_height :: u32
  im_width :: u32
  im_channels :: u8
  im_depth :: u8
  im_type :: OSVR_ImagingValueType

text \<open>\<^verbatim>\<open>getBufferSize\<close> multiplies in 32-bit unsigned arithmetic.\<close>

definition getBufferSize :: "OSVR_ImagingMetadata \<Rightarrow> u32" where
  "getBufferSize meta = im_height meta * im_width meta * ucast (im_depth meta) * ucast (im_channels meta)"

definition image_bytes :: "OSVR_ImagingMetadata \<Rightarrow> nat" where
  "image_bytes meta =
     unat (im_height meta) * unat (im_width meta) * unat (im_depth meta) * unat (im_channels meta)"

lemma getBufferSize_mod: "unat (getBufferSize meta) = image_bytes meta mod 2 ^ 32"
proof -
  have "unat (ucast (b :: u8) :: u32) = unat b" for b
    using unsigned_less [of b, where ?'a = nat] by (simp add: unsigned_ucast_eq take_bit_nat_eq_self)
  then show ?thesis
    by (simp add: getBufferSize_def image_bytes_def unat_word_ariths mod_mult_left_eq mod_mult_right_eq)
qed

definition metadata_tuple :: "OSVR_ImagingMetadata \<Rightarrow> u32 \<times> u32 \<times> u8 \<times> u8 \<times> OSVR_ImagingValueType" where
  "metadata_tuple m = (im_height m, im_width m, im_channels m, im_depth m, im_type m)"

definition tuple_metadata :: "u32 \<times> u32 \<times> u8 \<times> u8 \<times> OSVR_ImagingValueType \<Rightarrow> OSVR_ImagingMetadata" where
  "tuple_metadata =
     (\<lambda>(h, w, c, d, t). \<lparr>im_height = h, im_width = w, im_channels = c, im_depth = d, im_type = t\<rparr>)"

definition metadata_serialize :: "byte_order \<Rightarrow> OSVR_ImagingMetadata serializer" where
  "metadata_serialize bo =
     map_serialize metadata_tuple
       (pair_serialize (arith_serialize bo) (pair_serialize (arith_serialize bo)
         (pair_serialize (arith_serialize bo) (pair_serialize (arith_serialize bo)
           (enum_serialize bo ivt_to_u8)))))"

definition metadata_deserialize :: "byte_order \<Rightarrow> OSVR_ImagingMetadata deserializer" where
  "metadata_deserialize bo =
     map_deserialize tuple_metadata
       (pair_deserialize (arith_deserialize bo) (pair_deserialize (arith_deserialize bo)
         (pair_deserialize (arith_deserialize bo) (pair_deserialize (arith_deserialize bo)
           (enum_deserialize bo ivt_of_u8)))))"

definition metadata_spaceRequired :: "nat \<Rightarrow> OSVR_ImagingMetadata \<Rightarrow> nat" where
  "metadata_spaceRequired n m =
     pair_spaceRequired arith_spaceRequired (pair_spaceRequired arith_spaceRequired
       (pair_spaceRequired arith_spaceRequired (pair_spaceRequired arith_spaceRequired
         (\<lambda>n t. arith_spaceRequired n (ivt_to_u8 t))))) n (metadata_tuple m)"

interpretation ivt: codec_map "arith_serialize bo :: u8 serializer" "arith_deserialize bo" arith_spaceRequired
  "\<lambda>_. True" ivt_to_u8 ivt_of_u8 proper_ivt for bo
  by unfold_locales auto

interpretation ivt_enum: codec "enum_serialize bo ivt_to_u8" "enum_deserialize bo ivt_of_u8"
  "\<lambda>n t. arith_spaceRequired n (ivt_to_u8 t)" proper_ivt for bo
  unfolding enum_serialize_eq enum_deserialize_eq by (rule ivt.map_codec)

interpretation metadata: codec "metadata_serialize bo" "metadata_deserialize bo" metadata_spaceRequired
  "\<lambda>m. proper_ivt (im_type m)" for bo
  unfolding metadata_serialize_def metadata_deserialize_def metadata_spaceRequired_def [abs_def]
  by (rule codec_mapI [OF codec_pairI [OF u32.codec_axioms codec_pairI [OF u32.codec_axioms
        codec_pairI [OF u8.codec_axioms codec_pairI [OF u8.codec_axioms ivt_enum.codec_axioms]]]]])
    (auto simp: metadata_tuple_def tuple_metadata_def)

text \<open>
  \<^verbatim>\<open>ImageRegion\<close>: metadata and pixels. The message class also holds the sensor, which
  \<^verbatim>\<open>processMessage\<close> does not visit; on the receiving side the member keeps whatever the
  default constructor left in it.
\<close>

record ImageData =
  id_sensor :: OSVR_ChannelCount
  id_metadata :: OSVR_ImagingMetadata
  id_buffer :: "u8 list"

definition image_tag :: "OSVR_ImagingMetadata \<Rightarrow> AlignedDataBufferTag" where
  "image_tag m = \<lparr>tag_length = unat (getBufferSize m), tag_alignment = unat (im_depth m)\<rparr>"

definition ImageRegion_serialize :: "byte_order \<Rightarrow> ImageData serializer" where
  "ImageRegion_serialize bo d buf =
     dep_serialize (metadata_serialize bo) (\<lambda>m. aligned_serialize (image_tag m))
       (id_metadata d, id_buffer d) buf"

definition ImageRegion_deserialize :: "byte_order \<Rightarrow> OSVR_ChannelCount \<Rightarrow> ImageData deserializer" where
  "ImageRegion_deserialize bo uninitialised r =
     map_deserialize (\<lambda>(m, b). \<lparr>id_sensor = uninitialised, id_metadata = m, id_buffer = b\<rparr>)
       (dep_deserialize (metadata_deserialize bo) (\<lambda>m. aligned_deserialize (image_tag m))) r"

interpretation image: codec_dep "metadata_serialize bo" "metadata_deserialize bo" metadata_spaceRequired
  "\<lambda>m. proper_ivt (im_type m)"
  "\<lambda>m. aligned_serialize (image_tag m)" "\<lambda>m. aligned_deserialize (image_tag m)"
  "\<lambda>m. aligned_spaceRequired (image_tag m)" "\<lambda>m b. length b = tag_length (image_tag m)" for bo
  by unfold_locales

text \<open>The message in shared memory says where the image is, and in which slot.\<close>

record SharedMemoryMessage =
  sm_metadata :: OSVR_ImagingMetadata
  sm_seqNum :: u32
  sm_sensor :: OSVR_ChannelCount
  sm_abiLevel :: u32
  sm_backend :: u8
  sm_shmName :: "u8 list"

definition SharedMemory_serialize :: "byte_order \<Rightarrow> SharedMemoryMessage serializer" where
  "SharedMemory_serialize bo =
     map_serialize (\<lambda>m. (sm_metadata m, sm_seqNum m, sm_sensor m, sm_abiLevel m, sm_backend m, sm_shmName m))
       (pair_serialize (metadata_serialize bo) (pair_serialize (arith_serialize bo)
         (pair_serialize (arith_serialize bo) (pair_serialize (arith_serialize bo)
           (pair_serialize (arith_serialize bo) (string_serialize bo))))))"

definition SharedMemory_deserialize :: "byte_order \<Rightarrow> SharedMemoryMessage deserializer" where
  "SharedMemory_deserialize bo =
     map_deserialize (\<lambda>(m, q, s, a, b, n). \<lparr>sm_metadata = m, sm_seqNum = q, sm_sensor = s,
         sm_abiLevel = a, sm_backend = b, sm_shmName = n\<rparr>)
       (pair_deserialize (metadata_deserialize bo) (pair_deserialize (arith_deserialize bo)
         (pair_deserialize (arith_deserialize bo) (pair_deserialize (arith_deserialize bo)
           (pair_deserialize (arith_deserialize bo) (string_deserialize bo))))))"

lemma shm_codec:
  "codec (SharedMemory_serialize bo) (SharedMemory_deserialize bo)
     (\<lambda>n m. pair_spaceRequired metadata_spaceRequired (pair_spaceRequired arith_spaceRequired
         (pair_spaceRequired arith_spaceRequired (pair_spaceRequired arith_spaceRequired
           (pair_spaceRequired arith_spaceRequired string_spaceRequired)))) n
        (sm_metadata m, sm_seqNum m, sm_sensor m, sm_abiLevel m, sm_backend m, sm_shmName m))
     (\<lambda>m. proper_ivt (im_type (sm_metadata m)) \<and> short_string (sm_shmName m))"
  unfolding SharedMemory_serialize_def SharedMemory_deserialize_def
  by (rule codec_mapI [OF codec_pairI [OF metadata.codec_axioms codec_pairI [OF u32.codec_axioms
        codec_pairI [OF u32.codec_axioms codec_pairI [OF u32.codec_axioms codec_pairI
          [OF u8.codec_axioms str.codec_axioms]]]]]]) auto

interpretation shm: codec "SharedMemory_serialize bo" "SharedMemory_deserialize bo"
  "\<lambda>n m. pair_spaceRequired metadata_spaceRequired (pair_spaceRequired arith_spaceRequired
       (pair_spaceRequired arith_spaceRequired (pair_spaceRequired arith_spaceRequired
         (pair_spaceRequired arith_spaceRequired string_spaceRequired)))) n
      (sm_metadata m, sm_seqNum m, sm_sensor m, sm_abiLevel m, sm_backend m, sm_shmName m)"
  "\<lambda>m. proper_ivt (im_type (sm_metadata m)) \<and> short_string (sm_shmName m)" for bo
  by (rule shm_codec)

end
