(* ===== verification/Ring_Buffer.thy ===== *)
theory Ring_Buffer
  imports Osvr_Prelude
begin

text \<open>
  The shared-memory ring buffer of \<^verbatim>\<open>src/osvr/Common/IPCRingBufferSharedObjects.h\<close>,
  \<^verbatim>\<open>IPCRingBuffer.cpp\<close> and \<^verbatim>\<open>IPCRingBuffer.h\<close>: its index and sequence arithmetic at the
  widths of the code (16-bit raw indices, 32-bit sequence numbers), its producer and its two
  ways of reading.

  \<open>ring_ok\<close> is the representation invariant, \<open>contents\<close> the abstract queue. The refinement
  holds as long as the raw index does not wrap, or its wrap-around is harmless because the
  capacity divides \<open>2 ^ 16\<close> (\<open>index_safe\<close>); outside it a concrete run shows the code returning
  an old frame.

  An access through a null pointer, past a buffer or modulo a zero capacity is \<open>None\<close>.
\<close>

subsection \<open>Options\<close>

definition isalpha :: "u8 \<Rightarrow> bool" where
  "isalpha c \<longleftrightarrow> (65 \<le> c \<and> c \<le> 90) \<or> (97 \<le> c \<and> c \<le> 122)"

definition isdigit :: "u8 \<Rightarrow> bool" where
  "isdigit c \<longleftrightarrow> 48 \<le> c \<and> c \<le> 57"

definition make_name_safe :: "u8 list \<Rightarrow> u8 list" where
  "make_name_safe input =
     (let ret = (if input = [] \<or> \<not> isalpha (hd input) then 90 # input else input)
      in map (\<lambda>c. if isalpha c \<or> isdigit c \<or> c = 95 then c else 95) ret)"

definition name_safe :: "u8 list \<Rightarrow> bool" where
  "name_safe s \<longleftrightarrow> s \<noteq> [] \<and> isalpha (hd s) \<and> (\<forall>c\<in>set s. isalpha c \<or> isdigit c \<or> c = 95)"

lemma make_name_safe_safe: "name_safe (make_name_safe s)"
  by (cases s) (auto simp: name_safe_def make_name_safe_def Let_def isalpha_def isdigit_def)

lemma make_name_safe_id: "name_safe s \<Longrightarrow> make_name_safe s = s"
  by (cases s) (auto simp: name_safe_def make_name_safe_def Let_def intro!: map_idI)

lemma make_name_safe_idem [simp]: "make_name_safe (make_name_safe s) = make_name_safe s"
  by (simp add: make_name_safe_id make_name_safe_safe)

record Options =
  opt_name :: "u8 list"
  opt_shmBackend :: u8
  opt_alignment :: u16
  opt_entries :: u16
  opt_entrySize :: u32

definition BASIC_MANAGED_SHM_ID :: u8 where "BASIC_MANAGED_SHM_ID = 0"
definition DEFAULT_MANAGED_SHM_ID :: u8 where "DEFAULT_MANAGED_SHM_ID = BASIC_MANAGED_SHM_ID"

definition Options_named :: "u8 list \<Rightarrow> u8 \<Rightarrow> Options" where
  "Options_named name backend =
     \<lparr>opt_name = make_name_safe name, opt_shmBackend = backend, opt_alignment = 16,
      opt_entries = 16, opt_entrySize = 65536\<rparr>"

definition setEntries :: "u16 \<Rightarrow> Options \<Rightarrow> Options" where
  "setEntries entries opts = opts\<lparr>opt_entries := entries\<rparr>"

definition setEntrySize :: "u32 \<Rightarrow> Options \<Rightarrow> Options" where
  "setEntrySize entrySize opts = opts\<lparr>opt_entrySize := entrySize\<rparr>"

definition setAlignment :: "u16 \<Rightarrow> Options \<Rightarrow> Options" where
  "setAlignment alignment opts = opts\<lparr>opt_alignment := alignment\<rparr>"

subsection \<open>The bookkeeping object\<close>

record Bookkeeping =
  m_capacity :: u16
  elementArray :: "u8 list list"
  m_beginSequenceNumber :: u32
  m_nextSequenceNumber :: u32
  m_begin :: u16
  m_size :: u16
  m_bufLen :: u32

text \<open>
  The constructor allocates one buffer after the other and truncates the ring at the first
  failure; \<open>allocated i\<close> is the buffer \<^verbatim>\<open>allocate_aligned\<close> gives for element \<open>i\<close>, if any.
\<close>

fun allocate_bufs :: "(nat \<Rightarrow> u8 list option) \<Rightarrow> nat \<Rightarrow> nat \<Rightarrow> u8 list list" where
  "allocate_bufs allocated i 0 = []"
| "allocate_bufs allocated i (Suc n) =
     (case allocated i of None \<Rightarrow> [] | Some b \<Rightarrow> b # allocate_bufs allocated (Suc i) n)"

definition construct_Bookkeeping :: "(nat \<Rightarrow> u8 list option) \<Rightarrow> Options \<Rightarrow> Bookkeeping" where
  "construct_Bookkeeping allocated opts =
     (let bufs = allocate_bufs allocated 0 (unat (opt_entries opts))
      in \<lparr>m_capacity = of_nat (length bufs), elementArray = bufs,
          m_beginSequenceNumber = 0, m_nextSequenceNumber = 0, m_begin = 0, m_size = 0,
          m_bufLen = opt_entrySize opts\<rparr>)"

definition getByRawIndex :: "u16 \<Rightarrow> Bookkeeping \<Rightarrow> nat option" where
  "getByRawIndex index b =
     (if m_capacity b = 0 then None else Some (unat (index mod m_capacity b)))"

text \<open>
  \<open>num - m_beginSequenceNumber\<close> is a 32-bit difference; the raw index is computed in 32 bits
  and reduced before it is narrowed.
\<close>

definition getBySequenceNumber :: "u32 \<Rightarrow> Bookkeeping \<Rightarrow> nat option" where
  "getBySequenceNumber num b =
     (let sequenceRelativeToBegin = num - m_beginSequenceNumber b
      in if sequenceRelativeToBegin < ucast (m_size b)
         then (let idx = ucast ((ucast (m_begin b) + sequenceRelativeToBegin) mod ucast (m_capacity b)) :: u16
               in getByRawIndex idx b)
         else None)"

definition ring_empty :: "Bookkeeping \<Rightarrow> bool" where
  "ring_empty b \<longleftrightarrow> m_size b = 0"

definition backSequenceNumber :: "Bookkeeping \<Rightarrow> u32" where
  "backSequenceNumber b = m_nextSequenceNumber b - 1"

text \<open>\<open>m_begin + m_size - 1\<close> is computed as an \<^verbatim>\<open>int\<close> and narrowed to 16 bits by the call.\<close>

definition back_index :: "Bookkeeping \<Rightarrow> nat option" where
  "back_index b =
     (if ring_empty b then None
      else getByRawIndex (of_int (uint (m_begin b) + uint (m_size b) - 1)) b)"

definition produceElement :: "Bookkeeping \<Rightarrow> (nat \<times> u32 \<times> Bookkeeping) option" where
  "produceElement b =
     (let sequenceNumber = m_nextSequenceNumber b;
          b1 = b\<lparr>m_nextSequenceNumber := sequenceNumber + 1\<rparr>;
          b2 = (if m_size b1 = m_capacity b1
                then b1\<lparr>m_begin := m_begin b1 + 1, m_beginSequenceNumber := m_beginSequenceNumber b1 + 1\<rparr>
                else b1\<lparr>m_size := m_size b1 + 1\<rparr>)
      in case back_index b2 of None \<Rightarrow> None | Some i \<Rightarrow> Some (i, sequenceNumber, b2))"

definition write_buf :: "nat \<Rightarrow> u8 list \<Rightarrow> Bookkeeping \<Rightarrow> Bookkeeping" where
  "write_buf i data b =
     b\<lparr>elementArray := (elementArray b)[i := data @ drop (length data) (elementArray b ! i)]\<rparr>"

text \<open>\<^verbatim>\<open>IPCRingBuffer::put\<close> copies \<open>len\<close> bytes into the buffer it obtained.\<close>

definition ring_put :: "u8 list \<Rightarrow> Bookkeeping \<Rightarrow> (u32 \<times> Bookkeeping) option" where
  "ring_put data b =
     (case produceElement b of
        None \<Rightarrow> None
      | Some (i, seq, b') \<Rightarrow>
          if length data \<le> unat (m_bufLen b') then Some (seq, write_buf i data b') else None)"

definition ring_get :: "u32 \<Rightarrow> Bookkeeping \<Rightarrow> u8 list option" where
  "ring_get num b = map_option (\<lambda>i. elementArray b ! i) (getBySequenceNumber num b)"

definition ring_getLatest :: "Bookkeeping \<Rightarrow> (u8 list \<times> u32) option" where
  "ring_getLatest b =
     map_option (\<lambda>i. (elementArray b ! i, backSequenceNumber b)) (back_index b)"

fun ring_puts :: "u8 list list \<Rightarrow> Bookkeeping \<Rightarrow> Bookkeeping option" where
  "ring_puts [] b = Some b"
| "ring_puts (d # ds) b = (case ring_put d b of None \<Rightarrow> None | Some (_, b') \<Rightarrow> ring_puts ds b')"

subsection \<open>Invariant and abstract contents\<close>

definition ring_ok :: "Bookkeeping \<Rightarrow> bool" where
  "ring_ok b \<longleftrightarrow>
     0 < unat (m_capacity b) \<and> unat (m_size b) \<le> unat (m_capacity b) \<and>
     length (elementArray b) = unat (m_capacity b) \<and>
     (\<forall>e\<in>set (elementArray b). length e = unat (m_bufLen b)) \<and>
     m_nextSequenceNumber b = m_beginSequenceNumber b + ucast (m_size b)"

definition slot :: "Bookkeeping \<Rightarrow> nat \<Rightarrow> nat" where
  "slot b k = (unat (m_begin b) + k) mod unat (m_capacity b)"

definition contents :: "Bookkeeping \<Rightarrow> u8 list list" where
  "contents b = map (\<lambda>k. elementArray b ! slot b k) [0..<unat (m_size b)]"

text \<open>Where the 16-bit raw index is harmless.\<close>

definition index_safe :: "Bookkeeping \<Rightarrow> bool" where
  "index_safe b \<longleftrightarrow>
     unat (m_capacity b) dvd 2 ^ 16 \<or> unat (m_begin b) + unat (m_capacity b) < 2 ^ 16"

lemma length_contents [simp]: "length (contents b) = unat (m_size b)"
  by (simp add: contents_def)

lemma unat_ucast_u16 [simp]: "unat (ucast (w :: u16) :: u32) = unat w"
  using unsigned_less [of w, where ?'a = nat] by (simp add: unsigned_ucast_eq take_bit_nat_eq_self)

lemma u16_bound: "unat (w :: u16) < 65536"
  using unsigned_less [of w, where ?'a = nat] by simp

lemma slot_less: "ring_ok b \<Longrightarrow> slot b k < unat (m_capacity b)"
  by (simp add: slot_def ring_ok_def)

lemma mod_add_inj:
  fixes a j k n :: nat
  assumes "j < n" and "k < n" and "(a + j) mod n = (a + k) mod n"
  shows "j = k"
proof -
  have le: "j' = k'" if "j' \<le> k'" "k' < n" "(a + j') mod n = (a + k') mod n" for j' k'
  proof -
    have "n dvd (a + k') - (a + j')"
      using that by (subst mod_eq_dvd_iff_nat [symmetric]) auto
    then show ?thesis using that by (auto dest!: dvd_imp_le)
  qed
  show ?thesis using le [of j k] le [of k j] assms by (cases "j \<le> k") auto
qed

lemma slot_inj:
  "j < unat (m_capacity b) \<Longrightarrow> k < unat (m_capacity b) \<Longrightarrow> slot b j = slot b k \<Longrightarrow> j = k"
  unfolding slot_def by (rule mod_add_inj)

lemma unat_mod_u16: "unat (ucast (w mod ucast (c :: u16) :: u32) :: u16) = unat w mod unat c"
  if "0 < unat c"
proof -
  have "unat (w mod ucast c :: u32) = unat w mod unat c"
    by (simp add: unat_mod_distrib)
  moreover have "unat w mod unat c < 2 ^ 16"
    using that unsigned_less [of c, where ?'a = nat] by (simp add: order_less_trans [OF mod_less_divisor])
  ultimately show ?thesis by (simp add: unsigned_ucast_eq take_bit_nat_eq_self)
qed

text \<open>Both ways of addressing an element agree with \<open>slot\<close>.\<close>

lemma getBySequenceNumber_slot:
  assumes "ring_ok b"
  shows "getBySequenceNumber num b =
    (if unat (num - m_beginSequenceNumber b) < unat (m_size b)
     then Some (slot b (unat (num - m_beginSequenceNumber b))) else None)"
proof -
  let ?d = "num - m_beginSequenceNumber b"
  have lt: "?d < ucast (m_size b) \<longleftrightarrow> unat ?d < unat (m_size b)"
    by (simp add: word_less_nat_alt)
  have sum: "unat (ucast (m_begin b) + ?d) = unat (m_begin b) + unat ?d" if "unat ?d < unat (m_size b)"
    using that u16_bound [of "m_begin b"] u16_bound [of "m_size b"]
    by (subst unat_add_lem [THEN iffD1]) auto
  have cap: "0 < unat (m_capacity b)" "m_capacity b \<noteq> 0"
    using assms by (auto simp: ring_ok_def)
  show ?thesis
    using cap sum
    by (auto simp: getBySequenceNumber_def lt getByRawIndex_def unat_mod_distrib unat_mod_u16 slot_def)
qed

lemma back_index_slot:
  assumes "ring_ok b" and "m_size b \<noteq> 0"
    and "unat (m_capacity b) dvd 2 ^ 16 \<or> unat (m_begin b) + unat (m_size b) \<le> 2 ^ 16"
  shows "back_index b = Some (slot b (unat (m_size b) - 1))"
proof -
  let ?n = "unat (m_begin b) + unat (m_size b) - 1"
  have pos: "0 < unat (m_size b)" using assms(2) by (simp add: unat_gt_0)
  then have n: "uint (m_begin b) + uint (m_size b) - 1 = int ?n" by (simp add: of_nat_diff)
  have "unat (of_int (uint (m_begin b) + uint (m_size b) - 1) :: u16) = ?n mod 2 ^ 16"
    unfolding n by (simp add: unat_of_nat take_bit_eq_mod)
  moreover have "?n mod 2 ^ 16 mod unat (m_capacity b) = ?n mod unat (m_capacity b)"
    using assms(3)
  proof
    assume "unat (m_capacity b) dvd 2 ^ 16"
    then show ?thesis by (rule mod_mod_cancel)
  next
    assume "unat (m_begin b) + unat (m_size b) \<le> 2 ^ 16"
    then show ?thesis using pos by simp
  qed
  moreover have "m_capacity b \<noteq> 0" using assms(1) by (auto simp: ring_ok_def)
  moreover have "?n = unat (m_begin b) + (unat (m_size b) - 1)" using pos by simp
  ultimately show ?thesis
    using assms(2) by (simp add: back_index_def ring_empty_def getByRawIndex_def unat_mod_distrib slot_def)
qed

subsection \<open>The producer\<close>

definition full :: "Bookkeeping \<Rightarrow> bool" where
  "full b \<longleftrightarrow> m_size b = m_capacity b"

lemma slot_begin_Suc:
  assumes "unat (m_capacity b) dvd 2 ^ 16 \<or> unat (m_begin b) + 1 < 2 ^ 16"
  shows "slot (b\<lparr>m_begin := m_begin b + 1\<rparr>) k = slot b (Suc k)"
proof -
  have "unat (m_begin b + 1) = (unat (m_begin b) + 1) mod 2 ^ 16" by (simp add: unat_word_ariths)
  then have "(unat (m_begin b + 1) + k) mod unat (m_capacity b) =
      ((unat (m_begin b) + 1) mod 2 ^ 16 mod unat (m_capacity b) + k) mod unat (m_capacity b)"
    by (simp add: mod_add_left_eq)
  also have "(unat (m_begin b) + 1) mod 2 ^ 16 mod unat (m_capacity b) =
      (unat (m_begin b) + 1) mod unat (m_capacity b)"
    using assms by (auto simp: mod_mod_cancel)
  finally show ?thesis by (simp add: slot_def mod_add_left_eq)
qed

lemma slot_cong:
  "m_begin b' = m_begin b \<Longrightarrow> m_capacity b' = m_capacity b \<Longrightarrow> slot b' k = slot b k"
  by (simp add: slot_def)

lemma unat_size_Suc:
  assumes "ring_ok b" and "\<not> full b"
  shows "unat (m_size b + 1) = Suc (unat (m_size b))"
    and "unat (m_size b) < unat (m_capacity b)"
    and "(ucast (m_size b + 1) :: u32) = ucast (m_size b) + 1"
proof -
  have "unat (m_size b) \<noteq> unat (m_capacity b)" using assms(2) by (simp add: full_def word_unat_eq_iff)
  then show lt: "unat (m_size b) < unat (m_capacity b)" using assms(1) by (simp add: ring_ok_def)
  then show eq: "unat (m_size b + 1) = Suc (unat (m_size b))"
    using u16_bound [of "m_capacity b"] by (simp add: unat_word_ariths)
  have "unat (ucast (m_size b) + 1 :: u32) = Suc (unat (m_size b))"
    using u16_bound [of "m_size b"] by (simp add: unat_word_ariths)
  then show "(ucast (m_size b + 1) :: u32) = ucast (m_size b) + 1"
    using eq by (simp add: word_unat_eq_iff)
qed

text \<open>What the producer leaves: the newest element is where it will write.\<close>

definition produced :: "Bookkeeping \<Rightarrow> Bookkeeping" where
  "produced b =
     (if full b
      then b\<lparr>m_nextSequenceNumber := m_nextSequenceNumber b + 1, m_begin := m_begin b + 1,
             m_beginSequenceNumber := m_beginSequenceNumber b + 1\<rparr>
      else b\<lparr>m_nextSequenceNumber := m_nextSequenceNumber b + 1, m_size := m_size b + 1\<rparr>)"

lemma produced_simps [simp]:
  "m_capacity (produced b) = m_capacity b" "elementArray (produced b) = elementArray b"
  "m_bufLen (produced b) = m_bufLen b" "m_nextSequenceNumber (produced b) = m_nextSequenceNumber b + 1"
  by (simp_all add: produced_def)

lemma produced_size:
  assumes "ring_ok b"
  shows "unat (m_size (produced b)) = (if full b then unat (m_size b) else Suc (unat (m_size b)))"
  using unat_size_Suc [OF assms] by (simp add: produced_def)

lemma produced_ok:
  assumes "ring_ok b"
  shows "ring_ok (produced b)"
proof (cases "full b")
  case True
  then show ?thesis using assms by (auto simp: produced_def ring_ok_def)
next
  case False
  then show ?thesis using assms unat_size_Suc [OF assms False]
    by (auto simp: produced_def ring_ok_def)
qed

lemma produced_slot:
  assumes "ring_ok b" and "index_safe b"
  shows "slot (produced b) k = slot b (if full b then Suc k else k)"
proof (cases "full b")
  case True
  have "unat (m_capacity b) dvd 2 ^ 16 \<or> unat (m_begin b) + 1 < 2 ^ 16"
    using assms by (auto simp: index_safe_def ring_ok_def)
  from slot_begin_Suc [OF this] True show ?thesis by (simp add: produced_def slot_def)
qed (simp add: produced_def slot_def)

lemma produced_back_safe:
  assumes "ring_ok b" and "index_safe b"
  shows "unat (m_capacity (produced b)) dvd 2 ^ 16 \<or>
    unat (m_begin (produced b)) + unat (m_size (produced b)) \<le> 2 ^ 16"
proof (cases "full b")
  case True
  have "unat (m_begin b + 1) \<le> unat (m_begin b) + 1"
    by (simp add: unat_word_ariths)
  then show ?thesis using assms True by (auto simp: produced_def index_safe_def full_def)
next
  case False
  then show ?thesis
    using assms unat_size_Suc [OF assms(1) False] by (auto simp: produced_def index_safe_def)
qed

lemma produced_size_pos: "ring_ok b \<Longrightarrow> m_size (produced b) \<noteq> 0"
  using produced_size [of b] unat_gt_0 [of "m_size (produced b)"]
  by (auto simp: ring_ok_def full_def split: if_splits)

lemma produceElement_eq:
  assumes "ring_ok b" and "index_safe b"
  shows "produceElement b = Some (slot (produced b) (unat (m_size (produced b)) - 1),
    m_nextSequenceNumber b, produced b)"
  using back_index_slot [OF produced_ok [OF assms(1)] produced_size_pos [OF assms(1)]
      produced_back_safe [OF assms]]
  by (simp add: produceElement_def Let_def produced_def full_def split: if_splits)

lemma butlast_upt: "butlast [0..<n] = [0..<n - 1]"
  by (cases n) simp_all

lemma contents_produced:
  assumes "ring_ok b" and "index_safe b"
  shows "butlast (contents (produced b)) = (if full b then tl (contents b) else contents b)"
proof (cases "full b")
  case True
  have "map (\<lambda>k. elementArray b ! slot b (Suc k)) [0..<unat (m_size b) - 1] =
      tl (map (\<lambda>k. elementArray b ! slot b k) [0..<unat (m_size b)])"
    by (rule nth_equalityI) (simp_all add: nth_tl less_diff_conv)
  then show ?thesis
    using True assms by (simp add: contents_def produced_slot produced_size map_butlast [symmetric] butlast_upt)
next
  case False
  then show ?thesis
    using assms by (simp add: contents_def produced_slot produced_size)
qed

lemma contents_write:
  assumes "ring_ok b" and "m_size b \<noteq> 0" and "length data = unat (m_bufLen b)"
  shows "contents (write_buf (slot b (unat (m_size b) - 1)) data b) = butlast (contents b) @ [data]"
proof (rule nth_equalityI)
  have pos: "0 < unat (m_size b)" using assms(2) by (simp add: unat_gt_0)
  then show "length (contents (write_buf (slot b (unat (m_size b) - 1)) data b)) =
      length (butlast (contents b) @ [data])"
    by (simp add: write_buf_def)
  fix k assume "k < length (contents (write_buf (slot b (unat (m_size b) - 1)) data b))"
  then have k: "k < unat (m_size b)" by (simp add: write_buf_def)
  let ?j = "unat (m_size b) - 1"
  have cap: "unat (m_size b) \<le> unat (m_capacity b)" "length (elementArray b) = unat (m_capacity b)"
    using assms(1) by (simp_all add: ring_ok_def)
  have "length (elementArray b ! slot b ?j) = unat (m_bufLen b)"
    using assms(1) slot_less [OF assms(1), of ?j] by (simp add: ring_ok_def)
  then have data: "data @ drop (length data) (elementArray b ! slot b ?j) = data"
    using assms(3) by simp
  show "contents (write_buf (slot b ?j) data b) ! k = (butlast (contents b) @ [data]) ! k"
  proof (cases "k = ?j")
    case True
    then show ?thesis using k data slot_less [OF assms(1), of ?j] cap
      by (simp add: contents_def write_buf_def slot_def nth_append)
  next
    case False
    have "k < unat (m_capacity b)" "?j < unat (m_capacity b)" using k cap by linarith+
    then have "slot b k \<noteq> slot b ?j" using False slot_inj [of k b ?j] by blast
    moreover have "k < ?j" using k False by linarith
    ultimately show ?thesis using k
      by (simp add: contents_def write_buf_def slot_def nth_append nth_butlast)
  qed
qed

lemma write_buf_ok:
  "ring_ok b \<Longrightarrow> length data \<le> unat (m_bufLen b) \<Longrightarrow> ring_ok (write_buf i data b)"
  by (cases "i < length (elementArray b)")
    (auto simp: ring_ok_def write_buf_def list_update_beyond dest!: set_update_subset_insert [THEN subsetD])

lemma write_buf_simps [simp]:
  "m_capacity (write_buf i d b) = m_capacity b" "m_begin (write_buf i d b) = m_begin b"
  "m_size (write_buf i d b) = m_size b" "m_bufLen (write_buf i d b) = m_bufLen b"
  "m_nextSequenceNumber (write_buf i d b) = m_nextSequenceNumber b"
  "m_beginSequenceNumber (write_buf i d b) = m_beginSequenceNumber b"
  by (simp_all add: write_buf_def)

lemma ring_put_spec:
  assumes "ring_ok b" and "index_safe b" and "length data = unat (m_bufLen b)"
  obtains b' where "ring_put data b = Some (m_nextSequenceNumber b, b')" and "ring_ok b'"
    and "contents b' = (if full b then tl (contents b) else contents b) @ [data]"
    and "m_nextSequenceNumber b' = m_nextSequenceNumber b + 1"
    and "m_capacity b' = m_capacity b" and "m_bufLen b' = m_bufLen b"
    and "m_begin b' = (if full b then m_begin b + 1 else m_begin b)"
proof
  let ?b' = "write_buf (slot (produced b) (unat (m_size (produced b)) - 1)) data (produced b)"
  show "ring_put data b = Some (m_nextSequenceNumber b, ?b')"
    using assms by (simp add: ring_put_def produceElement_eq)
  show "ring_ok ?b'"
    using assms by (intro write_buf_ok produced_ok) simp_all
  show "contents ?b' = (if full b then tl (contents b) else contents b) @ [data]"
    using contents_write [OF produced_ok [OF assms(1)] produced_size_pos [OF assms(1)], of data]
      assms(3) contents_produced [OF assms(1,2)] by simp
qed (simp_all add: produced_def)

lemma ring_get_contents:
  assumes "ring_ok b"
  shows "ring_get num b =
    (if unat (num - m_beginSequenceNumber b) < length (contents b)
     then Some (contents b ! unat (num - m_beginSequenceNumber b)) else None)"
  using assms by (simp add: ring_get_def getBySequenceNumber_slot contents_def)

subsection \<open>Histories\<close>

text \<open>
  \<open>holds ds b\<close>: the ring holds the last frames of the history \<open>ds\<close> and its counters are those
  of that many puts.
\<close>

definition holds :: "u8 list list \<Rightarrow> Bookkeeping \<Rightarrow> bool" where
  "holds ds b \<longleftrightarrow>
     ring_ok b \<and> contents b = drop (length ds - unat (m_capacity b)) ds \<and>
     m_nextSequenceNumber b = of_nat (length ds) \<and>
     (unat (m_capacity b) dvd 2 ^ 16 \<or> unat (m_begin b) = length ds - unat (m_capacity b))"

lemma holds_size:
  assumes "holds ds b"
  shows "unat (m_size b) = min (length ds) (unat (m_capacity b))"
proof -
  have "length (contents b) = length (drop (length ds - unat (m_capacity b)) ds)"
    using assms by (simp add: holds_def)
  then show ?thesis by simp
qed

lemma holds_full: "holds ds b \<Longrightarrow> full b \<longleftrightarrow> unat (m_capacity b) \<le> length ds"
  using holds_size [of ds b] by (auto simp: full_def word_unat_eq_iff min_def)

lemma holds_put:
  assumes "holds ds b" and "length d = unat (m_bufLen b)"
    and "unat (m_capacity b) dvd 2 ^ 16 \<or> length ds < 2 ^ 16"
  obtains b' where "ring_put d b = Some (of_nat (length ds), b')" and "holds (ds @ [d]) b'"
    and "m_bufLen b' = m_bufLen b" and "m_capacity b' = m_capacity b"
proof -
  let ?c = "unat (m_capacity b)"
  have ok: "ring_ok b" using assms(1) by (simp add: holds_def)
  have "index_safe b"
    using assms u16_bound [of "m_capacity b"] by (auto simp: holds_def index_safe_def)
  from ring_put_spec [OF ok this assms(2)] obtain b' where b':
    "ring_put d b = Some (m_nextSequenceNumber b, b')" "ring_ok b'"
    "contents b' = (if full b then tl (contents b) else contents b) @ [d]"
    "m_nextSequenceNumber b' = m_nextSequenceNumber b + 1"
    "m_capacity b' = m_capacity b" "m_bufLen b' = m_bufLen b"
    "m_begin b' = (if full b then m_begin b + 1 else m_begin b)"
    by metis
  have "contents b' = drop (length (ds @ [d]) - ?c) (ds @ [d])"
  proof (cases "full b")
    case True
    then have "length (ds @ [d]) - ?c = Suc (length ds - ?c)" and le: "?c \<le> length ds"
      using holds_full [OF assms(1)] by auto
    moreover have "0 < ?c" using ok by (simp add: ring_ok_def)
    ultimately show ?thesis
      using b'(3) True assms(1) by (simp add: holds_def drop_Suc tl_drop)
  next
    case False
    then show ?thesis
      using b'(3) holds_full [OF assms(1)] assms(1) by (simp add: holds_def not_le)
  qed
  moreover have "?c dvd 2 ^ 16 \<or> unat (m_begin b') = length (ds @ [d]) - ?c"
  proof (cases "?c dvd 2 ^ 16")
    case False
    then have "unat (m_begin b) = length ds - ?c" "length ds < 2 ^ 16" "0 < ?c"
      using assms ok by (auto simp: holds_def ring_ok_def)
    then show ?thesis
      using b'(7) holds_full [OF assms(1)] by (auto simp: unat_word_ariths Suc_diff_le)
  qed simp
  ultimately have "holds (ds @ [d]) b'"
    using b' assms(1) by (simp add: holds_def)
  then show thesis using that b' assms(1) by (simp add: holds_def)
qed

lemma ring_puts_append:
  "ring_puts (ds @ es) b = (case ring_puts ds b of None \<Rightarrow> None | Some b' \<Rightarrow> ring_puts es b')"
  by (induction ds arbitrary: b) (auto split: option.splits prod.splits)

lemma ring_puts_holds:
  assumes "holds [] b0" and "\<forall>d\<in>set ds. length d = unat (m_bufLen b0)"
    and "unat (m_capacity b0) dvd 2 ^ 16 \<or> length ds \<le> 2 ^ 16"
  shows "\<exists>b. ring_puts ds b0 = Some b \<and> holds ds b \<and> m_bufLen b = m_bufLen b0 \<and>
    m_capacity b = m_capacity b0"
  using assms(2,3)
proof (induction ds rule: rev_induct)
  case Nil
  then show ?case using assms(1) by simp
next
  case (snoc d ds)
  then obtain b where b: "ring_puts ds b0 = Some b" "holds ds b" "m_bufLen b = m_bufLen b0"
    "m_capacity b = m_capacity b0"
    by auto
  moreover have "unat (m_capacity b) dvd 2 ^ 16 \<or> length ds < 2 ^ 16" using snoc.prems b by auto
  ultimately obtain b' where "ring_put d b = Some (of_nat (length ds), b')" "holds (ds @ [d]) b'"
    "m_bufLen b' = m_bufLen b" "m_capacity b' = m_capacity b"
    using holds_put [of ds b d] snoc.prems by auto
  with b show ?case by (simp add: ring_puts_append)
qed

lemma length_allocate_bufs: "length (allocate_bufs a i n) \<le> n"
  by (induction a i n rule: allocate_bufs.induct) (auto split: option.split)

lemma allocate_bufs_length_mem:
  "\<forall>j b. a j = Some b \<longrightarrow> length b = m \<Longrightarrow> \<forall>e\<in>set (allocate_bufs a i n). length e = m"
  by (induction n arbitrary: i) (auto split: option.split)

lemma allocate_bufs_const: "allocate_bufs (\<lambda>_. Some b) i n = replicate n b"
  by (induction n arbitrary: i) simp_all

lemma construct_capacity [simp]:
  "m_capacity (construct_Bookkeeping (\<lambda>_. Some b) opts) = opt_entries opts"
  by (simp add: construct_Bookkeeping_def Let_def allocate_bufs_const)

lemma construct_holds:
  assumes "\<forall>i b. allocated i = Some b \<longrightarrow> length b = unat (opt_entrySize opts)"
    and "0 < unat (m_capacity (construct_Bookkeeping allocated opts))"
  shows "holds [] (construct_Bookkeeping allocated opts)"
proof -
  have "length (allocate_bufs allocated 0 (unat (opt_entries opts))) < 65536"
    using length_allocate_bufs [of allocated 0 "unat (opt_entries opts)"] u16_bound [of "opt_entries opts"]
    by linarith
  then have "unat (of_nat (length (allocate_bufs allocated 0 (unat (opt_entries opts)))) :: u16) =
      length (allocate_bufs allocated 0 (unat (opt_entries opts)))"
    by (simp add: unat_of_nat take_bit_nat_eq_self)
  with assms allocate_bufs_length_mem [OF assms(1)] show ?thesis
    by (simp add: holds_def ring_ok_def construct_Bookkeeping_def Let_def contents_def)
qed

lemma holds_beginSequenceNumber:
  assumes "holds ds b"
  shows "m_beginSequenceNumber b = of_nat (length ds - unat (m_size b))"
proof -
  have "m_nextSequenceNumber b = m_beginSequenceNumber b + of_nat (unat (m_size b))"
    using assms by (simp add: holds_def ring_ok_def)
  then show ?thesis
    using assms holds_size [OF assms] by (simp add: holds_def of_nat_diff algebra_simps)
qed

lemma unat_of_nat_diff_u32:
  assumes "k < m" and "m - k < 2 ^ 32"
  shows "unat (of_nat k - of_nat m :: u32) = 2 ^ 32 - (m - k)"
proof -
  have "of_nat k - of_nat m = (of_nat (2 ^ 32 - (m - k)) :: u32)"
    using assms by (simp add: of_nat_diff)
  then show ?thesis using assms by (simp only: unat_of_nat) (simp add: take_bit_nat_eq_self)
qed

lemma holds_get:
  assumes "holds ds b" and "k < length ds"
  shows "length ds - k \<le> unat (m_capacity b) \<Longrightarrow> ring_get (of_nat k) b = Some (ds ! k)"
    and "unat (m_capacity b) < length ds - k \<Longrightarrow> length ds - k \<le> 2 ^ 32 \<Longrightarrow>
      ring_get (of_nat k) b = None"
proof -
  let ?m = "length ds - unat (m_size b)"
  have ok: "ring_ok b" using assms(1) by (simp add: holds_def)
  have size: "unat (m_size b) = min (length ds) (unat (m_capacity b))" by (rule holds_size [OF assms(1)])
  note get = ring_get_contents [OF ok, unfolded holds_beginSequenceNumber [OF assms(1)]]
  {
    assume c: "length ds - k \<le> unat (m_capacity b)"
    then have "?m \<le> k" using size assms(2) by auto
    then have "(of_nat k - of_nat ?m :: u32) = of_nat (k - ?m)" by (simp only: of_nat_diff)
    moreover have "k - ?m < 2 ^ 32"
      using assms(2) size u16_bound [of "m_capacity b"] by auto
    ultimately have "unat (of_nat k - of_nat ?m :: u32) = k - ?m"
      by (simp add: unat_of_nat take_bit_nat_eq_self)
    moreover have "contents b ! (k - ?m) = ds ! k" and "k - ?m < unat (m_size b)"
      using assms c size by (auto simp: holds_def min_def split: if_splits)
    ultimately show "ring_get (of_nat k) b = Some (ds ! k)"
      by (simp add: get)
  next
    assume c: "unat (m_capacity b) < length ds - k" "length ds - k \<le> 2 ^ 32"
    then have "?m = length ds - unat (m_capacity b)" "k < ?m" "?m - k < 2 ^ 32"
      using size assms(2) ok by (auto simp: ring_ok_def min_def)
    then have "unat (of_nat k - of_nat ?m :: u32) = 2 ^ 32 - (?m - k)"
      by (intro unat_of_nat_diff_u32)
    moreover have "\<not> 2 ^ 32 - (?m - k) < unat (m_size b)"
      using c size assms(2) by (auto simp: min_def)
    ultimately show "ring_get (of_nat k) b = None"
      by (simp add: get)
  }
qed

lemma holds_latest:
  assumes "holds ds b" and "ds \<noteq> []"
    and "unat (m_capacity b) dvd 2 ^ 16 \<or> length ds \<le> 2 ^ 16"
  shows "ring_getLatest b = Some (last ds, of_nat (length ds - 1))"
proof -
  have ok: "ring_ok b" using assms(1) by (simp add: holds_def)
  have size: "unat (m_size b) = min (length ds) (unat (m_capacity b))" by (rule holds_size [OF assms(1)])
  then have pos: "m_size b \<noteq> 0" "0 < unat (m_size b)"
    using assms(2) ok by (auto simp: ring_ok_def simp flip: unat_gt_0)
  have "unat (m_capacity b) dvd 2 ^ 16 \<or> unat (m_begin b) + unat (m_size b) \<le> 2 ^ 16"
    using assms size by (auto simp: holds_def)
  moreover have "elementArray b ! slot b (unat (m_size b) - 1) = last (contents b)"
    using pos by (simp add: contents_def last_map)
  moreover have "m_nextSequenceNumber b = of_nat (length ds)" using assms(1) by (simp add: holds_def)
  ultimately have "ring_getLatest b = Some (last (contents b), of_nat (length ds) - 1)"
    using back_index_slot [OF ok pos(1)] by (simp add: ring_getLatest_def backSequenceNumber_def)
  moreover have "last (contents b) = last ds"
    using assms(1,2) ok by (simp add: holds_def ring_ok_def)
  moreover have "of_nat (length ds) - 1 = (of_nat (length ds - 1) :: u32)"
    using assms(2) by (simp add: of_nat_diff Suc_leI)
  ultimately show ?thesis by simp
qed



text \<open>
  C36: The raw index is 16 bits wide and is never reduced modulo the capacity, so a ring whose
  capacity does not divide \<open>2 ^ 16\<close> goes wrong when it wraps: with three entries, the put
  number 65537 (sequence number 65536) is written over the previous frame, and both sequence
  numbers return the wrong frame.
\<close>

theorem ring_index_wrap:
  assumes "\<forall>i b. allocated i = Some b \<longrightarrow> length b = unat (opt_entrySize opts)"
    and "m_capacity (construct_Bookkeeping allocated opts) = 3"
    and "\<forall>d\<in>set ds. length d = unat (opt_entrySize opts)"
    and "length ds = 65537"
  shows "\<exists>b. ring_puts ds (construct_Bookkeeping allocated opts) = Some b \<and>
    ring_get 65536 b = Some (ds ! 65533) \<and> ring_get 65535 b = Some (ds ! 65536)"
proof -
  let ?b0 = "construct_Bookkeeping allocated opts"
  define es d where "es = take 65536 ds" and "d = last ds"
  have "ds \<noteq> []" using assms(4) by (metis list.size(3) zero_neq_numeral)
  then have split: "ds = es @ [d]" and es: "length es = 65536"
    using assms(4) append_butlast_last_id [of ds] by (simp_all add: es_def d_def butlast_conv_take)
  have len: "\<forall>d\<in>set es. length d = unat (opt_entrySize opts)" "length d = unat (opt_entrySize opts)"
    using assms(3) split by auto
  have "holds [] ?b0" and bl: "m_bufLen ?b0 = opt_entrySize opts"
    using construct_holds [OF assms(1)] assms(2) by (simp_all add: construct_Bookkeeping_def Let_def)
  then obtain b where b: "ring_puts es ?b0 = Some b" "holds es b" "m_bufLen b = opt_entrySize opts"
    "m_capacity b = 3"
    using ring_puts_holds [of ?b0 es] len es assms(2) by auto
  have ok: "ring_ok b" using b by (simp add: holds_def)
  have "unat (m_begin b) = unat (65533 :: u16)" "unat (m_size b) = unat (3 :: u16)"
    using b es holds_size [OF b(2)] by (auto simp: holds_def)
  then have bs: "m_begin b = 65533" "m_size b = 3" by (simp_all only: word_unat_eq_iff)
  have seqs: "m_nextSequenceNumber b = 65536" "m_beginSequenceNumber b = 65533"
    using b es bs holds_beginSequenceNumber [OF b(2)] by (simp_all add: holds_def)
  have elts: "length (elementArray b) = 3" "\<forall>e\<in>set (elementArray b). length e = unat (opt_entrySize opts)"
    using ok b by (simp_all add: ring_ok_def)
  have "contents b ! 0 = es ! 65533"
    using b es by (simp add: holds_def)
  then have e1: "elementArray b ! 1 = es ! 65533"
    using bs b(4) by (simp add: contents_def slot_def)
  have "length (elementArray b ! 0) = length d" using elts len by simp
  then have put: "ring_put d b = Some (65536, b\<lparr>m_nextSequenceNumber := 65537, m_begin := 65534,
      m_beginSequenceNumber := 65534, elementArray := (elementArray b)[0 := d]\<rparr>)" (is "_ = Some (_, ?b')")
    using bs seqs b(3,4) len
    by (simp add: ring_put_def produceElement_def back_index_def ring_empty_def getByRawIndex_def
        write_buf_def)
  have "ring_get 65536 ?b' = Some (es ! 65533)" "ring_get 65535 ?b' = Some d"
    using bs b(4) e1 elts
    by (simp_all add: ring_get_def getBySequenceNumber_def getByRawIndex_def)
  then show ?thesis
    using split es b(1) put by (auto simp: ring_puts_append nth_append)
qed

theorem ring_index_wrap_witness:
  "\<exists>b. ring_puts (map (\<lambda>i. [of_nat i]) [0..<65537])
      (construct_Bookkeeping (\<lambda>i. Some [0]) (setEntrySize 1 (setEntries 3 (Options_named [97] 0)))) = Some b \<and>
     ring_get 65536 b = Some [253] \<and> ring_get 65535 b = Some [0]"
proof -
  have cap: "m_capacity (construct_Bookkeeping (\<lambda>i. Some [0])
      (setEntrySize 1 (setEntries 3 (Options_named [97] 0)))) = 3"
    by (simp add: setEntrySize_def setEntries_def)
  have bytes: "(65533 :: u8) = 253" "(65536 :: u8) = 0" by (simp_all add: word_uint_eq_iff)
  from cap show ?thesis
    using ring_index_wrap [of "\<lambda>i. Some [0]" "setEntrySize 1 (setEntries 3 (Options_named [97] 0))"
        "map (\<lambda>i. [of_nat i]) [0..<65537]"]
    by (simp add: setEntrySize_def setEntries_def Options_named_def bytes del: upt_rec_numeral)
qed

end
