(* ===== verification/Ring_Locks.thy ===== *)
theory Ring_Locks
  imports Ring_Buffer
begin

text \<open>
  The locks of the ring buffer: producers and consumers as processes, one step per lock
  operation of \<^verbatim>\<open>produceElement\<close>, \<^verbatim>\<open>IPCRingBuffer::Impl::get\<close>, \<^verbatim>\<open>~IPCPutResult\<close> and
  \<^verbatim>\<open>~IPCGetResult\<close> (\<^verbatim>\<open>IPCRingBufferSharedObjects.h\<close>, \<^verbatim>\<open>IPCRingBuffer.cpp\<close>,
  \<^verbatim>\<open>IPCRingBufferResults.h\<close>). A producer keeps the bounds mutex and its element's mutex
  exclusively until it is done; a consumer takes the bounds mutex sharably, then its element's,
  gives the first back and keeps the second for as long as it uses the frame. The mutexes are
  Boost's upgradable mutexes: a step that takes one is enabled when the holders permit it.

  \<open>log\<close> is history: the frames put so far.
\<close>

datatype phase =
    Idle
  | PutWait nat "u8 list"
  | PutWriting nat "u8 list"
  | GetWait nat u32
  | Reading nat u32 "u8 list"

record shm =
  ring :: Bookkeeping
  phases :: "nat \<Rightarrow> phase"
  log :: "u8 list list"

fun bounds_exclusive :: "phase \<Rightarrow> bool" where
  "bounds_exclusive (PutWait i d) = True"
| "bounds_exclusive (PutWriting i d) = True"
| "bounds_exclusive _ = False"

fun bounds_sharable :: "phase \<Rightarrow> bool" where
  "bounds_sharable (GetWait i num) = True"
| "bounds_sharable _ = False"

fun element_exclusive :: "nat \<Rightarrow> phase \<Rightarrow> bool" where
  "element_exclusive j (PutWriting i d) = (i = j)"
| "element_exclusive j _ = False"

fun element_sharable :: "nat \<Rightarrow> phase \<Rightarrow> bool" where
  "element_sharable j (Reading i num d) = (i = j)"
| "element_sharable j _ = False"

definition set_buf :: "nat \<Rightarrow> u8 list \<Rightarrow> Bookkeeping \<Rightarrow> Bookkeeping" where
  "set_buf i bytes b = b\<lparr>elementArray := (elementArray b)[i := bytes]\<rparr>"

inductive shm_step :: "shm \<Rightarrow> shm \<Rightarrow> bool" where
  put_bounds:
    "phases s p = Idle \<Longrightarrow> \<forall>q. \<not> bounds_exclusive (phases s q) \<and> \<not> bounds_sharable (phases s q) \<Longrightarrow>
     produceElement (ring s) = Some (i, seq, b) \<Longrightarrow> length d = unat (m_bufLen b) \<Longrightarrow>
     shm_step s (s\<lparr>ring := b, phases := (phases s)(p := PutWait i d), log := log s @ [d]\<rparr>)"
| put_element:
    "phases s p = PutWait i d \<Longrightarrow>
     \<forall>q. \<not> element_exclusive i (phases s q) \<and> \<not> element_sharable i (phases s q) \<Longrightarrow>
     shm_step s (s\<lparr>phases := (phases s)(p := PutWriting i d)\<rparr>)"
| put_partial:
    "phases s p = PutWriting i d \<Longrightarrow> length bytes = length d \<Longrightarrow>
     shm_step s (s\<lparr>ring := set_buf i bytes (ring s)\<rparr>)"
| put_release:
    "phases s p = PutWriting i d \<Longrightarrow>
     shm_step s (s\<lparr>ring := write_buf i d (ring s), phases := (phases s)(p := Idle)\<rparr>)"
| get_bounds:
    "phases s p = Idle \<Longrightarrow> \<forall>q. \<not> bounds_exclusive (phases s q) \<Longrightarrow>
     getBySequenceNumber num (ring s) = Some i \<Longrightarrow>
     shm_step s (s\<lparr>phases := (phases s)(p := GetWait i num)\<rparr>)"
| get_element:
    "phases s p = GetWait i num \<Longrightarrow> \<forall>q. \<not> element_exclusive i (phases s q) \<Longrightarrow>
     shm_step s (s\<lparr>phases := (phases s)(p := Reading i num (elementArray (ring s) ! i))\<rparr>)"
| get_release:
    "phases s p = Reading i num d \<Longrightarrow>
     shm_step s (s\<lparr>phases := (phases s)(p := Idle)\<rparr>)"

definition shm_init :: "Bookkeeping \<Rightarrow> shm" where
  "shm_init b = \<lparr>ring = b, phases = (\<lambda>_. Idle), log = []\<rparr>"

definition shm_reachable :: "Bookkeeping \<Rightarrow> shm \<Rightarrow> bool" where
  "shm_reachable b s \<longleftrightarrow> shm_step\<^sup>*\<^sup>* (shm_init b) s"

subsection \<open>Invariants\<close>

fun pending :: "phase \<Rightarrow> (nat \<times> u8 list) option" where
  "pending (PutWait i d) = Some (i, d)"
| "pending (PutWriting i d) = Some (i, d)"
| "pending _ = None"

lemma pending_exclusive: "bounds_exclusive ph \<longleftrightarrow> (\<exists>i d. pending ph = Some (i, d))"
  by (cases ph) auto

definition locks_ok :: "shm \<Rightarrow> bool" where
  "locks_ok s \<longleftrightarrow>
     (\<forall>p q. bounds_exclusive (phases s p) \<longrightarrow>
        bounds_exclusive (phases s q) \<or> bounds_sharable (phases s q) \<longrightarrow> p = q) \<and>
     (\<forall>p q i. element_exclusive i (phases s p) \<longrightarrow>
        element_exclusive i (phases s q) \<or> element_sharable i (phases s q) \<longrightarrow> p = q)"

definition ring_consistent :: "shm \<Rightarrow> bool" where
  "ring_consistent s \<longleftrightarrow>
     unat (m_capacity (ring s)) dvd 2 ^ 16 \<and>
     ((\<forall>p. \<not> bounds_exclusive (phases s p)) \<longrightarrow> holds (log s) (ring s)) \<and>
     (\<forall>p i d. pending (phases s p) = Some (i, d) \<longrightarrow>
        holds (log s) (write_buf i d (ring s)) \<and> length (elementArray (ring s) ! i) = length d)"

definition readers_ok :: "shm \<Rightarrow> bool" where
  "readers_ok s \<longleftrightarrow>
     (\<forall>p i num. phases s p = GetWait i num \<longrightarrow> getBySequenceNumber num (ring s) = Some i) \<and>
     (\<forall>p i num d. phases s p = Reading i num d \<longrightarrow>
        elementArray (ring s) ! i = d \<and> (\<exists>k<length (log s). num = of_nat k \<and> log s ! k = d))"

definition shm_inv :: "shm \<Rightarrow> bool" where
  "shm_inv s \<longleftrightarrow> locks_ok s \<and> ring_consistent s \<and> readers_ok s"

lemma locks_ok_step: "shm_step s s' \<Longrightarrow> locks_ok s \<Longrightarrow> locks_ok s'"
  by (induction rule: shm_step.induct) (auto simp: locks_ok_def)

lemma write_set_buf:
  "length bytes = length d \<Longrightarrow> length (elementArray b ! i) = length d \<Longrightarrow>
     write_buf i d (set_buf i bytes b) = write_buf i d b"
  by (cases "i < length (elementArray b)")
    (simp_all add: write_buf_def set_buf_def list_update_beyond)

lemma set_buf_nth: "length (elementArray b ! i) = length bytes \<Longrightarrow>
    length (elementArray (set_buf i bytes b) ! i) = length bytes"
  by (cases "i < length (elementArray b)") (simp_all add: set_buf_def list_update_beyond)

lemma set_buf_other: "j \<noteq> i \<Longrightarrow> elementArray (set_buf i bytes b) ! j = elementArray b ! j"
  by (simp add: set_buf_def)

lemma holds_produce:
  assumes "holds ds b" and "unat (m_capacity b) dvd 2 ^ 16" and "produceElement b = Some (i, seq, b')"
    and "length d = unat (m_bufLen b')"
  shows "holds (ds @ [d]) (write_buf i d b')" and "length (elementArray b' ! i) = length d"
    and "m_capacity b' = m_capacity b"
proof -
  have ok: "ring_ok b" and safe: "index_safe b" using assms by (auto simp: holds_def index_safe_def)
  from produceElement_eq [OF this] assms(3)
  have eqs: "b' = produced b" "i = slot (produced b) (unat (m_size (produced b)) - 1)" by auto
  then have "m_bufLen b' = m_bufLen b" by simp
  with assms obtain b2 where "ring_put d b = Some (of_nat (length ds), b2)" "holds (ds @ [d]) b2"
    using holds_put [of ds b d] by (metis)
  moreover have "ring_put d b = Some (seq, write_buf i d b')"
    using assms(3,4) by (simp add: ring_put_def)
  ultimately show "holds (ds @ [d]) (write_buf i d b')" by simp
  show "m_capacity b' = m_capacity b" using eqs by simp
  have "i < length (elementArray b')"
    using slot_less [OF produced_ok [OF ok]] produced_ok [OF ok] eqs by (simp add: ring_ok_def)
  then have "elementArray b' ! i \<in> set (elementArray b')" by (rule nth_mem)
  then show "length (elementArray b' ! i) = length d"
    using produced_ok [OF ok] eqs assms(4) by (simp add: ring_ok_def)
qed

lemma holds_lookup:
  assumes "holds ds b" and "getBySequenceNumber num b = Some i"
  shows "\<exists>k<length ds. num = of_nat k \<and> ds ! k = elementArray b ! i"
proof -
  have ok: "ring_ok b" using assms(1) by (simp add: holds_def)
  let ?m = "length ds - unat (m_size b)" and ?j = "unat (num - m_beginSequenceNumber b)"
  have size: "unat (m_size b) = min (length ds) (unat (m_capacity b))" by (rule holds_size [OF assms(1)])
  have j: "?j < unat (m_size b)" and i: "i = slot b ?j"
    using assms(2) by (auto simp: getBySequenceNumber_slot [OF ok] split: if_splits)
  have "elementArray b ! i = contents b ! ?j" using j i by (simp add: contents_def)
  also have "contents b = drop ?m ds"
    using assms(1) size by (simp add: holds_def min_def)
  also have "drop ?m ds ! ?j = ds ! (?m + ?j)"
    using size by (intro nth_drop) simp
  finally have "ds ! (?m + ?j) = elementArray b ! i" by simp
  moreover have "of_nat (?m + ?j) = num"
  proof -
    define x where "x = num - m_beginSequenceNumber b"
    have "(of_nat (?m + unat x) :: u32) = of_nat ?m + of_nat (unat x)" by (rule of_nat_add)
    also have "of_nat (unat x) = x" by simp
    also have "of_nat ?m = m_beginSequenceNumber b"
      by (rule holds_beginSequenceNumber [OF assms(1), symmetric])
    finally show ?thesis by (simp only: x_def add_diff_eq add_diff_cancel_left')
  qed
  moreover have "?m + ?j < length ds"
    by (rule less_le_trans [OF add_strict_left_mono [OF j]]) (use size in simp)
  ultimately show ?thesis by (intro exI [of _ "?m + ?j"]) simp
qed

lemma set_buf_cap [simp]: "m_capacity (set_buf i d b) = m_capacity b"
  by (simp add: set_buf_def)

lemma write_buf_other: "j \<noteq> i \<Longrightarrow> elementArray (write_buf i d b) ! j = elementArray b ! j"
  by (simp add: write_buf_def)

text \<open>Locks of consumers and of elements do not matter to the bookkeeping.\<close>

lemma ring_consistent_cong:
  "ring s' = ring s \<Longrightarrow> log s' = log s \<Longrightarrow> \<forall>q. pending (phases s' q) = pending (phases s q) \<Longrightarrow>
     ring_consistent s' = ring_consistent s"
  by (simp add: ring_consistent_def pending_exclusive)

lemma pending_only:
  "locks_ok s \<Longrightarrow> phases s p = PutWriting i d \<Longrightarrow> pending (phases s q) = Some (j, e) \<Longrightarrow>
     q = p \<and> j = i \<and> e = d"
  unfolding locks_ok_def by (metis bounds_exclusive.simps(2) option.inject pending.simps(2)
      pending_exclusive prod.inject)

lemma ring_consistent_step:
  "shm_step s s' \<Longrightarrow> locks_ok s \<Longrightarrow> ring_consistent s \<Longrightarrow> ring_consistent s'"
proof (induction rule: shm_step.induct)
  case (put_bounds s p i seq b d)
  then have "holds (log s) (ring s)" "unat (m_capacity (ring s)) dvd 2 ^ 16"
    by (auto simp: ring_consistent_def)
  from holds_produce [OF this put_bounds(3,4)] put_bounds show ?case
    by (auto simp: ring_consistent_def pending_exclusive split: if_splits)
next
  case (put_element s p i d)
  then show ?case by (subst ring_consistent_cong [of _ s]) auto
next
  case (put_partial s p i d bytes)
  note pend = pending_only [OF put_partial(3,1)]
  have "pending (phases s p) = Some (i, d)" using put_partial by simp
  then have "holds (log s) (write_buf i d (ring s))" "length (elementArray (ring s) ! i) = length d"
    using put_partial(4) unfolding ring_consistent_def by blast+
  then show ?case
    using put_partial(1,2,4)
    by (auto simp: ring_consistent_def write_set_buf set_buf_nth dest!: pend)
      (metis bounds_exclusive.simps(2))+
next
  case (put_release s p i d)
  note pend = pending_only [OF put_release(2,1)]
  have "pending (phases s p) = Some (i, d)" using put_release by simp
  then have "holds (log s) (write_buf i d (ring s))"
    using put_release(3) unfolding ring_consistent_def by blast
  then show ?case
    using put_release by (auto simp: ring_consistent_def dest!: pend)
next
  case (get_bounds s p num i)
  then show ?case by (subst ring_consistent_cong [of _ s]) auto
next
  case (get_element s p i num)
  then show ?case by (subst ring_consistent_cong [of _ s]) auto
next
  case (get_release s p i num d)
  then show ?case by (subst ring_consistent_cong [of _ s]) auto
qed

lemma readers_ok_step:
  "shm_step s s' \<Longrightarrow> locks_ok s \<Longrightarrow> ring_consistent s \<Longrightarrow> readers_ok s \<Longrightarrow> readers_ok s'"
proof (induction rule: shm_step.induct)
  case (put_bounds s p i seq b d)
  then have "holds (log s) (ring s)" "unat (m_capacity (ring s)) dvd 2 ^ 16"
    by (auto simp: ring_consistent_def)
  then have "elementArray b = elementArray (ring s)"
    using put_bounds(3) produceElement_eq [of "ring s"] by (auto simp: holds_def index_safe_def)
  moreover have "phases s q \<noteq> GetWait j num" for q j num
    using put_bounds(2) by (metis bounds_sharable.simps(1))
  ultimately show ?case
    using put_bounds(5-) by (auto simp: readers_ok_def nth_append) (metis less_SucI)+
next
  case (put_element s p i d)
  then show ?case by (auto simp: readers_ok_def)
next
  case (put_partial s p i d bytes)
  have "j \<noteq> i" if "phases s q = Reading j num e" for q j num e
    using that put_partial by (auto simp: locks_ok_def) (metis element_exclusive.simps(1) element_sharable.simps(1) phase.distinct)
  moreover have "phases s q \<noteq> GetWait j num" for q j num
    using put_partial by (auto simp: locks_ok_def) (metis bounds_exclusive.simps(2) bounds_sharable.simps(1) phase.distinct)
  ultimately show ?case
    using put_partial by (auto simp: readers_ok_def set_buf_other)
next
  case (put_release s p i d)
  have "j \<noteq> i" if "phases s q = Reading j num e" for q j num e
    using that put_release by (auto simp: locks_ok_def) (metis element_exclusive.simps(1) element_sharable.simps(1) phase.distinct)
  moreover have "phases s q \<noteq> GetWait j num" for q j num
    using put_release by (auto simp: locks_ok_def) (metis bounds_exclusive.simps(2) bounds_sharable.simps(1) phase.distinct)
  ultimately show ?case
    using put_release by (auto simp: readers_ok_def write_buf_other)
next
  case (get_bounds s p num i)
  then show ?case by (auto simp: readers_ok_def)
next
  case (get_element s p i num)
  then have "\<not> bounds_exclusive (phases s q)" for q
    by (auto simp: locks_ok_def) (metis bounds_sharable.simps(1) bounds_exclusive.simps(3,4))
  then have "holds (log s) (ring s)" using get_element by (auto simp: ring_consistent_def)
  from holds_lookup [OF this] get_element show ?case by (auto simp: readers_ok_def)
next
  case (get_release s p i num d)
  then show ?case by (auto simp: readers_ok_def)
qed

lemma shm_inv_step: "shm_step s s' \<Longrightarrow> shm_inv s \<Longrightarrow> shm_inv s'"
  by (auto simp: shm_inv_def intro: locks_ok_step ring_consistent_step readers_ok_step)

lemma shm_inv_reachable:
  assumes "shm_reachable b s" and "holds [] b" and "unat (m_capacity b) dvd 2 ^ 16"
  shows "shm_inv s"
  using assms(1) unfolding shm_reachable_def
proof (induction rule: rtranclp_induct)
  case base
  then show ?case
    using assms(2,3) by (simp add: shm_inv_def locks_ok_def ring_consistent_def readers_ok_def shm_init_def)
next
  case (step s s')
  then show ?case by (blast intro: shm_inv_step)
qed

subsection \<open>What the locks give\<close>

text \<open>A run to instantiate the properties with: one put, then one get.\<close>

definition demo_ring :: Bookkeeping where
  "demo_ring = construct_Bookkeeping (\<lambda>_. Some [0]) (setEntrySize 1 (setEntries 2 (Options_named [97] 0)))"

lemma replicate_2: "replicate 2 x = [x, x]"
  by (simp add: numeral_2_eq_2)

lemma demo_ring_eq:
  "demo_ring = \<lparr>m_capacity = 2, elementArray = [[0], [0]], m_beginSequenceNumber = 0,
     m_nextSequenceNumber = 0, m_begin = 0, m_size = 0, m_bufLen = 1\<rparr>"
  by (simp add: demo_ring_def construct_Bookkeeping_def setEntrySize_def setEntries_def Options_named_def
      allocate_bufs_const replicate_2)

lemma demo_ring_holds: "holds [] demo_ring" "unat (m_capacity demo_ring) dvd 2 ^ 16"
  unfolding demo_ring_def by (rule construct_holds) (auto simp: setEntrySize_def setEntries_def)

lemma demo_run: "\<exists>s. shm_reachable demo_ring s \<and> phases s 1 = Reading 0 0 [7]"
proof -
  let ?b1 = "demo_ring\<lparr>m_nextSequenceNumber := 1, m_size := 1\<rparr>"
  let ?s0 = "shm_init demo_ring"
  let ?s1 = "?s0\<lparr>ring := ?b1, phases := (phases ?s0)(0 := PutWait 0 [7]), log := log ?s0 @ [[7]]\<rparr>"
  let ?s2 = "?s1\<lparr>phases := (phases ?s1)(0 := PutWriting 0 [7])\<rparr>"
  let ?s3 = "?s2\<lparr>ring := write_buf 0 [7] (ring ?s2), phases := (phases ?s2)(0 := Idle)\<rparr>"
  let ?s4 = "?s3\<lparr>phases := (phases ?s3)(1 := GetWait 0 0)\<rparr>"
  let ?s5 = "?s4\<lparr>phases := (phases ?s4)(1 := Reading 0 0 (elementArray (ring ?s4) ! 0))\<rparr>"
  have "shm_step ?s0 ?s1"
    by (rule put_bounds [where seq = 0])
      (auto simp: shm_init_def demo_ring_eq produceElement_def back_index_def ring_empty_def getByRawIndex_def)
  moreover have "shm_step ?s1 ?s2" by (rule put_element) (auto simp: shm_init_def)
  moreover have "shm_step ?s2 ?s3" by (rule put_release) (auto simp: shm_init_def)
  moreover have "shm_step ?s3 ?s4"
    by (rule get_bounds)
      (auto simp: shm_init_def demo_ring_eq getBySequenceNumber_def getByRawIndex_def)
  moreover have "shm_step ?s4 ?s5" by (rule get_element) (auto simp: shm_init_def)
  ultimately have "shm_reachable demo_ring ?s5"
    unfolding shm_reachable_def by (meson rtranclp.rtrancl_refl rtranclp.rtrancl_into_rtrancl)
  moreover have "phases ?s5 1 = Reading 0 0 [7]"
    by (simp add: shm_init_def demo_ring_eq write_buf_def)
  ultimately show ?thesis by blast
qed



text \<open>How far an operation is from its end.\<close>

fun to_go :: "phase \<Rightarrow> nat" where
  "to_go Idle = 0"
| "to_go (PutWait i d) = 2"
| "to_go (PutWriting i d) = 1"
| "to_go (GetWait i num) = 2"
| "to_go (Reading i num d) = 1"

lemma advance_Reading:
  "phases s p = Reading i num d \<Longrightarrow> \<exists>s'. shm_step s s' \<and> phases s' = (phases s)(p := Idle)"
  by (drule get_release) (fastforce intro: exI)

lemma advance_PutWriting:
  "phases s p = PutWriting i d \<Longrightarrow> \<exists>s'. shm_step s s' \<and> phases s' = (phases s)(p := Idle)"
  by (drule put_release) (fastforce intro: exI)

lemma getter_not_blocked:
  assumes "locks_ok s" and "phases s p = GetWait i num"
  shows "\<not> element_exclusive j (phases s q)"
proof
  assume "element_exclusive j (phases s q)"
  then have "bounds_exclusive (phases s q)" by (cases "phases s q") auto
  with assms have "q = p" unfolding locks_ok_def by (metis bounds_sharable.simps(1))
  with assms(2) \<open>bounds_exclusive (phases s q)\<close> show False by simp
qed



end
