(* ===== verification/Time_Value.thy ===== *)
theory Time_Value
  imports Osvr_Prelude "HOL-Library.Signed_Division"
begin

text \<open>
  Timestamps: \<^verbatim>\<open>inc/osvr/Util/TimeValueC.h\<close> and \<^verbatim>\<open>src/osvr/Util/TimeValueC.cpp\<close>.

  The two signed fields are integers in the range of their C types; an operation whose signed
  arithmetic would leave the range is undefined in C and yields \<open>None\<close>. A pointer argument
  is an option, \<open>None\<close> being \<^verbatim>\<open>NULL\<close>. The abstract value of a timestamp is its total number
  of microseconds, \<open>tv_usec_total\<close>; the operations are proved against integer arithmetic and
  order on it. The double that \<^verbatim>\<open>osvrTimeValueDurationSeconds\<close> returns is the exact rational
  (its rounding is not modelled).
\<close>

subsection \<open>Signed machine arithmetic\<close>

definition int_range :: "nat \<Rightarrow> int \<Rightarrow> bool" where
  "int_range w x \<longleftrightarrow> - (2 ^ (w - 1)) \<le> x \<and> x < 2 ^ (w - 1)"

definition checked :: "nat \<Rightarrow> int \<Rightarrow> int option" where
  "checked w x = (if int_range w x then Some x else None)"

lemma checked_eq_Some [simp]: "checked w x = Some y \<longleftrightarrow> int_range w x \<and> y = x"
  by (auto simp: checked_def)

lemma checked_in_range [simp]: "int_range w x \<Longrightarrow> checked w x = Some x"
  by (simp add: checked_def)

lemma int_range_64: "int_range 64 x \<longleftrightarrow> - 9223372036854775808 \<le> x \<and> x < 9223372036854775808"
  by (simp add: int_range_def)

lemma int_range_32: "int_range 32 x \<longleftrightarrow> - 2147483648 \<le> x \<and> x < 2147483648"
  by (simp add: int_range_def)

subsection \<open>The structure and its operations\<close>

record OSVR_TimeValue =
  seconds :: int
  microseconds :: int

definition tv_in_range :: "OSVR_TimeValue \<Rightarrow> bool" where
  "tv_in_range tv \<longleftrightarrow> int_range 64 (seconds tv) \<and> int_range 32 (microseconds tv)"

definition OSVR_USEC_PER_SEC :: int where
  "OSVR_USEC_PER_SEC = 1000000"

definition fix_signs :: "OSVR_TimeValue \<Rightarrow> OSVR_TimeValue option" where
  "fix_signs tv =
     (if seconds tv > 0 \<and> microseconds tv < 0 then
        do { s \<leftarrow> checked 64 (seconds tv - 1);
             u \<leftarrow> checked 32 (microseconds tv + OSVR_USEC_PER_SEC);
             Some \<lparr>seconds = s, microseconds = u\<rparr> }
      else if seconds tv < 0 \<and> microseconds tv > 0 then
        do { s \<leftarrow> checked 64 (seconds tv + 1);
             u \<leftarrow> checked 32 (microseconds tv - OSVR_USEC_PER_SEC);
             Some \<lparr>seconds = s, microseconds = u\<rparr> }
      else Some tv)"

definition osvrTimeValueNormalize :: "OSVR_TimeValue option \<Rightarrow> OSVR_TimeValue option option" where
  "osvrTimeValueNormalize tv =
     (case tv of
        None \<Rightarrow> Some None
      | Some v \<Rightarrow>
          (let rem = microseconds v sdiv OSVR_USEC_PER_SEC in
           do { s \<leftarrow> checked 64 (seconds v + rem);
                d \<leftarrow> checked 32 (rem * OSVR_USEC_PER_SEC);
                u \<leftarrow> checked 32 (microseconds v - d);
                r \<leftarrow> fix_signs \<lparr>seconds = s, microseconds = u\<rparr>;
                Some (Some r) }))"

definition osvrTimeValueSum ::
    "OSVR_TimeValue option \<Rightarrow> OSVR_TimeValue option \<Rightarrow> OSVR_TimeValue option option" where
  "osvrTimeValueSum tvA tvB =
     (case (tvA, tvB) of
        (Some a, Some b) \<Rightarrow>
          do { s \<leftarrow> checked 64 (seconds a + seconds b);
               u \<leftarrow> checked 32 (microseconds a + microseconds b);
               osvrTimeValueNormalize (Some \<lparr>seconds = s, microseconds = u\<rparr>) }
      | _ \<Rightarrow> Some tvA)"

definition osvrTimeValueDifference ::
    "OSVR_TimeValue option \<Rightarrow> OSVR_TimeValue option \<Rightarrow> OSVR_TimeValue option option" where
  "osvrTimeValueDifference tvA tvB =
     (case (tvA, tvB) of
        (Some a, Some b) \<Rightarrow>
          do { s \<leftarrow> checked 64 (seconds a - seconds b);
               u \<leftarrow> checked 32 (microseconds a - microseconds b);
               osvrTimeValueNormalize (Some \<lparr>seconds = s, microseconds = u\<rparr>) }
      | _ \<Rightarrow> Some tvA)"

definition numcmp :: "int \<Rightarrow> int \<Rightarrow> int" where
  "numcmp a b = (if a = b then 0 else if a < b then -1 else 1)"

definition osvrTimeValueCmp :: "OSVR_TimeValue option \<Rightarrow> OSVR_TimeValue option \<Rightarrow> int" where
  "osvrTimeValueCmp tvA tvB =
     (case (tvA, tvB) of
        (Some a, Some b) \<Rightarrow>
          (let major = numcmp (seconds a) (seconds b)
           in if major \<noteq> 0 then major else numcmp (microseconds a) (microseconds b))
      | _ \<Rightarrow> 0)"

text \<open>The C-callable comparison, returning \<^verbatim>\<open>OSVR_TRUE\<close> or \<^verbatim>\<open>OSVR_FALSE\<close>.\<close>

definition osvrTimeValueGreater :: "OSVR_TimeValue option \<Rightarrow> OSVR_TimeValue option \<Rightarrow> bool" where
  "osvrTimeValueGreater tvA tvB =
     (case (tvA, tvB) of
        (Some a, Some b) \<Rightarrow>
          seconds a > seconds b \<or> (seconds a = seconds b \<and> microseconds a > microseconds b)
      | _ \<Rightarrow> False)"

definition osvrTimeValueDurationSeconds :: "OSVR_TimeValue \<Rightarrow> OSVR_TimeValue \<Rightarrow> rat option" where
  "osvrTimeValueDurationSeconds tvA tvB =
     (case osvrTimeValueDifference (Some tvA) (Some tvB) of
        Some (Some a) \<Rightarrow> Some (of_int (seconds a) + of_int (microseconds a) / 1000000)
      | _ \<Rightarrow> None)"

text \<open>The check the C++ comparison operators assert on their operands.\<close>

definition osvrTimeValueIsNormalized :: "OSVR_TimeValue \<Rightarrow> bool" where
  "osvrTimeValueIsNormalized tv \<longleftrightarrow>
     \<bar>microseconds tv\<bar> < 1000000 \<and> (seconds tv > 0 \<longleftrightarrow> microseconds tv > 0)"

text \<open>
  The C++ operators; \<open>None\<close> is the failed assertion of a build with assertions.
\<close>

definition both_normalized :: "OSVR_TimeValue \<Rightarrow> OSVR_TimeValue \<Rightarrow> bool option" where
  "both_normalized a b =
     (if osvrTimeValueIsNormalized a \<and> osvrTimeValueIsNormalized b then Some True else None)"

definition tv_op_greater :: "OSVR_TimeValue \<Rightarrow> OSVR_TimeValue \<Rightarrow> bool option" where
  "tv_op_greater a b =
     do { both_normalized a b;
          Some (seconds a > seconds b \<or> (seconds a = seconds b \<and> microseconds a > microseconds b)) }"

definition tv_op_less :: "OSVR_TimeValue \<Rightarrow> OSVR_TimeValue \<Rightarrow> bool option" where
  "tv_op_less a b = tv_op_greater b a"

definition tv_op_eq :: "OSVR_TimeValue \<Rightarrow> OSVR_TimeValue \<Rightarrow> bool option" where
  "tv_op_eq a b =
     do { both_normalized a b; Some (seconds a = seconds b \<and> microseconds a = microseconds b) }"

definition tv_op_neq :: "OSVR_TimeValue \<Rightarrow> OSVR_TimeValue \<Rightarrow> bool option" where
  "tv_op_neq a b =
     do { both_normalized a b; Some (seconds a \<noteq> seconds b \<or> microseconds a \<noteq> microseconds b) }"

text \<open>
  Conversion from the system's \<^verbatim>\<open>struct timeval\<close>, given as its two members: the microseconds
  are narrowed to 32 bits, then the result is normalized.
\<close>

definition osvrStructTimevalToTimeValue :: "int \<Rightarrow> int \<Rightarrow> OSVR_TimeValue option option" where
  "osvrStructTimevalToTimeValue tv_sec tv_usec =
     osvrTimeValueNormalize
       (Some \<lparr>seconds = tv_sec, microseconds = signed_take_bit 31 tv_usec\<rparr>)"

subsection \<open>Abstract value and canonical form\<close>

definition tv_usec_total :: "OSVR_TimeValue \<Rightarrow> int" where
  "tv_usec_total tv = seconds tv * 1000000 + microseconds tv"

definition tv_canonical :: "OSVR_TimeValue \<Rightarrow> bool" where
  "tv_canonical tv \<longleftrightarrow> \<bar>microseconds tv\<bar> < 1000000 \<and>
     \<not> (seconds tv > 0 \<and> microseconds tv < 0) \<and> \<not> (seconds tv < 0 \<and> microseconds tv > 0)"

lemma sdiv_usec:
  fixes u :: int
  shows "u = (u sdiv 1000000) * 1000000 + (u - (u sdiv 1000000) * 1000000)"
    and "\<bar>u - (u sdiv 1000000) * 1000000\<bar> < 1000000"
    and "\<bar>(u sdiv 1000000) * 1000000\<bar> \<le> \<bar>u\<bar>"
proof -
  show "u = (u sdiv 1000000) * 1000000 + (u - (u sdiv 1000000) * 1000000)" by simp
  have e: "u sdiv 1000000 = sgn u * (\<bar>u\<bar> div 1000000)"
    by (simp add: signed_divide_int_def)
  consider "u < 0" | "u = 0" | "u > 0" by linarith
  then show "\<bar>u - (u sdiv 1000000) * 1000000\<bar> < 1000000"
    and "\<bar>(u sdiv 1000000) * 1000000\<bar> \<le> \<bar>u\<bar>"
    by (cases; simp add: e; linarith)+
qed

lemma fix_signs_spec:
  assumes "int_range 64 s" and "\<bar>u\<bar> < 1000000"
  shows "\<exists>r. fix_signs \<lparr>seconds = s, microseconds = u\<rparr> = Some r \<and> tv_canonical r \<and>
    tv_usec_total r = s * 1000000 + u"
  using assms
  by (auto simp: fix_signs_def tv_canonical_def tv_usec_total_def OSVR_USEC_PER_SEC_def
      int_range_64 int_range_32 checked_def)

lemma normalize_spec:
  assumes "int_range 32 (microseconds v)"
    and "int_range 64 (seconds v + microseconds v sdiv 1000000)"
  shows "\<exists>r. osvrTimeValueNormalize (Some v) = Some (Some r) \<and> tv_canonical r \<and>
    tv_usec_total r = tv_usec_total v"
proof -
  define rem where "rem = microseconds v sdiv 1000000"
  let ?u = "microseconds v - rem * 1000000"
  note u = sdiv_usec [of "microseconds v", folded rem_def]
  from fix_signs_spec [of "seconds v + rem" ?u] u(2) assms(2)
  obtain r where r: "fix_signs \<lparr>seconds = seconds v + rem, microseconds = ?u\<rparr> = Some r" "tv_canonical r"
    "tv_usec_total r = (seconds v + rem) * 1000000 + ?u"
    by (auto simp: rem_def)
  have "int_range 32 (rem * 1000000)" and "int_range 32 ?u"
    using u assms(1) by (simp_all add: int_range_32, linarith+)
  with r assms(2) have "osvrTimeValueNormalize (Some v) = Some (Some r)"
    by (simp add: osvrTimeValueNormalize_def Let_def OSVR_USEC_PER_SEC_def flip: rem_def)
  with r show ?thesis by (simp add: tv_usec_total_def algebra_simps)
qed

lemma canonical_total_less:
  assumes "tv_canonical a" and "tv_canonical b"
  shows "tv_usec_total a < tv_usec_total b \<longleftrightarrow>
      seconds a < seconds b \<or> seconds a = seconds b \<and> microseconds a < microseconds b"
  using assms unfolding tv_canonical_def tv_usec_total_def by (simp, linarith)

lemma canonical_total_eq:
  assumes "tv_canonical a" and "tv_canonical b"
  shows "tv_usec_total a = tv_usec_total b \<longleftrightarrow>
      seconds a = seconds b \<and> microseconds a = microseconds b"
  using canonical_total_less [OF assms] canonical_total_less [OF assms(2,1)] by linarith

text \<open>
  C35: normalizing a timestamp keeps its total number of microseconds and makes it canonical
  (fewer than a million microseconds, no mixed signs), with no overflow for any microsecond
  count the field can hold, as long as the carry fits into the seconds.
\<close>

theorem osvrTimeValueNormalize_correct:
  assumes "tv_in_range tv" and "int_range 64 (seconds tv + microseconds tv sdiv 1000000)"
  shows "\<exists>r. osvrTimeValueNormalize (Some tv) = Some (Some r) \<and> tv_canonical r \<and>
    tv_usec_total r = tv_usec_total tv"
  using normalize_spec [OF _ assms(2)] assms(1) by (simp add: tv_in_range_def)

theorem osvrTimeValueNormalize_correct_witness:
  "\<exists>r. osvrTimeValueNormalize (Some \<lparr>seconds = 3, microseconds = -2500000\<rparr>) = Some (Some r) \<and>
    tv_canonical r \<and> tv_usec_total r = 500000"
  using osvrTimeValueNormalize_correct [of "\<lparr>seconds = 3, microseconds = -2500000\<rparr>"]
  by (simp add: tv_in_range_def int_range_def tv_usec_total_def signed_divide_int_def)

text \<open>
  On canonical timestamps whose seconds leave headroom, sum and difference are addition
  and subtraction of the total microseconds, and their results are canonical again.
\<close>

lemma osvrTimeValue_arith:
  assumes "tv_canonical a" and "tv_canonical b"
    and "\<bar>seconds a\<bar> + \<bar>seconds b\<bar> < 2 ^ 63 - 1"
  shows "(\<exists>r. osvrTimeValueSum (Some a) (Some b) = Some (Some r) \<and> tv_canonical r \<and>
      tv_usec_total r = tv_usec_total a + tv_usec_total b) \<and>
    (\<exists>r. osvrTimeValueDifference (Some a) (Some b) = Some (Some r) \<and> tv_canonical r \<and>
      tv_usec_total r = tv_usec_total a - tv_usec_total b)"
proof -
  have u: "\<bar>microseconds a\<bar> < 1000000" "\<bar>microseconds b\<bar> < 1000000"
    using assms by (simp_all add: tv_canonical_def)
  have small: "\<bar>x sdiv 1000000\<bar> \<le> 1" if "\<bar>x\<bar> < 2000000" for x :: int
    using sdiv_usec(3) [of x] that by (simp add: abs_mult)
  have s: "\<bar>(microseconds a + microseconds b) sdiv 1000000\<bar> \<le> 1"
    "\<bar>(microseconds a - microseconds b) sdiv 1000000\<bar> \<le> 1"
    by (rule small; use u in linarith)+
  have r: "int_range 64 (seconds a + seconds b)" "int_range 64 (seconds a - seconds b)"
    "int_range 32 (microseconds a + microseconds b)" "int_range 32 (microseconds a - microseconds b)"
    "int_range 64 (seconds a + seconds b + (microseconds a + microseconds b) sdiv 1000000)"
    "int_range 64 (seconds a - seconds b + (microseconds a - microseconds b) sdiv 1000000)"
    using u s assms(3) by (simp_all add: int_range_64 int_range_32; linarith)+
  show ?thesis
    using normalize_spec [of "\<lparr>seconds = seconds a + seconds b, microseconds = microseconds a + microseconds b\<rparr>"]
      normalize_spec [of "\<lparr>seconds = seconds a - seconds b, microseconds = microseconds a - microseconds b\<rparr>"] r
    by (auto simp: osvrTimeValueSum_def osvrTimeValueDifference_def tv_usec_total_def algebra_simps)
qed

lemma osvrTimeValue_arith_witness:
  "\<exists>r. osvrTimeValueDifference (Some \<lparr>seconds = 2, microseconds = 100\<rparr>)
      (Some \<lparr>seconds = 1, microseconds = 200\<rparr>) = Some (Some r) \<and> tv_usec_total r = 999900"
  using osvrTimeValue_arith [of "\<lparr>seconds = 2, microseconds = 100\<rparr>" "\<lparr>seconds = 1, microseconds = 200\<rparr>"]
  by (auto simp: tv_canonical_def tv_usec_total_def)

text \<open>
  On canonical timestamps the three-way comparison is the order of the total microseconds,
  and the C-callable greater-than agrees with it on every pair.
\<close>

lemma osvrTimeValueCmp_order:
  assumes "tv_canonical a" and "tv_canonical b"
  shows "(osvrTimeValueCmp (Some a) (Some b) < 0 \<longleftrightarrow> tv_usec_total a < tv_usec_total b) \<and>
    (osvrTimeValueCmp (Some a) (Some b) = 0 \<longleftrightarrow> tv_usec_total a = tv_usec_total b) \<and>
    (osvrTimeValueGreater (Some a) (Some b) \<longleftrightarrow> osvrTimeValueCmp (Some a) (Some b) > 0)"
  unfolding canonical_total_less [OF assms] canonical_total_eq [OF assms]
  by (auto simp: osvrTimeValueCmp_def osvrTimeValueGreater_def numcmp_def Let_def)

lemma osvrTimeValueCmp_order_witness:
  "osvrTimeValueCmp (Some \<lparr>seconds = 0, microseconds = -5\<rparr>) (Some \<lparr>seconds = 0, microseconds = 7\<rparr>) < 0"
  using osvrTimeValueCmp_order [of "\<lparr>seconds = 0, microseconds = -5\<rparr>" "\<lparr>seconds = 0, microseconds = 7\<rparr>"]
  by (auto simp: tv_canonical_def tv_usec_total_def)

text \<open>
  The check behind the C++ comparison operators is not the canonical form: of the
  canonical timestamps it rejects exactly those with positive seconds and no microseconds and
  those with no seconds and positive microseconds, so comparing one second with itself fails
  the assertion.
\<close>

lemma osvrTimeValueIsNormalized_rejects:
  assumes "tv_canonical tv"
  shows "(osvrTimeValueIsNormalized tv \<longleftrightarrow>
      \<not> (seconds tv > 0 \<and> microseconds tv = 0) \<and> \<not> (seconds tv = 0 \<and> microseconds tv > 0)) \<and>
    (seconds tv > 0 \<and> microseconds tv = 0 \<longrightarrow> tv_op_eq tv tv = None)"
  using assms
  by (auto simp: tv_canonical_def osvrTimeValueIsNormalized_def tv_op_eq_def both_normalized_def)

lemma osvrTimeValueIsNormalized_rejects_witness:
  "osvrTimeValueNormalize (Some \<lparr>seconds = 0, microseconds = 1000000\<rparr>) =
     Some (Some \<lparr>seconds = 1, microseconds = 0\<rparr>) \<and>
   tv_op_eq \<lparr>seconds = 1, microseconds = 0\<rparr> \<lparr>seconds = 1, microseconds = 0\<rparr> = None"
  using osvrTimeValueIsNormalized_rejects [of "\<lparr>seconds = 1, microseconds = 0\<rparr>"]
  by (simp add: tv_canonical_def osvrTimeValueNormalize_def fix_signs_def OSVR_USEC_PER_SEC_def
      signed_divide_int_def checked_def int_range_def Let_def)

end
