(* ===== verification/Device_Components.thy ===== *)
theory Device_Components
  imports Messages Ring_Locks Time_Value
begin

text \<open>
  Devices and their components: \<^verbatim>\<open>BaseDevice\<close>, \<^verbatim>\<open>DeviceComponent\<close>, \<^verbatim>\<open>MessageHandler\<close>,
  \<^verbatim>\<open>RawMessageType\<close>, \<^verbatim>\<open>RawSenderType\<close>, the classes of service, and the components for eye
  trackers, 2D locations, directions, locomotion, imaging and VRPN's own messages.

  The network connection is VRPN's: it appears as the list of handlers registered with it and
  the list of messages it accepted for sending; whether it accepts a message (\<open>accepts\<close>) and
  the number it gives a message type (\<open>type_id\<close>) are parameters. A callback is its
  identity; calling callbacks yields the list of calls, in order. Both ends of a connection
  are modelled, the message between them being the bytes and the time VRPN carries.
\<close>

subsection \<open>Message types, senders, classes of service\<close>

type_synonym RawMessageType = "int option"
type_synonym RawSenderType = "int option"

definition vrpn_ANY_TYPE :: int where "vrpn_ANY_TYPE = - 1"
definition vrpn_ANY_SENDER :: int where "vrpn_ANY_SENDER = - 1"

definition RawMessageType_get :: "RawMessageType \<Rightarrow> int" where
  "RawMessageType_get t = (case t of Some v \<Rightarrow> v | None \<Rightarrow> vrpn_ANY_TYPE)"

definition RawMessageType_getOr :: "int \<Rightarrow> RawMessageType \<Rightarrow> int" where
  "RawMessageType_getOr valueIfNotSet t = (case t of Some v \<Rightarrow> v | None \<Rightarrow> valueIfNotSet)"

definition RawSenderType_get :: "RawSenderType \<Rightarrow> int" where
  "RawSenderType_get s = (case s of Some v \<Rightarrow> v | None \<Rightarrow> vrpn_ANY_SENDER)"

definition RawSenderType_getOr :: "int \<Rightarrow> RawSenderType \<Rightarrow> int" where
  "RawSenderType_getOr valueIfNotSet s = (case s of Some v \<Rightarrow> v | None \<Rightarrow> valueIfNotSet)"

datatype class_of_service = Reliable | FixedLatency | LowLatency | FixedThroughput | HighThroughput

fun VRPNConnectionValue :: "class_of_service \<Rightarrow> u32" where
  "VRPNConnectionValue Reliable = push_bit 0 1"
| "VRPNConnectionValue FixedLatency = push_bit 1 1"
| "VRPNConnectionValue LowLatency = push_bit 2 1"
| "VRPNConnectionValue FixedThroughput = push_bit 3 1"
| "VRPNConnectionValue HighThroughput = push_bit 4 1"

definition vrpn_CONNECTION_TCP_BUFLEN :: nat where "vrpn_CONNECTION_TCP_BUFLEN = 64000"

subsection \<open>Devices\<close>

datatype vrpn_handler =
    H_EyeRegion | H_LocationRecord | H_DirectionRecord | H_NaviVelocityRecord | H_NaviPositionRecord
  | H_ImageRegion | H_ImagePlacedInSharedMemory | H_ReplaceTree | H_Common string

record packed_message =
  pm_time :: OSVR_TimeValue
  pm_type :: int
  pm_sender :: int
  pm_payload :: "u8 list"
  pm_class :: u32

record BaseDevice =
  m_name :: string
  m_sender :: RawSenderType
  conn_types :: "string list"
  conn_handlers :: "(int \<times> vrpn_handler \<times> int) list"
  conn_packed :: "packed_message list"

definition registerMessageType :: "(string \<Rightarrow> int) \<Rightarrow> string \<Rightarrow> BaseDevice \<Rightarrow> RawMessageType \<times> BaseDevice" where
  "registerMessageType type_id identifier dev =
     (Some (type_id identifier), dev\<lparr>conn_types := conn_types dev @ [identifier]\<rparr>)"

definition registerHandler :: "vrpn_handler \<Rightarrow> RawMessageType \<Rightarrow> BaseDevice \<Rightarrow> BaseDevice" where
  "registerHandler handler msgType dev =
     dev\<lparr>conn_handlers := conn_handlers dev @
           [(RawMessageType_get msgType, handler, RawSenderType_get (m_sender dev))]\<rparr>"

definition unregisterHandler :: "vrpn_handler \<Rightarrow> RawMessageType \<Rightarrow> BaseDevice \<Rightarrow> BaseDevice" where
  "unregisterHandler handler msgType dev =
     dev\<lparr>conn_handlers := remove1 (RawMessageType_get msgType, handler, RawSenderType_get (m_sender dev))
           (conn_handlers dev)\<rparr>"

text \<open>
  \<^verbatim>\<open>toStructTimeval\<close> copies the two fields; \<^verbatim>\<open>fromStructTimeval\<close> copies them back and
  normalizes.
\<close>

definition osvrTimeValueToStructTimeval :: "OSVR_TimeValue \<Rightarrow> int \<times> int" where
  "osvrTimeValueToStructTimeval src = (seconds src, microseconds src)"

definition fromStructTimeval :: "int \<times> int \<Rightarrow> OSVR_TimeValue option" where
  "fromStructTimeval tv =
     (case osvrStructTimevalToTimeValue (fst tv) (snd tv) of Some (Some r) \<Rightarrow> Some r | _ \<Rightarrow> None)"

definition m_packMessage ::
    "(packed_message \<Rightarrow> bool) \<Rightarrow> u8 list \<Rightarrow> RawMessageType \<Rightarrow> OSVR_TimeValue \<Rightarrow> u32 \<Rightarrow> BaseDevice
      \<Rightarrow> (exn, BaseDevice) result" where
  "m_packMessage accepts buf msgType timestamp classOfService dev =
     (let msg = \<lparr>pm_time = timestamp, pm_type = RawMessageType_get msgType,
                 pm_sender = RawSenderType_get (m_sender dev), pm_payload = buf,
                 pm_class = classOfService\<rparr>
      in if accepts msg then Inr (dev\<lparr>conn_packed := conn_packed dev @ [msg]\<rparr>)
         else Inl (RuntimeError ''Could not pack message!''))"

definition packMessage ::
    "(packed_message \<Rightarrow> bool) \<Rightarrow> u8 list \<Rightarrow> RawMessageType \<Rightarrow> OSVR_TimeValue \<Rightarrow> BaseDevice
      \<Rightarrow> (exn, BaseDevice) result" where
  "packMessage accepts buf msgType timestamp dev =
     m_packMessage accepts buf msgType timestamp (VRPNConnectionValue Reliable) dev"

subsection \<open>Components\<close>

record DeviceComponent =
  m_parent :: bool
  m_messageHandlers :: "(vrpn_handler \<times> RawMessageType) list"

definition m_registerHandler ::
    "vrpn_handler \<Rightarrow> RawMessageType \<Rightarrow> ('z DeviceComponent_scheme) \<times> BaseDevice
      \<Rightarrow> ('z DeviceComponent_scheme) \<times> BaseDevice" where
  "m_registerHandler handler msgType =
     (\<lambda>(self, dev). (self\<lparr>m_messageHandlers := m_messageHandlers self @ [(handler, msgType)]\<rparr>,
                     registerHandler handler msgType dev))"

text \<open>\<open>recordParent\<close> asserts that it is called once, then runs the component's \<open>m_parentSet\<close>.\<close>

definition recordParent ::
    "('z DeviceComponent_scheme \<times> BaseDevice \<Rightarrow> 'z DeviceComponent_scheme \<times> BaseDevice) \<Rightarrow>
     'z DeviceComponent_scheme \<times> BaseDevice \<Rightarrow> ('z DeviceComponent_scheme \<times> BaseDevice) option" where
  "recordParent m_parentSet = (\<lambda>(self, dev).
     if m_parent self then None else Some (m_parentSet (self\<lparr>m_parent := True\<rparr>, dev)))"

text \<open>
  What every handler of a report message does: read the message, convert the time, call the
  callbacks. A message too short throws out of the handler before any callback is called.
\<close>

type_synonym ('cb, 'a) calls = "('cb \<times> 'a \<times> OSVR_TimeValue option) list"

definition dispatch ::
    "'a deserializer \<Rightarrow> 'cb list \<Rightarrow> u8 list \<Rightarrow> int \<times> int \<Rightarrow> (exn, ('cb, 'a) calls) result" where
  "dispatch deser cbs payload msg_time =
     result_bind (deser (startReading payload))
       (\<lambda>(data, _). Inr (map (\<lambda>cb. (cb, data, fromStructTimeval msg_time)) cbs))"

subsubsection \<open>Eye tracker\<close>

record 'cb EyeTrackerComponent = DeviceComponent +
  et_numSensor :: OSVR_ChannelCount
  eyeRegion :: RawMessageType
  et_cb :: "'cb list"

definition EyeTracker_create :: "OSVR_ChannelCount \<Rightarrow> 'cb EyeTrackerComponent" where
  "EyeTracker_create numChan =
     \<lparr>m_parent = False, m_messageHandlers = [], et_numSensor = numChan, eyeRegion = None, et_cb = []\<rparr>"

definition EyeTracker_parentSet ::
    "(string \<Rightarrow> int) \<Rightarrow> 'cb EyeTrackerComponent \<times> BaseDevice \<Rightarrow> 'cb EyeTrackerComponent \<times> BaseDevice" where
  "EyeTracker_parentSet type_id = (\<lambda>(self, dev).
     let (t, dev') = registerMessageType type_id ''com.osvr.eyetracker.eyeregion'' dev
     in (self\<lparr>eyeRegion := t\<rparr>, dev'))"

definition sendNotification ::
    "byte_order \<Rightarrow> (packed_message \<Rightarrow> bool) \<Rightarrow> OSVR_ChannelCount \<Rightarrow> OSVR_TimeValue \<Rightarrow>
     'cb EyeTrackerComponent \<times> BaseDevice \<Rightarrow> (exn, BaseDevice) result" where
  "sendNotification bo accepts sensor timestamp = (\<lambda>(self, dev).
     packMessage accepts (EyeRegion_serialize bo \<lparr>en_sensor = sensor\<rparr> []) (eyeRegion self) timestamp dev)"

definition m_handleEyeRegion ::
    "byte_order \<Rightarrow> 'cb EyeTrackerComponent \<Rightarrow> u8 list \<Rightarrow> int \<times> int
      \<Rightarrow> (exn, ('cb, OSVR_EyeNotification) calls) result" where
  "m_handleEyeRegion bo self = dispatch (EyeRegion_deserialize bo) (et_cb self)"

definition registerEyeHandler ::
    "'cb \<Rightarrow> 'cb EyeTrackerComponent \<times> BaseDevice \<Rightarrow> 'cb EyeTrackerComponent \<times> BaseDevice" where
  "registerEyeHandler handler = (\<lambda>(self, dev).
     let (self', dev') = (if et_cb self = [] then m_registerHandler H_EyeRegion (eyeRegion self) (self, dev)
                          else (self, dev))
     in (self'\<lparr>et_cb := et_cb self' @ [handler]\<rparr>, dev'))"

subsubsection \<open>2D location\<close>

record 'cb Location2DComponent = DeviceComponent +
  l2_numSensor :: OSVR_ChannelCount
  locationRecord :: RawMessageType
  l2_cb :: "'cb list"

definition Location2D_create :: "OSVR_ChannelCount \<Rightarrow> 'cb Location2DComponent" where
  "Location2D_create numChan =
     \<lparr>m_parent = False, m_messageHandlers = [], l2_numSensor = numChan, locationRecord = None, l2_cb = []\<rparr>"

definition Location2D_parentSet ::
    "(string \<Rightarrow> int) \<Rightarrow> 'cb Location2DComponent \<times> BaseDevice \<Rightarrow> 'cb Location2DComponent \<times> BaseDevice" where
  "Location2D_parentSet type_id = (\<lambda>(self, dev).
     let (t, dev') = registerMessageType type_id ''com.osvr.location2D.locationrecord'' dev
     in (self\<lparr>locationRecord := t\<rparr>, dev'))"

definition sendLocationData ::
    "byte_order \<Rightarrow> (packed_message \<Rightarrow> bool) \<Rightarrow> OSVR_Vec2 \<Rightarrow> OSVR_ChannelCount \<Rightarrow> OSVR_TimeValue \<Rightarrow>
     'cb Location2DComponent \<times> BaseDevice \<Rightarrow> (exn, BaseDevice) result" where
  "sendLocationData bo accepts location sensor timestamp = (\<lambda>(self, dev).
     packMessage accepts (LocationRecord_serialize bo \<lparr>ld_sensor = sensor, ld_location = location\<rparr> [])
       (locationRecord self) timestamp dev)"

definition m_handleLocationRecord ::
    "byte_order \<Rightarrow> 'cb Location2DComponent \<Rightarrow> u8 list \<Rightarrow> int \<times> int
      \<Rightarrow> (exn, ('cb, LocationData) calls) result" where
  "m_handleLocationRecord bo self = dispatch (LocationRecord_deserialize bo) (l2_cb self)"

definition registerLocationHandler ::
    "'cb \<Rightarrow> 'cb Location2DComponent \<times> BaseDevice \<Rightarrow> 'cb Location2DComponent \<times> BaseDevice" where
  "registerLocationHandler handler = (\<lambda>(self, dev).
     let (self', dev') = (if l2_cb self = [] then m_registerHandler H_LocationRecord (locationRecord self) (self, dev)
                          else (self, dev))
     in (self'\<lparr>l2_cb := l2_cb self' @ [handler]\<rparr>, dev'))"

subsubsection \<open>Direction\<close>

record 'cb DirectionComponent = DeviceComponent +
  di_numSensor :: OSVR_ChannelCount
  directionRecord :: RawMessageType
  di_cb :: "'cb list"

definition Direction_create :: "OSVR_ChannelCount \<Rightarrow> 'cb DirectionComponent" where
  "Direction_create numChan =
     \<lparr>m_parent = False, m_messageHandlers = [], di_numSensor = numChan, directionRecord = None, di_cb = []\<rparr>"

definition Direction_parentSet ::
    "(string \<Rightarrow> int) \<Rightarrow> 'cb DirectionComponent \<times> BaseDevice \<Rightarrow> 'cb DirectionComponent \<times> BaseDevice" where
  "Direction_parentSet type_id = (\<lambda>(self, dev).
     let (t, dev') = registerMessageType type_id ''com.osvr.direction.directionrecord'' dev
     in (self\<lparr>directionRecord := t\<rparr>, dev'))"

definition sendDirectionData ::
    "byte_order \<Rightarrow> (packed_message \<Rightarrow> bool) \<Rightarrow> OSVR_Vec3 \<Rightarrow> OSVR_ChannelCount \<Rightarrow> OSVR_TimeValue \<Rightarrow>
     'cb DirectionComponent \<times> BaseDevice \<Rightarrow> (exn, BaseDevice) result" where
  "sendDirectionData bo accepts dir sensor timestamp = (\<lambda>(self, dev).
     packMessage accepts (DirectionRecord_serialize bo \<lparr>dd_sensor = sensor, dd_direction = dir\<rparr> [])
       (directionRecord self) timestamp dev)"

definition m_handleDirectionRecord ::
    "byte_order \<Rightarrow> 'cb DirectionComponent \<Rightarrow> u8 list \<Rightarrow> int \<times> int
      \<Rightarrow> (exn, ('cb, DirectionData) calls) result" where
  "m_handleDirectionRecord bo self = dispatch (DirectionRecord_deserialize bo) (di_cb self)"

definition registerDirectionHandler ::
    "'cb \<Rightarrow> 'cb DirectionComponent \<times> BaseDevice \<Rightarrow> 'cb DirectionComponent \<times> BaseDevice" where
  "registerDirectionHandler handler = (\<lambda>(self, dev).
     let (self', dev') = (if di_cb self = [] then m_registerHandler H_DirectionRecord (directionRecord self) (self, dev)
                          else (self, dev))
     in (self'\<lparr>di_cb := di_cb self' @ [handler]\<rparr>, dev'))"

subsubsection \<open>Locomotion\<close>

record ('v, 'p) LocomotionComponent = DeviceComponent +
  naviVelRecord :: RawMessageType
  naviPosnRecord :: RawMessageType
  m_cb_vel :: "'v list"
  m_cb_posn :: "'p list"

definition Locomotion_create :: "('v, 'p) LocomotionComponent" where
  "Locomotion_create =
     \<lparr>m_parent = False, m_messageHandlers = [], naviVelRecord = None, naviPosnRecord = None,
      m_cb_vel = [], m_cb_posn = []\<rparr>"

definition Locomotion_parentSet ::
    "(string \<Rightarrow> int) \<Rightarrow> ('v, 'p) LocomotionComponent \<times> BaseDevice \<Rightarrow> ('v, 'p) LocomotionComponent \<times> BaseDevice" where
  "Locomotion_parentSet type_id = (\<lambda>(self, dev).
     let (t1, dev1) = registerMessageType type_id ''com.osvr.locomotion.navivelocityrecord'' dev;
         (t2, dev2) = registerMessageType type_id ''com.osvr.locomotion.navipositionrecord'' dev1
     in (self\<lparr>naviVelRecord := t1, naviPosnRecord := t2\<rparr>, dev2))"

definition sendNaviVelocityData ::
    "byte_order \<Rightarrow> (packed_message \<Rightarrow> bool) \<Rightarrow> OSVR_Vec2 \<Rightarrow> OSVR_ChannelCount \<Rightarrow> OSVR_TimeValue \<Rightarrow>
     ('v, 'p) LocomotionComponent \<times> BaseDevice \<Rightarrow> (exn, BaseDevice) result" where
  "sendNaviVelocityData bo accepts naviVelocityState sensor timestamp = (\<lambda>(self, dev).
     packMessage accepts
       (NaviVelocityRecord_serialize bo \<lparr>nv_sensor = sensor, nv_naviVelState = naviVelocityState\<rparr> [])
       (naviVelRecord self) timestamp dev)"

definition sendNaviPositionData ::
    "byte_order \<Rightarrow> (packed_message \<Rightarrow> bool) \<Rightarrow> OSVR_Vec2 \<Rightarrow> OSVR_ChannelCount \<Rightarrow> OSVR_TimeValue \<Rightarrow>
     ('v, 'p) LocomotionComponent \<times> BaseDevice \<Rightarrow> (exn, BaseDevice) result" where
  "sendNaviPositionData bo accepts naviPositionState sensor timestamp = (\<lambda>(self, dev).
     packMessage accepts
       (NaviPositionRecord_serialize bo \<lparr>np_sensor = sensor, np_naviPosnState = naviPositionState\<rparr> [])
       (naviPosnRecord self) timestamp dev)"

definition m_handleNaviVelocityRecord ::
    "byte_order \<Rightarrow> ('v, 'p) LocomotionComponent \<Rightarrow> u8 list \<Rightarrow> int \<times> int
      \<Rightarrow> (exn, ('v, NaviVelocityData) calls) result" where
  "m_handleNaviVelocityRecord bo self = dispatch (NaviVelocityRecord_deserialize bo) (m_cb_vel self)"

definition m_handleNaviPositionRecord ::
    "byte_order \<Rightarrow> ('v, 'p) LocomotionComponent \<Rightarrow> u8 list \<Rightarrow> int \<times> int
      \<Rightarrow> (exn, ('p, NaviPositionData) calls) result" where
  "m_handleNaviPositionRecord bo self = dispatch (NaviPositionRecord_deserialize bo) (m_cb_posn self)"

definition registerNaviVelocityHandler ::
    "'v \<Rightarrow> ('v, 'p) LocomotionComponent \<times> BaseDevice \<Rightarrow> ('v, 'p) LocomotionComponent \<times> BaseDevice" where
  "registerNaviVelocityHandler handler = (\<lambda>(self, dev).
     let (self', dev') =
           (if m_cb_vel self = [] then m_registerHandler H_NaviVelocityRecord (naviVelRecord self) (self, dev)
            else (self, dev))
     in (self'\<lparr>m_cb_vel := m_cb_vel self' @ [handler]\<rparr>, dev'))"

definition registerNaviPositionHandler ::
    "'p \<Rightarrow> ('v, 'p) LocomotionComponent \<times> BaseDevice \<Rightarrow> ('v, 'p) LocomotionComponent \<times> BaseDevice" where
  "registerNaviPositionHandler handler = (\<lambda>(self, dev).
     let (self', dev') =
           (if m_cb_posn self = [] then m_registerHandler H_NaviPositionRecord (naviPosnRecord self) (self, dev)
            else (self, dev))
     in (self'\<lparr>m_cb_posn := m_cb_posn self' @ [handler]\<rparr>, dev'))"

subsubsection \<open>VRPN's own messages\<close>

text \<open>
  \<^verbatim>\<open>CommonComponent\<close> keeps one handler list per message type, a \<^verbatim>\<open>TypeKeyedMap\<close>; here keyed
  by the identifier of the type. All of them share one VRPN handler, told apart by the list
  it is registered with.
\<close>

definition common_messages :: "string list" where
  "common_messages =
     [''vrpn_Base ping_message'', ''vrpn_Base pong_message'', ''VRPN_Connection_Got_First_Connection'',
      ''VRPN_Connection_Got_Connection'', ''VRPN_Connection_Dropped_Connection'',
      ''VRPN_Connection_Dropped_Last_Connection'']"

record 'cb CommonComponent = DeviceComponent +
  cc_types :: "string \<Rightarrow> RawMessageType"
  cc_handlers :: "string \<Rightarrow> 'cb list"

definition Common_create :: "'cb CommonComponent" where
  "Common_create =
     \<lparr>m_parent = False, m_messageHandlers = [], cc_types = (\<lambda>_. None), cc_handlers = (\<lambda>_. [])\<rparr>"

definition Common_parentSet ::
    "(string \<Rightarrow> int) \<Rightarrow> 'cb CommonComponent \<times> BaseDevice \<Rightarrow> 'cb CommonComponent \<times> BaseDevice" where
  "Common_parentSet type_id =
     fold (\<lambda>m (self, dev). let (t, dev') = registerMessageType type_id m dev
                           in (self\<lparr>cc_types := (cc_types self)(m := t)\<rparr>, dev')) common_messages"

definition Common_registerHandler ::
    "string \<Rightarrow> 'cb \<Rightarrow> 'cb CommonComponent \<times> BaseDevice \<Rightarrow> 'cb CommonComponent \<times> BaseDevice" where
  "Common_registerHandler msg handler = (\<lambda>(self, dev).
     let (self', dev') = (if cc_handlers self msg = []
                          then m_registerHandler (H_Common msg) (cc_types self msg) (self, dev)
                          else (self, dev))
     in (self'\<lparr>cc_handlers := (cc_handlers self')(msg := cc_handlers self' msg @ [handler])\<rparr>, dev'))"

definition registerPingHandler ::
    "'cb \<Rightarrow> 'cb CommonComponent \<times> BaseDevice \<Rightarrow> 'cb CommonComponent \<times> BaseDevice" where
  "registerPingHandler = Common_registerHandler ''vrpn_Base ping_message''"

definition registerPongHandler ::
    "'cb \<Rightarrow> 'cb CommonComponent \<times> BaseDevice \<Rightarrow> 'cb CommonComponent \<times> BaseDevice" where
  "registerPongHandler = Common_registerHandler ''vrpn_Base pong_message''"

definition m_baseHandler :: "string \<Rightarrow> 'cb CommonComponent \<Rightarrow> 'cb list" where
  "m_baseHandler msg self = cc_handlers self msg"

subsection \<open>Registration\<close>

text \<open>
  The handlers a component has registered with VRPN for one message, after a run of callback
  registrations: one if there was any, whatever their number.
\<close>

definition vrpn_handlers_of :: "vrpn_handler \<Rightarrow> BaseDevice \<Rightarrow> nat" where
  "vrpn_handlers_of h dev = length (filter (\<lambda>(t, g, s). g = h) (conn_handlers dev))"

text \<open>
  The contract all components share: registering appends to the callbacks and registers the
  VRPN handler only the first time.
\<close>

locale callback_registration =
  fixes register :: "'cb \<Rightarrow> 's \<times> BaseDevice \<Rightarrow> 's \<times> BaseDevice"
    and cbs :: "'s \<Rightarrow> 'cb list" and handler :: vrpn_handler
  assumes appends: "cbs (fst (register c (s, dev))) = cbs s @ [c]"
    and once: "vrpn_handlers_of handler (snd (register c (s, dev))) =
      vrpn_handlers_of handler dev + (if cbs s = [] then 1 else 0)"
begin

lemma register_all:
  "cbs (fst (fold register cs (s, dev))) = cbs s @ cs \<and>
   vrpn_handlers_of handler (snd (fold register cs (s, dev))) =
     vrpn_handlers_of handler dev + (if cbs s = [] \<and> cs \<noteq> [] then 1 else 0)"
proof (induction cs arbitrary: s dev)
  case Nil
  then show ?case by simp
next
  case (Cons c cs)
  obtain s' dev' where r: "register c (s, dev) = (s', dev')" by fastforce
  with Cons [of s' dev'] appends [of c s dev] once [of c s dev] show ?case by simp
qed

lemma register_fresh:
  "cbs s = [] \<Longrightarrow> vrpn_handlers_of handler dev = 0 \<Longrightarrow>
   cbs (fst (fold register cs (s, dev))) = cs \<and>
   vrpn_handlers_of handler (snd (fold register cs (s, dev))) = (if cs = [] then 0 else 1)"
  using register_all [of cs s dev] by simp

end

lemmas registration_defs = m_registerHandler_def registerHandler_def vrpn_handlers_of_def

interpretation eye_reg: callback_registration registerEyeHandler et_cb H_EyeRegion
  by unfold_locales (simp_all add: registerEyeHandler_def registration_defs)

interpretation location_reg: callback_registration registerLocationHandler l2_cb H_LocationRecord
  by unfold_locales (simp_all add: registerLocationHandler_def registration_defs)

interpretation direction_reg: callback_registration registerDirectionHandler di_cb H_DirectionRecord
  by unfold_locales (simp_all add: registerDirectionHandler_def registration_defs)

interpretation navi_velocity_reg: callback_registration registerNaviVelocityHandler m_cb_vel H_NaviVelocityRecord
  by unfold_locales (simp_all add: registerNaviVelocityHandler_def registration_defs)

interpretation navi_position_reg: callback_registration registerNaviPositionHandler m_cb_posn H_NaviPositionRecord
  by unfold_locales (simp_all add: registerNaviPositionHandler_def registration_defs)

interpretation common_reg: callback_registration "Common_registerHandler msg" "\<lambda>s. cc_handlers s msg" "H_Common msg"
  for msg
  by unfold_locales (simp_all add: Common_registerHandler_def registration_defs)

subsection \<open>Delivery\<close>

lemma arith_serialize_host: "8 dvd LENGTH('a) \<Longrightarrow>
    arith_serialize bo = (arith_serialize bo' :: 'a::len word serializer)"
  by (simp add: fun_eq_iff arith_serialize_host_independent)

lemma u_serialize_host:
  "(arith_serialize bo :: u8 serializer) = arith_serialize LittleEndian"
  "(arith_serialize bo :: u32 serializer) = arith_serialize LittleEndian"
  "(arith_serialize bo :: u64 serializer) = arith_serialize LittleEndian"
  by (rule arith_serialize_host; simp)+

lemma message_serialize_host:
  "EyeRegion_serialize bo = EyeRegion_serialize bo'"
  "LocationRecord_serialize bo = LocationRecord_serialize bo'"
  "DirectionRecord_serialize bo = DirectionRecord_serialize bo'"
  "NaviVelocityRecord_serialize bo = NaviVelocityRecord_serialize bo'"
  "NaviPositionRecord_serialize bo = NaviPositionRecord_serialize bo'"
  unfolding EyeRegion_serialize_def LocationRecord_serialize_def DirectionRecord_serialize_def
    NaviVelocityRecord_serialize_def NaviPositionRecord_serialize_def Vec2_serialize_def Vec3_serialize_def
  by (simp_all only: u_serialize_host [of bo] u_serialize_host [of bo'])

lemma canonical_normalized:
  assumes "tv_canonical tv" and "tv_in_range tv"
  shows "osvrTimeValueNormalize (Some tv) = Some (Some tv)"
proof -
  have "int_range 64 (seconds tv + microseconds tv sdiv 1000000)"
    using assms by (auto simp: tv_canonical_def tv_in_range_def signed_divide_int_def sgn_if div_eq_0_iff)
  then obtain r where r: "osvrTimeValueNormalize (Some tv) = Some (Some r)" "tv_canonical r"
    "tv_usec_total r = tv_usec_total tv"
    using normalize_spec [of tv] assms(2) by (auto simp: tv_in_range_def)
  then have "r = tv" using canonical_total_eq [OF r(2) assms(1)] by simp
  with r show ?thesis by simp
qed

lemma timeval_roundtrip:
  assumes "tv_canonical tv" and "tv_in_range tv"
  shows "fromStructTimeval (osvrTimeValueToStructTimeval tv) = Some tv"
proof -
  have "signed_take_bit 31 (microseconds tv) = microseconds tv"
    using assms(2) by (intro signed_take_bit_int_eq_self) (auto simp: tv_in_range_def int_range_32)
  moreover have "\<lparr>seconds = seconds tv, microseconds = microseconds tv\<rparr> = tv" by simp
  ultimately have "osvrStructTimevalToTimeValue (seconds tv) (microseconds tv) = Some (Some tv)"
    unfolding osvrStructTimevalToTimeValue_def using canonical_normalized [OF assms] by (simp only:)
  then show ?thesis by (simp add: fromStructTimeval_def osvrTimeValueToStructTimeval_def)
qed

definition delivered :: "'cb list \<Rightarrow> 'a \<Rightarrow> OSVR_TimeValue \<Rightarrow> ('cb, 'a) calls" where
  "delivered cbs data timestamp = map (\<lambda>cb. (cb, data, Some timestamp)) cbs"

context report_codec
begin

lemma dispatch_delivers:
  "dispatch deser cbs (ser v []) t = Inr (map (\<lambda>cb. (cb, v, fromStructTimeval t)) cbs)"
  using reads_back [of v] by (auto simp: dispatch_def)

end

lemma last_packed:
  "packMessage accepts buf mt ts dev = Inr dev' \<Longrightarrow>
     \<exists>msg. conn_packed dev' = conn_packed dev @ [msg] \<and> pm_payload msg = buf \<and> pm_time msg = ts \<and>
       pm_type msg = RawMessageType_get mt \<and> pm_sender msg = RawSenderType_get (m_sender dev) \<and>
       pm_class msg = 1"
  by (auto simp: packMessage_def m_packMessage_def Let_def split: if_splits)

text \<open>
  The receiving end of a message: the handler of the component is called with the bytes and
  the time that were packed.
\<close>

definition receive :: "('s \<Rightarrow> u8 list \<Rightarrow> int \<times> int \<Rightarrow> 'r) \<Rightarrow> 's \<Rightarrow> BaseDevice \<Rightarrow> 'r" where
  "receive handle self dev =
     (let msg = last (conn_packed dev)
      in handle self (pm_payload msg) (osvrTimeValueToStructTimeval (pm_time msg)))"

lemma receive_packed:
  assumes "packMessage accepts buf mt ts dev = Inr dev'"
  shows "receive handle self dev' = handle self buf (osvrTimeValueToStructTimeval ts)"
  using last_packed [OF assms] by (auto simp: receive_def)

context report_codec
begin

lemma channel_delivers:
  assumes "packMessage accepts (ser v []) mt ts dev = Inr dev'" and "tv_canonical ts" and "tv_in_range ts"
  shows "receive (\<lambda>s. dispatch deser (cbs s)) self dev' = Inr (delivered (cbs self) v ts)"
  unfolding receive_packed [OF assms(1)]
  by (simp add: dispatch_delivers delivered_def timeval_roundtrip [OF assms(2,3)])

end

lemma handler_eqs:
  "m_handleEyeRegion bo = (\<lambda>s. dispatch (EyeRegion_deserialize bo) (et_cb s))"
  "m_handleLocationRecord bo = (\<lambda>s. dispatch (LocationRecord_deserialize bo) (l2_cb s))"
  "m_handleDirectionRecord bo = (\<lambda>s. dispatch (DirectionRecord_deserialize bo) (di_cb s))"
  "m_handleNaviVelocityRecord bo = (\<lambda>s. dispatch (NaviVelocityRecord_deserialize bo) (m_cb_vel s))"
  "m_handleNaviPositionRecord bo = (\<lambda>s. dispatch (NaviPositionRecord_deserialize bo) (m_cb_posn s))"
  by (simp_all add: fun_eq_iff m_handleEyeRegion_def m_handleLocationRecord_def m_handleDirectionRecord_def
      m_handleNaviVelocityRecord_def m_handleNaviPositionRecord_def)

text \<open>
  C32: A report sent by an eye tracker, location, direction or locomotion component and handled
  by the component at the other end reaches every callback registered there, once each and in
  the order of registration, with exactly the data and the (canonical) timestamp that were
  sent, whatever the byte orders of the two hosts.
\<close>

theorem reports_delivered:
  assumes "tv_canonical ts" and "tv_in_range ts"
  shows "(\<forall>s eye dev dev' eye'. sendNotification bo accepts s ts (eye, dev) = Inr dev' \<longrightarrow>
      receive (m_handleEyeRegion bo') eye' dev' = Inr (delivered (et_cb eye') \<lparr>en_sensor = s\<rparr> ts)) \<and>
    (\<forall>l s loc dev dev' loc'. sendLocationData bo accepts l s ts (loc, dev) = Inr dev' \<longrightarrow>
      receive (m_handleLocationRecord bo') loc' dev' =
        Inr (delivered (l2_cb loc') \<lparr>ld_sensor = s, ld_location = l\<rparr> ts)) \<and>
    (\<forall>d s dir dev dev' dir'. sendDirectionData bo accepts d s ts (dir, dev) = Inr dev' \<longrightarrow>
      receive (m_handleDirectionRecord bo') dir' dev' =
        Inr (delivered (di_cb dir') \<lparr>dd_sensor = s, dd_direction = d\<rparr> ts)) \<and>
    (\<forall>v s mov dev dev' mov'. sendNaviVelocityData bo accepts v s ts (mov, dev) = Inr dev' \<longrightarrow>
      receive (m_handleNaviVelocityRecord bo') mov' dev' =
        Inr (delivered (m_cb_vel mov') \<lparr>nv_sensor = s, nv_naviVelState = v\<rparr> ts)) \<and>
    (\<forall>v s mov dev dev' mov'. sendNaviPositionData bo accepts v s ts (mov, dev) = Inr dev' \<longrightarrow>
      receive (m_handleNaviPositionRecord bo') mov' dev' =
        Inr (delivered (m_cb_posn mov') \<lparr>np_sensor = s, np_naviPosnState = v\<rparr> ts))"
  unfolding sendNotification_def sendLocationData_def sendDirectionData_def sendNaviVelocityData_def
    sendNaviPositionData_def handler_eqs message_serialize_host [of bo bo'] prod.case
  by (intro conjI allI impI eye.channel_delivers location.channel_delivers direction.channel_delivers
      navi_velocity.channel_delivers navi_position.channel_delivers assms; assumption)

theorem reports_delivered_witness:
  "\<exists>dev'. sendNotification BigEndian (\<lambda>_. True) 3 \<lparr>seconds = 5, microseconds = 7\<rparr>
      (EyeTracker_create 2 :: string EyeTrackerComponent,
       \<lparr>m_name = ''dev'', m_sender = Some 1, conn_types = [], conn_handlers = [], conn_packed = []\<rparr>) = Inr dev' \<and>
    receive (m_handleEyeRegion LittleEndian) ((EyeTracker_create 2)\<lparr>et_cb := [''f'', ''g'']\<rparr>) dev' =
      Inr [(''f'', \<lparr>en_sensor = 3\<rparr>, Some \<lparr>seconds = 5, microseconds = 7\<rparr>),
           (''g'', \<lparr>en_sensor = 3\<rparr>, Some \<lparr>seconds = 5, microseconds = 7\<rparr>)]"
proof -
  let ?ts = "\<lparr>seconds = 5, microseconds = 7\<rparr>"
  have "tv_canonical ?ts" "tv_in_range ?ts"
    by (simp_all add: tv_canonical_def tv_in_range_def int_range_64 int_range_32)
  note eye = reports_delivered [OF this, THEN conjunct1, rule_format]
  let ?dev = "\<lparr>m_name = ''dev'', m_sender = Some 1, conn_types = [], conn_handlers = [], conn_packed = []\<rparr>"
  obtain dev' where "sendNotification BigEndian (\<lambda>_. True) 3 ?ts (EyeTracker_create 2 :: string EyeTrackerComponent, ?dev) =
      Inr dev'"
    by (simp add: sendNotification_def packMessage_def m_packMessage_def)
  from eye [OF this, of LittleEndian "(EyeTracker_create 2)\<lparr>et_cb := [''f'', ''g'']\<rparr>"] this show ?thesis
    by (auto simp: delivered_def)
qed

text \<open>
  However many callbacks are registered with a component, they are kept in the order of
  registration and VRPN is given exactly one handler for the message.
\<close>

lemma one_vrpn_handler:
  assumes "conn_handlers dev = []"
  shows "et_cb (fst (fold registerEyeHandler cs (EyeTracker_create n, dev))) = cs \<and>
    vrpn_handlers_of H_EyeRegion (snd (fold registerEyeHandler cs (EyeTracker_create n, dev))) =
      (if cs = [] then 0 else 1) \<and>
    l2_cb (fst (fold registerLocationHandler cs (Location2D_create n, dev))) = cs \<and>
    vrpn_handlers_of H_LocationRecord (snd (fold registerLocationHandler cs (Location2D_create n, dev))) =
      (if cs = [] then 0 else 1) \<and>
    di_cb (fst (fold registerDirectionHandler cs (Direction_create n, dev))) = cs \<and>
    vrpn_handlers_of H_DirectionRecord (snd (fold registerDirectionHandler cs (Direction_create n, dev))) =
      (if cs = [] then 0 else 1) \<and>
    cc_handlers (fst (fold (Common_registerHandler msg) cs (Common_create, dev))) msg = cs \<and>
    vrpn_handlers_of (H_Common msg) (snd (fold (Common_registerHandler msg) cs (Common_create, dev))) =
      (if cs = [] then 0 else 1)"
proof -
  have "vrpn_handlers_of h dev = 0" for h using assms by (simp add: vrpn_handlers_of_def)
  then show ?thesis
    using eye_reg.register_fresh [of "EyeTracker_create n" dev cs]
      location_reg.register_fresh [of "Location2D_create n" dev cs]
      direction_reg.register_fresh [of "Direction_create n" dev cs]
      common_reg.register_fresh [of Common_create msg dev cs]
    by (simp add: EyeTracker_create_def Location2D_create_def Direction_create_def Common_create_def)
qed

lemma one_vrpn_handler_witness:
  "et_cb (fst (fold registerEyeHandler [''f'', ''g''] (EyeTracker_create 2,
     \<lparr>m_name = ''dev'', m_sender = Some 1, conn_types = [], conn_handlers = [], conn_packed = []\<rparr>))) =
   [''f'', ''g'']"
  by (rule one_vrpn_handler [THEN conjunct1]) simp

end
