(* ===== verification/Tree_Sync.thy ===== *)
theory Tree_Sync
  imports Tree_Resolution Device_Components
begin

text \<open>
  How a client's path tree follows the server's: the JSON messages of the system component
  (\<^verbatim>\<open>src/osvr/Common/SystemComponent.cpp\<close>, \<^verbatim>\<open>JSONSerializationTags.h\<close>), the filter for
  repeated messages (\<^verbatim>\<open>DeduplicatingFunctionWrapper.h\<close>), the replacement of host names in
  \<^verbatim>\<open>src/osvr/Client/PureClientContext.cpp\<close>, and the owner of the tree with its observers
  (\<^verbatim>\<open>PathTreeOwner.cpp\<close>, \<^verbatim>\<open>PathTreeObserver.cpp\<close>).

  The callbacks of observers may change the tree and anything else in the program, the world
  \<open>'w\<close>; an observer is known by a number, and the world says which still exist.
\<close>

subsection \<open>JSON in messages\<close>

definition text_bytes :: "string \<Rightarrow> u8 list" where
  "text_bytes s = map (\<lambda>c. of_nat (of_char c)) s"

definition bytes_text :: "u8 list \<Rightarrow> string" where
  "bytes_text bs = map (\<lambda>b. char_of (unat b)) bs"

lemma bytes_text_bytes [simp]: "bytes_text (text_bytes s) = s"
proof -
  have "char_of (unat (of_nat (of_char c) :: u8)) = c" for c :: char
    using of_char_of [of "of_char c :: nat"] by (simp add: unat_of_nat)
  then show ?thesis by (simp add: bytes_text_def text_bytes_def comp_def)
qed

definition json_only_serialize :: "json_lib \<Rightarrow> json serializer" where
  "json_only_serialize L val buf = stringonly_serialize (text_bytes (lib_fast L val)) buf"

definition json_only_deserialize :: "json_lib \<Rightarrow> json deserializer" where
  "json_only_deserialize L r =
     result_bind (stringonly_deserialize r) (\<lambda>(bs, r').
       case lib_parse L (bytes_text bs) of
         None \<Rightarrow> Inl (RuntimeError ''Could not parse JSON during deserialization!'')
       | Some v \<Rightarrow> Inr (v, r'))"

definition json_only_spaceRequired :: "json_lib \<Rightarrow> nat \<Rightarrow> json \<Rightarrow> nat" where
  "json_only_spaceRequired L existingBytes val =
     stringonly_spaceRequired existingBytes (text_bytes (lib_fast L val))"

lemma json_only_roundtrip:
  "lib_parse L (lib_fast L v) = Some v \<Longrightarrow>
    \<exists>r. json_only_deserialize L (startReading (json_only_serialize L v [])) = Inr (v, r)"
  using stringonly_roundtrip [of "text_bytes (lib_fast L v)" "[]" "[]"]
  by (simp add: json_only_deserialize_def json_only_serialize_def startReading_def)

subsection \<open>The system component\<close>

record 'h SystemComponent = DeviceComponent +
  routesOut :: RawMessageType
  appStartup :: RawMessageType
  routeIn :: RawMessageType
  treeOut :: RawMessageType
  m_replaceTreeHandlers :: "'h list"

definition System_deviceName :: string where
  "System_deviceName = ''OSVR''"

definition System_create :: "'h SystemComponent" where
  "System_create =
     \<lparr>m_parent = False, m_messageHandlers = [], routesOut = None, appStartup = None, routeIn = None,
      treeOut = None, m_replaceTreeHandlers = []\<rparr>"

definition System_parentSet ::
    "(string \<Rightarrow> int) \<Rightarrow> 'h SystemComponent \<times> BaseDevice \<Rightarrow> 'h SystemComponent \<times> BaseDevice" where
  "System_parentSet type_id = (\<lambda>(self, dev).
     let (t1, dev1) = registerMessageType type_id ''com.osvr.system.routingdata'' dev;
         (t2, dev2) = registerMessageType type_id ''com.osvr.system.appstartup'' dev1;
         (t3, dev3) = registerMessageType type_id ''com.osvr.system.updateroutetoserver'' dev2;
         (t4, dev4) = registerMessageType type_id ''com.osvr.system.ReplacementTreeFromServer'' dev3
     in (self\<lparr>routesOut := t1, appStartup := t2, routeIn := t3, treeOut := t4\<rparr>, dev4))"

definition sendRoutes ::
    "(packed_message \<Rightarrow> bool) \<Rightarrow> string \<Rightarrow> OSVR_TimeValue \<Rightarrow> 'h SystemComponent \<times> BaseDevice
     \<Rightarrow> (exn, BaseDevice) result" where
  "sendRoutes accepts routes now = (\<lambda>(self, dev).
     packMessage accepts (stringonly_serialize (text_bytes routes) []) (routesOut self) now dev)"

definition registerRoutesHandler ::
    "vrpn_handler \<Rightarrow> 'h SystemComponent \<times> BaseDevice \<Rightarrow> 'h SystemComponent \<times> BaseDevice" where
  "registerRoutesHandler handler = (\<lambda>(self, dev). m_registerHandler handler (routesOut self) (self, dev))"

definition sendClientRouteUpdate ::
    "(packed_message \<Rightarrow> bool) \<Rightarrow> string \<Rightarrow> OSVR_TimeValue \<Rightarrow> 'h SystemComponent \<times> BaseDevice
     \<Rightarrow> (exn, BaseDevice) result" where
  "sendClientRouteUpdate accepts route now = (\<lambda>(self, dev).
     packMessage accepts (stringonly_serialize (text_bytes route) []) (routeIn self) now dev)"

definition registerClientRouteUpdateHandler ::
    "vrpn_handler \<Rightarrow> 'h SystemComponent \<times> BaseDevice \<Rightarrow> 'h SystemComponent \<times> BaseDevice" where
  "registerClientRouteUpdateHandler handler = (\<lambda>(self, dev). m_registerHandler handler (routeIn self) (self, dev))"

text \<open>\<open>now\<close> is the time at which the message is packed.\<close>

definition sendReplacementTree ::
    "json_lib \<Rightarrow> (packed_message \<Rightarrow> bool) \<Rightarrow> PathTree \<Rightarrow> OSVR_TimeValue
     \<Rightarrow> 'h SystemComponent \<times> BaseDevice \<Rightarrow> (exn, BaseDevice) result" where
  "sendReplacementTree L accepts tree now = (\<lambda>(self, dev).
     packMessage accepts (json_only_serialize L (pathTreeToJson tree False) []) (treeOut self) now dev)"

definition registerReplaceTreeHandler ::
    "'h \<Rightarrow> 'h SystemComponent \<times> BaseDevice \<Rightarrow> 'h SystemComponent \<times> BaseDevice" where
  "registerReplaceTreeHandler cb = (\<lambda>(self, dev).
     let (self', dev') = (if m_replaceTreeHandlers self = [] then m_registerHandler H_ReplaceTree (treeOut self) (self, dev)
                          else (self, dev))
     in (self'\<lparr>m_replaceTreeHandlers := m_replaceTreeHandlers self' @ [cb]\<rparr>, dev'))"

definition m_handleReplaceTree ::
    "json_lib \<Rightarrow> 'h SystemComponent \<Rightarrow> u8 list \<Rightarrow> int \<times> int \<Rightarrow> (exn, ('h, json) calls) result" where
  "m_handleReplaceTree L self = dispatch (json_only_deserialize L) (m_replaceTreeHandlers self)"

interpretation replace_tree_reg: callback_registration registerReplaceTreeHandler m_replaceTreeHandlers H_ReplaceTree
  by unfold_locales (simp_all add: registerReplaceTreeHandler_def registration_defs)

subsection \<open>Deduplication\<close>

text \<open>
  The wrapper's state: the function, if it was set, and the last argument it was called with.
  \<open>call\<close> says whether the function runs, and with what state; the argument is remembered
  before the call, so also when the function throws.
\<close>

record ('f, 'a) DeduplicatingFunctionWrapper =
  m_func :: "'f option"
  m_last :: "'a option"

definition dedup_create :: "('f, 'a) DeduplicatingFunctionWrapper" where
  "dedup_create = \<lparr>m_func = None, m_last = None\<rparr>"

definition setFunction :: "'f \<Rightarrow> ('f, 'a) DeduplicatingFunctionWrapper \<Rightarrow> ('f, 'a) DeduplicatingFunctionWrapper" where
  "setFunction f w = w\<lparr>m_func := Some f\<rparr>"

definition dedup_call ::
    "'a \<Rightarrow> ('f, 'a) DeduplicatingFunctionWrapper
     \<Rightarrow> (exn, ('f, 'a) DeduplicatingFunctionWrapper \<times> 'f option) result" where
  "dedup_call arg w =
     (case m_func w of
        None \<Rightarrow> Inl (LogicError ''Must set the function in DeduplicatingFunctionWrapper before calling it!'')
      | Some f \<Rightarrow>
          if m_last w = None \<or> m_last w \<noteq> Some arg then Inr (w\<lparr>m_last := Some arg\<rparr>, Some f)
          else Inr (w, None))"

subsection \<open>Host names\<close>

text \<open>The non-const subscript: an absent member comes into being as null.\<close>

definition json_ref :: "json \<Rightarrow> string \<Rightarrow> (exn, json \<times> json) result" where
  "json_ref v k =
     result_bind (isMember v k) (\<lambda>b.
       if b then result_bind (json_at v k) (\<lambda>x. Inr (v, x))
       else result_bind (json_set v k JNull) (\<lambda>v'. Inr (v', JNull)))"

definition localize_node :: "json_lib \<Rightarrow> string \<Rightarrow> json \<Rightarrow> (exn, json) result" where
  "localize_node L host node =
     result_bind (json_ref node ''type'') (\<lambda>(node1, ty).
       result_bind (asString L ty) (\<lambda>tyname.
         if tyname \<noteq> getTypeName (DeviceElement [] [] JNull) then Inr node1
         else result_bind (json_ref node1 ''server'') (\<lambda>(node2, sv).
           result_bind (asString L sv) (\<lambda>server.
             if find_text (=) ''localhost'' server = None then Inr node2
             else json_set node2 ''server'' (JString (ireplace_first server ''localhost'' host))))))"

fun localize_all :: "json_lib \<Rightarrow> string \<Rightarrow> json list \<Rightarrow> (exn, json list) result" where
  "localize_all L host [] = Inr []"
| "localize_all L host (n # ns) =
     result_bind (localize_node L host n) (\<lambda>n'. result_bind (localize_all L host ns) (\<lambda>ns'. Inr (n' # ns')))"

definition replaceLocalhostServers :: "json_lib \<Rightarrow> string \<Rightarrow> json \<Rightarrow> (exn, json) result" where
  "replaceLocalhostServers L host nodes =
     (case nodes of
        JArray xs \<Rightarrow> result_bind (localize_all L host xs) (\<lambda>xs'. Inr (JArray xs'))
      | JObject ms \<Rightarrow>
          result_bind (localize_all L host (map snd ms)) (\<lambda>xs'. Inr (JObject (zip (map fst ms) xs')))
      | v \<Rightarrow> Inr v)"

subsection \<open>Observers and the owner of the tree\<close>

datatype PathTreeEvents = AboutToUpdate | AfterUpdate

type_synonym 'w event_callback = "PathTree \<times> 'w \<Rightarrow> PathTree \<times> 'w"

text \<open>An observer is its map of handlers; an entry may hold an empty function.\<close>

type_synonym 'w PathTreeObserver = "PathTreeEvents \<rightharpoonup> 'w event_callback option"

definition notifyEvent :: "PathTreeEvents \<Rightarrow> 'w PathTreeObserver \<Rightarrow> PathTree \<times> 'w \<Rightarrow> PathTree \<times> 'w" where
  "notifyEvent e obs s = (case obs e of Some (Some callback) \<Rightarrow> callback s | _ \<Rightarrow> s)"

definition setEventCallback ::
    "PathTreeEvents \<Rightarrow> 'w event_callback option \<Rightarrow> 'w PathTreeObserver \<Rightarrow> 'w PathTreeObserver" where
  "setEventCallback e callback obs = obs(e \<mapsto> callback)"

text \<open>\<open>alive w p\<close>: locking the weak pointer to observer \<open>p\<close> in the world \<open>w\<close>.\<close>

fun for_each_cleanup_pointers ::
    "('w \<Rightarrow> nat \<Rightarrow> 'w PathTreeObserver option)
     \<Rightarrow> ('w PathTreeObserver \<Rightarrow> PathTree \<times> 'w \<Rightarrow> PathTree \<times> 'w)
     \<Rightarrow> nat list \<Rightarrow> PathTree \<times> 'w \<Rightarrow> nat list \<times> PathTree \<times> 'w" where
  "for_each_cleanup_pointers alive f [] s = ([], s)"
| "for_each_cleanup_pointers alive f (p # ps) s =
     (case alive (snd s) p of
        None \<Rightarrow> for_each_cleanup_pointers alive f ps s
      | Some obs \<Rightarrow> (case for_each_cleanup_pointers alive f ps (f obs s) of (ps', s') \<Rightarrow> (p # ps', s')))"

record PathTreeOwner =
  m_tree :: PathTree
  m_observers :: "nat list"
  m_valid :: bool

definition PathTreeOwner_create :: PathTreeOwner where
  "PathTreeOwner_create = \<lparr>m_tree = PathTree_create, m_observers = [], m_valid = False\<rparr>"

definition makeObserver :: "nat \<Rightarrow> PathTreeOwner \<Rightarrow> PathTreeOwner" where
  "makeObserver p owner = owner\<lparr>m_observers := m_observers owner @ [p]\<rparr>"

definition replaceTree ::
    "json_lib \<Rightarrow> ('w \<Rightarrow> nat \<Rightarrow> 'w PathTreeObserver option) \<Rightarrow> json \<Rightarrow> PathTreeOwner \<times> 'w
     \<Rightarrow> (PathTreeOwner \<times> 'w) \<times> (exn, unit) result" where
  "replaceTree L alive nodes = (\<lambda>(owner, w).
     case for_each_cleanup_pointers alive (notifyEvent AboutToUpdate) (m_observers owner) (m_tree owner, w) of
       (obs1, t1, w1) \<Rightarrow>
         (case jsonToPathTree L (PathTree_reset t1) nodes of
            (t2, Inl e) \<Rightarrow> ((owner\<lparr>m_tree := t2, m_observers := obs1\<rparr>, w1), Inl e)
          | (t2, Inr u) \<Rightarrow>
              (case for_each_cleanup_pointers alive (notifyEvent AfterUpdate) obs1 (t2, w1) of
                 (obs3, t3, w3) \<Rightarrow>
                   ((owner\<lparr>m_tree := t3, m_observers := obs3, m_valid := True\<rparr>, w3), Inr ()))))"

subsection \<open>The client's handler\<close>

text \<open>
  What a client context does with a replacement tree: skip it when it equals the last one,
  else put its own host for \<^verbatim>\<open>localhost\<close> and replace its tree. A thrown exception leaves the
  new tree message remembered as the last.
\<close>

record client_tree =
  ct_dedup :: "(unit, json) DeduplicatingFunctionWrapper"
  ct_owner :: PathTreeOwner

definition client_tree_create :: client_tree where
  "client_tree_create = \<lparr>ct_dedup = setFunction () dedup_create, ct_owner = PathTreeOwner_create\<rparr>"

definition client_replace ::
    "json_lib \<Rightarrow> ('w \<Rightarrow> nat \<Rightarrow> 'w PathTreeObserver option) \<Rightarrow> string \<Rightarrow> json \<Rightarrow> client_tree \<times> 'w
     \<Rightarrow> (client_tree \<times> 'w) \<times> (exn, unit) result" where
  "client_replace L alive m_host nodes = (\<lambda>(c, w).
     case dedup_call nodes (ct_dedup c) of
       Inl e \<Rightarrow> ((c, w), Inl e)
     | Inr (d, None) \<Rightarrow> ((c\<lparr>ct_dedup := d\<rparr>, w), Inr ())
     | Inr (d, Some f) \<Rightarrow>
         (case replaceLocalhostServers L m_host nodes of
            Inl e \<Rightarrow> ((c\<lparr>ct_dedup := d\<rparr>, w), Inl e)
          | Inr nodes' \<Rightarrow>
              (case replaceTree L alive nodes' (ct_owner c, w) of
                 ((owner, w'), r) \<Rightarrow> ((c\<lparr>ct_dedup := d, ct_owner := owner\<rparr>, w'), r))))"

subsection \<open>Observers that only look\<close>

definition readonly_observers :: "('w \<Rightarrow> nat \<Rightarrow> 'w PathTreeObserver option) \<Rightarrow> bool" where
  "readonly_observers alive \<longleftrightarrow>
     (\<forall>w p obs e cb t. alive w p = Some obs \<longrightarrow> obs e = Some (Some cb) \<longrightarrow>
        fst (cb (t, w)) = t \<and> alive (snd (cb (t, w))) = alive w)"

fun notify_all ::
    "('w \<Rightarrow> nat \<Rightarrow> 'w PathTreeObserver option) \<Rightarrow> PathTreeEvents \<Rightarrow> PathTree \<Rightarrow> nat list \<Rightarrow> 'w \<Rightarrow> 'w" where
  "notify_all alive e t [] w = w"
| "notify_all alive e t (p # ps) w =
     notify_all alive e t ps
       (case alive w p of None \<Rightarrow> w | Some obs \<Rightarrow> snd (notifyEvent e obs (t, w)))"

lemma notify_readonly:
  assumes "readonly_observers alive" and "alive w p = Some obs"
  shows "fst (notifyEvent e obs (t, w)) = t" and "alive (snd (notifyEvent e obs (t, w))) = alive w"
proof -
  have "fst (notifyEvent e obs (t, w)) = t \<and> alive (snd (notifyEvent e obs (t, w))) = alive w"
  proof (cases "obs e")
    case (Some c)
    with assms show ?thesis by (cases c) (force simp: notifyEvent_def readonly_observers_def)+
  qed (simp add: notifyEvent_def)
  then show "fst (notifyEvent e obs (t, w)) = t" "alive (snd (notifyEvent e obs (t, w))) = alive w" by simp_all
qed

lemma for_each_readonly:
  assumes "readonly_observers alive"
  shows "for_each_cleanup_pointers alive (notifyEvent e) ps (t, w) =
      (filter (\<lambda>p. alive w p \<noteq> None) ps, t, notify_all alive e t ps w) \<and>
    alive (notify_all alive e t ps w) = alive w"
proof (induction ps arbitrary: w)
  case Nil
  then show ?case by simp
next
  case (Cons p ps)
  show ?case
  proof (cases "alive w p")
    case None
    with Cons show ?thesis by simp
  next
    case (Some obs)
    note r = notify_readonly [OF assms Some, of e t]
    obtain w1 where w1: "notifyEvent e obs (t, w) = (t, w1)" using r(1) by (metis prod.collapse)
    with r(2) have "alive w1 = alive w" by simp
    with Cons [of w1] Some w1 show ?thesis by simp
  qed
qed

subsection \<open>Host names in the serialized tree\<close>

definition localize :: "string \<Rightarrow> PathElement \<Rightarrow> PathElement" where
  "localize host e =
     (case e of
        DeviceElement n s d \<Rightarrow>
          if find_text (=) ''localhost'' s = None then e
          else DeviceElement n (ireplace_first s ''localhost'' host) d
      | _ \<Rightarrow> e)"

definition map_values :: "('v \<Rightarrow> 'v) \<Rightarrow> 'v tree \<Rightarrow> 'v tree" where
  "map_values f t = map (\<lambda>n. n\<lparr>m_value := f (m_value n)\<rparr>) t"

lemma nth_beyond: "length xs \<le> i \<Longrightarrow> xs ! i = [] ! (i - length xs)"
  by (induction xs arbitrary: i) (auto simp: nth_Cons split: nat.split)

lemma same_shape_map_values: "same_shape t (map_values f t)"
proof -
  have "Tree_Node.node.m_name (map_values f t ! i) = Tree_Node.node.m_name (t ! i) \<and>
      Tree_Node.node.m_parent (map_values f t ! i) = Tree_Node.node.m_parent (t ! i) \<and>
      m_children (map_values f t ! i) = m_children (t ! i)" for i
    using nth_beyond [of t i] nth_beyond [of "map_values f t" i]
    by (cases "i < length t") (simp_all add: map_values_def)
  then show ?thesis
    by (simp add: same_shape_def map_values_def [of f t] getName_def getParent_def children_def fun_eq_iff)
qed

lemma value_of_map_values: "i < length t \<Longrightarrow> value_of (map_values f t) i = f (value_of t i)"
  by (simp add: value_of_def map_values_def)

lemma map_values_facts:
  assumes "wf_tree t"
  shows "wf_tree (map_values f t)" and "length (map_values f t) = length t"
    and "node_path (map_values f t) i = node_path t i"
    and "i < length t \<Longrightarrow> getFullPath (map_values f t) i = getFullPath t i"
    and "preorder (map_values f t) 0 = preorder t 0"
proof -
  show wf: "wf_tree (map_values f t)" by (rule same_shape_wf [OF same_shape_map_values assms])
  show len: "length (map_values f t) = length t" by (simp add: map_values_def)
  show np: "node_path (map_values f t) i = node_path t i" for i
    by (rule same_shape_node_path [OF same_shape_map_values])
  show "i < length t \<Longrightarrow> getFullPath (map_values f t) i = getFullPath t i"
    using getFullPath_eq [OF wf] getFullPath_eq [OF assms] np len by simp
  have ch: "children (map_values f t) j = children t j" for j
    using same_shape_map_values [of t f] by (simp add: same_shape_def)
  have "i < length t \<Longrightarrow> preorder (map_values f t) i = preorder t i" for i
  proof (induction "length t - i" arbitrary: i rule: less_induct)
    case less
    have "preorder (map_values f t) c = preorder t c" if "c \<in> set (children t i)" for c
      using wf_child [OF assms less.prems that] by (intro less.hyps) auto
    then have m: "map (preorder (map_values f t)) (children t i) = map (preorder t) (children t i)" by simp
    have "preorder (map_values f t) i = i # concat (map (preorder (map_values f t)) (children t i))"
      using preorder_wf [OF wf, of i] len ch less.prems by simp
    then show ?case by (simp only: preorder_wf [OF assms less.prems] m)
  qed
  then show "preorder (map_values f t) 0 = preorder t 0" using wf_nonempty [OF assms] by blast
qed

lemma isNull_localize [simp]: "isNull (localize host e) = isNull e"
  by (cases e) (simp_all add: localize_def isNull_def)

lemma wf_node_members: "wf_members (pathElementToJson e)"
  by (cases e) (auto intro!: wf_intros simp: wf_members_def)

lemma localize_node_spec:
  "localize_node L host (JObject (obj_put ''type'' (JString (getTypeName e)) (obj_put ''path'' (JString p) (pathElementToJson e)))) =
     Inr (JObject (obj_put ''type'' (JString (getTypeName (localize host e)))
            (obj_put ''path'' (JString p) (pathElementToJson (localize host e)))))"
proof (cases e)
  case (DeviceElement n s d)
  let ?o = "\<lambda>s. obj_put ''type'' (JString ''DeviceElement'') (obj_put ''path'' (JString p) (pathElementToJson (DeviceElement n s d)))"
  have "obj_put ''server'' (JString x) (?o s) = ?o x" for x
    by (rule wf_members_eqI) (auto simp: wf_members_def)
  then show ?thesis
    by (simp add: DeviceElement localize_node_def json_ref_def localize_def)
qed (simp_all add: localize_node_def json_ref_def localize_def)

lemma localize_all_spec:
  "(\<And>n. n \<in> set ns \<Longrightarrow> localize_node L host (f n) = Inr (g n)) \<Longrightarrow> localize_all L host (map f ns) = Inr (map g ns)"
  by (induction ns) auto

lemma replaceLocalhostServers_tree:
  assumes "wf_tree t"
  shows "replaceLocalhostServers L host (pathTreeToJson t keepNulls) =
    Inr (pathTreeToJson (map_values (localize host) t) keepNulls)"
proof -
  have in_range: "\<And>n. n \<in> set (preorder t 0) \<Longrightarrow> n < length t" using preorder_all [OF assms] by auto
  have "localize_all L host (map (pathNodeToJson t) (filter (\<lambda>i. keepNulls \<or> \<not> isNull (value_of t i)) (preorder t 0))) =
      Inr (map (pathNodeToJson (map_values (localize host) t))
        (filter (\<lambda>i. keepNulls \<or> \<not> isNull (value_of t i)) (preorder t 0)))"
    by (rule localize_all_spec)
      (auto simp: pathNodeToJson_def localize_node_spec value_of_map_values in_range map_values_facts(4) [OF assms])
  moreover have "filter (\<lambda>i. keepNulls \<or> \<not> isNull (value_of (map_values (localize host) t) i)) (preorder t 0) =
      filter (\<lambda>i. keepNulls \<or> \<not> isNull (value_of t i)) (preorder t 0)"
    by (rule filter_cong [OF refl]) (simp add: in_range value_of_map_values)
  ultimately show ?thesis
    by (simp add: replaceLocalhostServers_def pathTreeToJson_def map_values_facts(5) [OF assms])
qed

lemma content_map_values:
  assumes "wf_tree t" and "\<And>e. isNull (f e) = isNull e"
  shows "content (map_values f t) ps = map_option f (content t ps)"
proof -
  have w: "walk (map_values f t) 0 ps = walk t 0 ps" by (rule same_shape_walk [OF same_shape_map_values])
  show ?thesis
  proof (cases "walk t 0 ps")
    case (Some i)
    then have "i < length t" using walk_sound [OF assms(1) wf_nonempty [OF assms(1)]] by auto
    with w Some assms(2) show ?thesis by (simp add: content_def lookup_def value_of_map_values)
  qed (simp add: content_def lookup_def w)
qed


definition sync_lib :: json_lib where
  "sync_lib = \<lparr>lib_parse = (\<lambda>s. if s = ''t'' then Some (pathTreeToJson demo_tree False) else None),
     lib_fast = (\<lambda>v. ''t''), lib_styled = (\<lambda>v. ''t''), lib_real = (\<lambda>x. ''0'')\<rparr>"

definition log_observers :: "string list \<Rightarrow> nat \<Rightarrow> string list PathTreeObserver option" where
  "log_observers w p =
     (if p = 0 then Some [AfterUpdate \<mapsto> Some (\<lambda>(t, w). (t, w @ [''after'']))] else None)"

definition sync_device :: BaseDevice where
  "sync_device = \<lparr>m_name = ''OSVR'', m_sender = Some 1, conn_types = [], conn_handlers = [], conn_packed = []\<rparr>"


end
