(* ===== verification/Routes.thy ===== *)
theory Routes
  imports Json_Value
begin

text \<open>
  The routing directives of a server, \<^verbatim>\<open>src/osvr/Common/RouteContainer.cpp\<close>: a list of JSON
  texts, one for each destination in the order the destinations first appeared. The container
  stores text and parses it again whenever it looks at it, so every operation may throw.
\<close>

subsection \<open>Directives\<close>

type_synonym RouteContainer = "string list"

definition parseRoutingDirective :: "json_lib \<Rightarrow> string \<Rightarrow> (exn, json) result" where
  "parseRoutingDirective L routingDirective =
     (case lib_parse L routingDirective of
        None \<Rightarrow> Inl (RuntimeError (''Invalid JSON routing directive: '' @ routingDirective))
      | Some val \<Rightarrow> Inr val)"

definition getDestinationFromJson :: "json_lib \<Rightarrow> json \<Rightarrow> (exn, string) result" where
  "getDestinationFromJson L directive =
     result_bind (json_get directive ''destination'' (JString [])) (asString L)"

definition toFastString :: "json_lib \<Rightarrow> json \<Rightarrow> string" where
  "toFastString L val = lib_fast L val"

definition getSourceFromJson :: "json_lib \<Rightarrow> json \<Rightarrow> (exn, string) result" where
  "getSourceFromJson L directive =
     result_bind (json_get directive ''source'' (JString [])) (\<lambda>v. Inr (lib_styled L v))"

definition getDestinationFromString :: "json_lib \<Rightarrow> string \<Rightarrow> (exn, string) result" where
  "getDestinationFromString L route = result_bind (parseRoutingDirective L route) (getDestinationFromJson L)"

definition getSourceFromString :: "json_lib \<Rightarrow> string \<Rightarrow> (exn, string) result" where
  "getSourceFromString L route = result_bind (parseRoutingDirective L route) (getSourceFromJson L)"

subsection \<open>Operations\<close>

text \<open>
  \<^verbatim>\<open>std::replace_if\<close> over the directives; an exception of the predicate leaves the elements
  already passed replaced. The flag is whether any element matched.
\<close>

fun replace_matching ::
    "json_lib \<Rightarrow> string \<Rightarrow> string \<Rightarrow> string list \<Rightarrow> string list \<times> (exn, bool) result" where
  "replace_matching L destination routingDirective [] = ([], Inr False)"
| "replace_matching L destination routingDirective (d # ds) =
     (case getDestinationFromString L d of
        Inl e \<Rightarrow> (d # ds, Inl e)
      | Inr dest \<Rightarrow>
          (case replace_matching L destination routingDirective ds of
             (ds', r) \<Rightarrow>
               ((if dest = destination then routingDirective else d) # ds',
                result_bind r (\<lambda>replaced. Inr (dest = destination \<or> replaced)))))"

definition m_addRoute ::
    "json_lib \<Rightarrow> string \<Rightarrow> string \<Rightarrow> RouteContainer \<Rightarrow> RouteContainer \<times> (exn, bool) result" where
  "m_addRoute L destination routingDirective routes =
     (case replace_matching L destination routingDirective routes of
        (routes', Inl e) \<Rightarrow> (routes', Inl e)
      | (routes', Inr replaced) \<Rightarrow>
          (if \<not> replaced then routes' @ [routingDirective] else routes', Inr (\<not> replaced)))"

definition addRoute ::
    "json_lib \<Rightarrow> string \<Rightarrow> RouteContainer \<Rightarrow> RouteContainer \<times> (exn, bool) result" where
  "addRoute L routingDirective routes =
     (case result_bind (parseRoutingDirective L routingDirective) (getDestinationFromJson L) of
        Inl e \<Rightarrow> (routes, Inl e)
      | Inr dest \<Rightarrow> m_addRoute L dest routingDirective routes)"

fun add_all :: "json_lib \<Rightarrow> json list \<Rightarrow> RouteContainer \<Rightarrow> (exn, RouteContainer) result" where
  "add_all L [] routes = Inr routes"
| "add_all L (thisRoute # rest) routes =
     result_bind (getDestinationFromJson L thisRoute) (\<lambda>dest.
       case m_addRoute L dest (toFastString L thisRoute) routes of
         (routes', Inl e) \<Rightarrow> Inl e
       | (routes', Inr b) \<Rightarrow> add_all L rest routes')"

text \<open>
  The constructor from a text. It indexes the parsed value from 0 to its size: an object of
  any members has no element 0 and throws, other values have size 0.
\<close>

definition RouteContainer_create :: "json_lib \<Rightarrow> string \<Rightarrow> (exn, RouteContainer) result" where
  "RouteContainer_create L routes =
     (case lib_parse L routes of
        None \<Rightarrow> Inl (RuntimeError (''Invalid JSON routing directive array: '' @ routes))
      | Some (JArray xs) \<Rightarrow> add_all L xs []
      | Some (JObject (m # ms)) \<Rightarrow> Inl (RuntimeError ''operator[]: requires arrayValue'')
      | Some v \<Rightarrow> Inr [])"

fun parse_all :: "json_lib \<Rightarrow> string list \<Rightarrow> (exn, json list) result" where
  "parse_all L [] = Inr []"
| "parse_all L (r # rs) =
     result_bind (parseRoutingDirective L r) (\<lambda>v. result_bind (parse_all L rs) (\<lambda>vs. Inr (v # vs)))"

definition getRoutes :: "json_lib \<Rightarrow> bool \<Rightarrow> RouteContainer \<Rightarrow> (exn, string) result" where
  "getRoutes L styled routes =
     result_bind (parse_all L routes) (\<lambda>vs.
       Inr (if styled then lib_styled L (JArray vs) else toFastString L (JArray vs)))"

text \<open>\<^verbatim>\<open>std::find_if\<close>: the first directive of that destination, the empty string when there is none.\<close>

fun getRouteForDestination :: "json_lib \<Rightarrow> string \<Rightarrow> RouteContainer \<Rightarrow> (exn, string) result" where
  "getRouteForDestination L destination [] = Inr []"
| "getRouteForDestination L destination (d # ds) =
     result_bind (getDestinationFromString L d) (\<lambda>dest.
       if dest = destination then Inr d else getRouteForDestination L destination ds)"

definition rc_getSource :: "json_lib \<Rightarrow> string \<Rightarrow> RouteContainer \<Rightarrow> (exn, string) result" where
  "rc_getSource L destination routes =
     result_bind (getRouteForDestination L destination routes) (\<lambda>route.
       if route \<noteq> [] then getSourceFromString L route else Inr [])"

definition getSourceAt :: "json_lib \<Rightarrow> nat \<Rightarrow> RouteContainer \<Rightarrow> (exn, string) result" where
  "getSourceAt L i routes = (if i < length routes then getSourceFromString L (routes ! i) else Inl OutOfRange)"

definition getDestinationAt :: "json_lib \<Rightarrow> nat \<Rightarrow> RouteContainer \<Rightarrow> (exn, string) result" where
  "getDestinationAt L i routes =
     (if i < length routes then getDestinationFromString L (routes ! i) else Inl OutOfRange)"

definition rc_size :: "RouteContainer \<Rightarrow> nat" where
  "rc_size routes = length routes"

subsection \<open>The routes as a map from destinations\<close>

text \<open>
  What a container promises: every stored directive has a destination, each destination has
  one directive. \<open>route_view\<close> is the list of destinations with their directives.
\<close>

definition dest_of :: "json_lib \<Rightarrow> string \<Rightarrow> string" where
  "dest_of L d = (case getDestinationFromString L d of Inr dest \<Rightarrow> dest | Inl e \<Rightarrow> [])"

definition wf_routes :: "json_lib \<Rightarrow> RouteContainer \<Rightarrow> bool" where
  "wf_routes L routes \<longleftrightarrow>
     (\<forall>d\<in>set routes. \<exists>dest. getDestinationFromString L d = Inr dest) \<and> distinct (map (dest_of L) routes)"

definition route_view :: "json_lib \<Rightarrow> RouteContainer \<Rightarrow> (string \<times> string) list" where
  "route_view L routes = map (\<lambda>d. (dest_of L d, d)) routes"

lemma wf_routes_Nil [simp]: "wf_routes L []"
  by (simp add: wf_routes_def)

lemma wf_routes_Cons:
  "wf_routes L (d # ds) \<longleftrightarrow>
    getDestinationFromString L d = Inr (dest_of L d) \<and> dest_of L d \<notin> dest_of L ` set ds \<and> wf_routes L ds"
  by (auto simp: wf_routes_def dest_of_def)

text \<open>The list update that replaces the directive of a destination in place.\<close>

fun put_route :: "string \<Rightarrow> string \<Rightarrow> (string \<times> string) list \<Rightarrow> (string \<times> string) list" where
  "put_route dest d [] = [(dest, d)]"
| "put_route dest d ((dest', d') # rs) = (if dest' = dest then (dest, d) # rs else (dest', d') # put_route dest d rs)"

lemma map_of_put_route: "map_of (put_route dest d rs) = (map_of rs)(dest \<mapsto> d)"
  by (induction rs) (auto simp: fun_eq_iff)

lemma fst_put_route: "map fst (put_route dest d rs) = (if dest \<in> fst ` set rs then map fst rs else map fst rs @ [dest])"
proof (induction rs)
  case (Cons r rs)
  then show ?case by (cases r; cases "fst r = dest") simp_all
qed simp

lemma fst_route_view [simp]: "map fst (route_view L routes) = map (dest_of L) routes"
  by (simp add: route_view_def comp_def)

lemma replace_matching_spec:
  assumes "getDestinationFromString L new = Inr dest"
  shows "wf_routes L routes \<Longrightarrow>
    \<exists>routes'. replace_matching L dest new routes = (routes', Inr (dest \<in> dest_of L ` set routes)) \<and>
      (dest \<in> dest_of L ` set routes \<longrightarrow> route_view L routes' = put_route dest new (route_view L routes)) \<and>
      (dest \<notin> dest_of L ` set routes \<longrightarrow> routes' = routes)"
proof (induction routes)
  case Nil
  then show ?case by simp
next
  case (Cons d ds)
  from Cons.prems have d: "getDestinationFromString L d = Inr (dest_of L d)"
    "dest_of L d \<notin> dest_of L ` set ds" and ds: "wf_routes L ds" by (simp_all add: wf_routes_Cons)
  from Cons.IH [OF ds] obtain ds' where ds': "replace_matching L dest new ds = (ds', Inr (dest \<in> dest_of L ` set ds))"
    "dest \<in> dest_of L ` set ds \<longrightarrow> route_view L ds' = put_route dest new (route_view L ds)"
    "dest \<notin> dest_of L ` set ds \<longrightarrow> ds' = ds" by blast
  have "dest_of L new = dest" using assms by (simp add: dest_of_def)
  with d ds' show ?case by (auto simp: route_view_def)
qed

lemma put_route_new: "dest \<notin> fst ` set rs \<Longrightarrow> put_route dest d rs = rs @ [(dest, d)]"
  by (induction rs) auto

lemma wf_routes_view:
  "wf_routes L routes \<longleftrightarrow> (\<forall>(dest, d)\<in>set (route_view L routes). getDestinationFromString L d = Inr dest) \<and>
    distinct (map fst (route_view L routes))"
proof -
  have "(\<exists>dest. getDestinationFromString L d = Inr dest) \<longleftrightarrow> getDestinationFromString L d = Inr (dest_of L d)" for d
    by (auto simp: dest_of_def)
  then show ?thesis by (simp add: wf_routes_def) (simp add: route_view_def)
qed

lemma set_put_route:
  "set (put_route dest d rs) \<subseteq> insert (dest, d) (set rs)"
  by (induction rs) (auto split: if_splits)

lemma addRoute_spec:
  assumes "wf_routes L routes" and "getDestinationFromString L new = Inr dest"
  shows "\<exists>routes'. addRoute L new routes = (routes', Inr (dest \<notin> dest_of L ` set routes)) \<and>
    route_view L routes' = put_route dest new (route_view L routes) \<and> wf_routes L routes'"
proof -
  obtain routes1 where r: "replace_matching L dest new routes = (routes1, Inr (dest \<in> dest_of L ` set routes))"
    "dest \<in> dest_of L ` set routes \<longrightarrow> route_view L routes1 = put_route dest new (route_view L routes)"
    "dest \<notin> dest_of L ` set routes \<longrightarrow> routes1 = routes"
    using replace_matching_spec [OF assms(2,1)] by blast
  let ?routes' = "if dest \<in> dest_of L ` set routes then routes1 else routes @ [new]"
  have "dest_of L new = dest" using assms(2) by (simp add: dest_of_def)
  then have view: "route_view L ?routes' = put_route dest new (route_view L routes)"
    using r(2) put_route_new [of dest "route_view L routes" new] by (auto simp: route_view_def image_image)
  have "addRoute L new routes = (?routes', Inr (dest \<notin> dest_of L ` set routes))"
    using assms(2) r by (auto simp: addRoute_def m_addRoute_def getDestinationFromString_def)
  moreover have "wf_routes L ?routes'"
  proof -
    have "fst ` set (route_view L routes) = dest_of L ` set routes" by (simp add: route_view_def image_image)
    then have "distinct (map fst (route_view L ?routes'))"
      using assms(1) unfolding view fst_put_route by (simp add: wf_routes_def)
    moreover have "\<forall>(dest, d)\<in>set (route_view L ?routes'). getDestinationFromString L d = Inr dest"
      using assms set_put_route [of dest new "route_view L routes"]
      unfolding view wf_routes_view by blast
    ultimately show ?thesis unfolding wf_routes_view by blast
  qed
  ultimately show ?thesis using view by blast
qed

lemma getRouteForDestination_spec:
  "wf_routes L routes \<Longrightarrow>
    getRouteForDestination L dest routes = Inr (case map_of (route_view L routes) dest of None \<Rightarrow> [] | Some d \<Rightarrow> d)"
  by (induction routes) (simp_all add: route_view_def wf_routes_Cons)

text \<open>Adding several directives, each with its own destination.\<close>

fun addRoutes :: "json_lib \<Rightarrow> string list \<Rightarrow> RouteContainer \<Rightarrow> RouteContainer" where
  "addRoutes L [] routes = routes"
| "addRoutes L (d # ds) routes = addRoutes L ds (fst (addRoute L d routes))"

lemma addRoutes_view:
  "wf_routes L routes \<Longrightarrow> \<forall>d\<in>set ds. \<exists>dest. getDestinationFromString L d = Inr dest \<Longrightarrow>
    wf_routes L (addRoutes L ds routes) \<and>
    route_view L (addRoutes L ds routes) = fold (\<lambda>d. put_route (dest_of L d) d) ds (route_view L routes)"
proof (induction ds arbitrary: routes)
  case Nil
  then show ?case by simp
next
  case (Cons d ds)
  then obtain dest where dest: "getDestinationFromString L d = Inr dest" by auto
  from addRoute_spec [OF Cons.prems(1) dest] obtain routes' b
    where "addRoute L d routes = (routes', b)" "route_view L routes' = put_route dest d (route_view L routes)" "wf_routes L routes'"
    by blast
  moreover have "dest_of L d = dest" using dest by (simp add: dest_of_def)
  ultimately show ?case using Cons by simp
qed

lemma fold_put_route:
  "map_of (fold (\<lambda>d. put_route (f d) d) ds []) = map_of (rev (map (\<lambda>d. (f d, d)) ds)) \<and>
   map fst (fold (\<lambda>d. put_route (f d) d) ds []) = rev (remdups (rev (map f ds)))"
proof (induction ds rule: rev_induct)
  case Nil
  then show ?case by simp
next
  case (snoc d ds)
  let ?v = "fold (\<lambda>d. put_route (f d) d) ds []"
  have "fst ` set ?v = set (map fst ?v)" by simp
  then have "f d \<in> fst ` set ?v \<longleftrightarrow> f d \<in> f ` set ds" using snoc by simp
  with snoc show ?case by (simp add: map_of_put_route fst_put_route)
qed

text \<open>
  C34: however many routes are added (each text a JSON object with a destination), no exception
  is thrown, the container holds exactly one route for each destination, the one added last,
  at the position where the destination first appeared; asking for a destination returns that
  text, or the empty string for a destination never added; and adding reports whether the
  destination is new.
\<close>

theorem routes_last_wins:
  assumes "\<forall>d\<in>set ds. \<exists>dest. getDestinationFromString L d = Inr dest"
    and "getDestinationFromString L new = Inr dest"
  shows "getRouteForDestination L q (addRoutes L ds []) =
      Inr (case map_of (rev (map (\<lambda>d. (dest_of L d, d)) ds)) q of None \<Rightarrow> [] | Some d \<Rightarrow> d) \<and>
    map (dest_of L) (addRoutes L ds []) = rev (remdups (rev (map (dest_of L) ds))) \<and>
    snd (addRoute L new (addRoutes L ds [])) = Inr (dest \<notin> dest_of L ` set ds)"
proof -
  have v: "wf_routes L (addRoutes L ds [])"
    "route_view L (addRoutes L ds []) = fold (\<lambda>d. put_route (dest_of L d) d) ds []"
    using addRoutes_view [OF wf_routes_Nil assms(1)] by (simp_all add: route_view_def)
  have dests: "map (dest_of L) (addRoutes L ds []) = rev (remdups (rev (map (dest_of L) ds)))"
    using fold_put_route [of "dest_of L" ds] v(2) fst_route_view by metis
  then have "dest_of L ` set (addRoutes L ds []) = dest_of L ` set ds"
    by (metis set_map set_rev set_remdups)
  moreover obtain routes' where "addRoute L new (addRoutes L ds []) = (routes', Inr (dest \<notin> dest_of L ` set (addRoutes L ds [])))"
    using addRoute_spec [OF v(1) assms(2)] by blast
  ultimately show ?thesis
    using getRouteForDestination_spec [OF v(1), of q] v(2) fold_put_route [of "dest_of L" ds] dests by simp
qed

definition two_route_lib :: json_lib where
  "two_route_lib = \<lparr>lib_parse = (\<lambda>s.
     if s = ''1'' \<or> s = ''2'' then Some (JObject [(''destination'', JString ''/a''), (''source'', JString s)])
     else if s = ''3'' then Some (JObject [(''destination'', JString ''/b'')]) else None),
     lib_fast = (\<lambda>v. []), lib_styled = (\<lambda>v. []), lib_real = (\<lambda>x. [])\<rparr>"

theorem routes_last_wins_witness:
  "getRouteForDestination two_route_lib ''/a'' (addRoutes two_route_lib [''1'', ''3'', ''2''] []) = Inr ''2''"
proof -
  have h: "\<forall>d\<in>set [''1'', ''3'', ''2'']. \<exists>dest. getDestinationFromString two_route_lib d = Inr dest"
    "getDestinationFromString two_route_lib ''1'' = Inr ''/a''"
    by (simp_all add: getDestinationFromString_def parseRoutingDirective_def two_route_lib_def getDestinationFromJson_def)
  have "map_of (rev (map (\<lambda>d. (dest_of two_route_lib d, d)) [''1'', ''3'', ''2''])) ''/a'' = Some ''2''"
    by code_simp
  with routes_last_wins [OF h, of "''/a''"] show ?thesis by simp
qed

subsection \<open>Saving and loading\<close>

lemma parse_all_spec:
  "(\<And>d. d \<in> set ds \<Longrightarrow> lib_parse L d = Some (f d)) \<Longrightarrow> parse_all L ds = Inr (map f ds)"
  by (induction ds) (simp_all add: parseRoutingDirective_def)

lemma add_all_spec:
  "wf_routes L routes \<Longrightarrow>
   (\<And>v. v \<in> set vs \<Longrightarrow> lib_parse L (toFastString L v) = Some v \<and> getDestinationFromJson L v = Inr (g v)) \<Longrightarrow>
   distinct (map (dest_of L) routes @ map g vs) \<Longrightarrow>
   add_all L vs routes = Inr (routes @ map (toFastString L) vs)"
proof (induction vs arbitrary: routes)
  case Nil
  then show ?case by simp
next
  case (Cons v vs)
  let ?d = "toFastString L v"
  from Cons.prems(2) [of v] have v: "getDestinationFromString L ?d = Inr (g v)" "getDestinationFromJson L v = Inr (g v)"
    by (simp_all add: getDestinationFromString_def parseRoutingDirective_def)
  have new: "g v \<notin> dest_of L ` set routes" using Cons.prems(3) by auto
  obtain routes1 where "replace_matching L (g v) ?d routes = (routes1, Inr False)" "routes1 = routes"
    using replace_matching_spec [OF v(1) Cons.prems(1)] new by auto
  then have add: "m_addRoute L (g v) ?d routes = (routes @ [?d], Inr True)" by (simp add: m_addRoute_def)
  have d: "dest_of L ?d = g v" using v(1) by (simp add: dest_of_def)
  have wf: "wf_routes L (routes @ [?d])"
    using Cons.prems(1) v(1) new d by (auto simp: wf_routes_def)
  have "add_all L vs (routes @ [?d]) = Inr ((routes @ [?d]) @ map (toFastString L) vs)"
    by (rule Cons.IH [OF wf]) (use Cons.prems(2,3) d in auto)
  with add v(2) show ?case by simp
qed

text \<open>
  The routes a server saves (compact or styled) and loads again give a container with the
  same destinations in the same order and the same parsed directives, when the JSON library
  reads back what it wrote for these values.
\<close>

lemma routes_save_load:
  assumes "wf_routes L routes" and "\<forall>d\<in>set routes. lib_parse L d = Some (parsed d)"
    and "\<forall>d\<in>set routes. lib_parse L (lib_fast L (parsed d)) = Some (parsed d)"
    and "\<forall>styled. lib_parse L (if styled then lib_styled L (JArray (map parsed routes)) else lib_fast L (JArray (map parsed routes)))
      = Some (JArray (map parsed routes))"
  shows "\<exists>out routes'. getRoutes L styled routes = Inr out \<and> RouteContainer_create L out = Inr routes' \<and>
    wf_routes L routes' \<and> map (dest_of L) routes' = map (dest_of L) routes \<and>
    map (lib_parse L) routes' = map (lib_parse L) routes"
proof -
  let ?vs = "map parsed routes"
  have p: "parse_all L routes = Inr ?vs" by (rule parse_all_spec) (use assms(2) in blast)
  have dest: "getDestinationFromJson L (parsed d) = Inr (dest_of L d)" if d: "d \<in> set routes" for d
  proof -
    from assms(1) d obtain x where x: "getDestinationFromString L d = Inr x" by (auto simp: wf_routes_def)
    moreover from d assms(2) have "getDestinationFromString L d = getDestinationFromJson L (parsed d)"
      by (simp add: getDestinationFromString_def parseRoutingDirective_def)
    ultimately show ?thesis by (simp add: dest_of_def)
  qed
  let ?g = "\<lambda>v. case getDestinationFromJson L v of Inr x \<Rightarrow> x | Inl e \<Rightarrow> []"
  have g: "map ?g ?vs = map (dest_of L) routes" using dest by simp
  have "add_all L ?vs [] = Inr ([] @ map (toFastString L) ?vs)"
  proof (rule add_all_spec [where g = ?g, OF wf_routes_Nil])
    show "distinct (map (dest_of L) [] @ map ?g ?vs)"
      unfolding g using assms(1) by (simp add: wf_routes_def)
  qed (use assms(3) dest in \<open>auto simp: toFastString_def\<close>)
  moreover obtain out where out: "getRoutes L styled routes = Inr out" "lib_parse L out = Some (JArray ?vs)"
    using p assms(4) [rule_format, of styled]
    by (cases styled) (simp_all add: getRoutes_def toFastString_def)
  ultimately have create: "RouteContainer_create L out = Inr (map (toFastString L) ?vs)"
    by (simp add: RouteContainer_create_def)
  have "getDestinationFromString L (toFastString L (parsed d)) = Inr (dest_of L d)" if "d \<in> set routes" for d
    using that assms(3) dest by (simp add: getDestinationFromString_def parseRoutingDirective_def toFastString_def)
  then have d: "map (dest_of L) (map (toFastString L) ?vs) = map (dest_of L) routes"
    and "\<forall>d\<in>set (map (toFastString L) ?vs). \<exists>x. getDestinationFromString L d = Inr x"
    by (auto simp: dest_of_def)
  then have "wf_routes L (map (toFastString L) ?vs)"
    using assms(1) unfolding wf_routes_def by metis
  moreover have "map (lib_parse L) (map (toFastString L) ?vs) = map (lib_parse L) routes"
    using assms(2,3) by (simp add: toFastString_def)
  ultimately show ?thesis using out(1) create d by blast
qed

definition save_lib :: json_lib where
  "save_lib = \<lparr>lib_parse = (\<lambda>s.
     if s = ''r'' then Some (JObject [(''destination'', JString ''/a'')])
     else if s = ''s'' then Some (JArray [JObject [(''destination'', JString ''/a'')]]) else None),
     lib_fast = (\<lambda>v. if isArray v then ''s'' else ''r''), lib_styled = (\<lambda>v. ''s''), lib_real = (\<lambda>x. [])\<rparr>"

lemma routes_save_load_witness:
  "\<exists>routes'. getRoutes save_lib True [''r''] = Inr ''s'' \<and> RouteContainer_create save_lib ''s'' = Inr routes' \<and>
     map (dest_of save_lib) routes' = [''/a'']"
proof -
  have h: "wf_routes save_lib [''r'']"
    "\<forall>d\<in>set [''r'']. lib_parse save_lib d = Some (JObject [(''destination'', JString ''/a'')])"
    "\<forall>d\<in>set [''r'']. lib_parse save_lib (lib_fast save_lib (JObject [(''destination'', JString ''/a'')])) = Some (JObject [(''destination'', JString ''/a'')])"
    "\<forall>styled. lib_parse save_lib (if styled then lib_styled save_lib (JArray (map (\<lambda>d. JObject [(''destination'', JString ''/a'')]) [''r'']))
       else lib_fast save_lib (JArray (map (\<lambda>d. JObject [(''destination'', JString ''/a'')]) [''r''])))
      = Some (JArray (map (\<lambda>d. JObject [(''destination'', JString ''/a'')]) [''r'']))"
    by (simp_all add: save_lib_def wf_routes_def getDestinationFromString_def parseRoutingDirective_def
        getDestinationFromJson_def)
  have "map (dest_of save_lib) [''r''] = [''/a'']" "getRoutes save_lib True [''r''] = Inr ''s''" by code_simp+
  with routes_save_load [OF h, of True] show ?thesis by auto
qed

end
