(* ===== verification/Imaging.thy ===== *)
theory Imaging
  imports Device_Components
begin

text \<open>
  The imaging component: \<^verbatim>\<open>src/osvr/Common/ImagingComponent.cpp\<close>, with the creation, lookup
  and destruction of ring buffers of \<^verbatim>\<open>IPCRingBuffer.cpp\<close> (the variant without in-process
  imaging, which is the default).

  Shared memory is a world of its own: segments by number, and the names the operating system
  knows them by. A name can be removed while a segment lives on, and a segment can be created
  under a name just freed, as with \<^verbatim>\<open>shm_unlink\<close> and \<^verbatim>\<open>shm_open\<close>. Whether a segment can be
  created, and the buffers its allocator gives, are parameters. \<open>None\<close> stands for undefined
  behaviour: an access past a vector, through a null pointer or into a destroyed segment.
\<close>

record IPCRingBuffer =
  rb_opts :: Options
  rb_seg :: nat
  rb_server :: bool

record shm_world =
  w_names :: "u8 list \<Rightarrow> nat option"
  w_segs :: "nat \<Rightarrow> Bookkeeping option"
  w_next :: nat

definition getABILevel :: u32 where "getABILevel = 0"

definition getBackend :: "IPCRingBuffer \<Rightarrow> u8" where
  "getBackend rb = opt_shmBackend (rb_opts rb)"

definition getRingName :: "IPCRingBuffer \<Rightarrow> u8 list" where
  "getRingName rb = opt_name (rb_opts rb)"

definition getEntrySize :: "IPCRingBuffer \<Rightarrow> u32" where
  "getEntrySize rb = opt_entrySize (rb_opts rb)"

definition removeSharedMemory :: "u8 list \<Rightarrow> shm_world \<Rightarrow> shm_world" where
  "removeSharedMemory name w = w\<lparr>w_names := (w_names w)(name := None)\<rparr>"

text \<open>The handle's options take their counts from the bookkeeping (\<^verbatim>\<open>IPCRingBuffer::Impl\<close>).\<close>

definition ring_handle :: "Options \<Rightarrow> nat \<Rightarrow> bool \<Rightarrow> Bookkeeping \<Rightarrow> IPCRingBuffer" where
  "ring_handle opts seg server b =
     \<lparr>rb_opts = setEntrySize (m_bufLen b) (setEntries (m_capacity b) opts), rb_seg = seg, rb_server = server\<rparr>"

text \<open>
  \<^verbatim>\<open>create\<close>: the server's segment holder first removes what has the name. When the segment
  cannot be created, the half-made holder is destroyed, and its destructor dereferences the
  segment it does not have.
\<close>

definition ring_create ::
    "(Options \<Rightarrow> bool) \<Rightarrow> (nat \<Rightarrow> u8 list option) \<Rightarrow> Options \<Rightarrow> shm_world
      \<Rightarrow> (IPCRingBuffer option \<times> shm_world) option" where
  "ring_create can_create allocated opts w =
     (if opt_shmBackend opts \<noteq> BASIC_MANAGED_SHM_ID then Some (None, w)
      else let w1 = removeSharedMemory (opt_name opts) w
           in if \<not> can_create opts then None
              else let b = construct_Bookkeeping allocated opts; seg = w_next w1
                   in Some (Some (ring_handle opts seg True b),
                            w1\<lparr>w_names := (w_names w1)(opt_name opts \<mapsto> seg),
                               w_segs := (w_segs w1)(seg \<mapsto> b), w_next := seg + 1\<rparr>))"

definition ring_find :: "Options \<Rightarrow> shm_world \<Rightarrow> IPCRingBuffer option" where
  "ring_find opts w =
     (if opt_shmBackend opts \<noteq> BASIC_MANAGED_SHM_ID then None
      else case w_names w (opt_name opts) of
             None \<Rightarrow> None
           | Some seg \<Rightarrow> (case w_segs w seg of
                            None \<Rightarrow> None
                          | Some b \<Rightarrow> Some (ring_handle opts seg False b)))"

text \<open>
  The last reference to a ring buffer going away: the server's destructor destroys the
  bookkeeping and removes the \<^emph>\<open>name\<close>, whatever segment has it by then.
\<close>

definition ring_release :: "IPCRingBuffer \<Rightarrow> shm_world \<Rightarrow> shm_world" where
  "ring_release rb w =
     (if rb_server rb
      then removeSharedMemory (getRingName rb) (w\<lparr>w_segs := (w_segs w)(rb_seg rb := None)\<rparr>)
      else w)"

subsection \<open>The component\<close>

record 'cb ImagingComponent = DeviceComponent +
  ic_numSensor :: OSVR_ChannelCount
  imageRegion :: RawMessageType
  imagePlacedInSharedMemory :: RawMessageType
  ic_cb :: "'cb list"
  m_gotOne :: bool
  m_shmBuf :: "IPCRingBuffer option list"

text \<open>The constructor does not set \<open>m_gotOne\<close>: its first value is a parameter.\<close>

definition Imaging_create :: "bool \<Rightarrow> OSVR_ChannelCount \<Rightarrow> 'cb ImagingComponent" where
  "Imaging_create gotOne numChan =
     \<lparr>m_parent = False, m_messageHandlers = [], ic_numSensor = numChan, imageRegion = None,
      imagePlacedInSharedMemory = None, ic_cb = [], m_gotOne = gotOne, m_shmBuf = []\<rparr>"

definition Imaging_parentSet ::
    "(string \<Rightarrow> int) \<Rightarrow> 'cb ImagingComponent \<times> BaseDevice \<Rightarrow> 'cb ImagingComponent \<times> BaseDevice" where
  "Imaging_parentSet type_id = (\<lambda>(self, dev).
     let (t1, dev1) = registerMessageType type_id ''com.osvr.imaging.imageregion'' dev;
         (t2, dev2) = registerMessageType type_id ''com.osvr.imaging.imageplacedinsharedmemory'' dev1
     in (self\<lparr>imageRegion := t1, imagePlacedInSharedMemory := t2\<rparr>, dev2))"

definition registerImageHandler ::
    "'cb \<Rightarrow> 'cb ImagingComponent \<times> BaseDevice \<Rightarrow> 'cb ImagingComponent \<times> BaseDevice" where
  "registerImageHandler handler = (\<lambda>(self, dev).
     let (self', dev') =
           (if ic_cb self = []
            then m_registerHandler H_ImagePlacedInSharedMemory (imagePlacedInSharedMemory self)
                   (m_registerHandler H_ImageRegion (imageRegion self) (self, dev))
            else (self, dev))
     in (self'\<lparr>ic_cb := ic_cb self' @ [handler]\<rparr>, dev'))"

definition m_checkFirst :: "'cb ImagingComponent \<Rightarrow> 'cb ImagingComponent" where
  "m_checkFirst self = (if m_gotOne self then self else self\<lparr>m_gotOne := True\<rparr>)"

text \<open>\<^verbatim>\<open>sensor + 1\<close> is computed in 32 bits: the greatest sensor number resizes to nothing.\<close>

definition resize_ptrs :: "nat \<Rightarrow> 'a option list \<Rightarrow> 'a option list" where
  "resize_ptrs n v = take n v @ replicate (n - length v) None"

definition m_growShmVecIfRequired ::
    "OSVR_ChannelCount \<Rightarrow> IPCRingBuffer option list \<Rightarrow> IPCRingBuffer option list" where
  "m_growShmVecIfRequired sensor v =
     (if length v \<le> unat sensor then resize_ptrs (unat (sensor + 1)) v else v)"

fun decimal :: "nat \<Rightarrow> u8 list" where
  "decimal n = (if n < 10 then [of_nat (48 + n)] else decimal (n div 10) @ [of_nat (48 + n mod 10)])"

definition show_int :: "int \<Rightarrow> u8 list" where
  "show_int i = (if i < 0 then 45 # decimal (nat (- i)) else decimal (nat i))"

definition ascii :: "string \<Rightarrow> u8 list" where
  "ascii s = map of_char s"

definition makeName :: "OSVR_ChannelCount \<Rightarrow> string \<Rightarrow> u8 list" where
  "makeName sensor devName =
     ascii ''com.osvr.imaging/'' @ ascii devName @ ascii ''/'' @ show_int (sint sensor)"

text \<open>The ring buffer to send through: kept when there is one of the right entry size.\<close>

definition obtain_ring ::
    "(Options \<Rightarrow> bool) \<Rightarrow> (nat \<Rightarrow> u8 list option) \<Rightarrow> OSVR_ChannelCount \<Rightarrow> string \<Rightarrow> u32 \<Rightarrow>
     IPCRingBuffer option list \<Rightarrow> shm_world \<Rightarrow> (IPCRingBuffer option list \<times> shm_world) option" where
  "obtain_ring can_create allocated sensor devName imageBufferSize v w =
     (case v ! unat sensor of
        None \<Rightarrow>
          (case ring_create can_create allocated
                  (setEntrySize imageBufferSize (Options_named (makeName sensor devName) DEFAULT_MANAGED_SHM_ID)) w of
             None \<Rightarrow> None
           | Some (h, w') \<Rightarrow> Some (v[unat sensor := h], w'))
      | Some old \<Rightarrow>
          if getEntrySize old \<noteq> imageBufferSize
          then (case ring_create can_create allocated
                  (setEntrySize imageBufferSize (Options_named (makeName sensor devName) DEFAULT_MANAGED_SHM_ID)) w of
                  None \<Rightarrow> None
                | Some (h, w') \<Rightarrow> Some (v[unat sensor := h], ring_release old w'))
          else Some (v, w))"

type_synonym ('cb, 'r) imaging_result =
  "((exn, 'r) result \<times> 'cb ImagingComponent \<times> BaseDevice \<times> shm_world) option"

definition m_sendImageDataViaSharedMemory ::
    "byte_order \<Rightarrow> (packed_message \<Rightarrow> bool) \<Rightarrow> (Options \<Rightarrow> bool) \<Rightarrow> (nat \<Rightarrow> u8 list option) \<Rightarrow>
     OSVR_ImagingMetadata \<Rightarrow> u8 list \<Rightarrow> OSVR_ChannelCount \<Rightarrow> OSVR_TimeValue \<Rightarrow>
     'cb ImagingComponent \<times> BaseDevice \<times> shm_world \<Rightarrow> ('cb, bool) imaging_result" where
  "m_sendImageDataViaSharedMemory bo accepts can_create allocated metadata imageData sensor timestamp =
     (\<lambda>(self, dev, w).
       let v = m_growShmVecIfRequired sensor (m_shmBuf self); imageBufferSize = getBufferSize metadata
       in if length v \<le> unat sensor then None
          else case obtain_ring can_create allocated sensor (m_name dev) imageBufferSize v w of
            None \<Rightarrow> None
          | Some (v', w') \<Rightarrow>
              (let self' = self\<lparr>m_shmBuf := v'\<rparr>
               in case v' ! unat sensor of
                    None \<Rightarrow> Some (Inr False, self', dev, w')
                  | Some shm \<Rightarrow>
                      (case Option.bind (w_segs w' (rb_seg shm)) (ring_put (take (unat imageBufferSize) imageData)) of
                         None \<Rightarrow> None
                       | Some (seq, b) \<Rightarrow>
                           (let w'' = w'\<lparr>w_segs := (w_segs w')(rb_seg shm \<mapsto> b)\<rparr>;
                                buf = SharedMemory_serialize bo
                                  \<lparr>sm_metadata = metadata, sm_seqNum = seq, sm_sensor = sensor,
                                   sm_abiLevel = getABILevel, sm_backend = getBackend shm,
                                   sm_shmName = getRingName shm\<rparr> []
                            in case packMessage accepts buf (imagePlacedInSharedMemory self') timestamp dev of
                                 Inl e \<Rightarrow> Some (Inl e, self', dev, w'')
                               | Inr dev' \<Rightarrow> Some (Inr True, self', dev', w'')))))"

text \<open>On the wire: only images of depth one, and only if they fit into VRPN's buffer.\<close>

definition m_sendImageDataOnTheWire ::
    "byte_order \<Rightarrow> (packed_message \<Rightarrow> bool) \<Rightarrow> OSVR_ImagingMetadata \<Rightarrow> u8 list \<Rightarrow> OSVR_ChannelCount \<Rightarrow>
     OSVR_TimeValue \<Rightarrow> 'cb ImagingComponent \<times> BaseDevice \<Rightarrow> (exn, bool \<times> BaseDevice) result" where
  "m_sendImageDataOnTheWire bo accepts metadata imageData sensor timestamp = (\<lambda>(self, dev).
     if im_depth metadata \<noteq> 1 then Inr (False, dev)
     else let buf = ImageRegion_serialize bo
                \<lparr>id_sensor = sensor, id_metadata = metadata, id_buffer = imageData\<rparr> []
          in if vrpn_CONNECTION_TCP_BUFLEN < length buf then Inr (False, dev)
             else result_bind (packMessage accepts buf (imageRegion self) timestamp dev) (\<lambda>dev'. Inr (True, dev')))"

definition sendImageData ::
    "byte_order \<Rightarrow> (packed_message \<Rightarrow> bool) \<Rightarrow> (Options \<Rightarrow> bool) \<Rightarrow> (nat \<Rightarrow> u8 list option) \<Rightarrow>
     OSVR_ImagingMetadata \<Rightarrow> u8 list \<Rightarrow> OSVR_ChannelCount \<Rightarrow> OSVR_TimeValue \<Rightarrow>
     'cb ImagingComponent \<times> BaseDevice \<times> shm_world \<Rightarrow> ('cb, unit) imaging_result" where
  "sendImageData bo accepts can_create allocated metadata imageData sensor timestamp st =
     (case m_sendImageDataViaSharedMemory bo accepts can_create allocated metadata imageData sensor timestamp st of
        None \<Rightarrow> None
      | Some (Inl e, st1) \<Rightarrow> Some (Inl e, st1)
      | Some (Inr sent1, self1, dev1, w1) \<Rightarrow>
          (case m_sendImageDataOnTheWire bo accepts metadata imageData sensor timestamp (self1, dev1) of
             Inl e \<Rightarrow> Some (Inl e, self1, dev1, w1)
           | Inr (sent2, dev2) \<Rightarrow>
               Some (Inr (), if sent1 \<or> sent2 then m_checkFirst self1 else self1, dev2, w1)))"

subsubsection \<open>Receiving\<close>

definition m_handleImageRegion ::
    "byte_order \<Rightarrow> OSVR_ChannelCount \<Rightarrow> 'cb ImagingComponent \<Rightarrow> u8 list \<Rightarrow> int \<times> int
      \<Rightarrow> (exn, ('cb, ImageData) calls) result \<times> 'cb ImagingComponent" where
  "m_handleImageRegion bo uninitialised self payload msg_time =
     (case dispatch (ImageRegion_deserialize bo uninitialised) (ic_cb self) payload msg_time of
        Inl e \<Rightarrow> (Inl e, self)
      | Inr cs \<Rightarrow> (Inr cs, m_checkFirst self))"

definition checkSameRingBuf :: "SharedMemoryMessage \<Rightarrow> IPCRingBuffer \<Rightarrow> bool" where
  "checkSameRingBuf msg ringbuf \<longleftrightarrow>
     sm_backend msg = getBackend ringbuf \<and> getEntrySize ringbuf = getBufferSize (sm_metadata msg) \<and>
     getRingName ringbuf = sm_shmName msg"

definition m_handleImagePlacedInSharedMemory ::
    "byte_order \<Rightarrow> shm_world \<Rightarrow> 'cb ImagingComponent \<Rightarrow> u8 list \<Rightarrow> int \<times> int
      \<Rightarrow> ((exn, ('cb, ImageData) calls) result \<times> 'cb ImagingComponent) option" where
  "m_handleImagePlacedInSharedMemory bo w self payload msg_time =
     (case SharedMemory_deserialize bo (startReading payload) of
        Inl e \<Rightarrow> Some (Inl e, self)
      | Inr (msg, _) \<Rightarrow>
          if getABILevel \<noteq> sm_abiLevel msg then Some (Inr [], self)
          else let v = m_growShmVecIfRequired (sm_sensor msg) (m_shmBuf self); n = unat (sm_sensor msg)
               in if length v \<le> n then None
                  else let rb = (case v ! n of
                                   Some rb \<Rightarrow> if checkSameRingBuf msg rb then Some rb
                                              else ring_find (Options_named (sm_shmName msg) (sm_backend msg)) w
                                 | None \<Rightarrow> ring_find (Options_named (sm_shmName msg) (sm_backend msg)) w);
                           self' = self\<lparr>m_shmBuf := v[n := rb]\<rparr>
                       in case rb of
                            None \<Rightarrow> Some (Inr [], self')
                          | Some shm \<Rightarrow>
                              (case w_segs w (rb_seg shm) of
                                 None \<Rightarrow> None
                               | Some b \<Rightarrow>
                                   (case ring_get (sm_seqNum msg) b of
                                      None \<Rightarrow> Some (Inr [], self')
                                    | Some bufptr \<Rightarrow>
                                        Some (Inr (map (\<lambda>cb. (cb, \<lparr>id_sensor = sm_sensor msg,
                                                id_metadata = sm_metadata msg, id_buffer = bufptr\<rparr>,
                                                fromStructTimeval msg_time)) (ic_cb self')),
                                              m_checkFirst self'))))"

subsection \<open>Delivery through shared memory\<close>

definition ring_opts :: "OSVR_ChannelCount \<Rightarrow> string \<Rightarrow> u32 \<Rightarrow> Options" where
  "ring_opts sensor devName sz =
     setEntrySize sz (Options_named (makeName sensor devName) DEFAULT_MANAGED_SHM_ID)"

lemma ring_opts_simps [simp]:
  "opt_name (ring_opts sensor devName sz) = make_name_safe (makeName sensor devName)"
  "opt_shmBackend (ring_opts sensor devName sz) = BASIC_MANAGED_SHM_ID"
  "opt_entrySize (ring_opts sensor devName sz) = sz"
  "opt_entries (ring_opts sensor devName sz) = 16"
  by (simp_all add: ring_opts_def setEntrySize_def Options_named_def DEFAULT_MANAGED_SHM_ID_def)

lemma grow_fresh:
  assumes "sensor \<noteq> - 1"
  shows "m_growShmVecIfRequired sensor [] = replicate (Suc (unat sensor)) None"
proof -
  have "unat (sensor + 1) = Suc (unat sensor)"
    using assms by (metis Suc_eq_plus1 add.commute add.right_inverse add_diff_cancel_left' diff_add_cancel
        unatSuc word_neq_0_conv eq_neg_iff_add_eq_0)
  then show ?thesis by (simp add: m_growShmVecIfRequired_def resize_ptrs_def)
qed

lemma ring_create_eq:
  assumes "can_create (ring_opts sensor devName sz)"
  shows "ring_create can_create allocated (ring_opts sensor devName sz) w =
    Some (Some (ring_handle (ring_opts sensor devName sz) (w_next w) True
             (construct_Bookkeeping allocated (ring_opts sensor devName sz))),
          w\<lparr>w_names := (w_names w)(make_name_safe (makeName sensor devName) \<mapsto> w_next w),
            w_segs := (w_segs w)(w_next w \<mapsto> construct_Bookkeeping allocated (ring_opts sensor devName sz)),
            w_next := w_next w + 1\<rparr>)"
  using assms by (simp add: ring_create_def removeSharedMemory_def Let_def)

lemma ring_handle_simps [simp]:
  "getRingName (ring_handle opts seg server b) = opt_name opts"
  "getBackend (ring_handle opts seg server b) = opt_shmBackend opts"
  "getEntrySize (ring_handle opts seg server b) = m_bufLen b"
  "rb_seg (ring_handle opts seg server b) = seg"
  "rb_server (ring_handle opts seg server b) = server"
  by (simp_all add: ring_handle_def getRingName_def getBackend_def getEntrySize_def setEntrySize_def setEntries_def)

lemma construct_bufLen [simp]: "m_bufLen (construct_Bookkeeping allocated opts) = opt_entrySize opts"
  by (simp add: construct_Bookkeeping_def Let_def)

lemma ring_find_safe:
  "name_safe name \<Longrightarrow> w_names w name = Some seg \<Longrightarrow> w_segs w seg = Some b \<Longrightarrow>
     ring_find (Options_named name BASIC_MANAGED_SHM_ID) w =
       Some (ring_handle (Options_named name BASIC_MANAGED_SHM_ID) seg False b)"
  by (simp add: ring_find_def Options_named_def make_name_safe_id)

lemma ring_find_none:
  "name_safe name \<Longrightarrow> w_names w name = None \<Longrightarrow> ring_find (Options_named name backend) w = None"
  by (simp add: ring_find_def Options_named_def make_name_safe_id)

text \<open>What a first image sent for a sensor leaves behind, and the message it packs.\<close>

definition shm_message ::
    "OSVR_ImagingMetadata \<Rightarrow> u32 \<Rightarrow> OSVR_ChannelCount \<Rightarrow> string \<Rightarrow> SharedMemoryMessage" where
  "shm_message metadata seq sensor devName =
     \<lparr>sm_metadata = metadata, sm_seqNum = seq, sm_sensor = sensor, sm_abiLevel = getABILevel,
      sm_backend = BASIC_MANAGED_SHM_ID, sm_shmName = make_name_safe (makeName sensor devName)\<rparr>"

lemma message_read:
  assumes "proper_ivt (im_type metadata)" and "short_string (make_name_safe (makeName sensor devName))"
  obtains r' where "SharedMemory_deserialize bo (startReading (SharedMemory_serialize bo
      (shm_message metadata seq sensor devName) [])) = Inr (shm_message metadata seq sensor devName, r')"
  using shm.message_roundtrip [of "shm_message metadata seq sensor devName" bo] assms
  by (auto simp: shm_message_def)

lemma shm_serialize_host: "SharedMemory_serialize bo = SharedMemory_serialize bo'"
  unfolding SharedMemory_serialize_def metadata_serialize_def enum_serialize_eq string_serialize_def [abs_def]
  by (simp only: u_serialize_host [of bo] u_serialize_host [of bo'])

lemma first_image:
  assumes "m_shmBuf self = []" and "sensor \<noteq> - 1"
    and "can_create (ring_opts sensor (m_name dev) (getBufferSize metadata))"
    and "\<forall>i b. allocated i = Some b \<longrightarrow> length b = unat (getBufferSize metadata)"
    and "allocated 0 \<noteq> None"
    and "length imageData = unat (getBufferSize metadata)"
    and "packMessage accepts (SharedMemory_serialize bo (shm_message metadata 0 sensor (m_name dev)) [])
      (imagePlacedInSharedMemory self) ts dev = Inr dev'"
  shows "\<exists>v w' h b.
    m_sendImageDataViaSharedMemory bo accepts can_create allocated metadata imageData sensor ts (self, dev, w) =
      Some (Inr True, self\<lparr>m_shmBuf := v\<rparr>, dev', w') \<and>
    v = replicate (unat sensor) None @ [Some h] \<and> rb_server h \<and>
    getRingName h = make_name_safe (makeName sensor (m_name dev)) \<and>
    getEntrySize h = getBufferSize metadata \<and>
    w_names w' (make_name_safe (makeName sensor (m_name dev))) = Some (rb_seg h) \<and>
    w_segs w' (rb_seg h) = Some b \<and> ring_get 0 b = Some imageData"
proof -
  let ?size = "getBufferSize metadata" and ?n = "unat sensor"
  let ?opts = "ring_opts sensor (m_name dev) ?size"
  let ?b = "construct_Bookkeeping allocated ?opts" and ?seg = "w_next w"
  let ?h = "ring_handle ?opts ?seg True ?b"
  let ?w = "w\<lparr>w_names := (w_names w)(make_name_safe (makeName sensor (m_name dev)) \<mapsto> ?seg),
            w_segs := (w_segs w)(?seg \<mapsto> ?b), w_next := ?seg + 1\<rparr>"
  have "allocate_bufs allocated 0 16 \<noteq> []"
    using assms(5) by (auto simp: numeral_eq_Suc split: option.split)
  then have "0 < length (allocate_bufs allocated 0 16)" "length (allocate_bufs allocated 0 16) \<le> 16"
    using length_allocate_bufs [of allocated 0 16] by auto
  then have "0 < unat (m_capacity ?b)"
    by (simp add: construct_Bookkeeping_def Let_def unat_of_nat take_bit_nat_eq_self)
  then have fresh: "holds [] ?b"
    using construct_holds [of allocated ?opts] assms(4) by simp
  obtain b where b: "ring_put imageData ?b = Some (0, b)" "holds [imageData] b" "m_bufLen b = ?size"
    using holds_put [OF fresh, of imageData] assms(6) by auto
  let ?v = "(replicate (Suc ?n) None)[?n := Some ?h]" and ?w' = "?w\<lparr>w_segs := (w_segs ?w)(?seg \<mapsto> b)\<rparr>"
  have "obtain_ring can_create allocated sensor (m_name dev) ?size (replicate (Suc ?n) None) w = Some (?v, ?w)"
    unfolding obtain_ring_def ring_opts_def [symmetric]
    using ring_create_eq [of can_create sensor "m_name dev" ?size allocated w] assms(3) by (simp del: replicate_Suc)
  then have "m_sendImageDataViaSharedMemory bo accepts can_create allocated metadata imageData sensor ts (self, dev, w) =
       Some (Inr True, self\<lparr>m_shmBuf := ?v\<rparr>, dev', ?w')"
    using assms(1,6,7) b(1) grow_fresh [OF assms(2)]
    by (simp add: m_sendImageDataViaSharedMemory_def shm_message_def Let_def del: replicate_Suc)
  moreover have "ring_get 0 b = Some imageData"
    using holds_get(1) [OF b(2), of 0] b(2) by (simp add: holds_def ring_ok_def Suc_le_eq)
  moreover have "?v = replicate ?n None @ [Some ?h]"
    by (simp add: replicate_append_same [symmetric] list_update_append)
  ultimately show ?thesis
    by (intro exI [of _ ?v] exI [of _ ?w'] exI [of _ ?h] exI [of _ b]) (simp del: replicate_Suc)
qed

lemma handle_shared_memory:
  assumes "sensor \<noteq> - 1" and "m_shmBuf client = []"
    and "proper_ivt (im_type metadata)" and "short_string (make_name_safe (makeName sensor devName))"
  shows "m_handleImagePlacedInSharedMemory bo' w client
      (SharedMemory_serialize bo (shm_message metadata seq sensor devName) []) t =
    (let rb = ring_find (Options_named (make_name_safe (makeName sensor devName)) BASIC_MANAGED_SHM_ID) w;
         client' = client\<lparr>m_shmBuf := (replicate (Suc (unat sensor)) None)[unat sensor := rb]\<rparr>
     in case rb of
          None \<Rightarrow> Some (Inr [], client')
        | Some shm \<Rightarrow>
            (case w_segs w (rb_seg shm) of
               None \<Rightarrow> None
             | Some b \<Rightarrow>
                 (case ring_get seq b of
                    None \<Rightarrow> Some (Inr [], client')
                  | Some bufptr \<Rightarrow>
                      Some (Inr (map (\<lambda>cb. (cb, \<lparr>id_sensor = sensor, id_metadata = metadata,
                              id_buffer = bufptr\<rparr>, fromStructTimeval t)) (ic_cb client)), m_checkFirst client'))))"
proof -
  obtain r' where "SharedMemory_deserialize bo' (startReading (SharedMemory_serialize bo
      (shm_message metadata seq sensor devName) [])) = Inr (shm_message metadata seq sensor devName, r')"
    using message_read [OF assms(3,4), of bo' seq] unfolding shm_serialize_host [of bo bo'] by blast
  then show ?thesis
    using grow_fresh [OF assms(1)] assms(2)
    by (simp add: m_handleImagePlacedInSharedMemory_def shm_message_def Let_def del: replicate_Suc
        cong: option.case_cong)
qed

lemma packMessage_accepted: "\<forall>m. accepts m \<Longrightarrow> \<exists>dev'. packMessage accepts buf mt ts dev = Inr dev'"
  by (simp add: packMessage_def m_packMessage_def Let_def)

text \<open>
  C33: The first image sent for a sensor through shared memory reaches every callback of the
  component at the other end with the sensor, metadata, pixels and timestamp that were sent,
  whatever the byte orders; the segment is found under its name although the name is made safe
  on both sides.
\<close>

theorem image_delivered:
  assumes "m_shmBuf self = []" and "m_shmBuf client = []" and "sensor \<noteq> - 1"
    and "\<forall>opts. can_create opts" and "\<forall>m. accepts m"
    and "\<forall>i b. allocated i = Some b \<longrightarrow> length b = unat (getBufferSize metadata)"
    and "allocated 0 \<noteq> None"
    and "length imageData = unat (getBufferSize metadata)" and "proper_ivt (im_type metadata)"
    and "short_string (make_name_safe (makeName sensor (m_name dev)))"
    and "tv_canonical ts" and "tv_in_range ts"
  shows "\<exists>self' dev' w' client'.
    m_sendImageDataViaSharedMemory bo accepts can_create allocated metadata imageData sensor ts (self, dev, w) =
      Some (Inr True, self', dev', w') \<and>
    receive (m_handleImagePlacedInSharedMemory bo' w') client dev' =
      Some (Inr (delivered (ic_cb client)
        \<lparr>id_sensor = sensor, id_metadata = metadata, id_buffer = imageData\<rparr> ts), client')"
proof -
  let ?name = "make_name_safe (makeName sensor (m_name dev))"
  obtain dev' where pack: "packMessage accepts (SharedMemory_serialize bo (shm_message metadata 0 sensor (m_name dev)) [])
      (imagePlacedInSharedMemory self) ts dev = Inr dev'"
    using packMessage_accepted [OF assms(5)] by blast
  obtain v w' b and h :: IPCRingBuffer where sent:
    "m_sendImageDataViaSharedMemory bo accepts can_create allocated metadata imageData sensor ts (self, dev, w) =
       Some (Inr True, self\<lparr>m_shmBuf := v\<rparr>, dev', w')"
    and w': "w_names w' ?name = Some (rb_seg h)" "w_segs w' (rb_seg h) = Some b" "ring_get 0 b = Some imageData"
    using first_image [where can_create = can_create and w = w,
        OF assms(1,3) spec [OF assms(4)] assms(6-8) pack]
    by blast
  have "ring_find (Options_named ?name BASIC_MANAGED_SHM_ID) w' =
      Some (ring_handle (Options_named ?name BASIC_MANAGED_SHM_ID) (rb_seg h) False b)"
    using ring_find_safe [OF make_name_safe_safe w'(1,2)] .
  then have "\<exists>client'. m_handleImagePlacedInSharedMemory bo' w' client
      (SharedMemory_serialize bo (shm_message metadata 0 sensor (m_name dev)) [])
      (osvrTimeValueToStructTimeval ts) =
    Some (Inr (delivered (ic_cb client)
        \<lparr>id_sensor = sensor, id_metadata = metadata, id_buffer = imageData\<rparr> ts), client')"
    unfolding handle_shared_memory [OF assms(3,2,9,10)]
    using w' timeval_roundtrip [OF assms(11,12)] by (simp add: Let_def delivered_def)
  then show ?thesis
    using sent by (simp add: receive_packed [OF pack])
qed


text \<open>Concrete input for the properties: a device, a 1 by 1 image, a world without segments.\<close>

definition demo_device :: BaseDevice where
  "demo_device = \<lparr>m_name = ''cam'', m_sender = Some 1, conn_types = [], conn_handlers = [], conn_packed = []\<rparr>"

definition demo_metadata :: OSVR_ImagingMetadata where
  "demo_metadata = \<lparr>im_height = 1, im_width = 1, im_channels = 1, im_depth = 1, im_type = OSVR_IVT_UNSIGNED_INT\<rparr>"

definition demo_world :: shm_world where
  "demo_world = \<lparr>w_names = (\<lambda>_. None), w_segs = (\<lambda>_. None), w_next = 0\<rparr>"

lemma length_make_name_safe: "length (make_name_safe s) \<le> Suc (length s)"
  by (simp add: make_name_safe_def Let_def)

lemma demo_facts:
  "getBufferSize demo_metadata = 1" "proper_ivt (im_type demo_metadata)"
  "short_string (make_name_safe (makeName 0 (m_name demo_device)))"
  "tv_canonical \<lparr>seconds = 5, microseconds = 7\<rparr>" "tv_in_range \<lparr>seconds = 5, microseconds = 7\<rparr>"
proof -
  have "length (makeName 0 (m_name demo_device)) = 22"
    by (simp add: makeName_def ascii_def show_int_def demo_device_def)
  then show "short_string (make_name_safe (makeName 0 (m_name demo_device)))"
    using length_make_name_safe [of "makeName 0 (m_name demo_device)"] by (simp add: short_string_def)
qed (simp_all add: getBufferSize_def demo_metadata_def tv_canonical_def tv_in_range_def int_range_64 int_range_32)

theorem image_delivered_witness:
  "\<exists>self' dev' w' client'.
    m_sendImageDataViaSharedMemory BigEndian (\<lambda>_. True) (\<lambda>_. True) (\<lambda>_. Some [0]) demo_metadata [9] 0
      \<lparr>seconds = 5, microseconds = 7\<rparr> (Imaging_create False 1 :: string ImagingComponent, demo_device, demo_world) =
      Some (Inr True, self', dev', w') \<and>
    receive (m_handleImagePlacedInSharedMemory LittleEndian w') ((Imaging_create False 1)\<lparr>ic_cb := [''f'']\<rparr>) dev' =
      Some (Inr [(''f'', \<lparr>id_sensor = 0, id_metadata = demo_metadata, id_buffer = [9]\<rparr>,
        Some \<lparr>seconds = 5, microseconds = 7\<rparr>)], client')"
  using image_delivered [of "Imaging_create False 1 :: string ImagingComponent" "(Imaging_create False 1)\<lparr>ic_cb := [''f'']\<rparr>" 0
      "\<lambda>_. True" "\<lambda>_. True" "\<lambda>_. Some [0]" demo_metadata "[9]" demo_device "\<lparr>seconds = 5, microseconds = 7\<rparr>"
      BigEndian demo_world LittleEndian]
  by (simp add: demo_facts Imaging_create_def delivered_def)

definition demo_old_ring :: IPCRingBuffer where
  "demo_old_ring = \<lparr>rb_opts = ring_opts 0 ''cam'' 2, rb_seg = 5, rb_server = True\<rparr>"

lemma demo_resize:
  "\<exists>self' dev' w'. m_sendImageDataViaSharedMemory BigEndian (\<lambda>_. True) (\<lambda>_. True) (\<lambda>_. Some [0]) demo_metadata [9] 0
      \<lparr>seconds = 5, microseconds = 7\<rparr>
      ((Imaging_create False 1 :: string ImagingComponent)\<lparr>m_shmBuf := [Some demo_old_ring]\<rparr>, demo_device, demo_world) =
      Some (Inr True, self', dev', w')"
proof -
  let ?b = "construct_Bookkeeping (\<lambda>_. Some [0]) (ring_opts 0 ''cam'' 1)"
  have "holds [] ?b" by (rule construct_holds) simp_all
  then obtain b where b: "ring_put [9] ?b = Some (0, b)"
    using holds_put [of "[]" ?b "[9]"] by auto
  have old: "getEntrySize demo_old_ring = 2" "getRingName demo_old_ring = make_name_safe (makeName 0 ''cam'')"
    "rb_server demo_old_ring" "rb_seg demo_old_ring = 5"
    by (simp_all add: demo_old_ring_def getEntrySize_def getRingName_def)
  have "obtain_ring (\<lambda>_. True) (\<lambda>_. Some [0]) 0 ''cam'' 1 [Some demo_old_ring] demo_world =
      Some ([Some (ring_handle (ring_opts 0 ''cam'' 1) 0 True ?b)],
        ring_release demo_old_ring (demo_world\<lparr>w_names := (w_names demo_world)(make_name_safe (makeName 0 ''cam'') \<mapsto> 0),
            w_segs := (w_segs demo_world)(0 \<mapsto> ?b), w_next := 1\<rparr>))"
    unfolding obtain_ring_def ring_opts_def [symmetric]
    using ring_create_eq [of "\<lambda>_. True" 0 "''cam''" 1 "\<lambda>_. Some [0]" demo_world] old
    by (simp add: demo_world_def)
  moreover obtain dev' where "packMessage (\<lambda>_. True) (SharedMemory_serialize BigEndian
      (shm_message demo_metadata 0 0 ''cam'') []) None \<lparr>seconds = 5, microseconds = 7\<rparr> demo_device = Inr dev'"
    by (simp add: packMessage_def m_packMessage_def)
  moreover have "m_name demo_device = ''cam''" by (simp add: demo_device_def)
  moreover have "m_growShmVecIfRequired 0 [Some demo_old_ring] = [Some demo_old_ring]"
    by (simp add: m_growShmVecIfRequired_def)
  ultimately show ?thesis
    using b unfolding m_sendImageDataViaSharedMemory_def Let_def
    by (simp add: demo_facts(1) ring_release_def old removeSharedMemory_def Imaging_create_def shm_message_def)
qed


subsection \<open>Images on the wire\<close>

text \<open>
  An image sent on the wire arrives with its metadata and pixels, on any pair of hosts, but
  without its sensor: the bytes do not depend on it and the receiver reports whatever its
  uninitialised member holds.
\<close>

lemma image_on_the_wire:
  assumes "length (id_buffer d) = unat (getBufferSize (id_metadata d))"
    and "proper_ivt (im_type (id_metadata d))"
  shows "(\<exists>r'. ImageRegion_deserialize bo' uninitialised (startReading (ImageRegion_serialize bo d [])) =
      Inr (d\<lparr>id_sensor := uninitialised\<rparr>, r') \<and> bytesRemaining r' = 0) \<and>
    ImageRegion_serialize bo (d\<lparr>id_sensor := other\<rparr>) = ImageRegion_serialize bo d"
proof -
  have host: "ImageRegion_serialize bo = ImageRegion_serialize bo'"
    unfolding ImageRegion_serialize_def [abs_def] metadata_serialize_def enum_serialize_eq
    by (simp only: u_serialize_host [of bo] u_serialize_host [of bo'])
  show ?thesis
    using image.message_roundtrip [of "(id_metadata d, id_buffer d)" bo'] assms
    by (auto simp: host fun_eq_iff ImageRegion_serialize_def ImageRegion_deserialize_def map_deserialize_def
        image_tag_def)
qed

lemma image_on_the_wire_witness:
  "\<exists>r'. ImageRegion_deserialize LittleEndian 77 (startReading (ImageRegion_serialize BigEndian
      \<lparr>id_sensor = 1, id_metadata = demo_metadata, id_buffer = [9]\<rparr> [])) =
    Inr (\<lparr>id_sensor = 77, id_metadata = demo_metadata, id_buffer = [9]\<rparr>, r')"
  using image_on_the_wire [of "\<lparr>id_sensor = 1, id_metadata = demo_metadata, id_buffer = [9]\<rparr>"
      LittleEndian 77 BigEndian 0]
  by (auto simp: demo_facts)

interpretation image_reg: callback_registration registerImageHandler ic_cb H_ImageRegion
  by unfold_locales (simp_all add: registerImageHandler_def registration_defs)

interpretation shared_image_reg: callback_registration registerImageHandler ic_cb H_ImagePlacedInSharedMemory
  by unfold_locales (simp_all add: registerImageHandler_def registration_defs)

end
