(* ===== verification/Device_Descriptor.thy ===== *)
theory Device_Descriptor
  imports Tree_Resolution
begin

text \<open>
  Device descriptors: their normalization (\<^verbatim>\<open>src/osvr/Common/NormalizeDeviceDescriptor.cpp\<close>)
  and what they make of the path tree (\<^verbatim>\<open>ProcessDeviceDescriptor.cpp\<close>): the device element, an
  interface element per interface, the aliases of the semantic tree and the automatic aliases.
\<close>

subsection \<open>Nested subscripts\<close>

text \<open>
  A chain of non-const subscripts \<^verbatim>\<open>v[k1][k2]...\<close>: members that are absent come into being as
  null. Reading gives the value afterwards and the element; assigning gives the value afterwards.
\<close>

fun json_touch :: "json \<Rightarrow> string \<Rightarrow> (exn, json) result" where
  "json_touch JNull k = Inr (JObject [(k, JNull)])"
| "json_touch (JObject ms) k = Inr (JObject (if map_of ms k = None then obj_put k JNull ms else ms))"
| "json_touch _ k = Inl (RuntimeError ''resolveReference(): requires objectValue'')"

fun json_subscript :: "json \<Rightarrow> string list \<Rightarrow> (exn, json \<times> json) result" where
  "json_subscript v [] = Inr (v, v)"
| "json_subscript v (k # ks) =
     result_bind (json_touch v k) (\<lambda>v1.
     result_bind (json_at v1 k) (\<lambda>c.
     result_bind (json_subscript c ks) (\<lambda>(c', x).
     result_bind (json_set v1 k c') (\<lambda>v2. Inr (v2, x)))))"

fun json_assign :: "json \<Rightarrow> string list \<Rightarrow> json \<Rightarrow> (exn, json) result" where
  "json_assign v [] x = Inr x"
| "json_assign v (k # ks) x =
     result_bind (json_touch v k) (\<lambda>v1.
     result_bind (json_at v1 k) (\<lambda>c.
     result_bind (json_assign c ks x) (json_set v1 k)))"

subsection \<open>Normalization\<close>

definition INTERFACES_KEY :: string where "INTERFACES_KEY = ''interfaces''"
definition EYETRACKER_KEY :: string where "EYETRACKER_KEY = ''eyetracker''"
definition LOCATION2D_KEY :: string where "LOCATION2D_KEY = ''location2D''"
definition DIRECTION_KEY :: string where "DIRECTION_KEY = ''direction''"
definition TRACKER_KEY :: string where "TRACKER_KEY = ''tracker''"
definition BUTTON_KEY :: string where "BUTTON_KEY = ''button''"
definition COUNT_KEY :: string where "COUNT_KEY = ''count''"
definition POSITION_KEY :: string where "POSITION_KEY = ''position''"
definition ORIENTATION_KEY :: string where "ORIENTATION_KEY = ''orientation''"
definition BOUNDED_KEY :: string where "BOUNDED_KEY = ''bounded''"

lemmas key_defs = INTERFACES_KEY_def EYETRACKER_KEY_def LOCATION2D_KEY_def DIRECTION_KEY_def
  TRACKER_KEY_def BUTTON_KEY_def COUNT_KEY_def POSITION_KEY_def ORIENTATION_KEY_def BOUNDED_KEY_def

text \<open>The interfaces that are there already are copied unless one was made for the eye tracker.\<close>

fun append_details :: "json \<Rightarrow> json \<Rightarrow> string list \<Rightarrow> (exn, json) result" where
  "append_details aug cur [] = Inr aug"
| "append_details aug cur (detail # ds) =
     result_bind (json_subscript aug [detail]) (\<lambda>(aug1, obj).
     result_bind (if isObject obj then Inr aug1
                  else result_bind (json_at cur detail) (json_set aug1 detail)) (\<lambda>aug2.
     append_details aug2 cur ds))"

definition appendCurrentIface :: "json \<Rightarrow> json \<Rightarrow> (exn, json) result" where
  "appendCurrentIface augInterface currInterface =
     result_bind (getMemberNames currInterface) (append_details augInterface currInterface)"

text \<open>The interface that an enabled part of an eye tracker stands for, one case of the loop.\<close>

definition augment_one :: "int \<Rightarrow> string \<Rightarrow> json \<Rightarrow> (exn, json) result" where
  "augment_one cnt subIface aug =
     (if iequals subIface LOCATION2D_KEY then json_assign aug [LOCATION2D_KEY, COUNT_KEY] (JInt cnt)
      else if iequals subIface DIRECTION_KEY then json_assign aug [DIRECTION_KEY, COUNT_KEY] (JInt cnt)
      else if iequals subIface TRACKER_KEY then
        result_bind (json_assign aug [TRACKER_KEY, POSITION_KEY] (JBool True)) (\<lambda>a1.
        result_bind (json_assign a1 [TRACKER_KEY, ORIENTATION_KEY] (JBool False)) (\<lambda>a2.
        result_bind (json_assign a2 [TRACKER_KEY, BOUNDED_KEY] (JBool True)) (\<lambda>a3.
        json_assign a3 [TRACKER_KEY, COUNT_KEY] (JInt cnt))))
      else if iequals subIface BUTTON_KEY then json_assign aug [BUTTON_KEY, COUNT_KEY] (JInt cnt)
      else Inr aug)"

fun augment :: "json \<Rightarrow> int \<Rightarrow> string list \<Rightarrow> json \<Rightarrow> (exn, json) result" where
  "augment iface cnt [] aug = Inr aug"
| "augment iface cnt (subIface # ss) aug =
     result_bind (result_bind (json_at iface subIface) asBool) (\<lambda>enabled.
     result_bind (if enabled then augment_one cnt subIface aug else Inr aug) (\<lambda>aug1.
     augment iface cnt ss aug1))"

definition normalizeForEyeTracker :: "json \<Rightarrow> string \<Rightarrow> (exn, json) result" where
  "normalizeForEyeTracker descriptor ifaceName =
     result_bind (json_subscript descriptor [INTERFACES_KEY, ifaceName, COUNT_KEY]) (\<lambda>(d1, c).
     result_bind (asInt c) (\<lambda>cnt.
       if cnt = 0 then Inr d1
       else
         result_bind (json_subscript d1 [INTERFACES_KEY, ifaceName]) (\<lambda>(d2, iface).
         result_bind (getMemberNames iface) (\<lambda>subs.
         result_bind (augment iface cnt subs (JObject [])) (\<lambda>aug.
           if json_size aug > 0 then
             result_bind (json_subscript d2 [INTERFACES_KEY]) (\<lambda>(d3, cur).
             result_bind (appendCurrentIface aug cur) (json_set d3 INTERFACES_KEY))
           else Inr d2)))))"

fun normalize_ifaces :: "json \<Rightarrow> string list \<Rightarrow> (exn, json) result" where
  "normalize_ifaces d [] = Inr d"
| "normalize_ifaces d (ifaceName # ns) =
     result_bind (if iequals ifaceName EYETRACKER_KEY then normalizeForEyeTracker d ifaceName else Inr d)
       (\<lambda>d1. normalize_ifaces d1 ns)"

definition normalizeDeviceDescriptor :: "json_lib \<Rightarrow> string \<Rightarrow> (exn, string) result" where
  "normalizeDeviceDescriptor L jsonDescriptor =
     (case lib_parse L jsonDescriptor of
        None \<Rightarrow> Inr jsonDescriptor
      | Some descriptor \<Rightarrow>
          result_bind (isMember descriptor INTERFACES_KEY) (\<lambda>b.
            if \<not> b then Inr jsonDescriptor
            else result_bind (json_at descriptor INTERFACES_KEY) (\<lambda>ifaceNames.
              if \<not> isObject ifaceNames then Inr jsonDescriptor
              else result_bind (getMemberNames ifaceNames) (\<lambda>names.
                   result_bind (normalize_ifaces descriptor names) (\<lambda>d.
                   Inr (lib_styled L d))))))"

subsection \<open>From the descriptor to the tree\<close>

text \<open>
  The code keeps a reference to the descriptor inside the device node while it adds aliases; the
  model passes its value. (An alias whose destination is the device node itself destroys the
  descriptor under that reference.)
\<close>

fun interface_loop :: "PathTree \<Rightarrow> nat \<Rightarrow> string list \<Rightarrow> bool \<Rightarrow> PathTree \<times> (exn, bool) result" where
  "interface_loop t devNode [] changed = (t, Inr changed)"
| "interface_loop t devNode (iface # ifaces) changed =
     (case treePathRetrieve NullElement t devNode iface False of
        (t1, Inl e) \<Rightarrow> (t1, Inl e)
      | (t1, Inr ifaceNode) \<Rightarrow>
          if isNull (value_of t1 ifaceNode)
          then interface_loop (set_value t1 ifaceNode InterfaceElement) devNode ifaces True
          else interface_loop t1 devNode ifaces changed)"

definition processInterfacesFromDescriptor ::
    "PathTree \<Rightarrow> nat \<Rightarrow> json \<Rightarrow> PathTree \<times> (exn, bool) result" where
  "processInterfacesFromDescriptor t devNode desc =
     (case isMember desc INTERFACES_KEY of
        Inl e \<Rightarrow> (t, Inl e)
      | Inr b \<Rightarrow>
          if \<not> b then (t, Inr False)
          else (case json_at desc INTERFACES_KEY of
                  Inl e \<Rightarrow> (t, Inl e)
                | Inr ifaces \<Rightarrow>
                    if \<not> isObject ifaces then (t, Inr False)
                    else (case getMemberNames ifaces of
                            Inl e \<Rightarrow> (t, Inl e)
                          | Inr names \<Rightarrow> interface_loop t devNode names False)))"

definition TARGET_KEY :: string where "TARGET_KEY = ''$target''"
definition SEMANTIC_KEY :: string where "SEMANTIC_KEY = ''semantic''"
definition AUTOMATIC_KEY :: string where "AUTOMATIC_KEY = ''automaticAliases''"

text \<open>\<^verbatim>\<open>SemanticRecursion::m_add\<close>, with the flag of the recursion.\<close>

definition m_add ::
    "json_lib \<Rightarrow> nat \<Rightarrow> json \<Rightarrow> string \<Rightarrow> PathTree \<times> (exn, bool) result \<Rightarrow> PathTree \<times> (exn, bool) result" where
  "m_add L devNode currentLevel relativeSemanticPath run =
     (case run of
        (t, Inl e) \<Rightarrow> (t, Inl e)
      | (t, Inr flag) \<Rightarrow>
          (case addAliasFromSourceAndRelativeDest L t devNode (lib_styled L currentLevel)
                  relativeSemanticPath ALIASPRIORITY_SEMANTICROUTE of
             (t1, Inl e) \<Rightarrow> (t1, Inl e)
           | (t1, Inr b) \<Rightarrow> (t1, Inr (flag \<or> b))))"

text \<open>\<^verbatim>\<open>m_recurse\<close>, and its loop over the members of an object; an exception ends both.\<close>

fun m_recurse ::
    "json_lib \<Rightarrow> nat \<Rightarrow> json \<Rightarrow> string \<Rightarrow> PathTree \<times> (exn, bool) result \<Rightarrow> PathTree \<times> (exn, bool) result"
  and recurse_members ::
    "json_lib \<Rightarrow> nat \<Rightarrow> members \<Rightarrow> string \<Rightarrow> PathTree \<times> (exn, bool) result \<Rightarrow> PathTree \<times> (exn, bool) result"
where
  "m_recurse L devNode (JString s) path run = m_add L devNode (JString s) path run"
| "m_recurse L devNode (JObject ms) path run =
     recurse_members L devNode ms path
       (case map_of ms TARGET_KEY of
          None \<Rightarrow> run
        | Some tgt \<Rightarrow> if isNull_json tgt then run else m_add L devNode tgt path run)"
| "m_recurse L devNode _ path run = run"
| "recurse_members L devNode [] path run = run"
| "recurse_members L devNode ((memberName, v) # ms) path run =
     (if memberName = TARGET_KEY then recurse_members L devNode ms path run
      else recurse_members L devNode ms path
             (m_recurse L devNode v (path @ getPathSeparator @ memberName) run))"

definition processSemanticFromDescriptor ::
    "json_lib \<Rightarrow> PathTree \<Rightarrow> nat \<Rightarrow> json \<Rightarrow> PathTree \<times> (exn, bool) result" where
  "processSemanticFromDescriptor L t devNode desc =
     (case json_at desc SEMANTIC_KEY of
        Inl e \<Rightarrow> (t, Inl e)
      | Inr sem \<Rightarrow>
          if \<not> isObject sem then (t, Inr False)
          else m_recurse L devNode sem SEMANTIC_KEY (t, Inr False))"

definition processAutomaticFromDescriptor ::
    "json_lib \<Rightarrow> PathTree \<Rightarrow> nat \<Rightarrow> json \<Rightarrow> (PathTree \<times> (exn, bool) result) option" where
  "processAutomaticFromDescriptor L t devNode desc =
     (case json_at desc AUTOMATIC_KEY of
        Inl e \<Rightarrow> Some (t, Inl e)
      | Inr automatic \<Rightarrow>
          process_alias L
            (enableWildcard (enableRelativeSource (enableRelativePath
              (setDefaultPriority ALIASPRIORITY_AUTOMATIC AliasProcessor_create))))
            t devNode automatic)"

definition processDeviceDescriptorFromExistingDevice ::
    "json_lib \<Rightarrow> PathTree \<Rightarrow> nat \<Rightarrow> json \<Rightarrow> (PathTree \<times> (exn, bool) result) option" where
  "processDeviceDescriptorFromExistingDevice L t devNode desc =
     (case processInterfacesFromDescriptor t devNode desc of
        (t1, Inl e) \<Rightarrow> Some (t1, Inl e)
      | (t1, Inr c1) \<Rightarrow>
          (case processSemanticFromDescriptor L t1 devNode desc of
             (t2, Inl e) \<Rightarrow> Some (t2, Inl e)
           | (t2, Inr c2) \<Rightarrow>
               map_option (\<lambda>(t3, r). (t3, case r of Inl e \<Rightarrow> Inl e | Inr c3 \<Rightarrow> Inr (c1 \<or> c2 \<or> c3)))
                 (processAutomaticFromDescriptor L t2 devNode desc)))"

definition setDescriptor :: "json \<Rightarrow> PathElement \<Rightarrow> PathElement" where
  "setDescriptor desc e =
     (case e of DeviceElement name server d \<Rightarrow> DeviceElement name server desc | _ \<Rightarrow> e)"

text \<open>The part of a device name before and after its first \<^verbatim>\<open>@\<close>; without one the host is localhost.\<close>

definition split_host :: "string \<Rightarrow> string \<times> string" where
  "split_host devName =
     (if CHR ''@'' \<in> set devName
      then (takeWhile (\<lambda>c. c \<noteq> CHR ''@'') devName, tl (dropWhile (\<lambda>c. c \<noteq> CHR ''@'') devName))
      else (devName, ''localhost''))"

definition processDeviceDescriptorForPathTree ::
    "json_lib \<Rightarrow> PathTree \<Rightarrow> string \<Rightarrow> string \<Rightarrow> (PathTree \<times> (exn, bool) result) option" where
  "processDeviceDescriptorForPathTree L tree deviceName jsonDescriptor =
     (if deviceName = [] then Some (tree, Inl OutOfRange)
      else
        let devName = (if hd deviceName = getPathSeparatorCharacter then tl deviceName else deviceName)
        in case getNodeByPath tree (getPathSeparator @ devName) of
             (t1, Inl e) \<Rightarrow> Some (t1, Inl e)
           | (t1, Inr devNode) \<Rightarrow>
               (let (t2, changed) =
                  (if is_DeviceElement (value_of t1 devNode) then (t1, False)
                   else (set_value t1 devNode
                           (createVRPNDeviceElement (fst (split_host devName)) (snd (split_host devName))), True))
                in case normalizeDeviceDescriptor L jsonDescriptor of
                     Inl e \<Rightarrow> Some (t2, Inl e)
                   | Inr normalizedDescriptor \<Rightarrow>
                       (case lib_parse L normalizedDescriptor of
                          None \<Rightarrow> Some (t2, Inr changed)
                        | Some descriptor \<Rightarrow>
                            if descriptor = getDescriptor (value_of t2 devNode) \<and> \<not> changed
                            then Some (t2, Inr changed)
                            else
                              map_option (\<lambda>(t4, r). (t4, case r of Inl e \<Rightarrow> Inl e | Inr c \<Rightarrow> Inr (changed \<or> c)))
                                (processDeviceDescriptorFromExistingDevice L
                                  (set_value t2 devNode (setDescriptor descriptor (value_of t2 devNode)))
                                  devNode descriptor))))"

subsection \<open>Normalizing twice is normalizing once\<close>

lemma obj_put_twice [simp]: "obj_put k v (obj_put k w ms) = obj_put k v ms"
  by (induction ms) auto

text \<open>The interfaces an eye tracker's parts stand for: objects under the four names.\<close>

definition part_names :: "string set" where
  "part_names = {LOCATION2D_KEY, DIRECTION_KEY, TRACKER_KEY, BUTTON_KEY}"

definition part_interfaces :: "members \<Rightarrow> bool" where
  "part_interfaces am \<longleftrightarrow>
     wf_members am \<and> (\<forall>k v. map_of am k = Some v \<longrightarrow> k \<in> part_names \<and> isObject v)"

lemma part_not_eyetracker: "k \<in> part_names \<Longrightarrow> \<not> iequals k EYETRACKER_KEY"
proof -
  have "\<forall>k\<in>part_names. \<not> iequals k EYETRACKER_KEY" by code_simp
  then show "k \<in> part_names \<Longrightarrow> \<not> iequals k EYETRACKER_KEY" by blast
qed

lemma assign_part:
  assumes "part_interfaces am" and "k \<in> part_names"
  shows "\<exists>am'. json_assign (JObject am) [k, c] x = Inr (JObject am') \<and> part_interfaces am'"
proof (cases "map_of am k")
  case None
  then have "json_assign (JObject am) [k, c] x = Inr (JObject (obj_put k (JObject [(c, x)]) am))"
    by simp
  moreover have "part_interfaces (obj_put k (JObject [(c, x)]) am)"
    using assms by (auto simp: part_interfaces_def intro: wf_members_put)
  ultimately show ?thesis by blast
next
  case (Some v)
  with assms(1) have "isObject v" by (auto simp: part_interfaces_def)
  then obtain om where v: "v = JObject om" by (cases v) simp_all
  have "json_assign (JObject am) [k, c] x =
      Inr (JObject (obj_put k (JObject (obj_put c x om)) am))"
    using Some v by simp
  moreover have "part_interfaces (obj_put k (JObject (obj_put c x om)) am)"
    using assms by (auto simp: part_interfaces_def intro: wf_members_put)
  ultimately show ?thesis by blast
qed

lemma augment_one_part:
  assumes "part_interfaces am"
  shows "\<exists>am'. augment_one cnt sub (JObject am) = Inr (JObject am') \<and> part_interfaces am'"
proof -
  have names: "LOCATION2D_KEY \<in> part_names" "DIRECTION_KEY \<in> part_names" "TRACKER_KEY \<in> part_names"
    "BUTTON_KEY \<in> part_names" by (simp_all add: part_names_def)
  obtain a1 where a1: "json_assign (JObject am) [TRACKER_KEY, POSITION_KEY] (JBool True) = Inr (JObject a1)"
    "part_interfaces a1" using assign_part [OF assms names(3)] by blast
  obtain a2 where a2: "json_assign (JObject a1) [TRACKER_KEY, ORIENTATION_KEY] (JBool False) = Inr (JObject a2)"
    "part_interfaces a2" using assign_part [OF a1(2) names(3)] by blast
  obtain a3 where a3: "json_assign (JObject a2) [TRACKER_KEY, BOUNDED_KEY] (JBool True) = Inr (JObject a3)"
    "part_interfaces a3" using assign_part [OF a2(2) names(3)] by blast
  note a4 = assign_part [OF a3(2) names(3), of COUNT_KEY "JInt cnt"]
  show ?thesis
    unfolding augment_one_def a1(1) result_bind_simps a2(1) a3(1)
    using assign_part [OF assms names(1), of COUNT_KEY "JInt cnt"] a4 assms
      assign_part [OF assms names(2), of COUNT_KEY "JInt cnt"]
      assign_part [OF assms names(4), of COUNT_KEY "JInt cnt"]
    by (simp only: split: if_split) blast
qed

lemma augment_parts:
  "part_interfaces am \<Longrightarrow> augment iface cnt subs (JObject am) = Inr r \<Longrightarrow>
     \<exists>am'. r = JObject am' \<and> part_interfaces am'"
proof (induction subs arbitrary: am)
  case Nil
  then show ?case by auto
next
  case (Cons s ss)
  from Cons.prems(2) obtain en a where a: "(if en then augment_one cnt s (JObject am) else Inr (JObject am)) = Inr a"
      "augment iface cnt ss a = Inr r"
    by (auto simp: result_bind_def split: sum.splits)
  from a(1) augment_one_part [OF Cons.prems(1), of cnt s] Cons.prems(1)
  obtain am' where "a = JObject am'" "part_interfaces am'" by (cases en) auto
  with Cons.IH a(2) show ?case by blast
qed

text \<open>What is already there fills in, and an interface made for the eye tracker has precedence.\<close>

lemma append_details_eq:
  assumes "set ds \<subseteq> dom (map_of cs)" and "wf_members am"
  shows "\<exists>am'. append_details (JObject am) (JObject cs) ds = Inr (JObject am') \<and> wf_members am' \<and>
    map_of am' = (\<lambda>k. if k \<in> set ds \<and> \<not> (\<exists>om. map_of am k = Some (JObject om)) then map_of cs k else map_of am k)"
  using assms
proof (induction ds arbitrary: am)
  case Nil
  then show ?case by simp
next
  case (Cons d ds)
  from Cons.prems(1) obtain v where v: "map_of cs d = Some v" by auto
  show ?case
  proof (cases "\<exists>om. map_of am d = Some (JObject om)")
    case True
    then obtain om where om: "map_of am d = Some (JObject om)" by blast
    then have put: "wf_members (obj_put d (JObject om) am)" "map_of (obj_put d (JObject om) am) = map_of am"
      using Cons.prems(2) by (auto intro: wf_members_put)
    have "append_details (JObject am) (JObject cs) (d # ds) =
        append_details (JObject (obj_put d (JObject om) am)) (JObject cs) ds"
      using om by simp
    with Cons.IH [OF _ put(1)] Cons.prems(1) om put(2) show ?thesis by (auto simp: fun_eq_iff)
  next
    case False
    let ?am = "obj_put d v am"
    have "append_details (JObject am) (JObject cs) (d # ds) = append_details (JObject ?am) (JObject cs) ds"
      using False v by (cases "map_of am d") (auto elim: isObject.elims)
    moreover have "wf_members ?am" using Cons.prems(2) by (rule wf_members_put)
    ultimately show ?thesis
      using Cons.IH [of ?am] Cons.prems(1) v False by (auto simp: fun_eq_iff)
  qed
qed

lemma append_parts:
  assumes "part_interfaces am" and "am \<noteq> []"
  shows "\<exists>am'. appendCurrentIface (JObject am) (JObject cs) = Inr (JObject am') \<and> wf_members am' \<and>
    map_of am' = map_of cs ++ map_of am"
proof -
  have "\<not> (\<exists>om. map_of am k = Some (JObject om)) \<longleftrightarrow> map_of am k = None" for k
    using assms(1) isMember_isObject by (cases "map_of am k") (auto simp: part_interfaces_def)
  moreover have "k \<in> set (map fst cs) \<longleftrightarrow> map_of cs k \<noteq> None" for k
    by (simp add: map_of_eq_None_iff)
  moreover obtain am' where am': "append_details (JObject am) (JObject cs) (map fst cs) = Inr (JObject am')"
    "wf_members am'" "map_of am' = (\<lambda>k. if k \<in> set (map fst cs) \<and>
       \<not> (\<exists>om. map_of am k = Some (JObject om)) then map_of cs k else map_of am k)"
    using append_details_eq [of "map fst cs" cs am] assms(1)
    by (auto simp: part_interfaces_def dom_map_of_conv_image_fst)
  ultimately have "map_of am' k = (map_of cs ++ map_of am) k" for k
    by (cases "map_of am k"; cases "map_of cs k") (simp_all add: map_add_def)
  with am'(1,2) show ?thesis by (auto simp: appendCurrentIface_def)
qed

text \<open>
  What one eye tracker interface contributes: its own value, in which the count has come into
  being, and the interfaces made for its parts. It depends on nothing else in the descriptor.
\<close>

definition eye_parts :: "json \<Rightarrow> (exn, json \<times> members) result" where
  "eye_parts v =
     result_bind (json_subscript v [COUNT_KEY]) (\<lambda>(v1, c).
     result_bind (asInt c) (\<lambda>cnt.
       if cnt = 0 then Inr (v1, [])
       else result_bind (getMemberNames v1) (\<lambda>subs.
            result_bind (augment v1 cnt subs (JObject [])) (\<lambda>aug.
            Inr (v1, case aug of JObject am \<Rightarrow> am | _ \<Rightarrow> [])))))"

lemma subscript_object [simp]:
  "map_of ms k = Some x \<Longrightarrow> json_subscript (JObject ms) (k # ks) =
     result_bind (json_subscript x ks) (\<lambda>(x', y). Inr (JObject (obj_put k x' ms), y))"
  by (simp add: case_prod_unfold)

declare json_subscript.simps(2) [simp del]

lemma json_subscript_count:
  "json_subscript v [COUNT_KEY] = Inr (v1, c) \<Longrightarrow>
     \<exists>em. v1 = JObject em \<and> map_of em COUNT_KEY = Some c \<and> json_subscript v1 [COUNT_KEY] = Inr (v1, c)"
proof -
  assume a: "json_subscript v [COUNT_KEY] = Inr (v1, c)"
  have put_same: "obj_put k c ms = ms" if "map_of ms k = Some c" "obj_put k w ms' = ms" for ms ms' k w
    using that by (metis map_of_obj_put obj_put_twice fun_upd_same option.inject)
  show ?thesis
  proof (cases v)
    case JNull
    with a show ?thesis by (auto simp: json_subscript.simps(2))
  next
    case (JObject ms)
    show ?thesis
    proof (cases "map_of ms COUNT_KEY")
      case None
      with a JObject show ?thesis by (auto simp: json_subscript.simps(2))
    next
      case (Some x)
      with a JObject show ?thesis by auto
    qed
  qed (use a in \<open>auto simp: json_subscript.simps(2)\<close>)
qed

lemma eye_parts_spec:
  assumes "eye_parts v = Inr (v1, am)"
  shows "part_interfaces am \<and> eye_parts v1 = Inr (v1, am) \<and> isObject v1"
proof -
  from assms obtain c cnt where c: "json_subscript v [COUNT_KEY] = Inr (v1, c)" "asInt c = Inr cnt"
    by (auto simp: eye_parts_def split: if_splits)
  note j = json_subscript_count [OF c(1)]
  have "part_interfaces am"
  proof (cases "cnt = 0")
    case True
    with assms c show ?thesis by (auto simp: eye_parts_def part_interfaces_def wf_members_def)
  next
    case False
    from False assms c obtain subs aug where "augment v1 cnt subs (JObject []) = Inr aug"
        "am = (case aug of JObject am \<Rightarrow> am | _ \<Rightarrow> [])"
      by (auto simp: eye_parts_def)
    with augment_parts [of "[]" v1 cnt subs aug] show ?thesis
      by (auto simp: part_interfaces_def wf_members_def)
  qed
  moreover have "eye_parts v1 = eye_parts v"
    unfolding eye_parts_def using c(1) j by auto
  ultimately show ?thesis using assms j by auto
qed

text \<open>One eye tracker interface of a descriptor whose interfaces are \<open>ifs\<close>.\<close>

lemma normalize_one:
  assumes "map_of ms INTERFACES_KEY = Some (JObject ifs)" and "map_of ifs n = Some v"
    and "wf_members ifs" and "eye_parts v = Inr (v1, am)"
  shows "\<exists>ifs'. normalizeForEyeTracker (JObject ms) n = Inr (JObject (obj_put INTERFACES_KEY (JObject ifs') ms)) \<and>
    wf_members ifs' \<and> map_of ifs' = (map_of ifs)(n \<mapsto> v1) ++ map_of am"
proof -
  from assms(4) obtain c cnt where vc: "json_subscript v [COUNT_KEY] = Inr (v1, c)" and cnt: "asInt c = Inr cnt"
    by (auto simp: eye_parts_def split: if_splits)
  let ?ifs = "obj_put n v1 ifs"
  let ?d1 = "JObject (obj_put INTERFACES_KEY (JObject ?ifs) ms)"
  have d1: "json_subscript (JObject ms) [INTERFACES_KEY, n, COUNT_KEY] = Inr (?d1, c)"
    using assms(1,2) vc by simp
  have d2: "json_subscript ?d1 [INTERFACES_KEY, n] = Inr (?d1, v1)" by simp
  note w = wf_members_put [OF assms(3), of n v1]
  obtain em where em: "v1 = JObject em" using json_subscript_count [OF vc] by blast
  show ?thesis
  proof (cases "cnt = 0 \<or> am = []")
    case True
    have aug: "\<exists>aug. augment v1 cnt (map fst em) (JObject []) = Inr aug \<and> json_size aug = length am" if "cnt \<noteq> 0"
      using assms(4) vc cnt em that augment_parts [of "[]"]
      by (force simp: eye_parts_def part_interfaces_def wf_members_def)
    have "am = []" using True assms(4) vc cnt by (auto simp: eye_parts_def)
    moreover have "normalizeForEyeTracker (JObject ms) n = Inr ?d1"
      using True d1 cnt d2 em aug \<open>am = []\<close> by (cases "cnt = 0") (auto simp: normalizeForEyeTracker_def)
    ultimately show ?thesis using w by (intro exI [of _ ?ifs]) simp
  next
    case False
    with assms(4) vc cnt em augment_parts [of "[]" v1 cnt "map fst em"]
    have aug: "augment v1 cnt (map fst em) (JObject []) = Inr (JObject am)" "part_interfaces am"
      by (auto simp: eye_parts_def part_interfaces_def wf_members_def)
    obtain am' where am': "appendCurrentIface (JObject am) (JObject ?ifs) = Inr (JObject am')" "wf_members am'"
        "map_of am' = map_of ?ifs ++ map_of am"
      using append_parts [OF aug(2), of ?ifs] False by blast
    have "normalizeForEyeTracker (JObject ms) n = Inr (JObject (obj_put INTERFACES_KEY (JObject am') ms))"
      using d1 cnt False d2 em aug(1) am'(1) by (simp add: normalizeForEyeTracker_def)
    with am'(2,3) show ?thesis by (intro exI [of _ am']) simp
  qed
qed

lemma normalize_one_ok:
  assumes "map_of ms INTERFACES_KEY = Some (JObject ifs)" and "map_of ifs n = Some v"
    and "normalizeForEyeTracker (JObject ms) n = Inr d"
  shows "\<exists>v1 am. eye_parts v = Inr (v1, am)"
proof -
  from assms obtain v1 c where vc: "json_subscript v [COUNT_KEY] = Inr (v1, c)"
    by (auto simp: normalizeForEyeTracker_def)
  let ?d1 = "JObject (obj_put INTERFACES_KEY (JObject (obj_put n v1 ifs)) ms)"
  have d1: "json_subscript (JObject ms) [INTERFACES_KEY, n, COUNT_KEY] = Inr (?d1, c)"
    using assms(1,2) vc by simp
  have d2: "json_subscript ?d1 [INTERFACES_KEY, n] = Inr (?d1, v1)" by simp
  from assms(3) d1 obtain cnt where cnt: "asInt c = Inr cnt" by (auto simp: normalizeForEyeTracker_def)
  show ?thesis
  proof (cases "cnt = 0")
    case True
    with vc cnt show ?thesis by (simp add: eye_parts_def)
  next
    case False
    with assms(3) d1 d2 cnt obtain subs aug where
      "getMemberNames v1 = Inr subs" "augment v1 cnt subs (JObject []) = Inr aug"
      by (auto simp: normalizeForEyeTracker_def)
    with False vc cnt show ?thesis by (simp add: eye_parts_def)
  qed
qed

text \<open>The whole loop: every eye tracker interface overrides with its contribution.\<close>

definition contribution :: "(string \<rightharpoonup> json) \<Rightarrow> string \<Rightarrow> (string \<rightharpoonup> json)" where
  "contribution m e =
     (case eye_parts (the (m e)) of
        Inl x \<Rightarrow> Map.empty
      | Inr (v1, am) \<Rightarrow> [e \<mapsto> v1] ++ map_of am)"

definition eye_names :: "string list \<Rightarrow> string list" where
  "eye_names ns = filter (\<lambda>n. iequals n EYETRACKER_KEY) ns"

lemma normalize_loop:
  assumes "map_of ms INTERFACES_KEY = Some (JObject ifs)" and "wf_members ifs" and "wf_members ms"
    and "set ns \<subseteq> dom (map_of ifs)" and "distinct ns"
  shows "((\<exists>d. normalize_ifaces (JObject ms) ns = Inr d) \<longleftrightarrow>
      (\<forall>e\<in>set (eye_names ns). \<exists>x. eye_parts (the (map_of ifs e)) = Inr x)) \<and>
    (\<forall>d. normalize_ifaces (JObject ms) ns = Inr d \<longrightarrow>
      (\<exists>ifs'. d = JObject (obj_put INTERFACES_KEY (JObject ifs') ms) \<and> wf_members ifs' \<and>
        map_of ifs' = foldl (\<lambda>m e. m ++ contribution (map_of ifs) e) (map_of ifs) (eye_names ns)))"
  using assms
proof (induction ns arbitrary: ms ifs)
  case Nil
  have "obj_put INTERFACES_KEY (JObject ifs) ms = ms"
    using Nil by (intro wf_members_eqI) (auto intro: wf_members_put)
  with Nil show ?case by (intro conjI allI impI exI [of _ ifs]) (simp_all add: eye_names_def)
next
  case (Cons n ns)
  show ?case
  proof (cases "iequals n EYETRACKER_KEY")
    case False
    with Cons show ?thesis by (simp add: eye_names_def)
  next
    case True
    from Cons.prems(4) obtain v where v: "map_of ifs n = Some v" by auto
    show ?thesis
    proof (cases "eye_parts v")
      case (Inl x)
      with normalize_one_ok [OF Cons.prems(1) v] have "\<nexists>d. normalizeForEyeTracker (JObject ms) n = Inr d"
        by fastforce
      with Inl True v show ?thesis by (simp add: eye_names_def)
    next
      case (Inr y)
      obtain v1 am where y: "eye_parts v = Inr (v1, am)" using Inr by (cases y) simp
      from normalize_one [OF Cons.prems(1) v Cons.prems(2) y] obtain ifs1 where
        one: "normalizeForEyeTracker (JObject ms) n = Inr (JObject (obj_put INTERFACES_KEY (JObject ifs1) ms))"
          "wf_members ifs1" "map_of ifs1 = (map_of ifs)(n \<mapsto> v1) ++ map_of am" by blast
      let ?ms = "obj_put INTERFACES_KEY (JObject ifs1) ms"
      have ps: "part_interfaces am" using eye_parts_spec [OF y] by simp
      have same: "map_of ifs1 e = map_of ifs e" if "e \<in> set (eye_names ns)" for e
      proof -
        have "e \<noteq> n" "map_of am e = None"
          using that Cons.prems(5) ps part_not_eyetracker
          by (auto simp: eye_names_def part_interfaces_def) (metis not_None_eq)
        with one(3) show ?thesis by (simp add: map_add_def)
      qed
      then have con: "contribution (map_of ifs1) e = contribution (map_of ifs) e" if "e \<in> set (eye_names ns)" for e
        using that by (simp add: contribution_def)
      have fold: "foldl (\<lambda>m e. m ++ contribution (map_of ifs1) e) m (eye_names ns) =
          foldl (\<lambda>m e. m ++ contribution (map_of ifs) e) m (eye_names ns)" for m
        by (rule foldl_cong) (simp_all add: con)
      have first: "map_of ifs ++ contribution (map_of ifs) n = map_of ifs1"
        using one(3) v y by (simp add: contribution_def map_add_def fun_eq_iff split: option.splits)
      have "set ns \<subseteq> dom (map_of ifs1)"
        using Cons.prems(4) one(3) by auto
      note IH = Cons.IH [of ?ms ifs1, OF _ one(2) wf_members_put [OF Cons.prems(3)] this]
      have "normalize_ifaces (JObject ms) (n # ns) = normalize_ifaces (JObject ?ms) ns"
        using True one(1) by simp
      moreover have "eye_names (n # ns) = n # eye_names ns" using True by (simp add: eye_names_def)
      ultimately show ?thesis
        using IH Cons.prems(5) v y same by (simp add: fold first)
    qed
  qed
qed

lemma foldl_add: "foldl (\<lambda>m e. m ++ c e) m es = m ++ foldl (\<lambda>m e. m ++ c e) Map.empty es"
proof (induction es arbitrary: m)
  case (Cons e es)
  show ?case using Cons [of "m ++ c e"] Cons [of "c e"] by simp
qed simp

lemma foldl_add_twice:
  "foldl (\<lambda>m e. m ++ c e) (foldl (\<lambda>m e. m ++ c e) m es) es = foldl (\<lambda>m e. m ++ c e) m es"
  by (subst (1 3) foldl_add, subst (2) foldl_add) (simp add: map_add_def fun_eq_iff split: option.splits)

lemma foldl_add_at:
  "distinct es \<Longrightarrow> \<forall>e\<in>set es. e \<noteq> k \<longrightarrow> c e k = None \<Longrightarrow>
     foldl (\<lambda>m e. m ++ c e) m es k = (if k \<in> set es then (m ++ c k) k else m k)"
  by (induction es arbitrary: m) (auto simp: map_add_def split: option.split)

lemma contribution_spec:
  assumes "eye_parts (the (m e)) = Inr x" and "e \<notin> part_names"
  shows "\<exists>v1. contribution m e e = Some v1 \<and> (m' e = Some v1 \<longrightarrow> contribution m' e = contribution m e) \<and>
    (\<forall>k. k \<noteq> e \<longrightarrow> k \<notin> part_names \<longrightarrow> contribution m e k = None)"
proof -
  obtain v1 am where x: "x = (v1, am)" by fastforce
  from eye_parts_spec [OF assms(1) [unfolded x]] assms(2) show ?thesis
    by (intro exI [of _ v1]) (auto simp: contribution_def assms(1) x part_interfaces_def map_add_def split: option.splits)
qed

text \<open>
  A device descriptor is normalized once and for all. Of a descriptor whose interfaces
  are an object, normalization keeps every member apart from the interfaces, loses no
  interface, and changes at most eye tracker interfaces and the four interfaces that stand for
  their parts; normalizing the text it returns returns that text again. The reader of the JSON
  library is assumed to read the normalized descriptor back from its text.
\<close>

lemma normalize_idempotent:
  assumes "lib_parse L s = Some (JObject ms)" and "wf_members ms"
    and "map_of ms INTERFACES_KEY = Some (JObject ifs)" and "wf_members ifs"
    and "normalizeDeviceDescriptor L s = Inr s'"
    and "\<And>v. normalize_ifaces (JObject ms) (map fst ifs) = Inr v \<Longrightarrow> lib_parse L (lib_styled L v) = Some v"
  shows "normalizeDeviceDescriptor L s' = Inr s' \<and>
    (\<exists>ifs'. lib_parse L s' = Some (JObject (obj_put INTERFACES_KEY (JObject ifs') ms)) \<and>
      (\<forall>k. map_of ifs k \<noteq> None \<longrightarrow> map_of ifs' k \<noteq> None) \<and>
      (\<forall>k. k \<notin> part_names \<and> \<not> iequals k EYETRACKER_KEY \<longrightarrow> map_of ifs' k = map_of ifs k))"
proof -
  let ?es = "eye_names (map fst ifs)" and ?c = "contribution (map_of ifs)"
  from assms(1,3,5) obtain d where d: "normalize_ifaces (JObject ms) (map fst ifs) = Inr d" "s' = lib_styled L d"
    by (auto simp: normalizeDeviceDescriptor_def)
  have dist: "distinct (map fst ifs)" using assms(4) by (rule wf_members_distinct)
  from normalize_loop [OF assms(3,4,2) _ dist] d(1) obtain ifs' where
    ok: "\<forall>e\<in>set ?es. \<exists>x. eye_parts (the (map_of ifs e)) = Inr x" and
    d': "d = JObject (obj_put INTERFACES_KEY (JObject ifs') ms)" "wf_members ifs'" and
    F: "map_of ifs' = foldl (\<lambda>m e. m ++ ?c e) (map_of ifs) ?es"
    by (force simp: dom_map_of_conv_image_fst)
  have np: "e \<notin> part_names" if "e \<in> set ?es" for e
    using that part_not_eyetracker by (auto simp: eye_names_def)
  have des: "distinct ?es" using dist by (simp add: eye_names_def)
  have other: "map_of ifs' k = map_of ifs k" if "k \<notin> set ?es" "k \<notin> part_names" for k
    using foldl_add_at [OF des, of k ?c "map_of ifs"] that contribution_spec np ok unfolding F by metis
  have at: "map_of ifs' e = ?c e e" if e: "e \<in> set ?es" for e
  proof -
    obtain x where x: "eye_parts (the (map_of ifs e)) = Inr x" using ok e by blast
    have "\<forall>e'\<in>set ?es. e' \<noteq> e \<longrightarrow> ?c e' e = None" using contribution_spec np ok e by metis
    then have "map_of ifs' e = (map_of ifs ++ ?c e) e"
      using foldl_add_at [OF des, of e ?c "map_of ifs"] e F by presburger
    moreover obtain v1 where "?c e e = Some v1" using contribution_spec [of "map_of ifs" e, OF x np [OF e]] by blast
    ultimately show ?thesis by (simp add: map_add_def)
  qed
  have same: "contribution (map_of ifs') e = ?c e" if e: "e \<in> set ?es" for e
    using contribution_spec [OF _ np [OF e]] ok e at [OF e] by metis
  have eye: "eye_names (map fst ifs') = ?es"
  proof (rule sorted_distinct_set_unique)
    show "sorted (eye_names (map fst ifs'))" "sorted ?es" "distinct (eye_names (map fst ifs'))"
      using assms(4) d'(2)
      by (auto simp: eye_names_def wf_members_def strict_sorted_iff intro: sorted_wrt_filter)
    show "distinct ?es" by (rule des)
    show "set (eye_names (map fst ifs')) = set ?es"
    proof (rule set_eqI)
      fix k
      have mem: "k \<in> set (eye_names (map fst js)) \<longleftrightarrow> map_of js k \<noteq> None \<and> iequals k EYETRACKER_KEY" for js
        by (auto simp: eye_names_def map_of_eq_None_iff)
      show "k \<in> set (eye_names (map fst ifs')) \<longleftrightarrow> k \<in> set ?es"
      proof (cases "k \<in> set ?es")
        case True
        with at contribution_spec np ok mem show ?thesis by (metis option.distinct(1))
      next
        case False
        with mem [of ifs] mem [of ifs'] other [of k] part_not_eyetracker [of k] show ?thesis by metis
      qed
    qed
  qed
  let ?d = "JObject (obj_put INTERFACES_KEY (JObject ifs') ms)"
  have m': "map_of (obj_put INTERFACES_KEY (JObject ifs') ms) INTERFACES_KEY = Some (JObject ifs')" by simp
  have ok': "\<forall>e\<in>set ?es. \<exists>x. eye_parts (the (map_of ifs' e)) = Inr x"
  proof
    fix e assume e: "e \<in> set ?es"
    then obtain v1 am where x: "eye_parts (the (map_of ifs e)) = Inr (v1, am)" using ok by fastforce
    have "map_of am e = None" using eye_parts_spec [OF x] np [OF e] by (auto simp: part_interfaces_def) (metis not_None_eq)
    then have "map_of ifs' e = Some v1" using at [OF e] x by (simp add: contribution_def map_add_def)
    with eye_parts_spec [OF x] show "\<exists>x. eye_parts (the (map_of ifs' e)) = Inr x" by simp
  qed
  from normalize_loop [OF m' d'(2) wf_members_put [OF assms(2)] _ wf_members_distinct [OF d'(2)]] ok' eye
  obtain d2 ifs2 where d2: "normalize_ifaces ?d (map fst ifs') = Inr d2"
    "d2 = JObject (obj_put INTERFACES_KEY (JObject ifs2) (obj_put INTERFACES_KEY (JObject ifs') ms))" "wf_members ifs2"
    "map_of ifs2 = foldl (\<lambda>m e. m ++ contribution (map_of ifs') e) (map_of ifs') ?es"
    by (force simp: dom_map_of_conv_image_fst)
  have "foldl (\<lambda>m e. m ++ contribution (map_of ifs') e) (map_of ifs') ?es = foldl (\<lambda>m e. m ++ ?c e) (map_of ifs') ?es"
    by (rule foldl_cong) (simp_all add: same)
  with d2(4) F have "map_of ifs2 = map_of ifs'" by (simp add: foldl_add_twice)
  then have "ifs2 = ifs'" using d2(3) d'(2) wf_members_eqI by blast
  then have "normalize_ifaces ?d (map fst ifs') = Inr ?d" using d2 by simp
  moreover have parse: "lib_parse L s' = Some ?d" using assms(6) d d'(1) by simp
  ultimately have "normalizeDeviceDescriptor L s' = Inr s'"
    using d(2) d'(1) by (simp add: normalizeDeviceDescriptor_def)
  moreover have "map_of ifs' k \<noteq> None" if "map_of ifs k \<noteq> None" for k
    using that unfolding F by (subst foldl_add) (simp add: map_add_def split: option.split)
  moreover have "map_of ifs' k = map_of ifs k" if "k \<notin> part_names" "\<not> iequals k EYETRACKER_KEY" for k
    using other that by (auto simp: eye_names_def)
  ultimately show ?thesis using parse by blast
qed

definition eye_demo :: "json \<Rightarrow> json" where
  "eye_demo tracker = JObject [(INTERFACES_KEY, JObject ((EYETRACKER_KEY,
     JObject [(COUNT_KEY, JInt 2), (TRACKER_KEY, JBool True)]) #
     (case tracker of JNull \<Rightarrow> [] | _ \<Rightarrow> [(TRACKER_KEY, tracker)])))]"

definition eye_demo_normalized :: json where
  "eye_demo_normalized = eye_demo (JObject [(BOUNDED_KEY, JBool True), (COUNT_KEY, JInt 2),
     (ORIENTATION_KEY, JBool False), (POSITION_KEY, JBool True)])"

definition eye_lib :: json_lib where
  "eye_lib = plain_lib\<lparr>lib_parse := (\<lambda>s. if s = ''E'' then Some (eye_demo JNull)
       else if s = ''N'' then Some eye_demo_normalized else None),
     lib_styled := (\<lambda>v. if v = eye_demo_normalized then ''N'' else ''null'')\<rparr>"

lemma normalize_idempotent_witness:
  "normalizeDeviceDescriptor eye_lib ''E'' = Inr ''N'' \<and> normalizeDeviceDescriptor eye_lib ''N'' = Inr ''N''"
proof -
  let ?ifs = "[(EYETRACKER_KEY, JObject [(COUNT_KEY, JInt 2), (TRACKER_KEY, JBool True)])]"
  have d: "eye_demo JNull = JObject [(INTERFACES_KEY, JObject ?ifs)]" by (simp add: eye_demo_def)
  have n: "normalize_ifaces (eye_demo JNull) (map fst ?ifs) = Inr eye_demo_normalized" by code_simp
  have norm: "normalizeDeviceDescriptor eye_lib ''E'' = Inr ''N''"
    using n by (simp add: normalizeDeviceDescriptor_def eye_lib_def d)
  have "lib_parse eye_lib ''E'' = Some (JObject [(INTERFACES_KEY, JObject ?ifs)])"
    "wf_members [(INTERFACES_KEY, JObject ?ifs)]" "wf_members ?ifs"
    "map_of [(INTERFACES_KEY, JObject ?ifs)] INTERFACES_KEY = Some (JObject ?ifs)"
    by (simp_all add: eye_lib_def d wf_members_def)
  moreover have "normalize_ifaces (JObject [(INTERFACES_KEY, JObject ?ifs)]) (map fst ?ifs) = Inr v \<Longrightarrow>
      lib_parse eye_lib (lib_styled eye_lib v) = Some v" for v
    using n unfolding d by (simp add: eye_lib_def)
  ultimately have "normalizeDeviceDescriptor eye_lib ''N'' = Inr ''N''"
    using normalize_idempotent [of eye_lib "''E''" "[(INTERFACES_KEY, JObject ?ifs)]" ?ifs "''N''"] norm by blast
  with norm show ?thesis by blast
qed

subsection \<open>The effect on the tree\<close>

lemma target_join:
  assumes "cs \<noteq> []" and "\<And>c. c \<in> set cs \<Longrightarrow> plain_name c"
  shows "target base (join_components cs) = Inr (base @ cs)"
proof -
  note jl = join_last [OF assms]
  have "split_components (join_components cs) = cs"
    using assms by (intro split_components_unique [symmetric]) (auto simp: plain_name_def)
  moreover have "hd (join_components cs) \<noteq> CHR ''/''"
  proof -
    obtain d ds where ds: "cs = d # ds" using assms(1) by (cases cs) auto
    then have "plain_name d" using assms(2) by simp
    then obtain x xs where "d = x # xs" "x \<noteq> CHR ''/''" by (cases d) (auto simp: plain_name_def)
    with ds show ?thesis by (simp add: join_components_prefix)
  qed
  ultimately show ?thesis
    using jl resolve_plain [OF assms(2)] by (simp add: target_def strip_trailing_separator_def)
qed

text \<open>What adding interfaces does to the content.\<close>

definition with_interfaces :: "string list \<Rightarrow> string set \<Rightarrow> (string list \<rightharpoonup> PathElement) \<Rightarrow> (string list \<rightharpoonup> PathElement)" where
  "with_interfaces dp names m ps =
     (if m ps = None \<and> ps \<in> (\<lambda>n. dp @ [n]) ` names then Some InterfaceElement else m ps)"

lemma interface_loop_spec:
  assumes "wf_tree t" and "i < length t" and "\<And>n. n \<in> set ns \<Longrightarrow> plain_name n"
  shows "\<exists>t' changed'. interface_loop t i ns changed = (t', Inr changed') \<and> wf_tree t' \<and> length t \<le> length t' \<and>
    node_path t' i = node_path t i \<and>
    content t' = with_interfaces (node_path t i) (set ns) (content t) \<and>
    (changed' \<longleftrightarrow> changed \<or> content t' \<noteq> content t)"
  using assms
proof (induction ns arbitrary: t changed)
  case Nil
  then show ?case by (auto simp: with_interfaces_def fun_eq_iff)
next
  case (Cons n ns)
  obtain t1 r where t1: "treePathRetrieve NullElement t i n False = (t1, r)" by fastforce
  have "target (node_path t i) n = Inr (node_path t i @ [n])"
    using target_join [of "[n]"] Cons.prems(3) by simp
  with treePathRetrieve_spec [OF Cons.prems(1,2) t1] obtain k where k: "r = Inr k" "k < length t1"
      "node_path t1 k = node_path t i @ [n]" "grows t t1" "content t1 = content t" by auto
  from k(4) Cons.prems(2) have w1: "wf_tree t1" "length t \<le> length t1" "node_path t1 i = node_path t i"
    "i < length t1" by (auto simp: grows_def)
  have c: "content t (node_path t i @ [n]) = (if isNull (value_of t1 k) then None else Some (value_of t1 k))"
    using content_node [OF w1(1) k(2)] k(3,5) by simp
  show ?case
  proof (cases "isNull (value_of t1 k)")
    case True
    let ?t2 = "set_value t1 k InterfaceElement"
    have t2: "wf_tree ?t2" "i < length ?t2" "node_path ?t2 i = node_path t i" "length t \<le> length ?t2"
      using w1 same_shape_node_path [of t1 ?t2] by simp_all
    have c2: "content ?t2 = (content t)(node_path t i @ [n] \<mapsto> InterfaceElement)"
      using content_set_value [OF w1(1) k(2), of InterfaceElement] k(3,5) by (simp add: isNull_def)
    from Cons.IH [OF t2(1,2), of True] Cons.prems(3) obtain t' where
      t': "interface_loop ?t2 i ns True = (t', Inr True)" "wf_tree t'" "length ?t2 \<le> length t'"
        "node_path t' i = node_path ?t2 i" "content t' = with_interfaces (node_path ?t2 i) (set ns) (content ?t2)"
      by auto
    have eq: "content t' = with_interfaces (node_path t i) (set (n # ns)) (content t)"
      unfolding t'(5) t2(3) c2 using True c by (auto simp: with_interfaces_def fun_eq_iff)
    moreover have "content t' (node_path t i @ [n]) \<noteq> content t (node_path t i @ [n])"
      unfolding eq using True c by (simp add: with_interfaces_def)
    ultimately show ?thesis using t' t2 t1 k(1) True by (intro exI [of _ t'] exI [of _ True]) auto
  next
    case False
    from Cons.IH [OF w1(1,4), of changed] Cons.prems(3) obtain t' changed' where
      t': "interface_loop t1 i ns changed = (t', Inr changed')" "wf_tree t'" "length t1 \<le> length t'"
        "node_path t' i = node_path t1 i" "content t' = with_interfaces (node_path t1 i) (set ns) (content t1)"
        "changed' \<longleftrightarrow> changed \<or> content t' \<noteq> content t1"
      by auto
    have "content t' = with_interfaces (node_path t i) (set (n # ns)) (content t)"
      unfolding t'(5) w1(3) k(5) using False c by (auto simp: with_interfaces_def fun_eq_iff)
    with t' w1 t1 k False show ?thesis by (intro exI [of _ t'] exI [of _ changed']) auto
  qed
qed

text \<open>The entries of a semantic tree, in the order the recursion adds them.\<close>

fun semantic_entries :: "string list \<Rightarrow> json \<Rightarrow> (string list \<times> json) list"
  and member_entries :: "string list \<Rightarrow> members \<Rightarrow> (string list \<times> json) list"
where
  "semantic_entries ps (JString s) = [(ps, JString s)]"
| "semantic_entries ps (JObject ms) =
     (case map_of ms TARGET_KEY of None \<Rightarrow> [] | Some v \<Rightarrow> if v = JNull then [] else [(ps, v)]) @
     member_entries ps ms"
| "semantic_entries ps _ = []"
| "member_entries ps [] = []"
| "member_entries ps ((n, v) # ms) =
     (if n = TARGET_KEY then [] else semantic_entries (ps @ [n]) v) @ member_entries ps ms"

lemma m_recurse_fold:
  "ps \<noteq> [] \<Longrightarrow> m_recurse L dev v (join_components ps) run =
     fold (\<lambda>(qs, v). m_add L dev v (join_components qs)) (semantic_entries ps v) run"
  "ps \<noteq> [] \<Longrightarrow> recurse_members L dev ms (join_components ps) run =
     fold (\<lambda>(qs, v). m_add L dev v (join_components qs)) (member_entries ps ms) run"
proof (induction ps v and ps ms arbitrary: run and run rule: semantic_entries_member_entries.induct)
  case (5 ps n v ms)
  then show ?case using join_append [OF 5(3), of "[n]"] by (auto simp: getPathSeparator_def)
qed (auto simp: isNull_json_def split: option.splits)

text \<open>
  The text that the alias for a semantic entry holds: the source with its leaf made absolute,
  relative to the device.
\<close>

definition source_text :: "json_lib \<Rightarrow> string list \<Rightarrow> json \<Rightarrow> string option" where
  "source_text L dp v =
     (case ParsedAlias_string L (lib_styled L v) of
        Inl e \<Rightarrow> None
      | Inr pa \<Rightarrow>
          if \<not> isValid pa then None
          else (case getLeaf L pa of
                  Inl e \<Rightarrow> None
                | Inr leaf \<Rightarrow>
                    if isPathAbsolute leaf then Some (getAlias L (setLeaf pa leaf))
                    else (case target dp leaf of
                            Inl e \<Rightarrow> None
                          | Inr qs \<Rightarrow> Some (getAlias L (setLeaf pa (printed qs))))))"

lemma getAbsolutePath_spec:
  assumes "wf_tree t" and "i < length t" and "isPathAbsolute leaf \<or> target (node_path t i) leaf = Inr qs"
  shows "\<exists>t'. getAbsolutePath t i leaf = (t', Inr (if isPathAbsolute leaf then leaf else printed qs)) \<and>
    grows t t' \<and> content t' = content t"
proof (cases "isPathAbsolute leaf")
  case True
  with assms(1) show ?thesis by (simp add: getAbsolutePath_def)
next
  case False
  obtain t1 r where t1: "treePathRetrieve NullElement t i leaf False = (t1, r)" by fastforce
  from treePathRetrieve_spec [OF assms(1,2) t1] False assms(3) obtain k where k: "r = Inr k" "k < length t1"
      "node_path t1 k = qs" "grows t t1" "content t1 = content t" by auto
  then have "getFullPath t1 k = printed qs"
    using getFullPath_eq [of t1 k] by (simp add: grows_def printed_def)
  with t1 k False show ?thesis by (simp add: getAbsolutePath_def)
qed

lemma m_add_spec:
  assumes "wf_tree t" and "i < length t" and "source_text L (node_path t i) v = Some src"
    and "target (node_path t i) dest = Inr ps"
  shows "\<exists>t' changed. m_add L i v dest (t, Inr flag) = (t', Inr (flag \<or> changed)) \<and>
    wf_tree t' \<and> length t \<le> length t' \<and> node_path t' i = node_path t i \<and>
    content t' = (content t)(ps := Some (stored_alias src ALIASPRIORITY_SEMANTICROUTE (content t ps))) \<and>
    (changed \<longleftrightarrow> content t' \<noteq> content t)"
proof -
  obtain t1 r where t1: "treePathRetrieve NullElement t i dest False = (t1, r)" by fastforce
  from treePathRetrieve_spec [OF assms(1,2) t1] assms(4) obtain k where k: "r = Inr k" "k < length t1"
      "node_path t1 k = ps" "grows t t1" "content t1 = content t" by auto
  from k(4) assms(2) have w1: "wf_tree t1" "i < length t1" "length t \<le> length t1" "node_path t1 i = node_path t i"
    by (auto simp: grows_def)
  from assms(3) obtain pa leaf where pa: "ParsedAlias_string L (lib_styled L v) = Inr pa" "isValid pa"
      "getLeaf L pa = Inr leaf"
    by (auto simp: source_text_def split: sum.splits if_splits)
  from assms(3) pa obtain qs where qs: "isPathAbsolute leaf \<or> target (node_path t i) leaf = Inr qs"
      "src = getAlias L (setLeaf pa (if isPathAbsolute leaf then leaf else printed qs))"
    by (auto simp: source_text_def split: sum.splits if_splits)
  from getAbsolutePath_spec [OF w1(1,2)] qs(1) w1(4) obtain t2 where t2:
      "getAbsolutePath t1 i leaf = (t2, Inr (if isPathAbsolute leaf then leaf else printed qs))"
      "grows t1 t2" "content t2 = content t1" by metis
  then have w2: "wf_tree t2" "length t1 \<le> length t2" "node_path t2 k = ps" "k < length t2"
      "node_path t2 i = node_path t i"
    using k w1 by (auto simp: grows_def)
  obtain t3 changed where t3: "addAliasImpl t2 k src ALIASPRIORITY_SEMANTICROUTE = (t3, changed)" "wf_tree t3"
      "same_shape t2 t3"
      "content t3 = (content t)(ps := Some (stored_alias src ALIASPRIORITY_SEMANTICROUTE (content t ps)))"
      "changed \<longleftrightarrow> content t3 \<noteq> content t"
    using alias_stored [OF w2(1,4), of src ALIASPRIORITY_SEMANTICROUTE] w2(3) t2(3) k(5) by metis
  have "m_add L i v dest (t, Inr flag) = (t3, Inr (flag \<or> changed))"
    using t1 k(1) pa t2(1) qs(2) t3(1) by (simp add: m_add_def addAliasFromSourceAndRelativeDest_def)
  moreover have "length t3 = length t2" "node_path t3 i = node_path t i"
    using t3(3) w2(5) same_shape_node_path [OF t3(3)] by (simp_all add: same_shape_def)
  ultimately show ?thesis using t3 w2(2) w1(3) by (intro exI [of _ t3] exI [of _ changed]) simp
qed

text \<open>What the semantic entries do to the content, one after the other.\<close>

definition with_semantic ::
    "json_lib \<Rightarrow> string list \<Rightarrow> (string list \<times> json) list \<Rightarrow> (string list \<rightharpoonup> PathElement) \<Rightarrow> (string list \<rightharpoonup> PathElement)" where
  "with_semantic L dp es m =
     fold (\<lambda>(qs, v) m. m(dp @ qs := Some (stored_alias (the (source_text L dp v))
        ALIASPRIORITY_SEMANTICROUTE (m (dp @ qs))))) es m"

lemma with_semantic_Cons:
  "with_semantic L dp ((qs, v) # es) m = with_semantic L dp es
     (m(dp @ qs := Some (stored_alias (the (source_text L dp v)) ALIASPRIORITY_SEMANTICROUTE (m (dp @ qs)))))"
  by (simp add: with_semantic_def)

lemma with_semantic_other:
  "\<forall>(qs, v)\<in>set es. dp @ qs \<noteq> ps \<Longrightarrow> with_semantic L dp es m ps = m ps"
  by (induction es arbitrary: m) (auto simp: with_semantic_Cons, simp add: with_semantic_def)

lemma semantic_fold:
  assumes "wf_tree t" and "i < length t" and "distinct (map fst es)"
    and "\<forall>(qs, v)\<in>set es. qs \<noteq> [] \<and> (\<forall>c\<in>set qs. plain_name c) \<and> source_text L (node_path t i) v \<noteq> None"
  shows "\<exists>t' changed. fold (\<lambda>(qs, v). m_add L i v (join_components qs)) es (t, Inr flag) = (t', Inr changed) \<and>
    wf_tree t' \<and> length t \<le> length t' \<and> node_path t' i = node_path t i \<and>
    content t' = with_semantic L (node_path t i) es (content t) \<and>
    (changed \<longleftrightarrow> flag \<or> content t' \<noteq> content t)"
  using assms
proof (induction es arbitrary: t flag)
  case Nil
  then show ?case by (auto simp: with_semantic_def)
next
  case (Cons e es)
  let ?dp = "node_path t i"
  obtain qs v where e: "e = (qs, v)" by fastforce
  with Cons.prems(4) obtain src where e': "qs \<noteq> []" "\<And>c. c \<in> set qs \<Longrightarrow> plain_name c"
      "source_text L ?dp v = Some src" by auto
  from m_add_spec [OF Cons.prems(1,2) e'(3) target_join [OF e'(1,2)], of flag] obtain t1 ch where t1:
    "m_add L i v (join_components qs) (t, Inr flag) = (t1, Inr (flag \<or> ch))" "wf_tree t1" "length t \<le> length t1"
    "node_path t1 i = ?dp"
    "content t1 = (content t)(?dp @ qs := Some (stored_alias src ALIASPRIORITY_SEMANTICROUTE (content t (?dp @ qs))))"
    "ch \<longleftrightarrow> content t1 \<noteq> content t" by blast
  from Cons.IH [OF t1(2), of "flag \<or> ch"] Cons.prems(2-4) t1(3,4) obtain t' ch' where t':
    "fold (\<lambda>(qs, v). m_add L i v (join_components qs)) es (t1, Inr (flag \<or> ch)) = (t', Inr ch')"
    "wf_tree t'" "length t1 \<le> length t'" "node_path t' i = ?dp"
    "content t' = with_semantic L ?dp es (content t1)" "ch' \<longleftrightarrow> (flag \<or> ch) \<or> content t' \<noteq> content t1"
    by auto
  have "content t' (?dp @ qs) = content t1 (?dp @ qs)"
    unfolding t'(5) using Cons.prems(3) e by (intro with_semantic_other) force
  then have "ch \<Longrightarrow> content t' \<noteq> content t" using t1(5,6) by (metis fun_upd_triv fun_upd_same)
  then have "ch' \<longleftrightarrow> flag \<or> content t' \<noteq> content t" using t'(6) t1(6) by metis
  with t' t1 e e'(3) show ?case
    by (intro exI [of _ t'] exI [of _ ch']) (simp add: with_semantic_Cons)
qed

text \<open>The interfaces and the semantic entries a descriptor names.\<close>

definition interface_names :: "members \<Rightarrow> string list" where
  "interface_names ms = (case map_of ms INTERFACES_KEY of Some (JObject ifs) \<Rightarrow> map fst ifs | _ \<Rightarrow> [])"

definition descriptor_entries :: "members \<Rightarrow> (string list \<times> json) list" where
  "descriptor_entries ms =
     (case map_of ms SEMANTIC_KEY of Some (JObject sem) \<Rightarrow> semantic_entries [SEMANTIC_KEY] (JObject sem) | _ \<Rightarrow> [])"

lemma processInterfaces_loop:
  "processInterfacesFromDescriptor t i (JObject ms) = interface_loop t i (interface_names ms) False"
  by (simp add: processInterfacesFromDescriptor_def interface_names_def split: option.split json.split)

lemma processSemantic_fold:
  "processSemanticFromDescriptor L t i (JObject ms) =
     fold (\<lambda>(qs, v). m_add L i v (join_components qs)) (descriptor_entries ms) (t, Inr False)"
  using m_recurse_fold(1) [of "[SEMANTIC_KEY]" L i _ "(t, Inr False)"]
  by (simp add: processSemanticFromDescriptor_def descriptor_entries_def SEMANTIC_KEY_def
      del: m_recurse.simps semantic_entries.simps split: option.split json.split)

text \<open>The content of a tree after a device with this descriptor has been processed.\<close>

definition described ::
    "json_lib \<Rightarrow> string list \<Rightarrow> members \<Rightarrow> (string list \<rightharpoonup> PathElement) \<Rightarrow> (string list \<rightharpoonup> PathElement)" where
  "described L dp ms m =
     with_semantic L dp (descriptor_entries ms) (with_interfaces dp (set (interface_names ms)) m)"

lemma existing_device:
  assumes "wf_tree t" and "i < length t" and "\<forall>n\<in>set (interface_names ms). plain_name n"
    and "distinct (map fst (descriptor_entries ms))"
    and "\<forall>(qs, v)\<in>set (descriptor_entries ms).
       qs \<noteq> [] \<and> (\<forall>c\<in>set qs. plain_name c) \<and> source_text L (node_path t i) v \<noteq> None"
    and "map_of ms AUTOMATIC_KEY = None"
  shows "\<exists>t' changed. processDeviceDescriptorFromExistingDevice L t i (JObject ms) = Some (t', Inr changed) \<and>
    wf_tree t' \<and> content t' = described L (node_path t i) ms (content t) \<and>
    (changed \<longleftrightarrow> with_interfaces (node_path t i) (set (interface_names ms)) (content t) \<noteq> content t \<or>
       content t' \<noteq> with_interfaces (node_path t i) (set (interface_names ms)) (content t))"
proof -
  obtain t1 c1 where t1: "interface_loop t i (interface_names ms) False = (t1, Inr c1)" "wf_tree t1"
      "length t \<le> length t1" "node_path t1 i = node_path t i"
      "content t1 = with_interfaces (node_path t i) (set (interface_names ms)) (content t)"
      "c1 \<longleftrightarrow> content t1 \<noteq> content t"
    using interface_loop_spec [OF assms(1,2), of "interface_names ms" False] assms(3) by auto
  from t1(3) assms(2) have i1: "i < length t1" by simp
  obtain t2 c2 where t2: "fold (\<lambda>(qs, v). m_add L i v (join_components qs)) (descriptor_entries ms) (t1, Inr False) = (t2, Inr c2)"
      "wf_tree t2" "content t2 = with_semantic L (node_path t i) (descriptor_entries ms) (content t1)"
      "c2 \<longleftrightarrow> content t2 \<noteq> content t1"
    using semantic_fold [OF t1(2) i1 assms(4), of L False] assms(5) t1(4) by auto
  have "processAutomaticFromDescriptor L t2 i (JObject ms) = Some (t2, Inr False)"
    using assms(6) by (simp add: processAutomaticFromDescriptor_def process_alias_def AutomaticAliases_def
        run_result_def start_run_def)
  with t1 t2 show ?thesis
    by (auto simp: processDeviceDescriptorFromExistingDevice_def processInterfaces_loop processSemantic_fold described_def)
qed

lemma content_device:
  assumes "wf_tree t" and "i < length t" and "node_path t i = dp"
  shows "is_DeviceElement (value_of t i) \<Longrightarrow> content t dp = Some (value_of t i)"
    and "\<not> is_DeviceElement (value_of t i) \<Longrightarrow> content t dp = Some e \<Longrightarrow> \<not> is_DeviceElement e"
  using content_node [OF assms(1,2)] assms(3) by (auto simp: isNull_def split: if_splits)

text \<open>Storing the element and processing the descriptor, the last part of the operation.\<close>

lemma store_and_process:
  assumes "wf_tree t" and "i < length t" and "node_path t i = dp"
    and "\<forall>n\<in>set (interface_names ms). plain_name n" and "distinct (map fst (descriptor_entries ms))"
    and "\<forall>(qs, v)\<in>set (descriptor_entries ms).
       qs \<noteq> [] \<and> (\<forall>c\<in>set qs. plain_name c) \<and> source_text L dp v \<noteq> None"
    and "map_of ms AUTOMATIC_KEY = None" and "m = (content t)(dp \<mapsto> DeviceElement name server (JObject ms))"
  shows "\<exists>t' changed. processDeviceDescriptorFromExistingDevice L
      (set_value t i (DeviceElement name server (JObject ms))) i (JObject ms) = Some (t', Inr changed) \<and>
    wf_tree t' \<and> content t' = described L dp ms m \<and>
    (changed \<longleftrightarrow> with_interfaces dp (set (interface_names ms)) m \<noteq> m \<or>
       content t' \<noteq> with_interfaces dp (set (interface_names ms)) m)"
proof -
  let ?t = "set_value t i (DeviceElement name server (JObject ms))"
  have "wf_tree ?t" "i < length ?t" "node_path ?t i = dp"
    using assms(1-3) same_shape_node_path [of t ?t] by simp_all
  moreover have "content ?t = m"
    using content_set_value [OF assms(1,2), of "DeviceElement name server (JObject ms)"] assms(3,8)
    by (simp add: isNull_def)
  ultimately show ?thesis
    using existing_device [of ?t i ms L] assms(4-7) by simp
qed


definition tracker_descriptor :: members where
  "tracker_descriptor =
     [(INTERFACES_KEY, JObject [(BUTTON_KEY, JNull), (TRACKER_KEY, JObject [(COUNT_KEY, JInt 2)])]),
      (SEMANTIC_KEY, JObject [(''hmd'', JString ''tracker/0'')])]"

definition tracker_lib :: json_lib where
  "tracker_lib = plain_lib\<lparr>lib_parse := (\<lambda>s. if s = ''D'' then Some (JObject tracker_descriptor)
       else if s = ''S'' then Some (JString ''tracker/0'') else None),
     lib_styled := (\<lambda>v. if v = JString ''tracker/0'' then ''S'' else ''D'')\<rparr>"


end
