(* ===== verification/Async_Access.thy ===== *)
theory Async_Access
  imports Osvr_Prelude
begin

text \<open>
  How the thread of an asynchronous device gets its turn on the connection:
  \<^verbatim>\<open>AsyncAccessControl\<close> and \<^verbatim>\<open>RequestToSend\<close> (\<^verbatim>\<open>src/osvr/Connection/AsyncAccessControl.cpp\<close>).

  The main thread and the requesting threads are processes; a step is what one of them does
  between two points at which another can get in: taking a mutex, giving it back, waiting on a
  condition variable, notifying. The phase of a thread says which mutexes it holds, and a step
  that takes a mutex is enabled when no other thread holds it. A wait may also end by itself.
  Assertions are compiled out, as in a release build: \<open>assert_failed\<close> records that one failed.
\<close>

datatype MainThreadMessages = MTM_WAIT | MTM_CLEAR_TO_SEND | MTM_DENY_SEND

text \<open>
  A requesting thread: outside; behind \<^verbatim>\<open>m_lock.lock()\<close>; before \<^verbatim>\<open>m_lockDone.lock()\<close>; at the
  test of the loop; waiting for \<^verbatim>\<open>m_condAsyncThread\<close>; woken and before taking \<^verbatim>\<open>m_mut\<close> again;
  after \<^verbatim>\<open>request()\<close> has returned true or false; in the destructor, with \<^verbatim>\<open>m_mut\<close> given back,
  and with both given back.
\<close>

datatype request_phase =
    R_Idle | R_Locked | R_WantDone | R_Testing | R_Waiting | R_Woken
  | R_Granted | R_Denied | R_ReleasedMain | R_Notifying

text \<open>
  The main thread: outside; with \<^verbatim>\<open>m_mut\<close>, before \<^verbatim>\<open>m_handleRTS\<close>, with the response, the state
  after completion and whether it denies permanently; after its response, before notifying;
  before taking \<^verbatim>\<open>m_mutDone\<close>; at the test of \<^verbatim>\<open>m_done\<close>; waiting; woken.
\<close>

datatype main_phase =
    M_Idle
  | M_Locked MainThreadMessages MainThreadMessages bool
  | M_Responded MainThreadMessages
  | M_WantDone MainThreadMessages
  | M_Testing MainThreadMessages
  | M_Waiting MainThreadMessages
  | M_Woken MainThreadMessages

record AsyncAccessControl =
  m_rts :: bool
  m_done :: bool
  m_mainMessage :: MainThreadMessages
  m_currentRequestThread :: "nat option"
  requesters :: "nat \<Rightarrow> request_phase"
  main_thread :: main_phase
  assert_failed :: bool

definition AsyncAccessControl_create :: AsyncAccessControl where
  "AsyncAccessControl_create =
     \<lparr>m_rts = False, m_done = False, m_mainMessage = MTM_WAIT, m_currentRequestThread = None,
      requesters = (\<lambda>_. R_Idle), main_thread = M_Idle, assert_failed = False\<rparr>"

fun r_holds_mut :: "request_phase \<Rightarrow> bool" where
  "r_holds_mut R_Locked = True"
| "r_holds_mut R_WantDone = True"
| "r_holds_mut R_Testing = True"
| "r_holds_mut R_Granted = True"
| "r_holds_mut R_Denied = True"
| "r_holds_mut _ = False"

fun r_holds_done :: "request_phase \<Rightarrow> bool" where
  "r_holds_done R_Testing = True"
| "r_holds_done R_Waiting = True"
| "r_holds_done R_Woken = True"
| "r_holds_done R_Granted = True"
| "r_holds_done R_Denied = True"
| "r_holds_done R_ReleasedMain = True"
| "r_holds_done _ = False"

fun m_holds_mut :: "main_phase \<Rightarrow> bool" where
  "m_holds_mut (M_Locked r post perm) = True"
| "m_holds_mut _ = False"

fun m_holds_done :: "main_phase \<Rightarrow> bool" where
  "m_holds_done (M_Testing post) = True"
| "m_holds_done _ = False"

definition mut_free :: "AsyncAccessControl \<Rightarrow> bool" where
  "mut_free s \<longleftrightarrow> (\<forall>q. \<not> r_holds_mut (requesters s q)) \<and> \<not> m_holds_mut (main_thread s)"

definition done_free :: "AsyncAccessControl \<Rightarrow> bool" where
  "done_free s \<longleftrightarrow> (\<forall>q. \<not> r_holds_done (requesters s q)) \<and> \<not> m_holds_done (main_thread s)"

definition set_phase :: "nat \<Rightarrow> request_phase \<Rightarrow> AsyncAccessControl \<Rightarrow> AsyncAccessControl" where
  "set_phase p ph s = s\<lparr>requesters := (requesters s)(p := ph)\<rparr>"

text \<open>
  The three operations of the main thread: the response, the state after completion, and
  whether the denial is permanent.
\<close>

definition main_calls :: "(MainThreadMessages \<times> MainThreadMessages \<times> bool) set" where
  "main_calls = {(MTM_CLEAR_TO_SEND, MTM_WAIT, False), (MTM_DENY_SEND, MTM_WAIT, False),
     (MTM_DENY_SEND, MTM_DENY_SEND, True)}"

text \<open>
  What the threads do by themselves once a call is under way: \<^verbatim>\<open>RequestToSend::request\<close> after
  its lock, its destructor, and \<^verbatim>\<open>m_handleRTS\<close>.
\<close>

inductive aac_internal :: "nat set \<Rightarrow> AsyncAccessControl \<Rightarrow> AsyncAccessControl \<Rightarrow> bool"
  for T :: "nat set"
where
  announce:
    "p \<in> T \<Longrightarrow> requesters s p = R_Locked \<Longrightarrow>
     aac_internal T s (set_phase p R_WantDone
       (s\<lparr>m_rts := True, m_done := False, assert_failed := (assert_failed s \<or> m_rts s)\<rparr>))"
| take_done:
    "p \<in> T \<Longrightarrow> requesters s p = R_WantDone \<Longrightarrow> done_free s \<Longrightarrow>
     aac_internal T s (set_phase p R_Testing (s\<lparr>m_done := False\<rparr>))"
| wait_response:
    "p \<in> T \<Longrightarrow> requesters s p = R_Testing \<Longrightarrow> m_mainMessage s = MTM_WAIT \<Longrightarrow>
     aac_internal T s (set_phase p R_Waiting s)"
| relock:
    "p \<in> T \<Longrightarrow> requesters s p = R_Woken \<Longrightarrow> mut_free s \<Longrightarrow>
     aac_internal T s (set_phase p R_Testing s)"
| granted:
    "p \<in> T \<Longrightarrow> requesters s p = R_Testing \<Longrightarrow> m_mainMessage s = MTM_CLEAR_TO_SEND \<Longrightarrow>
     aac_internal T s (set_phase p R_Granted
       (s\<lparr>m_currentRequestThread := Some p,
          assert_failed := (assert_failed s \<or> m_currentRequestThread s \<noteq> None)\<rparr>))"
| denied:
    "p \<in> T \<Longrightarrow> requesters s p = R_Testing \<Longrightarrow> m_mainMessage s = MTM_DENY_SEND \<Longrightarrow>
     aac_internal T s (set_phase p R_Denied s)"
| destroy:
    "p \<in> T \<Longrightarrow> requesters s p = R_Granted \<or> requesters s p = R_Denied \<Longrightarrow>
     aac_internal T s (set_phase p R_ReleasedMain
       (s\<lparr>m_rts := False, m_done := True, m_currentRequestThread := None\<rparr>))"
| release_done:
    "p \<in> T \<Longrightarrow> requesters s p = R_ReleasedMain \<Longrightarrow>
     aac_internal T s (set_phase p R_Notifying s)"
| notify_main:
    "p \<in> T \<Longrightarrow> requesters s p = R_Notifying \<Longrightarrow>
     aac_internal T s (set_phase p R_Idle
       (s\<lparr>main_thread := (case main_thread s of M_Waiting post \<Rightarrow> M_Woken post | ph \<Rightarrow> ph)\<rparr>))"
| no_request:
    "main_thread s = M_Locked response post perm \<Longrightarrow> \<not> m_rts s \<Longrightarrow>
     aac_internal T s
       (s\<lparr>main_thread := M_Idle, m_mainMessage := (if perm then MTM_DENY_SEND else m_mainMessage s)\<rparr>)"
| respond:
    "main_thread s = M_Locked response post perm \<Longrightarrow> m_rts s \<Longrightarrow>
     aac_internal T s (s\<lparr>main_thread := M_Responded post, m_mainMessage := response\<rparr>)"
| notify_async:
    "main_thread s = M_Responded post \<Longrightarrow> requesters s q = R_Waiting \<Longrightarrow>
     aac_internal T s (set_phase q R_Woken (s\<lparr>main_thread := M_WantDone post\<rparr>))"
| notify_nobody:
    "main_thread s = M_Responded post \<Longrightarrow> \<forall>q. requesters s q \<noteq> R_Waiting \<Longrightarrow>
     aac_internal T s (s\<lparr>main_thread := M_WantDone post\<rparr>)"
| main_take_done:
    "main_thread s = M_WantDone post \<or> main_thread s = M_Woken post \<Longrightarrow> done_free s \<Longrightarrow>
     aac_internal T s (s\<lparr>main_thread := M_Testing post\<rparr>)"
| main_wait:
    "main_thread s = M_Testing post \<Longrightarrow> \<not> m_done s \<Longrightarrow>
     aac_internal T s (s\<lparr>main_thread := M_Waiting post\<rparr>)"
| main_finish:
    "main_thread s = M_Testing post \<Longrightarrow> m_done s \<Longrightarrow>
     aac_internal T s (s\<lparr>main_thread := M_Idle, m_mainMessage := post\<rparr>)"

text \<open>
  All steps: a thread of \<open>T\<close> begins a request, or a nested one on another object; the main
  thread begins one of its operations; a wait ends by itself.
\<close>

inductive aac_step :: "nat set \<Rightarrow> AsyncAccessControl \<Rightarrow> AsyncAccessControl \<Rightarrow> bool"
  for T :: "nat set"
where
  internal: "aac_internal T s s' \<Longrightarrow> aac_step T s s'"
| request_lock:
    "p \<in> T \<Longrightarrow> requesters s p = R_Idle \<Longrightarrow> mut_free s \<Longrightarrow>
     aac_step T s (set_phase p R_Locked s)"
| nested_request:
    "p \<in> T \<Longrightarrow> requesters s p = R_Granted \<Longrightarrow> m_rts s \<Longrightarrow> m_currentRequestThread s = Some p \<Longrightarrow>
     aac_step T s s"
| main_lock:
    "main_thread s = M_Idle \<Longrightarrow> mut_free s \<Longrightarrow> (response, post, perm) \<in> main_calls \<Longrightarrow>
     aac_step T s (s\<lparr>main_thread := M_Locked response post perm\<rparr>)"
| spurious_async:
    "requesters s p = R_Waiting \<Longrightarrow> aac_step T s (set_phase p R_Woken s)"
| spurious_main:
    "main_thread s = M_Waiting post \<Longrightarrow> aac_step T s (s\<lparr>main_thread := M_Woken post\<rparr>)"

definition aac_reachable :: "nat set \<Rightarrow> AsyncAccessControl \<Rightarrow> bool" where
  "aac_reachable T s \<longleftrightarrow> (aac_step T)\<^sup>*\<^sup>* AsyncAccessControl_create s"

subsection \<open>Safety\<close>

fun inside_handleRTS :: "main_phase \<Rightarrow> bool" where
  "inside_handleRTS M_Idle = False"
| "inside_handleRTS (M_Locked r post perm) = False"
| "inside_handleRTS _ = True"

definition aac_locks :: "AsyncAccessControl \<Rightarrow> bool" where
  "aac_locks s \<longleftrightarrow>
     (\<forall>p q. r_holds_mut (requesters s p) \<longrightarrow> r_holds_mut (requesters s q) \<longrightarrow> p = q) \<and>
     (\<forall>p. r_holds_mut (requesters s p) \<longrightarrow> \<not> m_holds_mut (main_thread s)) \<and>
     (\<forall>p q. r_holds_done (requesters s p) \<longrightarrow> r_holds_done (requesters s q) \<longrightarrow> p = q) \<and>
     (\<forall>p. r_holds_done (requesters s p) \<longrightarrow> \<not> m_holds_done (main_thread s))"

fun main_ok :: "main_phase \<Rightarrow> bool" where
  "main_ok M_Idle = True"
| "main_ok (M_Locked response post perm) = ((response, post, perm) \<in> main_calls)"
| "main_ok (M_Responded post) = (post \<noteq> MTM_CLEAR_TO_SEND)"
| "main_ok (M_WantDone post) = (post \<noteq> MTM_CLEAR_TO_SEND)"
| "main_ok (M_Testing post) = (post \<noteq> MTM_CLEAR_TO_SEND)"
| "main_ok (M_Waiting post) = (post \<noteq> MTM_CLEAR_TO_SEND)"
| "main_ok (M_Woken post) = (post \<noteq> MTM_CLEAR_TO_SEND)"

definition entitled :: "AsyncAccessControl \<Rightarrow> nat \<Rightarrow> bool" where
  "entitled s p \<longleftrightarrow> m_mainMessage s = MTM_CLEAR_TO_SEND \<and> m_currentRequestThread s = Some p"

lemma entitled_frame [simp]:
  "entitled (set_phase q ph s) = entitled s"
  "entitled (s\<lparr>m_rts := b\<rparr>) = entitled s"
  "entitled (s\<lparr>m_done := b\<rparr>) = entitled s"
  "entitled (s\<lparr>main_thread := mph\<rparr>) = entitled s"
  "entitled (s\<lparr>assert_failed := b\<rparr>) = entitled s"
  by (simp_all add: entitled_def set_phase_def fun_eq_iff)

lemma set_phase_simps [simp]:
  "requesters (set_phase p ph s) = (requesters s)(p := ph)"
  "main_thread (set_phase p ph s) = main_thread s"
  "m_rts (set_phase p ph s) = m_rts s"
  "m_done (set_phase p ph s) = m_done s"
  "m_mainMessage (set_phase p ph s) = m_mainMessage s"
  "m_currentRequestThread (set_phase p ph s) = m_currentRequestThread s"
  "assert_failed (set_phase p ph s) = assert_failed s"
  by (simp_all add: set_phase_def)

definition aac_grant :: "AsyncAccessControl \<Rightarrow> bool" where
  "aac_grant s \<longleftrightarrow>
     (m_mainMessage s = MTM_CLEAR_TO_SEND \<longrightarrow> inside_handleRTS (main_thread s)) \<and>
     main_ok (main_thread s) \<and>
     (\<forall>p. requesters s p = R_Granted \<longrightarrow> entitled s p)"

lemma aac_locks_internal: "aac_internal T s s' \<Longrightarrow> aac_locks s \<Longrightarrow> aac_locks s'"
  by (induction rule: aac_internal.induct)
    (auto simp: aac_locks_def set_phase_def mut_free_def done_free_def split: main_phase.splits,
     (metis r_holds_mut.simps r_holds_done.simps)+)

lemma aac_locks_step: "aac_step T s s' \<Longrightarrow> aac_locks s \<Longrightarrow> aac_locks s'"
  by (induction rule: aac_step.induct)
    (auto simp: aac_locks_internal,
     auto simp: aac_locks_def set_phase_def mut_free_def done_free_def, (metis r_holds_done.simps)+)

lemma not_granted:
  assumes "aac_locks s"
  shows "r_holds_done (requesters s p) \<Longrightarrow> q \<noteq> p \<Longrightarrow> requesters s q \<noteq> R_Granted"
    and "m_holds_mut (main_thread s) \<Longrightarrow> requesters s q \<noteq> R_Granted"
    and "m_holds_done (main_thread s) \<Longrightarrow> requesters s q \<noteq> R_Granted"
proof -
  have g: "r_holds_done (requesters s q)" "r_holds_mut (requesters s q)" if "requesters s q = R_Granted" for q
    using that by simp_all
  show "r_holds_done (requesters s p) \<Longrightarrow> q \<noteq> p \<Longrightarrow> requesters s q \<noteq> R_Granted"
    and "m_holds_mut (main_thread s) \<Longrightarrow> requesters s q \<noteq> R_Granted"
    and "m_holds_done (main_thread s) \<Longrightarrow> requesters s q \<noteq> R_Granted"
    using assms g [of q] unfolding aac_locks_def by blast+
qed

lemma aac_grant_internal: "aac_internal T s s' \<Longrightarrow> aac_locks s \<Longrightarrow> aac_grant s \<Longrightarrow> aac_grant s'"
proof (induction rule: aac_internal.induct)
  case (destroy p s)
  then have "requesters s q \<noteq> R_Granted" if "q \<noteq> p" for q
    using not_granted(1) [of s p q] that by auto
  with destroy show ?case by (simp add: aac_grant_def entitled_def)
next
  case (granted p s)
  then have "requesters s q \<noteq> R_Granted" for q
    using not_granted(1) [of s p q] by (cases "q = p") auto
  with granted show ?case by (simp add: aac_grant_def entitled_def)
next
  case (no_request s response post perm)
  then have "requesters s q \<noteq> R_Granted" for q using not_granted(2) by simp
  with no_request show ?case by (auto simp: aac_grant_def)
next
  case (respond s response post perm)
  then have "requesters s q \<noteq> R_Granted" for q using not_granted(2) by simp
  with respond show ?case by (auto simp: aac_grant_def main_calls_def)
next
  case (main_finish s post)
  then have "requesters s q \<noteq> R_Granted" for q using not_granted(3) by simp
  with main_finish show ?case by (auto simp: aac_grant_def)
next
  case (notify_main p s)
  then show ?case by (cases "main_thread s") (auto simp: aac_grant_def)
qed (auto simp: aac_grant_def)

lemma aac_grant_step: "aac_step T s s' \<Longrightarrow> aac_locks s \<Longrightarrow> aac_grant s \<Longrightarrow> aac_grant s'"
proof (induction rule: aac_step.induct)
  case (internal s s')
  then show ?case by (rule aac_grant_internal)
qed (auto simp: aac_grant_def)

lemma aac_reachable_inv: "aac_reachable T s \<Longrightarrow> aac_locks s \<and> aac_grant s"
  unfolding aac_reachable_def
proof (induction rule: rtranclp_induct)
  case base
  show ?case by (simp add: AsyncAccessControl_create_def aac_locks_def aac_grant_def)
next
  case (step s s')
  then show ?case using aac_locks_step aac_grant_step by blast
qed

text \<open>
  C7: a device thread sends only while the main thread waits for it. In every interleaving of
  any number of requesting threads with the operations of the main thread, once a request has
  been granted and until its object is destroyed, the main thread is inside
  \<^verbatim>\<open>m_handleRTS\<close> and no other thread has been granted anything.
\<close>

theorem granted_excludes:
  assumes "aac_reachable T s" and "requesters s p = R_Granted"
  shows "inside_handleRTS (main_thread s) \<and> (\<forall>q. requesters s q = R_Granted \<longleftrightarrow> q = p) \<and>
    m_currentRequestThread s = Some p"
  using aac_reachable_inv [OF assms(1)] assms(2) unfolding aac_grant_def entitled_def
  by (metis option.inject)

text \<open>The states of a run with two requesting threads.\<close>

definition run_state ::
    "bool \<Rightarrow> MainThreadMessages \<Rightarrow> nat option \<Rightarrow> request_phase \<Rightarrow> request_phase \<Rightarrow> main_phase \<Rightarrow> bool \<Rightarrow> AsyncAccessControl" where
  "run_state rts msg cur ph0 ph1 mph failed =
     \<lparr>m_rts = rts, m_done = False, m_mainMessage = msg, m_currentRequestThread = cur,
      requesters = (\<lambda>_. R_Idle)(0 := ph0, 1 := ph1), main_thread = mph, assert_failed = failed\<rparr>"

lemma run_state_simps [simp]:
  "requesters (run_state rts msg cur ph0 ph1 mph failed) = (\<lambda>_. R_Idle)(0 := ph0, 1 := ph1)"
  "main_thread (run_state rts msg cur ph0 ph1 mph failed) = mph"
  "m_rts (run_state rts msg cur ph0 ph1 mph failed) = rts"
  "m_mainMessage (run_state rts msg cur ph0 ph1 mph failed) = msg"
  "set_phase 0 ph (run_state rts msg cur ph0 ph1 mph failed) = run_state rts msg cur ph ph1 mph failed"
  "set_phase 1 ph (run_state rts msg cur ph0 ph1 mph failed) = run_state rts msg cur ph0 ph mph failed"
  "set_phase (Suc 0) ph (run_state rts msg cur ph0 ph1 mph failed) = run_state rts msg cur ph0 ph mph failed"
  "mut_free (run_state rts msg cur ph0 ph1 mph failed) \<longleftrightarrow>
     \<not> r_holds_mut ph0 \<and> \<not> r_holds_mut ph1 \<and> \<not> m_holds_mut mph"
  "done_free (run_state rts msg cur ph0 ph1 mph failed) \<longleftrightarrow>
     \<not> r_holds_done ph0 \<and> \<not> r_holds_done ph1 \<and> \<not> m_holds_done mph"
  by (auto simp: run_state_def set_phase_def mut_free_def done_free_def fun_eq_iff)

lemma create_run_state: "AsyncAccessControl_create = run_state False MTM_WAIT None R_Idle R_Idle M_Idle False"
  by (simp add: AsyncAccessControl_create_def run_state_def fun_eq_iff)

lemma reachable_internal:
  "aac_reachable T s \<Longrightarrow> aac_internal T s u \<Longrightarrow> s' = u \<Longrightarrow> aac_reachable T s'"
  unfolding aac_reachable_def using aac_step.internal by (metis rtranclp.rtrancl_into_rtrancl)

lemma reachable_step: "aac_reachable T s \<Longrightarrow> aac_step T s u \<Longrightarrow> s' = u \<Longrightarrow> aac_reachable T s'"
  unfolding aac_reachable_def by (metis rtranclp.rtrancl_into_rtrancl)

text \<open>Thread 0 has announced itself and waits; the main thread has answered.\<close>

lemma run_responded:
  "aac_reachable {0, 1} (run_state True MTM_CLEAR_TO_SEND None R_Waiting R_Idle (M_Responded MTM_WAIT) False)"
proof -
  have "aac_reachable {0, 1} (run_state False MTM_WAIT None R_Idle R_Idle M_Idle False)"
    by (simp add: aac_reachable_def create_run_state)
  then have "aac_reachable {0, 1} (run_state False MTM_WAIT None R_Locked R_Idle M_Idle False)"
    by (rule reachable_step) (rule aac_step.request_lock [of 0], simp_all)
  then have "aac_reachable {0, 1} (run_state True MTM_WAIT None R_WantDone R_Idle M_Idle False)"
    by (rule reachable_internal) (rule announce [of 0], simp_all, simp add: run_state_def set_phase_def fun_eq_iff)
  then have "aac_reachable {0, 1} (run_state True MTM_WAIT None R_Testing R_Idle M_Idle False)"
    by (rule reachable_internal) (rule take_done [of 0], simp_all, simp add: run_state_def set_phase_def fun_eq_iff)
  then have "aac_reachable {0, 1} (run_state True MTM_WAIT None R_Waiting R_Idle M_Idle False)"
    by (rule reachable_internal) (rule wait_response [of 0], simp_all)
  then have "aac_reachable {0, 1} (run_state True MTM_WAIT None R_Waiting R_Idle (M_Locked MTM_CLEAR_TO_SEND MTM_WAIT False) False)"
    by (rule reachable_step)
      (rule main_lock [of _ MTM_CLEAR_TO_SEND MTM_WAIT False], simp_all add: main_calls_def, simp add: run_state_def)
  then show ?thesis
    by (rule reachable_internal) (rule respond [of _ MTM_CLEAR_TO_SEND MTM_WAIT False], simp_all, simp add: run_state_def)
qed

theorem granted_excludes_witness:
  "aac_reachable {0, 1} (run_state True MTM_CLEAR_TO_SEND (Some 0) R_Granted R_Idle (M_WantDone MTM_WAIT) False) \<and>
   inside_handleRTS (M_WantDone MTM_WAIT)"
proof -
  let ?s = "run_state True MTM_CLEAR_TO_SEND (Some 0) R_Granted R_Idle (M_WantDone MTM_WAIT) False"
  have "aac_reachable {0, 1} (run_state True MTM_CLEAR_TO_SEND None R_Woken R_Idle (M_WantDone MTM_WAIT) False)"
    using run_responded
    by (rule reachable_internal) (rule notify_async [of _ _ 0], simp_all, simp add: run_state_def set_phase_def fun_eq_iff)
  then have "aac_reachable {0, 1} (run_state True MTM_CLEAR_TO_SEND None R_Testing R_Idle (M_WantDone MTM_WAIT) False)"
    by (rule reachable_internal) (rule relock [of 0], simp_all)
  then have r: "aac_reachable {0, 1} ?s"
    by (rule reachable_internal) (rule granted [of 0], simp_all, simp add: run_state_def set_phase_def fun_eq_iff)
  moreover have "requesters ?s 0 = R_Granted" by simp
  from granted_excludes [OF r this] have "inside_handleRTS (main_thread ?s)" by blast
  ultimately show ?thesis by simp
qed

text \<open>
  C39: two threads that request at once can stop everything. The second thread takes \<^verbatim>\<open>m_mut\<close>
  while the first one waits for its answer, fails the assertion that no request is under way
  and, in a build without assertions, waits for \<^verbatim>\<open>m_mutDone\<close>, which the first thread holds,
  while the first one needs \<^verbatim>\<open>m_mut\<close>: no thread can make a step any more.
\<close>

theorem two_requesters_deadlock:
  "\<exists>s. aac_reachable {0, 1} s \<and> assert_failed s \<and> requesters s 0 = R_Woken \<and> requesters s 1 = R_WantDone \<and>
     main_thread s = M_WantDone MTM_WAIT \<and> (\<nexists>s'. aac_step {0, 1} s s')"
proof -
  let ?s = "run_state True MTM_CLEAR_TO_SEND None R_Woken R_WantDone (M_WantDone MTM_WAIT) True"
  have "aac_reachable {0, 1} (run_state True MTM_CLEAR_TO_SEND None R_Waiting R_Locked (M_Responded MTM_WAIT) False)"
    using run_responded by (rule reachable_step) (rule aac_step.request_lock [of 1], simp_all)
  then have "aac_reachable {0, 1} (run_state True MTM_CLEAR_TO_SEND None R_Waiting R_WantDone (M_Responded MTM_WAIT) True)"
    by (rule reachable_internal) (rule announce [of 1], simp_all, simp add: run_state_def set_phase_def fun_eq_iff)
  then have "aac_reachable {0, 1} ?s"
    by (rule reachable_internal) (rule notify_async [of _ _ 0], simp_all, simp add: run_state_def set_phase_def fun_eq_iff)
  moreover have "assert_failed ?s" by (simp add: run_state_def)
  moreover have "\<not> aac_internal {0, 1} ?s s'" for s'
    by (rule notI, erule aac_internal.cases) (auto split: if_splits)
  then have "\<not> aac_step {0, 1} ?s s'" for s'
    by (intro notI, elim aac_step.cases) (auto split: if_splits)
  ultimately show ?thesis by (intro exI [of _ ?s]) simp
qed

subsection \<open>One requesting thread\<close>

fun announced :: "request_phase \<Rightarrow> bool" where
  "announced R_WantDone = True"
| "announced R_Testing = True"
| "announced R_Waiting = True"
| "announced R_Woken = True"
| "announced R_Granted = True"
| "announced R_Denied = True"
| "announced _ = False"

fun notified :: "main_phase \<Rightarrow> bool" where
  "notified (M_WantDone post) = True"
| "notified (M_Testing post) = True"
| "notified (M_Waiting post) = True"
| "notified (M_Woken post) = True"
| "notified _ = False"

fun is_M_Responded :: "main_phase \<Rightarrow> bool" where
  "is_M_Responded (M_Responded post) = True"
| "is_M_Responded _ = False"

fun is_M_Waiting :: "main_phase \<Rightarrow> bool" where
  "is_M_Waiting (M_Waiting post) = True"
| "is_M_Waiting _ = False"

definition solo :: "AsyncAccessControl \<Rightarrow> bool" where
  "solo s \<longleftrightarrow>
     (\<forall>q. q \<noteq> 0 \<longrightarrow> requesters s q = R_Idle) \<and>
     m_rts s = announced (requesters s 0) \<and>
     (m_rts s \<longrightarrow> \<not> m_done s) \<and>
     (inside_handleRTS (main_thread s) \<longrightarrow> m_done s \<or> m_rts s) \<and>
     (inside_handleRTS (main_thread s) \<longrightarrow> m_mainMessage s \<noteq> MTM_WAIT) \<and>
     (requesters s 0 = R_Waiting \<longrightarrow> m_mainMessage s = MTM_WAIT \<or> is_M_Responded (main_thread s)) \<and>
     (is_M_Waiting (main_thread s) \<longrightarrow>
        announced (requesters s 0) \<or> requesters s 0 = R_ReleasedMain \<or> requesters s 0 = R_Notifying) \<and>
     (m_currentRequestThread s = (if requesters s 0 = R_Granted then Some 0 else None)) \<and>
     \<not> assert_failed s"

lemma solo_internal:
  "aac_internal {0} s s' \<Longrightarrow> aac_locks s \<Longrightarrow> aac_grant s \<Longrightarrow> solo s \<Longrightarrow> solo s'"
proof (induction rule: aac_internal.induct)
  case (notify_main p s)
  then show ?case by (cases "main_thread s") (auto simp: solo_def)
next
  case (no_request s response post perm)
  then show ?case by (cases "requesters s 0") (auto simp: solo_def)
next
  case (respond s response post perm)
  then show ?case by (auto simp: solo_def aac_grant_def main_calls_def)
next
  case (notify_async s post q)
  then have "q = 0" by (cases "q = 0") (simp_all add: solo_def)
  with notify_async show ?case by (auto simp: solo_def)
next
  case (main_take_done s post)
  then show ?case by (auto simp: solo_def done_free_def)
next
  case (main_finish s post)
  then have "requesters s 0 \<noteq> R_Waiting" by (auto simp: solo_def)
  with main_finish show ?case by (auto simp: solo_def)
qed (auto simp: solo_def aac_grant_def)

lemma solo_step: "aac_step {0} s s' \<Longrightarrow> aac_locks s \<Longrightarrow> aac_grant s \<Longrightarrow> solo s \<Longrightarrow> solo s'"
proof (induction rule: aac_step.induct)
  case (internal s s')
  then show ?case using solo_internal by blast
next
  case (spurious_async s p)
  then have "p = 0" by (cases "p = 0") (simp_all add: solo_def)
  with spurious_async show ?case by (auto simp: solo_def)
qed (auto simp: solo_def)

lemma solo_reachable: "aac_reachable {0} s \<Longrightarrow> solo s"
  unfolding aac_reachable_def
proof (induction rule: rtranclp_induct)
  case base
  show ?case by (simp add: AsyncAccessControl_create_def solo_def)
next
  case (step s s')
  then show ?case using solo_step aac_reachable_inv [of "{0}" s] by (auto simp: aac_reachable_def)
qed

text \<open>Every step of a call under way brings it nearer its end.\<close>

fun request_rank :: "request_phase \<Rightarrow> nat" where
  "request_rank R_Idle = 0"
| "request_rank R_Notifying = 3"
| "request_rank R_ReleasedMain = 4"
| "request_rank R_Granted = 5"
| "request_rank R_Denied = 5"
| "request_rank R_Waiting = 5"
| "request_rank R_Testing = 6"
| "request_rank R_Woken = 7"
| "request_rank R_WantDone = 7"
| "request_rank R_Locked = 8"

fun main_rank :: "main_phase \<Rightarrow> nat" where
  "main_rank M_Idle = 0"
| "main_rank (M_Waiting post) = 1"
| "main_rank (M_Testing post) = 2"
| "main_rank (M_WantDone post) = 3"
| "main_rank (M_Woken post) = 3"
| "main_rank (M_Responded post) = 6"
| "main_rank (M_Locked response post perm) = 7"

definition aac_rank :: "AsyncAccessControl \<Rightarrow> nat" where
  "aac_rank s = request_rank (requesters s 0) + main_rank (main_thread s)"

lemma aac_rank_bound: "aac_rank s \<le> 15"
  by (cases "requesters s 0"; cases "main_thread s") (simp_all add: aac_rank_def)

lemma aac_rank_decreases: "aac_internal {0} s s' \<Longrightarrow> solo s \<Longrightarrow> aac_rank s' < aac_rank s"
proof (induction rule: aac_internal.induct)
  case (notify_main p s)
  then show ?case by (cases "main_thread s") (auto simp: aac_rank_def)
next
  case (notify_async s post q)
  then have "q = 0" by (cases "q = 0") (simp_all add: solo_def)
  with notify_async show ?case by (simp add: aac_rank_def)
qed (auto simp: aac_rank_def)

lemma solo_quiescent:
  assumes "solo s" and "\<nexists>s'. aac_internal {0} s s'"
  shows "main_thread s = M_Idle \<and> (requesters s 0 = R_Idle \<or> requesters s 0 = R_Waiting \<and> m_mainMessage s = MTM_WAIT)"
proof -
  note no = assms(2) [unfolded not_ex, rule_format]
  have others: "requesters s q = R_Idle" if "q \<noteq> 0" for q using assms(1) that by (simp add: solo_def)
  have only: "r_holds_mut (requesters s q) \<Longrightarrow> q = 0" "r_holds_done (requesters s q) \<Longrightarrow> q = 0" for q
    by (rule ccontr, simp add: others)+
  have free: "mut_free s \<longleftrightarrow> \<not> r_holds_mut (requesters s 0) \<and> \<not> m_holds_mut (main_thread s)"
    "done_free s \<longleftrightarrow> \<not> r_holds_done (requesters s 0) \<and> \<not> m_holds_done (main_thread s)"
    unfolding mut_free_def done_free_def using only by blast+
  have locked: "\<not> m_holds_mut (main_thread s)"
    using no no_request [of s _ _ _ "{0}"] respond [of s _ _ _ "{0}"]
    by (cases "main_thread s") auto
  have responded: "\<not> is_M_Responded (main_thread s)"
    using no notify_async [of s _ _ "{0}"] notify_nobody [of s _ "{0}"]
    by (cases "main_thread s") auto
  have testing: "\<not> m_holds_done (main_thread s)"
    using no main_wait [of s _ "{0}"] main_finish [of s _ "{0}"]
    by (cases "main_thread s") auto
  have want: "r_holds_done (requesters s 0)" if "main_thread s = M_WantDone post \<or> main_thread s = M_Woken post" for post
    using no main_take_done [of s post "{0}"] that free(2) testing by blast
  have "requesters s 0 \<noteq> R_Locked" using no announce [of 0 "{0}" s] by blast
  moreover have "requesters s 0 \<noteq> R_Testing"
    using no wait_response [of 0 "{0}" s] aac_internal.granted [of 0 "{0}" s] aac_internal.denied [of 0 "{0}" s]
    by (cases "m_mainMessage s") blast+
  moreover have "requesters s 0 \<noteq> R_Granted" "requesters s 0 \<noteq> R_Denied" using no destroy [of 0 "{0}" s] by blast+
  moreover have "requesters s 0 \<noteq> R_ReleasedMain" using no release_done [of 0 "{0}" s] by blast
  moreover have "requesters s 0 \<noteq> R_Notifying" using no notify_main [of 0 "{0}" s] by blast
  moreover have "requesters s 0 \<noteq> R_WantDone"
    using no take_done [of 0 "{0}" s] free(2) testing by auto
  moreover have "requesters s 0 \<noteq> R_Woken"
    using no relock [of 0 "{0}" s] free(1) locked by auto
  ultimately have r: "requesters s 0 = R_Idle \<or> requesters s 0 = R_Waiting" by (cases "requesters s 0") simp_all
  have w: "requesters s 0 = R_Waiting \<Longrightarrow> m_mainMessage s = MTM_WAIT"
    "inside_handleRTS (main_thread s) \<Longrightarrow> m_mainMessage s \<noteq> MTM_WAIT"
    "is_M_Waiting (main_thread s) \<Longrightarrow> announced (requesters s 0) \<or> \<not> (requesters s 0 = R_Idle)"
    using assms(1) responded unfolding solo_def by auto
  have "main_thread s = M_Idle"
  proof (cases "main_thread s")
    case (M_WantDone post)
    with want r w show ?thesis by auto
  next
    case (M_Waiting post)
    with r w show ?thesis by auto
  next
    case (M_Woken post)
    with want r w show ?thesis by auto
  qed (use locked responded testing in auto)
  with r w show ?thesis by blast
qed

text \<open>
  C8: with one requesting thread every call ends. No assertion ever fails, a nested request
  under a granted one finds what it needs to return at once, and from every reachable state the
  calls under way are finished after at most fifteen steps of their own, without anybody
  waiting for a notification that has been missed: then the main thread is outside, and the
  requesting thread is outside or waits for the next turn of the main thread.
\<close>

theorem requests_complete:
  assumes "aac_reachable {0} s"
  shows "\<not> assert_failed s \<and>
    (requesters s 0 = R_Granted \<longrightarrow> m_rts s \<and> m_currentRequestThread s = Some 0) \<and>
    (\<forall>n s'. (aac_internal {0} ^^ n) s s' \<longrightarrow> n \<le> 15 \<and>
       ((\<nexists>s''. aac_internal {0} s' s'') \<longrightarrow> main_thread s' = M_Idle \<and>
          (requesters s' 0 = R_Idle \<or> requesters s' 0 = R_Waiting \<and> m_mainMessage s' = MTM_WAIT)))"
proof -
  have rank: "aac_reachable {0} s' \<and> aac_rank s' + n \<le> aac_rank s" if "(aac_internal {0} ^^ n) s s'" for n s'
    using that
  proof (induction n arbitrary: s')
    case 0
    with assms show ?case by simp
  next
    case (Suc n)
    then obtain u where u: "(aac_internal {0} ^^ n) s u" "aac_internal {0} u s'" by auto
    with Suc.IH have "aac_reachable {0} u" "aac_rank u + n \<le> aac_rank s" by blast+
    moreover from this u(2) have "aac_reachable {0} s'"
      unfolding aac_reachable_def using aac_step.internal by (metis rtranclp.rtrancl_into_rtrancl)
    ultimately show ?case using aac_rank_decreases [OF u(2)] solo_reachable [of u] by simp
  qed
  have "n \<le> 15 \<and> ((\<nexists>s''. aac_internal {0} s' s'') \<longrightarrow> main_thread s' = M_Idle \<and>
      (requesters s' 0 = R_Idle \<or> requesters s' 0 = R_Waiting \<and> m_mainMessage s' = MTM_WAIT))"
    if "(aac_internal {0} ^^ n) s s'" for n s'
  proof -
    note r = rank [OF that]
    then have "n \<le> 15" using aac_rank_bound [of s] by linarith
    with r solo_quiescent [OF solo_reachable] show ?thesis by blast
  qed
  moreover have "\<not> assert_failed s" "requesters s 0 = R_Granted \<longrightarrow> m_rts s \<and> m_currentRequestThread s = Some 0"
    using solo_reachable [OF assms] by (auto simp: solo_def)
  ultimately show ?thesis by blast
qed

theorem requests_complete_witness:
  "\<not> (\<exists>s'. (aac_internal {0} ^^ 16) AsyncAccessControl_create s')"
proof -
  have "aac_reachable {0} AsyncAccessControl_create" by (simp add: aac_reachable_def)
  from requests_complete [OF this] show ?thesis by fastforce
qed

end
