(* ===== verification/Type_Pack.thy ===== *)
theory Type_Pack
  imports Osvr_Prelude
begin

text \<open>
  The compile-time lists of \<^verbatim>\<open>inc/osvr/TypePack\<close>, as functions on lists of types (the type \<open>'k\<close>
  stands for C++ types, a Boolean metafunction for its \<^verbatim>\<open>value\<close>), and the two containers built
  on them, whose elements are found by the position of their key in a key list:
  \<^verbatim>\<open>TypeKeyedTuple\<close> and \<^verbatim>\<open>TypeKeyedMap\<close>. A program that asks for a key that is not in the list
  does not compile; there the functions are \<open>None\<close>.
\<close>

subsection \<open>Lists\<close>

fun tp_head :: "'k list \<Rightarrow> 'k option" where
  "tp_head [] = None"
| "tp_head (t # ts) = Some t"

fun tp_tail :: "'k list \<Rightarrow> 'k list" where
  "tp_tail [] = []"
| "tp_tail (t # ts) = ts"

definition push_back :: "'k list \<Rightarrow> 'k \<Rightarrow> 'k list" where
  "push_back ts t = ts @ [t]"

definition push_front :: "'k list \<Rightarrow> 'k \<Rightarrow> 'k list" where
  "push_front ts t = t # ts"

fun tp_concat :: "'k list list \<Rightarrow> 'k list" where
  "tp_concat [] = []"
| "tp_concat [l1] = l1"
| "tp_concat [l1, l2] = l1 @ l2"
| "tp_concat [l1, l2, l3] = l1 @ l2 @ l3"
| "tp_concat (l1 # l2 # l3 # rest) = tp_concat ((l1 @ l2 @ l3) # rest)"

definition tp_transform :: "'k list \<Rightarrow> ('k \<Rightarrow> 'v) \<Rightarrow> 'v list" where
  "tp_transform ts f = map f ts"

fun and_impl :: "bool list \<Rightarrow> bool" where
  "and_impl [] = True"
| "and_impl (b # bs) = (if \<not> b then False else and_impl bs)"

fun or_impl :: "bool list \<Rightarrow> bool" where
  "or_impl [] = False"
| "or_impl (b # bs) = (if b then True else or_impl bs)"

definition tp_contains :: "'k list \<Rightarrow> 'k \<Rightarrow> bool" where
  "tp_contains haystack needle = or_impl (tp_transform haystack (\<lambda>elt. needle = elt))"

fun find_first_impl :: "'k \<Rightarrow> nat \<Rightarrow> 'k list \<Rightarrow> nat option" where
  "find_first_impl needle i [] = None"
| "find_first_impl needle i (t # ts) = (if t = needle then Some i else find_first_impl needle (i + 1) ts)"

definition find_first :: "'k list \<Rightarrow> 'k \<Rightarrow> nat option" where
  "find_first ts needle = find_first_impl needle 0 ts"

function tp_fold :: "'k list \<Rightarrow> 's \<Rightarrow> ('s \<Rightarrow> 'k \<Rightarrow> 's) \<Rightarrow> 's" where
  "tp_fold ts s f = (case tp_head ts of None \<Rightarrow> s | Some t \<Rightarrow> tp_fold (tp_tail ts) (f s t) f)"
  by pat_completeness auto
termination
proof (relation "measure (\<lambda>(ts, s, f). length ts)")
  show "tp_head ts = Some t \<Longrightarrow> ((tp_tail ts, f s t, f), ts, s, f) \<in> measure (\<lambda>(ts, s, f). length ts)"
    for ts :: "'k list" and t s and f :: "'s \<Rightarrow> 'k \<Rightarrow> 's"
    by (cases ts) simp_all
qed simp

declare tp_fold.simps [simp del]

text \<open>
  \<^verbatim>\<open>compose\<close> applies its metafunctions from the last to the first; without any it has no
  \<^verbatim>\<open>apply\<close>.
\<close>

fun tp_compose :: "('k \<Rightarrow> 'k) list \<Rightarrow> 'k \<Rightarrow> 'k option" where
  "tp_compose [] t = None"
| "tp_compose [f] t = Some (f t)"
| "tp_compose (f # fs) t = map_option f (tp_compose fs t)"

lemma tp_compose_foldr: "fs \<noteq> [] \<Longrightarrow> tp_compose fs t = Some (foldr (\<lambda>f. f) fs t)"
  by (induction fs t rule: tp_compose.induct) simp_all

lemma tp_concat_concat: "tp_concat ls = concat ls"
  by (induction ls rule: tp_concat.induct) simp_all

lemma tp_fold_foldl: "tp_fold ts s f = foldl f s ts"
  by (induction ts arbitrary: s) (subst tp_fold.simps, simp)+

lemma and_impl_all: "and_impl bs \<longleftrightarrow> (\<forall>b\<in>set bs. b)"
  by (induction bs) auto

lemma or_impl_ex: "or_impl bs \<longleftrightarrow> (\<exists>b\<in>set bs. b)"
  by (induction bs) auto

lemma tp_contains_iff [simp]: "tp_contains ts k \<longleftrightarrow> k \<in> set ts"
  by (auto simp: tp_contains_def tp_transform_def or_impl_ex)

lemma find_first_impl_shift: "find_first_impl k (n + i) ts = map_option ((+) n) (find_first_impl k i ts)"
  by (induction ts arbitrary: i) (auto simp: add.assoc simp flip: add_Suc_right)

lemma find_first_Cons:
  "find_first (t # ts) k = (if t = k then Some 0 else map_option Suc (find_first ts k))"
proof -
  have "(+) (Suc 0) = Suc" by (rule ext) simp
  with find_first_impl_shift [of k 1 0 ts] show ?thesis by (simp add: find_first_def)
qed

lemma find_first_spec:
  "find_first ts k = Some i \<longleftrightarrow> i < length ts \<and> ts ! i = k \<and> (\<forall>j<i. ts ! j \<noteq> k)"
proof (induction ts arbitrary: i)
  case Nil
  then show ?case by (simp add: find_first_def)
next
  case (Cons t ts)
  show ?case
  proof (cases i)
    case 0
    then show ?thesis by (auto simp: find_first_Cons)
  next
    case (Suc n)
    then show ?thesis using Cons.IH [of n] by (auto simp: find_first_Cons All_less_Suc2)
  qed
qed

lemma find_first_None: "find_first ts k = None \<longleftrightarrow> k \<notin> set ts"
  by (induction ts) (simp add: find_first_def, auto simp: find_first_Cons)

subsection \<open>Containers keyed by types\<close>

text \<open>
  The nested container has one element per entry of the key list, also when a key is listed
  twice: such an element is never reached.
\<close>

definition typekeyed_create :: "'k list \<Rightarrow> ('k \<Rightarrow> 'v) \<Rightarrow> 'v list" where
  "typekeyed_create keys initial = tp_transform keys initial"

definition typekeyed_get :: "'k list \<Rightarrow> 'v list \<Rightarrow> 'k \<Rightarrow> 'v option" where
  "typekeyed_get keys c k = map_option (\<lambda>i. c ! i) (find_first keys k)"

definition typekeyed_set :: "'k list \<Rightarrow> 'v list \<Rightarrow> 'k \<Rightarrow> 'v \<Rightarrow> 'v list" where
  "typekeyed_set keys c k v = (case find_first keys k of None \<Rightarrow> c | Some i \<Rightarrow> c[i := v])"

lemma length_typekeyed_set [simp]: "length (typekeyed_set keys c k v) = length c"
  by (simp add: typekeyed_set_def split: option.split)

lemma length_typekeyed_create [simp]: "length (typekeyed_create keys f) = length keys"
  by (simp add: typekeyed_create_def tp_transform_def)

text \<open>Whatever the key list, the container behaves as a map from its keys.\<close>

lemma typekeyed_get_create:
  "typekeyed_get keys (typekeyed_create keys f) k = (if k \<in> set keys then Some (f k) else None)"
  by (cases "find_first keys k")
    (auto simp: typekeyed_get_def typekeyed_create_def tp_transform_def find_first_spec find_first_None)

lemma typekeyed_get_set:
  assumes "length c = length keys"
  shows "typekeyed_get keys (typekeyed_set keys c k v) k' =
    (if k' = k \<and> k \<in> set keys then Some v else typekeyed_get keys c k')"
proof (cases "find_first keys k")
  case None
  then have "k \<notin> set keys" by (simp add: find_first_None)
  with None show ?thesis by (simp add: typekeyed_get_def typekeyed_set_def)
next
  case (Some i)
  then have i: "i < length keys" "keys ! i = k" "k \<in> set keys" by (auto simp: find_first_spec)
  show ?thesis
  proof (cases "find_first keys k'")
    case None
    then have "k' \<noteq> k" using Some by auto
    with None show ?thesis by (simp add: typekeyed_get_def)
  next
    case s: (Some j)
    then have "keys ! j = k'" by (simp add: find_first_spec)
    then have "k' = k \<longleftrightarrow> i = j" using i(2) Some s by (metis option.inject)
    moreover have "typekeyed_get keys (typekeyed_set keys c k v) k' = Some (c[i := v] ! j)"
      "typekeyed_get keys c k' = Some (c ! j)"
      by (simp_all add: typekeyed_get_def typekeyed_set_def Some s)
    ultimately show ?thesis using i(1,3) assms by (cases "i = j") simp_all
  qed
qed

end
