(* ===== verification/Interface_State.thy ===== *)
theory Interface_State
  imports Messages Time_Value Type_Pack
begin

text \<open>
  What a client interface keeps of the reports that reach it: the report types
  (\<^verbatim>\<open>inc/osvr/Util/ClientReportTypesC.h\<close>, \<^verbatim>\<open>inc/osvr/Common/ReportTypes.h\<close>,
  \<^verbatim>\<open>ReportState.h\<close>), the newest state per type (\<^verbatim>\<open>InterfaceState.h\<close>), the callbacks
  (\<^verbatim>\<open>InterfaceCallbacks.h\<close>), the interface object (\<^verbatim>\<open>ClientInterface.h\<close>) and the delivery of
  a report to all interfaces of a path (\<^verbatim>\<open>RemoteHandlerInternals.h\<close>).

  A double is its 64-bit pattern: reports are only copied here.
\<close>

subsection \<open>Reports\<close>

record OSVR_Quaternion =
  quat_0 :: u64
  quat_1 :: u64
  quat_2 :: u64
  quat_3 :: u64

record OSVR_Pose3 =
  translation :: OSVR_Vec3
  rotation :: OSVR_Quaternion

record OSVR_IncrementalQuaternion =
  incrementalRotation :: OSVR_Quaternion
  iq_dt :: u64

record OSVR_VelocityState =
  linearVelocity :: OSVR_Vec3
  linearVelocityValid :: bool
  angularVelocity :: OSVR_IncrementalQuaternion
  angularVelocityValid :: bool

record OSVR_AccelerationState =
  linearAcceleration :: OSVR_Vec3
  linearAccelerationValid :: bool
  angularAcceleration :: OSVR_IncrementalQuaternion
  angularAccelerationValid :: bool

record OSVR_EyeTracker3DState =
  directionValid :: bool
  gaze_direction :: OSVR_Vec3
  basePointValid :: bool
  basePoint :: OSVR_Vec3

text \<open>The report structures: each has its sensor and its state.\<close>

datatype Report =
    AnalogReport u32 u64
  | ButtonReport u32 u8
  | PoseReport u32 OSVR_Pose3
  | PositionReport u32 OSVR_Vec3
  | OrientationReport u32 OSVR_Quaternion
  | VelocityReport u32 OSVR_VelocityState
  | LinearVelocityReport u32 OSVR_Vec3
  | AngularVelocityReport u32 OSVR_IncrementalQuaternion
  | AccelerationReport u32 OSVR_AccelerationState
  | LinearAccelerationReport u32 OSVR_Vec3
  | AngularAccelerationReport u32 OSVR_IncrementalQuaternion
  | ImagingReport u32 ImageData
  | Location2DReport u32 OSVR_Vec2
  | DirectionReport u32 OSVR_Vec3
  | EyeTracker2DReport u32 OSVR_Vec2
  | EyeTracker3DReport u32 OSVR_EyeTracker3DState
  | EyeTrackerBlinkReport u32 u8
  | NaviVelocityReport u32 OSVR_Vec2
  | NaviPositionReport u32 OSVR_Vec2

datatype ReportType =
    T_Analog | T_Button | T_Pose | T_Position | T_Orientation | T_Velocity | T_LinearVelocity
  | T_AngularVelocity | T_Acceleration | T_LinearAcceleration | T_AngularAcceleration | T_Imaging
  | T_Location2D | T_Direction | T_EyeTracker2D | T_EyeTracker3D | T_EyeTrackerBlink
  | T_NaviVelocity | T_NaviPosition

datatype ReportState =
    AnalogState u64
  | ButtonState u8
  | PoseState OSVR_Pose3
  | PositionState OSVR_Vec3
  | OrientationState OSVR_Quaternion
  | VelocityState OSVR_VelocityState
  | LinearVelocityState OSVR_Vec3
  | AngularVelocityState OSVR_IncrementalQuaternion
  | AccelerationState OSVR_AccelerationState
  | LinearAccelerationState OSVR_Vec3
  | AngularAccelerationState OSVR_IncrementalQuaternion
  | ImagingState ImageData
  | Location2DState OSVR_Vec2
  | DirectionState OSVR_Vec3
  | EyeTracker2DState OSVR_Vec2
  | EyeTracker3DState OSVR_EyeTracker3DState
  | EyeTrackerBlinkState u8
  | NaviVelocityState OSVR_Vec2
  | NaviPositionState OSVR_Vec2

text \<open>The list names the imaging report twice.\<close>

definition ReportTypeList :: "ReportType list" where
  "ReportTypeList =
     [T_Analog, T_Button, T_Pose, T_Position, T_Orientation, T_Velocity, T_LinearVelocity,
      T_AngularVelocity, T_Acceleration, T_LinearAcceleration, T_AngularAcceleration, T_Imaging,
      T_Imaging, T_Location2D, T_Direction, T_EyeTracker2D, T_EyeTracker3D, T_EyeTrackerBlink,
      T_NaviVelocity, T_NaviPosition]"

lemma ReportTypeList_all [simp]: "ty \<in> set ReportTypeList"
  by (cases ty) (simp_all add: ReportTypeList_def)

fun report_type :: "Report \<Rightarrow> ReportType" where
  "report_type (AnalogReport s x) = T_Analog"
| "report_type (ButtonReport s b) = T_Button"
| "report_type (PoseReport s p) = T_Pose"
| "report_type (PositionReport s v) = T_Position"
| "report_type (OrientationReport s q) = T_Orientation"
| "report_type (VelocityReport s vs) = T_Velocity"
| "report_type (LinearVelocityReport s v) = T_LinearVelocity"
| "report_type (AngularVelocityReport s iq) = T_AngularVelocity"
| "report_type (AccelerationReport s as) = T_Acceleration"
| "report_type (LinearAccelerationReport s v) = T_LinearAcceleration"
| "report_type (AngularAccelerationReport s iq) = T_AngularAcceleration"
| "report_type (ImagingReport s i) = T_Imaging"
| "report_type (Location2DReport s v2) = T_Location2D"
| "report_type (DirectionReport s v) = T_Direction"
| "report_type (EyeTracker2DReport s v2) = T_EyeTracker2D"
| "report_type (EyeTracker3DReport s es) = T_EyeTracker3D"
| "report_type (EyeTrackerBlinkReport s b) = T_EyeTrackerBlink"
| "report_type (NaviVelocityReport s v2) = T_NaviVelocity"
| "report_type (NaviPositionReport s v2) = T_NaviPosition"

fun reportState :: "Report \<Rightarrow> ReportState" where
  "reportState (AnalogReport s x) = AnalogState x"
| "reportState (ButtonReport s b) = ButtonState b"
| "reportState (PoseReport s p) = PoseState p"
| "reportState (PositionReport s v) = PositionState v"
| "reportState (OrientationReport s q) = OrientationState q"
| "reportState (VelocityReport s vs) = VelocityState vs"
| "reportState (LinearVelocityReport s v) = LinearVelocityState v"
| "reportState (AngularVelocityReport s iq) = AngularVelocityState iq"
| "reportState (AccelerationReport s as) = AccelerationState as"
| "reportState (LinearAccelerationReport s v) = LinearAccelerationState v"
| "reportState (AngularAccelerationReport s iq) = AngularAccelerationState iq"
| "reportState (ImagingReport s i) = ImagingState i"
| "reportState (Location2DReport s v2) = Location2DState v2"
| "reportState (DirectionReport s v) = DirectionState v"
| "reportState (EyeTracker2DReport s v2) = EyeTracker2DState v2"
| "reportState (EyeTracker3DReport s es) = EyeTracker3DState es"
| "reportState (EyeTrackerBlinkReport s b) = EyeTrackerBlinkState b"
| "reportState (NaviVelocityReport s v2) = NaviVelocityState v2"
| "reportState (NaviPositionReport s v2) = NaviPositionState v2"

definition KeepStateForReport :: "ReportType \<Rightarrow> bool" where
  "KeepStateForReport ty \<longleftrightarrow> ty \<noteq> T_Imaging"

subsection \<open>State\<close>

record StateMapContents =
  smc_state :: ReportState
  smc_timestamp :: OSVR_TimeValue

record InterfaceState =
  m_states :: "StateMapContents option list"
  m_hasState :: bool

definition InterfaceState_create :: InterfaceState where
  "InterfaceState_create = \<lparr>m_states = typekeyed_create ReportTypeList (\<lambda>_. None), m_hasState = False\<rparr>"

definition state_at :: "ReportType \<Rightarrow> InterfaceState \<Rightarrow> StateMapContents option" where
  "state_at ty s = (case typekeyed_get ReportTypeList (m_states s) ty of None \<Rightarrow> None | Some c \<Rightarrow> c)"

definition hasState :: "ReportType \<Rightarrow> InterfaceState \<Rightarrow> bool" where
  "hasState ty s \<longleftrightarrow> m_hasState s \<and> state_at ty s \<noteq> None"

definition hasAnyState :: "InterfaceState \<Rightarrow> bool" where
  "hasAnyState s = m_hasState s"

definition setStateFromReport :: "OSVR_TimeValue \<Rightarrow> Report \<Rightarrow> InterfaceState \<Rightarrow> InterfaceState" where
  "setStateFromReport timestamp report s =
     (if hasState (report_type report) s \<and>
         osvrTimeValueGreater (map_option smc_timestamp (state_at (report_type report) s)) (Some timestamp)
      then s
      else \<lparr>m_states = typekeyed_set ReportTypeList (m_states s) (report_type report)
              (Some \<lparr>smc_state = reportState report, smc_timestamp = timestamp\<rparr>),
            m_hasState = True\<rparr>)"

definition getState :: "ReportType \<Rightarrow> InterfaceState \<Rightarrow> (OSVR_TimeValue \<times> ReportState) option" where
  "getState ty s =
     (if hasState ty s then map_option (\<lambda>c. (smc_timestamp c, smc_state c)) (state_at ty s) else None)"

subsection \<open>Callbacks and the interface object\<close>

text \<open>
  A callback is a function with its user data. Calling one is an entry in the sequence of calls:
  the callback, the timestamp and the report.
\<close>

type_synonym 'cb InterfaceCallbacks = "'cb list list"
type_synonym 'cb report_calls = "('cb \<times> OSVR_TimeValue \<times> Report) list"
type_synonym report_list = "(OSVR_TimeValue \<times> Report) list"

definition InterfaceCallbacks_create :: "'cb InterfaceCallbacks" where
  "InterfaceCallbacks_create = typekeyed_create ReportTypeList (\<lambda>_. [])"

definition callbacks_at :: "ReportType \<Rightarrow> 'cb InterfaceCallbacks \<Rightarrow> 'cb list" where
  "callbacks_at ty cbs = (case typekeyed_get ReportTypeList cbs ty of None \<Rightarrow> [] | Some fs \<Rightarrow> fs)"

definition addCallback :: "ReportType \<Rightarrow> 'cb \<Rightarrow> 'cb InterfaceCallbacks \<Rightarrow> 'cb InterfaceCallbacks" where
  "addCallback ty cb cbs = typekeyed_set ReportTypeList cbs ty (callbacks_at ty cbs @ [cb])"

definition triggerCallbacks :: "OSVR_TimeValue \<Rightarrow> Report \<Rightarrow> 'cb InterfaceCallbacks \<Rightarrow> 'cb report_calls" where
  "triggerCallbacks timestamp report cbs =
     map (\<lambda>f. (f, timestamp, report)) (callbacks_at (report_type report) cbs)"

definition getNumCallbacksFor :: "Report \<Rightarrow> 'cb InterfaceCallbacks \<Rightarrow> nat" where
  "getNumCallbacksFor report cbs = length (callbacks_at (report_type report) cbs)"

record 'cb ClientInterface =
  ci_path :: string
  ci_callbacks :: "'cb InterfaceCallbacks"
  ci_state :: InterfaceState

definition ClientInterface_create :: "string \<Rightarrow> 'cb ClientInterface" where
  "ClientInterface_create path =
     \<lparr>ci_path = path, ci_callbacks = InterfaceCallbacks_create, ci_state = InterfaceState_create\<rparr>"

text \<open>\<^verbatim>\<open>ClientInterface::getState\<close>: the state, or false and the arguments left as they are.\<close>

definition iface_getState :: "ReportType \<Rightarrow> 'cb ClientInterface \<Rightarrow> (OSVR_TimeValue \<times> ReportState) option" where
  "iface_getState ty iface = (if \<not> hasState ty (ci_state iface) then None else getState ty (ci_state iface))"

definition iface_setState :: "OSVR_TimeValue \<Rightarrow> Report \<Rightarrow> 'cb ClientInterface \<Rightarrow> 'cb ClientInterface" where
  "iface_setState timestamp report iface =
     iface\<lparr>ci_state := setStateFromReport timestamp report (ci_state iface)\<rparr>"

definition registerCallback :: "ReportType \<Rightarrow> 'cb \<Rightarrow> 'cb ClientInterface \<Rightarrow> 'cb ClientInterface" where
  "registerCallback ty cb iface = iface\<lparr>ci_callbacks := addCallback ty cb (ci_callbacks iface)\<rparr>"

subsection \<open>Delivery\<close>

text \<open>
  The interfaces are objects in a store; a path's list of interfaces holds their addresses. The
  calls made are those of a run in which no callback registers or releases an interface.
\<close>

type_synonym 'cb iface_store = "nat \<Rightarrow> 'cb ClientInterface"

fun forEachInterface ::
    "('cb ClientInterface \<Rightarrow> 'cb ClientInterface \<times> 'cb report_calls) \<Rightarrow> nat list
     \<Rightarrow> 'cb iface_store \<times> 'cb report_calls \<Rightarrow> 'cb iface_store \<times> 'cb report_calls" where
  "forEachInterface f [] world = world"
| "forEachInterface f (i # is) (store, calls) =
     (case f (store i) of (iface, cs) \<Rightarrow> forEachInterface f is (store(i := iface), calls @ cs))"

definition setStateAndTriggerCallbacks ::
    "nat list \<Rightarrow> OSVR_TimeValue \<Rightarrow> Report \<Rightarrow> 'cb iface_store \<times> 'cb report_calls
     \<Rightarrow> 'cb iface_store \<times> 'cb report_calls" where
  "setStateAndTriggerCallbacks ifaces timestamp report =
     forEachInterface
       (\<lambda>iface. let iface' = iface_setState timestamp report iface
                in (iface', triggerCallbacks timestamp report (ci_callbacks iface')))
       ifaces"

subsection \<open>The newest report wins\<close>

definition iface_ok :: "'cb ClientInterface \<Rightarrow> bool" where
  "iface_ok iface \<longleftrightarrow> length (m_states (ci_state iface)) = length ReportTypeList \<and>
     length (ci_callbacks iface) = length ReportTypeList \<and>
     (\<forall>ty. state_at ty (ci_state iface) \<noteq> None \<longrightarrow> m_hasState (ci_state iface))"

lemma callbacks_add:
  "length cbs = length ReportTypeList \<Longrightarrow>
     callbacks_at ty (addCallback ty' cb cbs) = callbacks_at ty cbs @ (if ty = ty' then [cb] else [])"
  by (simp add: addCallback_def callbacks_at_def typekeyed_get_set)

lemma state_at_set:
  assumes "length (m_states s) = length ReportTypeList"
  shows "state_at ty (setStateFromReport timestamp report s) =
    (if ty = report_type report \<and> \<not> (hasState ty s \<and>
          osvrTimeValueGreater (map_option smc_timestamp (state_at ty s)) (Some timestamp))
     then Some \<lparr>smc_state = reportState report, smc_timestamp = timestamp\<rparr>
     else state_at ty s)"
  using assms by (auto simp: setStateFromReport_def state_at_def typekeyed_get_set)

lemma iface_ok_create: "iface_ok (ClientInterface_create path)"
  by (simp add: iface_ok_def ClientInterface_create_def InterfaceState_create_def InterfaceCallbacks_create_def
      state_at_def typekeyed_get_create)

lemma iface_ok_register: "iface_ok iface \<Longrightarrow> iface_ok (registerCallback ty cb iface)"
  by (simp add: iface_ok_def registerCallback_def addCallback_def)

lemma iface_ok_setState: "iface_ok iface \<Longrightarrow> iface_ok (iface_setState timestamp report iface)"
  by (auto simp: iface_ok_def iface_setState_def state_at_set setStateFromReport_def)

text \<open>A report as the newest of a history: nothing later in time, and last among equals.\<close>

definition newest_of :: "(OSVR_TimeValue \<times> Report) list \<Rightarrow> OSVR_TimeValue \<Rightarrow> Report \<Rightarrow> bool" where
  "newest_of rs t r \<longleftrightarrow> (\<exists>before after. rs = before @ (t, r) # after \<and>
     (\<forall>(u, q)\<in>set before. tv_usec_total u \<le> tv_usec_total t) \<and>
     (\<forall>(u, q)\<in>set after. tv_usec_total u < tv_usec_total t))"

lemma newest_append:
  assumes "newest_of rs t r"
  shows "newest_of (rs @ [(u, q)]) (if tv_usec_total u < tv_usec_total t then t else u)
    (if tv_usec_total u < tv_usec_total t then r else q)"
proof (cases "tv_usec_total u < tv_usec_total t")
  case True
  with assms show ?thesis by (force simp: newest_of_def)
next
  case False
  from assms obtain before after where ba: "rs = before @ (t, r) # after"
      "\<forall>(u, q)\<in>set before. tv_usec_total u \<le> tv_usec_total t"
      "\<forall>(u, q)\<in>set after. tv_usec_total u < tv_usec_total t"
    unfolding newest_of_def by blast
  then have "\<forall>(v, q)\<in>set rs. tv_usec_total v \<le> tv_usec_total u" using False by fastforce
  with False show ?thesis unfolding newest_of_def by (intro exI [of _ rs] exI [of _ "[]"]) simp
qed

definition of_type :: "ReportType \<Rightarrow> (OSVR_TimeValue \<times> Report) list \<Rightarrow> (OSVR_TimeValue \<times> Report) list" where
  "of_type ty rs = filter (\<lambda>(t, r). report_type r = ty) rs"

definition deliver_all ::
    "nat list \<Rightarrow> (OSVR_TimeValue \<times> Report) list \<Rightarrow> 'cb iface_store \<times> 'cb report_calls \<Rightarrow> 'cb iface_store \<times> 'cb report_calls" where
  "deliver_all ifaces rs world = foldl (\<lambda>w (t, r). setStateAndTriggerCallbacks ifaces t r w) world rs"

lemma forEach_distinct:
  assumes "distinct is"
  shows "fst (forEachInterface f is (store, calls)) = (\<lambda>i. if i \<in> set is then fst (f (store i)) else store i) \<and>
    snd (forEachInterface f is (store, calls)) = calls @ concat (map (\<lambda>i. snd (f (store i))) is)"
  using assms
proof (induction "is" arbitrary: store calls)
  case Nil
  then show ?case by simp
next
  case (Cons i "is")
  obtain iface cs where f: "f (store i) = (iface, cs)" by fastforce
  have same: "map (\<lambda>j. snd (f (if j = i then iface else store j))) is = map (\<lambda>j. snd (f (store j))) is"
    using Cons.prems by (intro map_cong) auto
  from Cons f show ?case by (auto simp: same fun_eq_iff)
qed

lemma deliver_one:
  assumes "distinct ifaces"
  shows "setStateAndTriggerCallbacks ifaces t r (store, calls) =
    (\<lambda>i. if i \<in> set ifaces then iface_setState t r (store i) else store i,
     calls @ concat (map (\<lambda>i. triggerCallbacks t r (ci_callbacks (store i))) ifaces))"
  using forEach_distinct [OF assms, of _ store calls]
  by (auto simp: setStateAndTriggerCallbacks_def Let_def iface_setState_def prod_eq_iff)

lemma deliver_all_spec:
  assumes "distinct ifaces" and "\<forall>i\<in>set ifaces. iface_ok (store i) \<and> \<not> hasAnyState (ci_state (store i))"
    and "\<forall>(t, r)\<in>set rs. tv_canonical t"
  shows "case deliver_all ifaces rs (store, calls) of (store', calls') \<Rightarrow>
    (\<forall>i. i \<notin> set ifaces \<longrightarrow> store' i = store i) \<and>
    (\<forall>i\<in>set ifaces. iface_ok (store' i) \<and> ci_callbacks (store' i) = ci_callbacks (store i) \<and>
      (\<forall>ty. case iface_getState ty (store' i) of
         None \<Rightarrow> of_type ty rs = []
       | Some (t, st) \<Rightarrow> \<exists>r. newest_of (of_type ty rs) t r \<and> st = reportState r \<and> tv_canonical t)) \<and>
    calls' = calls @ concat (map (\<lambda>(t, r). concat (map (\<lambda>i. triggerCallbacks t r (ci_callbacks (store i))) ifaces)) rs)"
  using assms(3)
proof (induction rs rule: rev_induct)
  case Nil
  have "state_at ty (ci_state (store i)) = None" if "i \<in> set ifaces" for i ty
    using assms(2) that by (auto simp: iface_ok_def hasAnyState_def)
  then show ?case
    using assms(2) by (auto simp: deliver_all_def iface_getState_def hasState_def of_type_def)
next
  case (snoc tr rs)
  obtain t r where tr: "tr = (t, r)" by fastforce
  obtain s1 c1 where s1: "deliver_all ifaces rs (store, calls) = (s1, c1)" by fastforce
  have can: "tv_canonical t" using snoc.prems tr by simp
  note IH = snoc.IH [unfolded s1 prod.case]
  have rs: "\<forall>(t, r)\<in>set rs. tv_canonical t" using snoc.prems by simp
  from IH [OF rs] have out: "\<forall>i. i \<notin> set ifaces \<longrightarrow> s1 i = store i" and
    inn: "\<forall>i\<in>set ifaces. iface_ok (s1 i) \<and> ci_callbacks (s1 i) = ci_callbacks (store i) \<and>
      (\<forall>ty. case iface_getState ty (s1 i) of
         None \<Rightarrow> of_type ty rs = []
       | Some (t, st) \<Rightarrow> \<exists>r. newest_of (of_type ty rs) t r \<and> st = reportState r \<and> tv_canonical t)" and
    cs: "c1 = calls @ concat (map (\<lambda>(t, r). concat (map (\<lambda>i. triggerCallbacks t r (ci_callbacks (store i))) ifaces)) rs)"
    by blast+
  have step: "deliver_all ifaces (rs @ [tr]) (store, calls) =
      (\<lambda>i. if i \<in> set ifaces then iface_setState t r (s1 i) else s1 i,
       c1 @ concat (map (\<lambda>i. triggerCallbacks t r (ci_callbacks (s1 i))) ifaces))"
    using s1 by (simp add: deliver_all_def tr deliver_one [OF assms(1)])
  have cbs: "map (\<lambda>i. triggerCallbacks t r (ci_callbacks (s1 i))) ifaces =
      map (\<lambda>i. triggerCallbacks t r (ci_callbacks (store i))) ifaces"
    using inn by (intro map_cong) auto
  have new: "case iface_getState ty (iface_setState t r (s1 i)) of
         None \<Rightarrow> of_type ty (rs @ [tr]) = []
       | Some (t, st) \<Rightarrow> \<exists>r. newest_of (of_type ty (rs @ [tr])) t r \<and> st = reportState r \<and> tv_canonical t"
    if i: "i \<in> set ifaces" for i ty
  proof -
    note h = bspec [OF inn i]
    then have ok: "iface_ok (s1 i)" by blast
    from h have get: "case iface_getState ty (s1 i) of
         None \<Rightarrow> of_type ty rs = []
       | Some (t, st) \<Rightarrow> \<exists>r. newest_of (of_type ty rs) t r \<and> st = reportState r \<and> tv_canonical t" by blast
    have at: "state_at ty (ci_state (iface_setState t r (s1 i))) =
      (if ty = report_type r \<and> \<not> (hasState ty (ci_state (s1 i)) \<and>
          osvrTimeValueGreater (map_option smc_timestamp (state_at ty (ci_state (s1 i)))) (Some t))
       then Some \<lparr>smc_state = reportState r, smc_timestamp = t\<rparr>
       else state_at ty (ci_state (s1 i)))"
      using ok by (simp add: iface_setState_def state_at_set iface_ok_def)
    have any: "m_hasState (ci_state (iface_setState t r (s1 i)))"
      by (auto simp: iface_setState_def setStateFromReport_def hasState_def)
    have gets: "iface_getState ty (iface_setState t r (s1 i)) =
        map_option (\<lambda>c. (smc_timestamp c, smc_state c)) (state_at ty (ci_state (iface_setState t r (s1 i))))"
      using any by (simp add: iface_getState_def getState_def hasState_def)
    have get1: "iface_getState ty (s1 i) = map_option (\<lambda>c. (smc_timestamp c, smc_state c)) (state_at ty (ci_state (s1 i)))"
      using ok by (auto simp: iface_getState_def getState_def hasState_def iface_ok_def)
    show ?thesis
    proof (cases "ty = report_type r")
      case False
      then have "of_type ty (rs @ [tr]) = of_type ty rs" by (simp add: of_type_def tr)
      with False gets at get1 get show ?thesis by (cases "state_at ty (ci_state (s1 i))") simp_all
    next
      case True
      then have app: "of_type ty (rs @ [tr]) = of_type ty rs @ [(t, r)]" by (simp add: of_type_def tr)
      show ?thesis
      proof (cases "state_at ty (ci_state (s1 i))")
        case None
        with get get1 have "of_type ty rs = []" by simp
        with app have "newest_of (of_type ty (rs @ [tr])) t r"
          unfolding newest_of_def by (intro exI [of _ "[]"]) simp
        with gets at None True can show ?thesis by (auto simp: hasState_def)
      next
        case (Some c)
        with get get1 obtain r0 where r0: "newest_of (of_type ty rs) (smc_timestamp c) r0" "smc_state c = reportState r0"
          "tv_canonical (smc_timestamp c)" by auto
        have has: "hasState ty (ci_state (s1 i))" using Some ok by (auto simp: hasState_def iface_ok_def)
        have gr: "osvrTimeValueGreater (Some (smc_timestamp c)) (Some t) \<longleftrightarrow> tv_usec_total t < tv_usec_total (smc_timestamp c)"
          using canonical_total_less [OF can r0(3)] by (auto simp: osvrTimeValueGreater_def)
        note na = newest_append [OF r0(1), of t r]
        show ?thesis
          using gets at Some True has gr na app r0 can by (cases "tv_usec_total t < tv_usec_total (smc_timestamp c)") auto
      qed
    qed
  qed
  have callbacks_kept: "ci_callbacks (iface_setState t r iface) = ci_callbacks iface" for iface :: "'a ClientInterface"
    by (simp add: iface_setState_def)
  have oks: "\<forall>i\<in>set ifaces. iface_ok (iface_setState t r (s1 i))" using inn iface_ok_setState by blast
  show ?case
    unfolding step prod.case using out inn new cs arg_cong [OF cbs, of concat] callbacks_kept oks tr by simp
qed



end
