(* ===== verification/Client_Interfaces.thy ===== *)
theory Client_Interfaces
  imports Tree_Sync Interface_State
begin

text \<open>
  The interfaces a client has opened and the handlers that feed them: the tree of interfaces
  (\<^verbatim>\<open>src/osvr/Client/InterfaceTree.cpp\<close>), the container of handlers
  (\<^verbatim>\<open>inc/osvr/Client/HandlerContainer.h\<close>), the factory (\<^verbatim>\<open>RemoteHandlerFactory.h\<close>), the
  manager that connects the paths of the interfaces when they are opened and when the server has
  sent a new path tree (\<^verbatim>\<open>ClientInterfaceObjectManager.cpp\<close>), and the client context that
  owns the interfaces (\<^verbatim>\<open>src/osvr/Common/ClientContext.cpp\<close>).

  An interface is known by its address, a handler by its address and what it was made of
  (\<open>'k\<close>); handlers get fresh addresses.
\<close>

subsection \<open>Unique containers\<close>

definition unique_contains :: "'a list \<Rightarrow> 'a \<Rightarrow> bool" where
  "unique_contains c v \<longleftrightarrow> v \<in> set c"

text \<open>Both operations report whether they changed the container.\<close>

definition unique_insert :: "'a \<Rightarrow> 'a list \<Rightarrow> 'a list \<times> bool" where
  "unique_insert v c = (if \<not> unique_contains c v then (c @ [v], True) else (c, False))"

definition unique_remove :: "'a \<Rightarrow> 'a list \<Rightarrow> 'a list \<times> bool" where
  "unique_remove v c = (if unique_contains c v then (remove1 v c, True) else (c, False))"

lemma unique_remove_eq: "fst (unique_remove v c) = remove1 v c"
  by (simp add: unique_remove_def unique_contains_def remove1_idem)

type_synonym 'k RemoteHandler = "nat \<times> 'k"

definition hc_add :: "'k RemoteHandler option \<Rightarrow> 'k RemoteHandler list \<Rightarrow> 'k RemoteHandler list" where
  "hc_add handler hs = (case handler of None \<Rightarrow> hs | Some h \<Rightarrow> fst (unique_insert h hs))"

definition hc_remove :: "'k RemoteHandler option \<Rightarrow> 'k RemoteHandler list \<Rightarrow> 'k RemoteHandler list" where
  "hc_remove handler hs = (case handler of None \<Rightarrow> hs | Some h \<Rightarrow> fst (unique_remove h hs))"

subsection \<open>The tree of interfaces\<close>

record 'k InterfaceTreeValue =
  itv_handler :: "'k RemoteHandler option"
  itv_interfaces :: "nat list"

definition no_value :: "'k InterfaceTreeValue" where
  "no_value = \<lparr>itv_handler = None, itv_interfaces = []\<rparr>"

record 'k InterfaceTree =
  it_root :: "'k InterfaceTreeValue tree"
  it_handlers :: "'k RemoteHandler list"

definition InterfaceTree_create :: "'k InterfaceTree" where
  "InterfaceTree_create = \<lparr>it_root = createRoot no_value, it_handlers = []\<rparr>"

definition m_getNodeForPath :: "string \<Rightarrow> 'k InterfaceTree \<Rightarrow> 'k InterfaceTree \<times> (exn, nat) result" where
  "m_getNodeForPath path it =
     (case pathParseAndRetrieve no_value (it_root it) 0 path of (t, r) \<Rightarrow> (it\<lparr>it_root := t\<rparr>, r))"

definition m_removeHandler :: "nat \<Rightarrow> 'k InterfaceTree \<Rightarrow> 'k InterfaceTree \<times> 'k RemoteHandler option" where
  "m_removeHandler node it =
     (let v = value_of (it_root it) node
      in (\<lparr>it_root = set_value (it_root it) node (v\<lparr>itv_handler := None\<rparr>),
           it_handlers = hc_remove (itv_handler v) (it_handlers it)\<rparr>, itv_handler v))"

definition m_setHandler ::
    "nat \<Rightarrow> 'k RemoteHandler option \<Rightarrow> 'k InterfaceTree \<Rightarrow> 'k InterfaceTree \<times> 'k RemoteHandler option" where
  "m_setHandler node handler it =
     (case m_removeHandler node it of
        (it1, ret) \<Rightarrow>
          (\<lparr>it_root = set_value (it_root it1) node ((value_of (it_root it1) node)\<lparr>itv_handler := handler\<rparr>),
            it_handlers = hc_add handler (it_handlers it1)\<rparr>, ret))"

definition set_interfaces :: "nat \<Rightarrow> nat list \<Rightarrow> 'k InterfaceTree \<Rightarrow> 'k InterfaceTree" where
  "set_interfaces node ifaces it =
     it\<lparr>it_root := set_value (it_root it) node ((value_of (it_root it) node)\<lparr>itv_interfaces := ifaces\<rparr>)\<rparr>"

definition getInterfacesForPath :: "string \<Rightarrow> 'k InterfaceTree \<Rightarrow> 'k InterfaceTree \<times> (exn, nat list) result" where
  "getInterfacesForPath path it =
     (case m_getNodeForPath path it of
        (it1, Inl e) \<Rightarrow> (it1, Inl e)
      | (it1, Inr node) \<Rightarrow> (it1, Inr (itv_interfaces (value_of (it_root it1) node))))"

definition getHandlerForPath :: "string \<Rightarrow> 'k InterfaceTree \<Rightarrow> 'k InterfaceTree \<times> (exn, 'k RemoteHandler option) result" where
  "getHandlerForPath path it =
     (case m_getNodeForPath path it of
        (it1, Inl e) \<Rightarrow> (it1, Inl e)
      | (it1, Inr node) \<Rightarrow> (it1, Inr (itv_handler (value_of (it_root it1) node))))"

definition it_addInterface :: "nat \<Rightarrow> string \<Rightarrow> 'k InterfaceTree \<Rightarrow> 'k InterfaceTree \<times> (exn, bool) result" where
  "it_addInterface iface path it =
     (case m_getNodeForPath path it of
        (it1, Inl e) \<Rightarrow> (it1, Inl e)
      | (it1, Inr node) \<Rightarrow>
          (let ifaces = itv_interfaces (value_of (it_root it1) node)
           in (if iface \<notin> set ifaces then set_interfaces node (ifaces @ [iface]) it1 else it1,
               Inr (ifaces = []))))"

definition it_removeInterface :: "nat \<Rightarrow> string \<Rightarrow> 'k InterfaceTree \<Rightarrow> 'k InterfaceTree \<times> (exn, bool) result" where
  "it_removeInterface iface path it =
     (case m_getNodeForPath path it of
        (it1, Inl e) \<Rightarrow> (it1, Inl e)
      | (it1, Inr node) \<Rightarrow>
          (let ifaces = remove1 iface (itv_interfaces (value_of (it_root it1) node))
           in (set_interfaces node ifaces it1, Inr (ifaces = []))))"

definition eraseHandlerForPath ::
    "string \<Rightarrow> 'k InterfaceTree \<Rightarrow> 'k InterfaceTree \<times> (exn, 'k RemoteHandler option) result" where
  "eraseHandlerForPath path it =
     (case m_getNodeForPath path it of
        (it1, Inl e) \<Rightarrow> (it1, Inl e)
      | (it1, Inr node) \<Rightarrow> (case m_removeHandler node it1 of (it2, h) \<Rightarrow> (it2, Inr h)))"

definition replaceHandlerForPath ::
    "string \<Rightarrow> 'k RemoteHandler option \<Rightarrow> 'k InterfaceTree \<Rightarrow> 'k InterfaceTree \<times> (exn, 'k RemoteHandler option) result" where
  "replaceHandlerForPath path handler it =
     (case m_getNodeForPath path it of
        (it1, Inl e) \<Rightarrow> (it1, Inl e)
      | (it1, Inr node) \<Rightarrow> (case m_setHandler node handler it1 of (it2, h) \<Rightarrow> (it2, Inr h)))"

text \<open>The visitor removes the handler of a node and then visits its children.\<close>

definition clearHandlers :: "'k InterfaceTree \<Rightarrow> 'k InterfaceTree option" where
  "clearHandlers it =
     traverseWith (\<lambda>it. children (it_root it)) (\<lambda>node it. fst (m_removeHandler node it)) 0 it"

definition updateHandlers :: "'k InterfaceTree \<Rightarrow> 'k RemoteHandler list" where
  "updateHandlers it = it_handlers it"

subsection \<open>The factory\<close>

text \<open>
  A factory for one kind of interface makes a handler from a source of the path tree and the
  interfaces it is to feed, or none, or throws. It does not open interfaces itself (the factory
  for eye trackers does, which is not modelled here).
\<close>

type_synonym 'k SpecificFactory = "PathTree \<Rightarrow> OriginalSource \<Rightarrow> nat list \<Rightarrow> (exn, 'k option) result"
type_synonym 'k RemoteHandlerFactory = "string \<rightharpoonup> 'k SpecificFactory"

definition addFactory :: "string \<Rightarrow> 'k SpecificFactory \<Rightarrow> 'k RemoteHandlerFactory \<Rightarrow> 'k RemoteHandlerFactory" where
  "addFactory name factory fac = fac(name \<mapsto> factory)"

definition isKnownInterfaceType :: "string \<Rightarrow> 'k RemoteHandlerFactory \<Rightarrow> bool" where
  "isKnownInterfaceType name fac \<longleftrightarrow> fac name \<noteq> None"

definition invokeFactory ::
    "'k RemoteHandlerFactory \<Rightarrow> PathTree \<Rightarrow> OriginalSource \<Rightarrow> nat list \<Rightarrow> (exn, 'k option) result" where
  "invokeFactory fac t source ifaces =
     (case fac (getInterfaceName t source) of None \<Rightarrow> Inr None | Some factory \<Rightarrow> factory t source ifaces)"

subsection \<open>The manager\<close>

text \<open>
  The manager with the path tree it resolves in; \<open>om_next\<close> is the address of the next handler.
  A resolution that does not return and an exception are outcomes that end a run.
\<close>

record 'k ObjectManager =
  om_interfaces :: "'k InterfaceTree"
  om_pathTree :: PathTree
  om_next :: nat

datatype stop = Throws exn | NeverReturns

text \<open>The last step of \<^verbatim>\<open>m_connectCallbacksOnPath\<close>: with the source at hand.\<close>

definition connect_source ::
    "'k RemoteHandlerFactory \<Rightarrow> string \<Rightarrow> OriginalSource \<Rightarrow> 'k ObjectManager \<Rightarrow> 'k ObjectManager \<times> (stop, bool) result" where
  "connect_source fac path source om =
     (case getInterfacesForPath path (om_interfaces om) of
        (it1, Inl e) \<Rightarrow> (om\<lparr>om_interfaces := it1\<rparr>, Inl (Throws e))
      | (it1, Inr ifaces) \<Rightarrow>
          (case invokeFactory fac (om_pathTree om) source ifaces of
             Inl e \<Rightarrow> (om\<lparr>om_interfaces := it1\<rparr>, Inl (Throws e))
           | Inr None \<Rightarrow> (om\<lparr>om_interfaces := it1\<rparr>, Inr False)
           | Inr (Some k) \<Rightarrow>
               (case replaceHandlerForPath path (Some (om_next om, k)) it1 of
                  (it2, Inl e) \<Rightarrow> (om\<lparr>om_interfaces := it2, om_next := om_next om + 1\<rparr>, Inl (Throws e))
                | (it2, Inr old) \<Rightarrow> (om\<lparr>om_interfaces := it2, om_next := om_next om + 1\<rparr>, Inr True))))"

definition m_connectCallbacksOnPath ::
    "json_lib \<Rightarrow> 'k RemoteHandlerFactory \<Rightarrow> string \<Rightarrow> 'k ObjectManager \<Rightarrow> 'k ObjectManager \<times> (stop, bool) result" where
  "m_connectCallbacksOnPath L fac path om =
     (case eraseHandlerForPath path (om_interfaces om) of
        (it1, Inl e) \<Rightarrow> (om\<lparr>om_interfaces := it1\<rparr>, Inl (Throws e))
      | (it1, Inr h) \<Rightarrow>
          (case resolveTreeNode L (om_pathTree om) path of
             None \<Rightarrow> (om\<lparr>om_interfaces := it1\<rparr>, Inl NeverReturns)
           | Some (t, Inl e) \<Rightarrow> (om\<lparr>om_interfaces := it1, om_pathTree := t\<rparr>, Inl (Throws e))
           | Some (t, Inr None) \<Rightarrow> (om\<lparr>om_interfaces := it1, om_pathTree := t\<rparr>, Inr False)
           | Some (t, Inr (Some source)) \<Rightarrow>
               connect_source fac path source (om\<lparr>om_interfaces := it1, om_pathTree := t\<rparr>)))"

definition m_removeCallbacksOnPath ::
    "string \<Rightarrow> 'k ObjectManager \<Rightarrow> 'k ObjectManager \<times> (stop, unit) result" where
  "m_removeCallbacksOnPath path om =
     (case eraseHandlerForPath path (om_interfaces om) of
        (it1, Inl e) \<Rightarrow> (om\<lparr>om_interfaces := it1\<rparr>, Inl (Throws e))
      | (it1, Inr h) \<Rightarrow> (om\<lparr>om_interfaces := it1\<rparr>, Inr ()))"

definition om_addInterface ::
    "json_lib \<Rightarrow> 'k RemoteHandlerFactory \<Rightarrow> nat \<Rightarrow> string \<Rightarrow> 'k ObjectManager \<Rightarrow> 'k ObjectManager \<times> (stop, unit) result" where
  "om_addInterface L fac iface path om =
     (case it_addInterface iface path (om_interfaces om) of
        (it1, Inl e) \<Rightarrow> (om\<lparr>om_interfaces := it1\<rparr>, Inl (Throws e))
      | (it1, Inr isNew) \<Rightarrow>
          (if isNew
           then (case m_connectCallbacksOnPath L fac path (om\<lparr>om_interfaces := it1\<rparr>) of
                   (om1, Inl e) \<Rightarrow> (om1, Inl e)
                 | (om1, Inr b) \<Rightarrow> (om1, Inr ()))
           else (om\<lparr>om_interfaces := it1\<rparr>, Inr ())))"

definition om_releaseInterface ::
    "nat \<Rightarrow> string \<Rightarrow> 'k ObjectManager \<Rightarrow> 'k ObjectManager \<times> (stop, unit) result" where
  "om_releaseInterface iface path om =
     (case it_removeInterface iface path (om_interfaces om) of
        (it1, Inl e) \<Rightarrow> (om\<lparr>om_interfaces := it1\<rparr>, Inl (Throws e))
      | (it1, Inr isEmpty) \<Rightarrow>
          (if isEmpty then m_removeCallbacksOnPath path (om\<lparr>om_interfaces := it1\<rparr>)
           else (om\<lparr>om_interfaces := it1\<rparr>, Inr ())))"

text \<open>
  \<^verbatim>\<open>m_connectNeededCallbacks\<close>: the paths that have interfaces and no handler, in the order of
  the traversal, until a resolution stops the run.
\<close>

record 'k connect_run = 
  cr_om :: "'k ObjectManager"
  cr_stop :: "stop option"

definition connect_visit ::
    "json_lib \<Rightarrow> 'k RemoteHandlerFactory \<Rightarrow> nat \<Rightarrow> 'k connect_run \<Rightarrow> 'k connect_run" where
  "connect_visit L fac node run =
     (let t = it_root (om_interfaces (cr_om run)); v = value_of t node
      in if cr_stop run \<noteq> None \<or> itv_handler v \<noteq> None \<or> itv_interfaces v = [] then run
         else (case m_connectCallbacksOnPath L fac (getTreeNodeFullPath t node getPathSeparator) (cr_om run) of
                 (om1, Inl e) \<Rightarrow> \<lparr>cr_om = om1, cr_stop = Some e\<rparr>
               | (om1, Inr b) \<Rightarrow> \<lparr>cr_om = om1, cr_stop = None\<rparr>))"

definition m_connectNeededCallbacks ::
    "json_lib \<Rightarrow> 'k RemoteHandlerFactory \<Rightarrow> 'k ObjectManager \<Rightarrow> ('k ObjectManager \<times> (stop, unit) result) option" where
  "m_connectNeededCallbacks L fac om =
     map_option (\<lambda>run. (cr_om run, case cr_stop run of None \<Rightarrow> Inr () | Some e \<Rightarrow> Inl e))
       (traverseWith (\<lambda>run. children (it_root (om_interfaces (cr_om run)))) (connect_visit L fac) 0
          \<lparr>cr_om = om, cr_stop = None\<rparr>)"

text \<open>
  The two event callbacks of the manager around the replacement of the path tree by \<open>newTree\<close>.
\<close>

definition aboutToUpdate :: "'k ObjectManager \<Rightarrow> 'k ObjectManager option" where
  "aboutToUpdate om = map_option (\<lambda>it. om\<lparr>om_interfaces := it\<rparr>) (clearHandlers (om_interfaces om))"

definition pathTreeReplaced ::
    "json_lib \<Rightarrow> 'k RemoteHandlerFactory \<Rightarrow> PathTree \<Rightarrow> 'k ObjectManager
     \<Rightarrow> ('k ObjectManager \<times> (stop, unit) result) option" where
  "pathTreeReplaced L fac newTree om =
     Option.bind (aboutToUpdate om) (\<lambda>om1. m_connectNeededCallbacks L fac (om1\<lparr>om_pathTree := newTree\<rparr>))"

subsection \<open>The client context\<close>

text \<open>
  The interfaces a context owns, with their paths; \<open>cc_next\<close> is the address of the next one.
  \<^verbatim>\<open>m_handleNewInterface\<close> and \<^verbatim>\<open>m_handleReleasingInterface\<close> of the contexts
  (\<^verbatim>\<open>PureClientContext.cpp\<close>, \<^verbatim>\<open>JointClientContext.cpp\<close>) are the manager's operations.
\<close>

record 'k ClientContext =
  cc_interfaces :: "(nat \<times> string) list"
  cc_mgr :: "'k ObjectManager"
  cc_next :: nat

text \<open>The standard factory of interfaces; a null path is \<open>None\<close>.\<close>

definition StandardClientInterfaceFactory :: "nat \<Rightarrow> string option \<Rightarrow> (nat \<times> string) option" where
  "StandardClientInterfaceFactory address path =
     (case path of None \<Rightarrow> None | Some p \<Rightarrow> if p = [] then None else Some (address, p))"

definition getInterface ::
    "json_lib \<Rightarrow> 'k RemoteHandlerFactory \<Rightarrow> string option \<Rightarrow> 'k ClientContext
     \<Rightarrow> 'k ClientContext \<times> (stop, (nat \<times> string) option) result" where
  "getInterface L fac path cc =
     (case StandardClientInterfaceFactory (cc_next cc) path of
        None \<Rightarrow> (cc, Inr None)
      | Some iface \<Rightarrow>
          (case om_addInterface L fac (fst iface) (snd iface) (cc_mgr cc) of
             (om, Inl e) \<Rightarrow> (cc\<lparr>cc_mgr := om, cc_next := cc_next cc + 1\<rparr>, Inl e)
           | (om, Inr u) \<Rightarrow>
               (\<lparr>cc_interfaces = cc_interfaces cc @ [iface], cc_mgr = om, cc_next = cc_next cc + 1\<rparr>,
                Inr (Some iface))))"

text \<open>A null pointer is \<open>None\<close> here too.\<close>

definition releaseInterface ::
    "nat option \<Rightarrow> 'k ClientContext \<Rightarrow> 'k ClientContext \<times> (stop, (nat \<times> string) option) result" where
  "releaseInterface iface cc =
     (case iface of None \<Rightarrow> (cc, Inr None)
      | Some a \<Rightarrow>
          (case find (\<lambda>p. fst p = a) (cc_interfaces cc) of
             None \<Rightarrow> (cc, Inr None)
           | Some ret \<Rightarrow>
               (case om_releaseInterface (fst ret) (snd ret) (cc_mgr cc) of
                  (om, r) \<Rightarrow> (cc\<lparr>cc_interfaces := remove1 ret (cc_interfaces cc), cc_mgr := om\<rparr>,
                              map_sum id (\<lambda>u. Some ret) r))))"

subsection \<open>Retrieval in the tree of interfaces\<close>

definition plain_tree :: "'v tree \<Rightarrow> bool" where
  "plain_tree t \<longleftrightarrow> wf_tree t \<and> (\<forall>i<length t. \<forall>c\<in>set (node_path t i). plain_name c)"

lemma touched_plain:
  "ps \<in> touched_names False base cs \<Longrightarrow> \<forall>c\<in>set base. plain_name c \<Longrightarrow>
     \<forall>c\<in>set cs. CHR ''/'' \<notin> set c \<Longrightarrow> \<forall>c\<in>set ps. plain_name c"
proof (induction cs arbitrary: base)
  case (Cons c cs)
  consider "c = []" | "c = ''.''" | "c = ''..''" | "c \<noteq> []" "c \<noteq> ''.''" "c \<noteq> ''..''" by blast
  then show ?case
  proof cases
    case 2
    with Cons.prems(1) have "ps \<in> touched_names False base cs" by simp
    with Cons.IH Cons.prems(2,3) show ?thesis by (metis list.set_intros(2))
  next
    case 4
    have "CHR ''/'' \<notin> set c" using Cons.prems(3) by simp
    with 4 have "plain_name c" by (simp add: plain_name_def)
    with Cons.prems(2) have ext: "\<forall>c\<in>set (base @ [c]). plain_name c" by simp
    from Cons.prems(1) 4 consider "ps = base @ [c]" | "ps \<in> touched_names False (base @ [c]) cs"
      by (simp split: if_splits) (elim disjE; simp)
    then show ?thesis
    proof cases
      case 1
      with ext show ?thesis by simp
    next
      case 2
      have "\<forall>c\<in>set cs. CHR ''/'' \<notin> set c" using Cons.prems(3) by simp
      then show ?thesis by (rule Cons.IH [OF 2 ext])
    qed
  qed (use Cons.prems(1) in simp_all)
qed simp

lemma absolute_components_no_sep:
  "w \<in> set (absolute_components path) \<Longrightarrow> CHR ''/'' \<notin> set w"
  by (auto simp: absolute_components_def split: if_splits dest: split_no_separator)

lemma lookup_plain:
  "plain_tree t \<Longrightarrow> lookup t ps \<noteq> None \<Longrightarrow> \<forall>c\<in>set ps. plain_name c"
proof -
  assume pl: "plain_tree t" and "lookup t ps \<noteq> None"
  then obtain j where "walk t 0 ps = Some j" by (auto simp: lookup_def)
  with walk_sound [of t 0 ps j] pl wf_nonempty [of t] have "j < length t" "node_path t j = ps"
    by (simp_all add: plain_tree_def node_path_root)
  with pl show "\<forall>c\<in>set ps. plain_name c" by (auto simp: plain_tree_def)
qed

lemma retrieve_plain_tree:
  assumes "plain_tree t" and "pathParseAndRetrieve d t 0 path = (t', r)"
  shows "plain_tree t'"
proof (cases "path = [] \<or> path = getPathSeparator \<or> hd path \<noteq> getPathSeparatorCharacter")
  case True
  with assms show ?thesis by (auto simp: pathParseAndRetrieve_def split: if_splits)
next
  case False
  have wf: "wf_tree t" using assms(1) by (simp add: plain_tree_def)
  have spec: "wf_tree t'" "lookup t' = fill d (touched_names False [] (absolute_components path)) (lookup t)"
    using retrieve_spec [OF wf _ _ assms(2)] False by blast+
  have "\<forall>c\<in>set (node_path t' i). plain_name c" if "i < length t'" for i
  proof (cases "lookup t (node_path t' i)")
    case None
    with lookup_node_path [OF spec(1) that] spec(2)
    have "node_path t' i \<in> touched_names False [] (absolute_components path)"
      by (auto simp: fill_def split: if_splits)
    then show ?thesis by (rule touched_plain) (simp_all add: absolute_components_no_sep)
  next
    case (Some v)
    then show ?thesis by (intro lookup_plain [OF assms(1)]) simp
  qed
  with spec(1) show ?thesis by (simp add: plain_tree_def)
qed

subsection \<open>The tree of interfaces as a function\<close>

text \<open>
  What a tree of interfaces holds at every position; a position without a node counts as an
  empty one, so that the creation of nodes by a lookup is invisible. \<open>path_names\<close> is the
  position a path denotes.
\<close>

definition view :: "'k InterfaceTree \<Rightarrow> string list \<Rightarrow> 'k InterfaceTreeValue" where
  "view it ps = (case lookup (it_root it) ps of None \<Rightarrow> no_value | Some v \<Rightarrow> v)"

definition path_names :: "string \<Rightarrow> string list option" where
  "path_names path =
     (if path = [] then None
      else if path = getPathSeparator then Some []
      else if hd path \<noteq> getPathSeparatorCharacter then None
      else case resolve_names False (strip_trailing_separator (tl path)) [] (absolute_components path) of
             Inl e \<Rightarrow> None | Inr ps \<Rightarrow> Some ps)"

lemma view_node:
  "wf_tree (it_root it) \<Longrightarrow> j < length (it_root it) \<Longrightarrow> view it (node_path (it_root it) j) = value_of (it_root it) j"
  by (simp add: view_def lookup_node_path)

lemma view_update:
  "wf_tree (it_root it) \<Longrightarrow> j < length (it_root it) \<Longrightarrow>
     view \<lparr>it_root = set_value (it_root it) j v, it_handlers = hs\<rparr> = (view it)(node_path (it_root it) j := v)"
  by (auto simp: view_def lookup_set_value fun_eq_iff)

lemma plain_tree_set_value [simp]: "plain_tree t \<Longrightarrow> plain_tree (set_value t j v)"
  by (simp add: plain_tree_def same_shape_node_path [OF same_shape_set_value])

lemma view_fill:
  "lookup t' = lookup (it_root it) \<or> (\<exists>S. lookup t' = fill no_value S (lookup (it_root it))) \<Longrightarrow>
     view (it\<lparr>it_root := t'\<rparr>) = view it"
  by (rule ext) (auto simp: view_def fill_def split: option.split if_splits)

lemma m_getNodeForPath_view:
  assumes "plain_tree (it_root it)" and "m_getNodeForPath path it = (it', r)"
  shows "plain_tree (it_root it') \<and> it_handlers it' = it_handlers it \<and> view it' = view it \<and>
    (case path_names path of None \<Rightarrow> \<exists>e. r = Inl e
     | Some ps \<Rightarrow> \<exists>j. r = Inr j \<and> j < length (it_root it') \<and> node_path (it_root it') j = ps)"
proof -
  obtain t' where g: "pathParseAndRetrieve no_value (it_root it) 0 path = (t', r)" and it': "it' = it\<lparr>it_root := t'\<rparr>"
    using assms(2) by (auto simp: m_getNodeForPath_def split: prod.splits)
  have wf: "wf_tree (it_root it)" using assms(1) by (simp add: plain_tree_def)
  note pl = retrieve_plain_tree [OF assms(1) g]
  have "(lookup t' = lookup (it_root it) \<or> (\<exists>S. lookup t' = fill no_value S (lookup (it_root it)))) \<and>
    (case path_names path of None \<Rightarrow> \<exists>e. r = Inl e
     | Some ps \<Rightarrow> \<exists>j. r = Inr j \<and> j < length t' \<and> node_path t' j = ps)"
  proof (cases "path = [] \<or> path = getPathSeparator \<or> hd path \<noteq> getPathSeparatorCharacter")
    case True
    with g wf wf_nonempty [OF wf] show ?thesis
      by (auto simp: pathParseAndRetrieve_def path_names_def node_path_root getPathSeparator_def split: if_splits)
  next
    case False
    with retrieve_spec [OF wf _ _ g] show ?thesis by (auto simp: path_names_def split: sum.splits)
  qed
  then show ?thesis using pl view_fill [of t' it] by (auto simp: it' split: option.split)
qed

lemma m_getNodeForPath_printed:
  assumes "plain_tree (it_root it)" and "i < length (it_root it)"
  shows "m_getNodeForPath (getFullPath (it_root it) i) it = (it, Inr i)"
  using retrieve_printed [of "it_root it" i no_value] assms
  by (simp add: m_getNodeForPath_def plain_tree_def)


text \<open>The operations on the tree, seen through \<open>view\<close> and the container.\<close>

lemma m_removeHandler_view:
  assumes "plain_tree (it_root it)" and "j < length (it_root it)"
    and "m_removeHandler j it = (it', h)"
  shows "plain_tree (it_root it') \<and> length (it_root it') = length (it_root it) \<and>
    node_path (it_root it') = node_path (it_root it) \<and> children (it_root it') = children (it_root it) \<and>
    h = itv_handler (view it (node_path (it_root it) j)) \<and>
    view it' = (view it)(node_path (it_root it) j := (view it (node_path (it_root it) j))\<lparr>itv_handler := None\<rparr>) \<and>
    it_handlers it' = hc_remove h (it_handlers it)"
proof -
  let ?v = "value_of (it_root it) j"
  have it': "it' = \<lparr>it_root = set_value (it_root it) j (?v\<lparr>itv_handler := None\<rparr>),
      it_handlers = hc_remove h (it_handlers it)\<rparr>" and h: "h = itv_handler ?v"
    using assms(3) by (auto simp: m_removeHandler_def Let_def)
  have wf: "wf_tree (it_root it)" using assms(1) by (simp add: plain_tree_def)
  have "children (set_value (it_root it) j v) = children (it_root it)" for v
    using same_shape_set_value [of "it_root it" j v] by (simp add: same_shape_def)
  moreover have "node_path (set_value (it_root it) j v) = node_path (it_root it)" for v
    by (rule ext) (rule same_shape_node_path [OF same_shape_set_value])
  ultimately show ?thesis
    using assms(1) view_node [OF wf assms(2)] by (simp add: it' h view_update [OF wf assms(2)])
qed

lemma m_setHandler_view:
  assumes "plain_tree (it_root it)" and "j < length (it_root it)"
    and "m_setHandler j h it = (it', old)"
  shows "plain_tree (it_root it') \<and> length (it_root it') = length (it_root it) \<and>
    old = itv_handler (view it (node_path (it_root it) j)) \<and>
    view it' = (view it)(node_path (it_root it) j := (view it (node_path (it_root it) j))\<lparr>itv_handler := h\<rparr>) \<and>
    it_handlers it' = hc_add h (hc_remove old (it_handlers it))"
proof -
  obtain it1 where r: "m_removeHandler j it = (it1, old)"
    and it': "it' = \<lparr>it_root = set_value (it_root it1) j ((value_of (it_root it1) j)\<lparr>itv_handler := h\<rparr>),
            it_handlers = hc_add h (it_handlers it1)\<rparr>"
    using assms(3) by (auto simp: m_setHandler_def split: prod.splits)
  note r = m_removeHandler_view [OF assms(1,2) r]
  then have wf: "wf_tree (it_root it1)" "j < length (it_root it1)" using assms(2) by (simp_all add: plain_tree_def)
  from r show ?thesis by (simp add: it' view_update [OF wf] flip: view_node [OF wf])
qed

lemma set_interfaces_view:
  assumes "plain_tree (it_root it)" and "j < length (it_root it)"
  shows "plain_tree (it_root (set_interfaces j is it))" "it_handlers (set_interfaces j is it) = it_handlers it"
    "view (set_interfaces j is it) = (view it)(node_path (it_root it) j :=
       (view it (node_path (it_root it) j))\<lparr>itv_interfaces := is\<rparr>)"
proof -
  have wf: "wf_tree (it_root it)" using assms(1) by (simp add: plain_tree_def)
  have "set_interfaces j is it = \<lparr>it_root = set_value (it_root it) j ((value_of (it_root it) j)\<lparr>itv_interfaces := is\<rparr>),
      it_handlers = it_handlers it\<rparr>"
    by (simp add: set_interfaces_def)
  then show "plain_tree (it_root (set_interfaces j is it))" "it_handlers (set_interfaces j is it) = it_handlers it"
    "view (set_interfaces j is it) = (view it)(node_path (it_root it) j :=
       (view it (node_path (it_root it) j))\<lparr>itv_interfaces := is\<rparr>)"
    using assms(1) by (simp_all add: view_update [OF wf assms(2)] view_node [OF wf assms(2)])
qed

lemma path_cases:
  assumes "plain_tree (it_root it)"
  obtains (denotes) it1 j ps where "m_getNodeForPath path it = (it1, Inr j)" "path_names path = Some ps"
      "plain_tree (it_root it1)" "j < length (it_root it1)" "node_path (it_root it1) j = ps"
      "view it1 = view it" "it_handlers it1 = it_handlers it" "value_of (it_root it1) j = view it ps"
    | (fails) it1 e where "m_getNodeForPath path it = (it1, Inl e)" "path_names path = None"
      "plain_tree (it_root it1)" "view it1 = view it" "it_handlers it1 = it_handlers it"
proof -
  obtain it1 r where g: "m_getNodeForPath path it = (it1, r)" by fastforce
  note sp = m_getNodeForPath_view [OF assms g]
  show thesis
  proof (cases "path_names path")
    case None
    with sp g fails show thesis by auto
  next
    case (Some ps)
    with sp obtain j where j: "r = Inr j" "j < length (it_root it1)" "node_path (it_root it1) j = ps" by auto
    have "value_of (it_root it1) j = view it1 ps"
      using view_node [of it1 j] sp j by (simp add: plain_tree_def)
    with sp g j Some denotes show thesis by auto
  qed
qed


text \<open>On a path that denotes no position, every operation throws and changes nothing.\<close>

definition fails_on :: "'k InterfaceTree \<Rightarrow> 'k InterfaceTree \<times> (exn, 'r) result \<Rightarrow> bool" where
  "fails_on it res \<longleftrightarrow> (\<exists>e. snd res = Inl e) \<and> view (fst res) = view it \<and> it_handlers (fst res) = it_handlers it"

lemma getInterfacesForPath_spec:
  assumes "plain_tree (it_root it)"
  shows "plain_tree (it_root (fst (getInterfacesForPath path it))) \<and>
    (case path_names path of None \<Rightarrow> fails_on it (getInterfacesForPath path it)
     | Some ps \<Rightarrow> snd (getInterfacesForPath path it) = Inr (itv_interfaces (view it ps)) \<and>
         view (fst (getInterfacesForPath path it)) = view it \<and>
         it_handlers (fst (getInterfacesForPath path it)) = it_handlers it)"
  using assms by (rule path_cases [of it path]) (simp_all add: getInterfacesForPath_def fails_on_def)

definition with_iface :: "'a \<Rightarrow> 'a list \<Rightarrow> 'a list" where
  "with_iface a is = (if a \<in> set is then is else is @ [a])"

lemma with_iface_simps [simp]: "distinct is \<Longrightarrow> distinct (with_iface a is)" "set (with_iface a is) = insert a (set is)"
  by (auto simp: with_iface_def)

lemma it_addInterface_spec:
  assumes "plain_tree (it_root it)"
  shows "plain_tree (it_root (fst (it_addInterface a path it))) \<and>
    (case path_names path of None \<Rightarrow> fails_on it (it_addInterface a path it)
     | Some ps \<Rightarrow> snd (it_addInterface a path it) = Inr (itv_interfaces (view it ps) = []) \<and>
         view (fst (it_addInterface a path it)) =
           (view it)(ps := (view it ps)\<lparr>itv_interfaces := with_iface a (itv_interfaces (view it ps))\<rparr>) \<and>
         it_handlers (fst (it_addInterface a path it)) = it_handlers it)"
  using assms
  by (rule path_cases [of it path])
    (auto simp: it_addInterface_def fails_on_def with_iface_def Let_def set_interfaces_view)

lemma it_removeInterface_spec:
  assumes "plain_tree (it_root it)"
  shows "plain_tree (it_root (fst (it_removeInterface a path it))) \<and>
    (case path_names path of None \<Rightarrow> fails_on it (it_removeInterface a path it)
     | Some ps \<Rightarrow> snd (it_removeInterface a path it) = Inr (remove1 a (itv_interfaces (view it ps)) = []) \<and>
         view (fst (it_removeInterface a path it)) =
           (view it)(ps := (view it ps)\<lparr>itv_interfaces := remove1 a (itv_interfaces (view it ps))\<rparr>) \<and>
         it_handlers (fst (it_removeInterface a path it)) = it_handlers it)"
  using assms
  by (rule path_cases [of it path]) (auto simp: it_removeInterface_def fails_on_def Let_def set_interfaces_view)

lemma eraseHandlerForPath_spec:
  assumes "plain_tree (it_root it)"
  shows "plain_tree (it_root (fst (eraseHandlerForPath path it))) \<and>
    (case path_names path of None \<Rightarrow> fails_on it (eraseHandlerForPath path it)
     | Some ps \<Rightarrow> snd (eraseHandlerForPath path it) = Inr (itv_handler (view it ps)) \<and>
         view (fst (eraseHandlerForPath path it)) = (view it)(ps := (view it ps)\<lparr>itv_handler := None\<rparr>) \<and>
         it_handlers (fst (eraseHandlerForPath path it)) = hc_remove (itv_handler (view it ps)) (it_handlers it))"
  using assms
proof (rule path_cases [of it path])
  fix it1 j ps
  assume *: "m_getNodeForPath path it = (it1, Inr j)" "path_names path = Some ps"
    "plain_tree (it_root it1)" "j < length (it_root it1)" "node_path (it_root it1) j = ps"
    "view it1 = view it" "it_handlers it1 = it_handlers it"
  obtain it2 h where r: "m_removeHandler j it1 = (it2, h)" by fastforce
  from m_removeHandler_view [OF *(3,4) r] * r show ?thesis by (simp add: eraseHandlerForPath_def)
qed (simp add: eraseHandlerForPath_def fails_on_def)

lemma replaceHandlerForPath_spec:
  assumes "plain_tree (it_root it)"
  shows "plain_tree (it_root (fst (replaceHandlerForPath path h it))) \<and>
    (case path_names path of None \<Rightarrow> fails_on it (replaceHandlerForPath path h it)
     | Some ps \<Rightarrow> snd (replaceHandlerForPath path h it) = Inr (itv_handler (view it ps)) \<and>
         view (fst (replaceHandlerForPath path h it)) = (view it)(ps := (view it ps)\<lparr>itv_handler := h\<rparr>) \<and>
         it_handlers (fst (replaceHandlerForPath path h it)) =
           hc_add h (hc_remove (itv_handler (view it ps)) (it_handlers it)))"
  using assms
proof (rule path_cases [of it path])
  fix it1 j ps
  assume *: "m_getNodeForPath path it = (it1, Inr j)" "path_names path = Some ps"
    "plain_tree (it_root it1)" "j < length (it_root it1)" "node_path (it_root it1) j = ps"
    "view it1 = view it" "it_handlers it1 = it_handlers it"
  obtain it2 old where r: "m_setHandler j h it1 = (it2, old)" by fastforce
  from m_setHandler_view [OF *(3,4) r] * r show ?thesis by (simp add: replaceHandlerForPath_def)
qed (simp add: replaceHandlerForPath_def fails_on_def)


subsection \<open>Who owns the handlers\<close>

text \<open>
  \<open>owned V hs n\<close>: the container holds exactly the handlers of the positions, each once and at one
  position, with addresses below \<open>n\<close>. \<open>fed E V\<close>: a position outside \<open>E\<close> with a handler has
  interfaces.
\<close>

definition owned :: "(string list \<Rightarrow> 'k InterfaceTreeValue) \<Rightarrow> 'k RemoteHandler list \<Rightarrow> nat \<Rightarrow> bool" where
  "owned V hs n \<longleftrightarrow> distinct hs \<and> (\<forall>h. h \<in> set hs \<longleftrightarrow> (\<exists>ps. itv_handler (V ps) = Some h)) \<and>
     (\<forall>h\<in>set hs. fst h < n) \<and>
     (\<forall>ps qs h. itv_handler (V ps) = Some h \<longrightarrow> itv_handler (V qs) = Some h \<longrightarrow> ps = qs)"

definition fed :: "string list set \<Rightarrow> (string list \<Rightarrow> 'k InterfaceTreeValue) \<Rightarrow> bool" where
  "fed E V \<longleftrightarrow> (\<forall>ps. ps \<notin> E \<longrightarrow> itv_handler (V ps) \<noteq> None \<longrightarrow> itv_interfaces (V ps) \<noteq> [])"

lemma owned_unique:
  "owned V hs n \<Longrightarrow> itv_handler (V ps) = Some h \<Longrightarrow> itv_handler (V qs) = Some h \<Longrightarrow> ps = qs"
  unfolding owned_def by blast

lemma owned_mem: "owned V hs n \<Longrightarrow> h \<in> set hs \<longleftrightarrow> (\<exists>ps. itv_handler (V ps) = Some h)"
  unfolding owned_def by blast

lemma ownedI:
  assumes "distinct hs" and "\<And>h. h \<in> set hs \<longleftrightarrow> (\<exists>ps. itv_handler (V ps) = Some h)"
    and "\<And>h. h \<in> set hs \<Longrightarrow> fst h < n"
    and "\<And>ps qs h. itv_handler (V ps) = Some h \<Longrightarrow> itv_handler (V qs) = Some h \<Longrightarrow> ps = qs"
  shows "owned V hs n"
  using assms unfolding owned_def by blast

lemma owned_interfaces:
  assumes "owned V hs n"
  shows "owned (V(ps := (V ps)\<lparr>itv_interfaces := is\<rparr>)) hs n"
proof -
  have "itv_handler ((V(ps := (V ps)\<lparr>itv_interfaces := is\<rparr>)) qs) = itv_handler (V qs)" for qs by simp
  with assms show ?thesis unfolding owned_def by presburger
qed

lemma owned_erase:
  assumes "owned V hs n"
  shows "owned (V(ps := (V ps)\<lparr>itv_handler := None\<rparr>)) (hc_remove (itv_handler (V ps)) hs) n"
proof (cases "itv_handler (V ps)")
  case None
  then have "(V(ps := (V ps)\<lparr>itv_handler := None\<rparr>)) = V" by (simp add: fun_eq_iff)
  with assms None show ?thesis by (simp add: hc_remove_def)
next
  case (Some h)
  let ?V = "V(ps := (V ps)\<lparr>itv_handler := None\<rparr>)"
  have hs: "distinct hs" "\<And>g. g \<in> set hs \<Longrightarrow> fst g < n" using assms by (simp_all add: owned_def)
  then have rem: "set (remove1 h hs) = set hs - {h}" by simp
  have V: "itv_handler (?V qs) = Some g \<longleftrightarrow> itv_handler (V qs) = Some g \<and> g \<noteq> h" for qs g
  proof (cases "qs = ps")
    case False
    then have "itv_handler (V qs) \<noteq> Some h" using owned_unique [OF assms Some, of qs] by blast
    with False show ?thesis by auto
  qed (simp add: Some)
  have "owned ?V (remove1 h hs) n"
  proof (rule ownedI)
    show "distinct (remove1 h hs)" using hs(1) by simp
    show "g \<in> set (remove1 h hs) \<longleftrightarrow> (\<exists>ps. itv_handler (?V ps) = Some g)" for g
      unfolding V rem using owned_mem [OF assms, of g] by auto
    show "g \<in> set (remove1 h hs) \<Longrightarrow> fst g < n" for g unfolding rem using hs(2) [of g] by simp
    show "itv_handler (?V ps) = Some g \<Longrightarrow> itv_handler (?V qs) = Some g \<Longrightarrow> ps = qs" for ps qs g
      unfolding V using owned_unique [OF assms] by simp
  qed
  with Some show ?thesis by (simp add: hc_remove_def unique_remove_eq)
qed

lemma owned_set:
  assumes "owned V hs n" and "itv_handler (V ps) = None"
  shows "owned (V(ps := (V ps)\<lparr>itv_handler := Some (n, k)\<rparr>)) (hc_add (Some (n, k)) hs) (Suc n)"
proof -
  let ?V = "V(ps := (V ps)\<lparr>itv_handler := Some (n, k)\<rparr>)"
  have hs: "distinct hs" "\<And>g. g \<in> set hs \<Longrightarrow> fst g < n" using assms by (simp_all add: owned_def)
  then have new: "(n, k) \<notin> set hs" by fastforce
  then have "itv_handler (V qs) \<noteq> Some (n, k)" for qs using owned_mem [OF assms(1)] by metis
  then have V: "itv_handler (?V qs) = Some g \<longleftrightarrow>
      (if g = (n, k) then qs = ps else itv_handler (V qs) = Some g)" for qs g
    using assms(2) by (cases "qs = ps") auto
  have add: "hc_add (Some (n, k)) hs = hs @ [(n, k)]"
    using new by (simp add: hc_add_def unique_insert_def unique_contains_def)
  show ?thesis unfolding add
  proof (rule ownedI)
    show "distinct (hs @ [(n, k)])" using hs(1) new by simp
    show "h \<in> set (hs @ [(n, k)]) \<longleftrightarrow> (\<exists>ps. itv_handler (?V ps) = Some h)" for h
      unfolding V using owned_mem [OF assms(1), of h] by auto
    show "h \<in> set (hs @ [(n, k)]) \<Longrightarrow> fst h < Suc n" for h using hs(2) [of h] by auto
    show "itv_handler (?V ps) = Some h \<Longrightarrow> itv_handler (?V qs) = Some h \<Longrightarrow> ps = qs" for ps qs h
      unfolding V using owned_unique [OF assms(1)] by (simp split: if_splits)
  qed
qed

text \<open>The invariant of the manager, with the interfaces' addresses below \<open>m\<close>.\<close>

definition om_ok :: "string list set \<Rightarrow> 'k ObjectManager \<Rightarrow> bool" where
  "om_ok E om \<longleftrightarrow> plain_tree (it_root (om_interfaces om)) \<and>
     owned (view (om_interfaces om)) (it_handlers (om_interfaces om)) (om_next om) \<and>
     fed E (view (om_interfaces om)) \<and>
     (\<forall>ps. distinct (itv_interfaces (view (om_interfaces om) ps)))"

abbreviation om_ifaces :: "'k ObjectManager \<Rightarrow> string list \<Rightarrow> nat list" where
  "om_ifaces om ps \<equiv> itv_interfaces (view (om_interfaces om) ps)"

lemma om_okD:
  assumes "om_ok E om"
  shows "plain_tree (it_root (om_interfaces om))"
    "owned (view (om_interfaces om)) (it_handlers (om_interfaces om)) (om_next om)"
    "fed E (view (om_interfaces om))" "distinct (om_ifaces om ps)"
  using assms by (simp_all add: om_ok_def)

text \<open>
  What connecting one position does: only that position changes, and of it only the handler;
  a new handler has a new address; the result says whether there is a handler afterwards, and
  when there is none without an exception, then the path has no source or its factory made
  nothing of the source.
\<close>

definition unconnectable :: "json_lib \<Rightarrow> 'k RemoteHandlerFactory \<Rightarrow> string \<Rightarrow> nat list \<Rightarrow> PathTree \<Rightarrow> bool" where
  "unconnectable L fac path ifaces T \<longleftrightarrow>
     (case resolveTreeNode L T path of
        Some (T', Inr None) \<Rightarrow> True
      | Some (T', Inr (Some source)) \<Rightarrow> invokeFactory fac T' source ifaces = Inr None
      | _ \<Rightarrow> False)"

text \<open>Path trees that come from one another by resolving paths in them.\<close>

definition resolves :: "json_lib \<Rightarrow> PathTree \<Rightarrow> PathTree \<Rightarrow> bool" where
  "resolves L = (\<lambda>T T'. \<exists>path res. resolveTreeNode L T path = Some (T', res))\<^sup>*\<^sup>*"

lemma resolves_refl [simp]: "resolves L T T"
  by (simp add: resolves_def)

lemma resolves_trans: "resolves L T T' \<Longrightarrow> resolves L T' T'' \<Longrightarrow> resolves L T T''"
  unfolding resolves_def by (rule rtranclp_trans)

lemma resolves_step: "resolveTreeNode L T path = Some (T', res) \<Longrightarrow> resolves L T T'"
  unfolding resolves_def by blast

definition connects_at :: "string list \<Rightarrow> 'k ObjectManager \<Rightarrow> 'k ObjectManager \<Rightarrow> bool" where
  "connects_at ps om om' \<longleftrightarrow> om_ok {} om' \<and> om_ifaces om' = om_ifaces om \<and> om_next om \<le> om_next om' \<and>
     (\<forall>qs. qs \<noteq> ps \<longrightarrow> view (om_interfaces om') qs = view (om_interfaces om) qs) \<and>
     (\<forall>h. itv_handler (view (om_interfaces om') ps) = Some h \<longrightarrow> om_next om \<le> fst h)"

lemma connect_source_spec:
  assumes "om_ok {} om" and "path_names path = Some ps" and "om_ifaces om ps \<noteq> []"
    and "itv_handler (view (om_interfaces om) ps) = None"
    and "connect_source fac path source om = (om', r)"
  shows "connects_at ps om om' \<and> om_pathTree om' = om_pathTree om \<and>
    (\<forall>b. r = Inr b \<longrightarrow> b = (itv_handler (view (om_interfaces om') ps) \<noteq> None) \<and>
      (\<not> b \<longrightarrow> invokeFactory fac (om_pathTree om) source (om_ifaces om ps) = Inr None))"
proof -
  let ?it = "om_interfaces om"
  note ok = om_okD [OF assms(1)]
  obtain it1 where g: "getInterfacesForPath path ?it = (it1, Inr (om_ifaces om ps))"
    and it1: "plain_tree (it_root it1)" "view it1 = view ?it" "it_handlers it1 = it_handlers ?it"
    using getInterfacesForPath_spec [OF ok(1), of path] assms(2) by (cases "getInterfacesForPath path ?it") auto
  show ?thesis
  proof (cases "\<exists>k. invokeFactory fac (om_pathTree om) source (om_ifaces om ps) = Inr (Some k)")
    case False
    with assms(1,4,5) g it1 show ?thesis
      by (auto simp: connect_source_def om_ok_def connects_at_def split: sum.splits option.splits)
  next
    case True
    then obtain k where Some: "invokeFactory fac (om_pathTree om) source (om_ifaces om ps) = Inr (Some k)" by blast
    let ?h = "(om_next om, k)"
    obtain it2 where rp: "replaceHandlerForPath path (Some ?h) it1 = (it2, Inr None)"
      and it2: "plain_tree (it_root it2)"
        "view it2 = (view ?it)(ps := (view ?it ps)\<lparr>itv_handler := Some ?h\<rparr>)"
        "it_handlers it2 = hc_add (Some ?h) (it_handlers ?it)"
      using replaceHandlerForPath_spec [OF it1(1), of path "Some ?h"] assms(2,4) it1
      by (cases "replaceHandlerForPath path (Some ?h) it1") (auto simp: hc_remove_def)
    from Some rp g assms(5) have om': "om' = om\<lparr>om_interfaces := it2, om_next := Suc (om_next om)\<rparr>" "r = Inr True"
      by (simp_all add: connect_source_def)
    have ifs: "om_ifaces om' = om_ifaces om" by (simp add: om' it2 fun_eq_iff)
    have "fed {} (view it2)" using ok(3) assms(3) by (auto simp: fed_def it2)
    moreover have "owned (view it2) (it_handlers it2) (Suc (om_next om))"
      using owned_set [OF ok(2) assms(4)] by (simp add: it2)
    ultimately have "om_ok {} om'" using ok(4) ifs it2(1) by (auto simp: om_ok_def om'(1) it2(2))
    with ifs show ?thesis by (simp add: connects_at_def om' it2(2))
  qed
qed

lemma om_ok_pathTree [simp]: "om_ok E (om\<lparr>om_pathTree := T\<rparr>) \<longleftrightarrow> om_ok E om"
  by (simp add: om_ok_def)

lemma connect_path_spec:
  assumes "om_ok {} om" and "path_names path = Some ps" and "om_ifaces om ps \<noteq> []"
    and "m_connectCallbacksOnPath L fac path om = (om', r)"
  shows "connects_at ps om om' \<and> resolves L (om_pathTree om) (om_pathTree om') \<and>
    (\<forall>b. r = Inr b \<longrightarrow> b = (itv_handler (view (om_interfaces om') ps) \<noteq> None) \<and>
      (\<not> b \<longrightarrow> unconnectable L fac path (om_ifaces om ps) (om_pathTree om)))"
proof -
  let ?it = "om_interfaces om"
  note ok = om_okD [OF assms(1)]
  obtain it1 h where e: "eraseHandlerForPath path ?it = (it1, Inr h)"
    and it1: "plain_tree (it_root it1)" "view it1 = (view ?it)(ps := (view ?it ps)\<lparr>itv_handler := None\<rparr>)"
      "it_handlers it1 = hc_remove (itv_handler (view ?it ps)) (it_handlers ?it)"
    using eraseHandlerForPath_spec [OF ok(1), of path] assms(2) by (cases "eraseHandlerForPath path ?it") auto
  let ?om1 = "\<lambda>T. om\<lparr>om_interfaces := it1, om_pathTree := T\<rparr>"
  have ifs: "om_ifaces (?om1 T) = om_ifaces om" for T by (simp add: it1(2) fun_eq_iff)
  have "fed {} (view it1)" using ok(3) by (auto simp: fed_def it1)
  moreover have "owned (view it1) (it_handlers it1) (om_next om)"
    using owned_erase [OF ok(2)] by (simp add: it1)
  ultimately have ok1: "om_ok {} (om\<lparr>om_interfaces := it1\<rparr>)"
    using ok(4) ifs it1(1) by (auto simp: om_ok_def it1(2))
  have at1: "connects_at ps om (om\<lparr>om_interfaces := it1\<rparr>)" "connects_at ps om (?om1 T)" for T
    using ok1 by (auto simp: connects_at_def it1(2) om_ok_def)
  show ?thesis
  proof (cases "resolveTreeNode L (om_pathTree om) path")
    case None
    with e assms(4) at1 show ?thesis by (auto simp: m_connectCallbacksOnPath_def)
  next
    case (Some Tres)
    obtain T res where res: "resolveTreeNode L (om_pathTree om) path = Some (T, res)" using Some by (cases Tres) auto
    note rs = resolves_step [OF res]
    show ?thesis
    proof (cases "\<exists>source. res = Inr (Some source)")
      case False
      with res e assms(4) at1 it1(2) rs show ?thesis
        by (cases res) (auto simp: m_connectCallbacksOnPath_def unconnectable_def split: option.splits)
    next
      case True
      then obtain source where src: "res = Inr (Some source)" by blast
      with res e assms(4) have c: "connect_source fac path source (?om1 T) = (om', r)"
        by (simp add: m_connectCallbacksOnPath_def)
      have "om_ok {} (?om1 T)" "om_ifaces (?om1 T) ps \<noteq> []" "itv_handler (view (om_interfaces (?om1 T)) ps) = None"
        using ok1 assms(3) by (simp_all add: it1(2) om_ok_def)
      from connect_source_spec [OF this(1) assms(2) this(2,3) c]
      have "connects_at ps om om'" using ifs [of T] by (auto simp: connects_at_def it1(2))
      moreover note connect_source_spec [OF \<open>om_ok {} (?om1 T)\<close> assms(2) \<open>om_ifaces (?om1 T) ps \<noteq> []\<close>
          \<open>itv_handler (view (om_interfaces (?om1 T)) ps) = None\<close> c]
      ultimately show ?thesis using ifs [of T] rs by (auto simp: unconnectable_def res src it1(2))
    qed
  qed
qed


lemma connects_atD:
  assumes "connects_at ps om om'"
  shows "om_ok {} om'" "om_ifaces om' = om_ifaces om" "om_next om \<le> om_next om'"
    "qs \<noteq> ps \<Longrightarrow> view (om_interfaces om') qs = view (om_interfaces om) qs"
    "itv_handler (view (om_interfaces om') ps) = Some h \<Longrightarrow> om_next om \<le> fst h"
  using assms by (simp_all add: connects_at_def)

subsection \<open>Opening and closing interfaces\<close>

text \<open>The lists of interfaces after an operation on a path: those at its position change.\<close>

definition ifaces_at :: "string \<Rightarrow> (nat list \<Rightarrow> nat list) \<Rightarrow> (string list \<Rightarrow> nat list) \<Rightarrow> string list \<Rightarrow> nat list" where
  "ifaces_at path f I = (case path_names path of None \<Rightarrow> I | Some ps \<Rightarrow> I(ps := f (I ps)))"

lemma om_ok_write:
  assumes "om_ok {} om" and "plain_tree (it_root it1)" and "it_handlers it1 = it_handlers (om_interfaces om)"
    and "view it1 = (view (om_interfaces om))(ps := (view (om_interfaces om) ps)\<lparr>itv_interfaces := is\<rparr>)"
    and "distinct is"
  shows "om_ok {ps} (om\<lparr>om_interfaces := it1\<rparr>)" "is \<noteq> [] \<Longrightarrow> om_ok {} (om\<lparr>om_interfaces := it1\<rparr>)"
proof -
  note ok = om_okD [OF assms(1)]
  have "owned (view it1) (it_handlers it1) (om_next om)"
    unfolding assms(3,4) by (rule owned_interfaces [OF ok(2)])
  then show "om_ok {ps} (om\<lparr>om_interfaces := it1\<rparr>)" "is \<noteq> [] \<Longrightarrow> om_ok {} (om\<lparr>om_interfaces := it1\<rparr>)"
    using assms(2,5) ok(3,4) by (auto simp: om_ok_def assms(4) fed_def)
qed

lemma om_ok_fails:
  assumes "om_ok E om" and "fails_on (om_interfaces om) (it1, res)" and "plain_tree (it_root it1)"
  shows "om_ok E (om\<lparr>om_interfaces := it1\<rparr>)" "om_ifaces (om\<lparr>om_interfaces := it1\<rparr>) = om_ifaces om"
    "\<exists>e. res = Inl e"
  using assms by (auto simp: om_ok_def fails_on_def)

lemma om_addInterface_spec:
  assumes "om_ok {} om" and "om_addInterface L fac a path om = (om', r)"
  shows "om_ok {} om' \<and> om_ifaces om' = ifaces_at path (with_iface a) (om_ifaces om) \<and>
    (r = Inr () \<longrightarrow> path_names path \<noteq> None)"
proof -
  let ?it = "om_interfaces om"
  note ok = om_okD [OF assms(1)]
  obtain it1 res where add: "it_addInterface a path ?it = (it1, res)" by fastforce
  note spec = it_addInterface_spec [OF ok(1), of a path, unfolded add fst_conv snd_conv]
  show ?thesis
  proof (cases "path_names path")
    case None
    with spec have "fails_on ?it (it1, res)" "plain_tree (it_root it1)" by simp_all
    from om_ok_fails [OF assms(1) this] None add assms(2) show ?thesis
      by (auto simp: om_addInterface_def ifaces_at_def)
  next
    case (Some ps)
    let ?is = "with_iface a (om_ifaces om ps)"
    have *: "plain_tree (it_root it1)" "it_handlers it1 = it_handlers ?it" "res = Inr (om_ifaces om ps = [])"
      "view it1 = (view ?it)(ps := (view ?it ps)\<lparr>itv_interfaces := ?is\<rparr>)"
      using spec Some by simp_all
    have ne: "?is \<noteq> []" by (auto simp: with_iface_def)
    have ok1: "om_ok {} (om\<lparr>om_interfaces := it1\<rparr>)"
      by (rule om_ok_write(2) [OF assms(1) *(1,2,4) _ ne]) (simp add: ok(4))
    have ifs: "om_ifaces (om\<lparr>om_interfaces := it1\<rparr>) = ifaces_at path (with_iface a) (om_ifaces om)"
      by (auto simp: *(4) ifaces_at_def Some)
    show ?thesis
    proof (cases "om_ifaces om ps = []")
      case False
      with ok1 ifs *(3) add assms(2) Some show ?thesis by (auto simp: om_addInterface_def)
    next
      case True
      obtain om1 b where c: "m_connectCallbacksOnPath L fac path (om\<lparr>om_interfaces := it1\<rparr>) = (om1, b)" by fastforce
      have "om_ifaces (om\<lparr>om_interfaces := it1\<rparr>) ps \<noteq> []" using ne by (simp add: *(4))
      from connect_path_spec [OF ok1 Some this c] have "om_ok {} om1" "om_ifaces om1 = om_ifaces (om\<lparr>om_interfaces := it1\<rparr>)"
        by (auto dest: connects_atD)
      with ifs c True *(3) add assms(2) Some show ?thesis
        by (auto simp: om_addInterface_def split: sum.splits)
    qed
  qed
qed

lemma om_releaseInterface_spec:
  assumes "om_ok {} om" and "om_releaseInterface a path om = (om', r)"
  shows "om_ok {} om' \<and> om_ifaces om' = ifaces_at path (remove1 a) (om_ifaces om) \<and>
    (r = Inr ()) = (path_names path \<noteq> None)"
proof -
  let ?it = "om_interfaces om"
  note ok = om_okD [OF assms(1)]
  obtain it1 res where rem: "it_removeInterface a path ?it = (it1, res)" by fastforce
  note spec = it_removeInterface_spec [OF ok(1), of a path, unfolded rem fst_conv snd_conv]
  show ?thesis
  proof (cases "path_names path")
    case None
    with spec have "fails_on ?it (it1, res)" "plain_tree (it_root it1)" by simp_all
    from om_ok_fails [OF assms(1) this] None rem assms(2) show ?thesis
      by (auto simp: om_releaseInterface_def ifaces_at_def)
  next
    case (Some ps)
    let ?is = "remove1 a (om_ifaces om ps)"
    have *: "plain_tree (it_root it1)" "it_handlers it1 = it_handlers ?it" "res = Inr (?is = [])"
      "view it1 = (view ?it)(ps := (view ?it ps)\<lparr>itv_interfaces := ?is\<rparr>)"
      using spec Some by simp_all
    have d: "distinct ?is" using ok(4) by simp
    have ifs: "om_ifaces (om\<lparr>om_interfaces := it1\<rparr>) = ifaces_at path (remove1 a) (om_ifaces om)"
      by (auto simp: *(4) ifaces_at_def Some)
    show ?thesis
    proof (cases "?is = []")
      case False
      with om_ok_write(2) [OF assms(1) *(1,2,4) d False] ifs *(3) rem assms(2) Some show ?thesis
        by (auto simp: om_releaseInterface_def)
    next
      case True
      let ?om1 = "om\<lparr>om_interfaces := it1\<rparr>"
      note ok1 = om_okD [OF om_ok_write(1) [OF assms(1) *(1,2,4) d]]
      obtain it2 h where e: "eraseHandlerForPath path it1 = (it2, Inr h)"
        and it2: "plain_tree (it_root it2)" "view it2 = (view it1)(ps := (view it1 ps)\<lparr>itv_handler := None\<rparr>)"
          "it_handlers it2 = hc_remove (itv_handler (view it1 ps)) (it_handlers it1)"
        using eraseHandlerForPath_spec [OF *(1), of path] Some by (cases "eraseHandlerForPath path it1") auto
      have om': "om' = om\<lparr>om_interfaces := it2\<rparr>" "r = Inr ()"
        using True *(3) rem assms(2) e by (simp_all add: om_releaseInterface_def m_removeCallbacksOnPath_def)
      have "owned (view it2) (it_handlers it2) (om_next om)"
        using owned_erase [OF ok1(2)] by (simp add: it2)
      moreover have "fed {} (view it2)" using ok1(3) by (auto simp: fed_def it2(2))
      moreover have ifs2: "om_ifaces om' = om_ifaces ?om1" by (simp add: om' it2(2) fun_eq_iff)
      ultimately have "om_ok {} om'" using it2(1) ok1(4) by (auto simp: om_ok_def om'(1) it2(2))
      with ifs ifs2 om' Some show ?thesis by simp
    qed
  qed
qed


subsection \<open>A new path tree\<close>

lemma plain_tree_view_default:
  assumes "plain_tree (it_root it)" and "view it ps \<noteq> no_value"
  obtains i where "i < length (it_root it)" "node_path (it_root it) i = ps"
proof -
  from assms(2) obtain i where "walk (it_root it) 0 ps = Some i"
    by (auto simp: view_def lookup_def split: option.splits)
  with walk_sound [of "it_root it" 0 ps i] assms(1) wf_nonempty [of "it_root it"]
  have "i < length (it_root it) \<and> node_path (it_root it) i = ps"
    by (simp add: plain_tree_def node_path_root)
  with that show thesis by blast
qed

lemma preorder_root:
  assumes "wf_tree t"
  shows "set (preorder t 0) = {..<length t}" "distinct (preorder t 0)"
  using set_preorder [OF assms wf_nonempty [OF assms]] distinct_preorder [OF assms wf_nonempty [OF assms]] assms
  by (auto simp: node_path_root)

lemma clear_fold:
  assumes "plain_tree (it_root it)" and "owned (view it) (it_handlers it) n" and "set js \<subseteq> {..<length (it_root it)}"
    and "it' = fold (\<lambda>node it. fst (m_removeHandler node it)) js it"
  shows "plain_tree (it_root it') \<and> owned (view it') (it_handlers it') n \<and> length (it_root it') = length (it_root it) \<and>
    node_path (it_root it') = node_path (it_root it) \<and> children (it_root it') = children (it_root it) \<and>
    (\<forall>ps. view it' ps = (if ps \<in> node_path (it_root it) ` set js then (view it ps)\<lparr>itv_handler := None\<rparr> else view it ps))"
  using assms
proof (induction js arbitrary: it)
  case Nil
  then show ?case by simp
next
  case (Cons j js)
  obtain it1 h where r: "m_removeHandler j it = (it1, h)" by fastforce
  have "j < length (it_root it)" using Cons.prems(3) by simp
  note v = m_removeHandler_view [OF Cons.prems(1) this r]
  then have v1: "plain_tree (it_root it1)" "length (it_root it1) = length (it_root it)"
    "node_path (it_root it1) = node_path (it_root it)" "children (it_root it1) = children (it_root it)" by blast+
  have "owned (view it1) (it_handlers it1) n" using v owned_erase [OF Cons.prems(2)] by presburger
  moreover have "set js \<subseteq> {..<length (it_root it1)}" using Cons.prems(3) v1(2) by simp
  moreover have "it' = fold (\<lambda>node it. fst (m_removeHandler node it)) js it1" using Cons.prems(4) r by simp
  ultimately have ih: "plain_tree (it_root it') \<and> owned (view it') (it_handlers it') n \<and>
      length (it_root it') = length (it_root it) \<and>
      node_path (it_root it') = node_path (it_root it) \<and> children (it_root it') = children (it_root it) \<and>
      (\<forall>ps. view it' ps = (if ps \<in> node_path (it_root it) ` set js then (view it1 ps)\<lparr>itv_handler := None\<rparr> else view it1 ps))"
    using Cons.IH [OF v1(1)] v1(2-4) by metis
  have eq: "(if ps \<in> node_path (it_root it) ` set js then (view it1 ps)\<lparr>itv_handler := None\<rparr> else view it1 ps) =
      (if ps \<in> node_path (it_root it) ` set (j # js) then (view it ps)\<lparr>itv_handler := None\<rparr> else view it ps)" for ps
    using v by auto
  show ?case using ih unfolding eq .
qed

lemma clearHandlers_spec:
  assumes "plain_tree (it_root it)" and "owned (view it) (it_handlers it) n"
  shows "\<exists>it'. clearHandlers it = Some it' \<and> plain_tree (it_root it') \<and> it_handlers it' = [] \<and>
    (\<forall>ps. view it' ps = (view it ps)\<lparr>itv_handler := None\<rparr>)"
proof -
  let ?t = "it_root it" and ?f = "\<lambda>node it. fst (m_removeHandler node it)"
  have wf: "wf_tree ?t" using assms(1) by (simp add: plain_tree_def)
  let ?I = "\<lambda>it'. plain_tree (it_root it') \<and> length (it_root it') = length ?t \<and> children (it_root it') = children ?t"
  have "?I (?f j it')" if "j \<in> set (preorder ?t 0)" "?I it'" for j it'
  proof -
    have "j < length (it_root it')" using that preorder_root(1) [OF wf] by simp
    with m_removeHandler_view [of it' j, OF _ _ surjective_pairing] that(2) show ?thesis by simp
  qed
  then have tr: "clearHandlers it = Some (fold ?f (preorder ?t 0) it)"
    unfolding clearHandlers_def
    by (intro traverseWith_inv [where I = ?I]) (use wf wf_nonempty [OF wf] assms(1) in auto)
  let ?it = "fold ?f (preorder ?t 0) it"
  have cf: "plain_tree (it_root ?it)" "owned (view ?it) (it_handlers ?it) n"
    "view ?it ps = (if ps \<in> node_path ?t ` {..<length ?t} then (view it ps)\<lparr>itv_handler := None\<rparr> else view it ps)" for ps
    using clear_fold [OF assms, of "preorder ?t 0" ?it] preorder_root(1) [OF wf] by simp_all
  have V: "view ?it ps = (view it ps)\<lparr>itv_handler := None\<rparr>" for ps
  proof (cases "view it ps = no_value")
    case True
    then show ?thesis by (simp add: cf(3) no_value_def)
  next
    case False
    with plain_tree_view_default [OF assms(1)] have "ps \<in> node_path ?t ` {..<length ?t}" by blast
    then show ?thesis by (simp add: cf(3))
  qed
  have "it_handlers ?it = []"
  proof (rule ccontr)
    assume "it_handlers ?it \<noteq> []"
    then obtain h where "h \<in> set (it_handlers ?it)" by (cases "it_handlers ?it") auto
    with owned_mem [OF cf(2)] obtain ps where "itv_handler (view ?it ps) = Some h" by blast
    with V [of ps] show False by simp
  qed
  with tr cf(1) V show ?thesis by blast
qed


lemma getFullPath_same_shape:
  "same_shape t t' \<Longrightarrow> wf_tree t \<Longrightarrow> i < length t \<Longrightarrow> getFullPath t' i = getFullPath t i"
proof -
  assume ss: "same_shape t t'" and t: "wf_tree t" "i < length t"
  have "i < length t'" using ss t(2) by (simp add: same_shape_def)
  from getFullPath_eq [OF same_shape_wf [OF ss t(1)] this] show "getFullPath t' i = getFullPath t i"
    by (simp add: getFullPath_eq [OF t] same_shape_node_path [OF ss])
qed

lemma path_names_printed:
  fixes it :: "'k InterfaceTree"
  assumes "plain_tree (it_root it)" and "i < length (it_root it)"
  shows "path_names (getFullPath (it_root it) i) = Some (node_path (it_root it) i)"
  using m_getNodeForPath_view [OF assms(1) m_getNodeForPath_printed [OF assms]] by (auto split: option.splits)

text \<open>On the printed path of a node the operations add no node.\<close>

lemma printed_ops:
  assumes "plain_tree (it_root it)" and "i < length (it_root it)" and "path = getFullPath (it_root it) i"
  shows "same_shape (it_root it) (it_root (fst (eraseHandlerForPath path it)))"
    "same_shape (it_root it) (it_root (fst (getInterfacesForPath path it)))"
    "same_shape (it_root it) (it_root (fst (replaceHandlerForPath path h it)))"
  using m_getNodeForPath_printed [OF assms(1,2)] assms(3)
  by (simp_all add: eraseHandlerForPath_def getInterfacesForPath_def replaceHandlerForPath_def
      m_removeHandler_def m_setHandler_def Let_def same_shape_trans [OF same_shape_set_value same_shape_set_value])

lemma connect_same_shape:
  assumes "plain_tree (it_root (om_interfaces om))" and "i < length (it_root (om_interfaces om))"
    and "path = getFullPath (it_root (om_interfaces om)) i"
    and "m_connectCallbacksOnPath L fac path om = (om', r)"
  shows "same_shape (it_root (om_interfaces om)) (it_root (om_interfaces om'))"
proof -
  let ?it = "om_interfaces om"
  have step: "plain_tree (it_root it2) \<and> i < length (it_root it2) \<and> path = getFullPath (it_root it2) i"
    if "same_shape (it_root ?it) (it_root it2)" for it2 :: "'a InterfaceTree"
  proof -
    have "plain_tree (it_root it2)"
      using assms(1) same_shape_wf [OF that] same_shape_node_path [OF that] that
      by (simp add: plain_tree_def) (simp add: same_shape_def)
    moreover have "i < length (it_root it2)" using that assms(2) by (simp add: same_shape_def)
    moreover have "path = getFullPath (it_root it2) i"
      using getFullPath_same_shape [OF that] assms(1-3) by (simp add: plain_tree_def)
    ultimately show ?thesis by blast
  qed
  define it1 where "it1 = fst (eraseHandlerForPath path ?it)"
  have s1: "same_shape (it_root ?it) (it_root it1)"
    unfolding it1_def by (rule printed_ops(1) [OF assms(1-3)])
  note st1 = step [OF s1]
  define it2 where "it2 = fst (getInterfacesForPath path it1)"
  have s2: "same_shape (it_root ?it) (it_root it2)"
    unfolding it2_def by (rule same_shape_trans [OF s1 printed_ops(2)]) (use st1 in auto)
  note st2 = step [OF s2]
  have "same_shape (it_root ?it) (it_root (fst (replaceHandlerForPath path h it2)))" for h
    by (rule same_shape_trans [OF s2 printed_ops(3)]) (use st2 in auto)
  then have s3: "replaceHandlerForPath path h it2 = (u, res) \<Longrightarrow> same_shape (it_root ?it) (it_root u)" for h u res
    by (metis fst_conv)
  have src: "same_shape (it_root ?it) (it_root (om_interfaces om2))"
    if "connect_source fac path source (om\<lparr>om_interfaces := it1, om_pathTree := T\<rparr>) = (om2, r2)" for source T om2 r2
    using that s2 s3 by (auto simp: connect_source_def it2_def split: prod.splits sum.splits option.splits)
  show ?thesis
    using assms(4) s1 src unfolding m_connectCallbacksOnPath_def it1_def
    by (auto split: prod.splits sum.splits option.splits)
qed

text \<open>A run over the positions \<open>S\<close>, from a state where these are as at its start.\<close>

definition connects :: "json_lib \<Rightarrow> 'k RemoteHandlerFactory \<Rightarrow> string list set \<Rightarrow> 'k connect_run \<Rightarrow> 'k connect_run \<Rightarrow> bool" where
  "connects L fac S run run' \<longleftrightarrow>
     om_ok {} (cr_om run') \<and> om_ifaces (cr_om run') = om_ifaces (cr_om run) \<and> om_next (cr_om run) \<le> om_next (cr_om run') \<and>
     same_shape (it_root (om_interfaces (cr_om run))) (it_root (om_interfaces (cr_om run'))) \<and>
     resolves L (om_pathTree (cr_om run)) (om_pathTree (cr_om run')) \<and>
     (\<forall>ps. ps \<notin> S \<longrightarrow> view (om_interfaces (cr_om run')) ps = view (om_interfaces (cr_om run)) ps) \<and>
     (\<forall>ps h. itv_handler (view (om_interfaces (cr_om run')) ps) = Some h \<longrightarrow>
        itv_handler (view (om_interfaces (cr_om run)) ps) = Some h \<or> om_next (cr_om run) \<le> fst h) \<and>
     (cr_stop run' = None \<longrightarrow> cr_stop run = None \<and>
        (\<forall>ps\<in>S. om_ifaces (cr_om run) ps = [] \<or> itv_handler (view (om_interfaces (cr_om run')) ps) \<noteq> None \<or>
           (\<exists>T. resolves L (om_pathTree (cr_om run)) T \<and> unconnectable L fac (CHR ''/'' # join_components ps) (om_ifaces (cr_om run) ps) T)))"

lemma connects_trans:
  assumes "connects L fac S r1 r2" and "connects L fac S' r2 r3" and "S \<inter> S' = {}"
  shows "connects L fac (S \<union> S') r1 r3"
proof -
  note d1 = assms(1) [unfolded connects_def] and d2 = assms(2) [unfolded connects_def]
  have S: "view (om_interfaces (cr_om r3)) ps = view (om_interfaces (cr_om r2)) ps" if "ps \<in> S" for ps
    using d2 assms(3) that by blast
  have "same_shape (it_root (om_interfaces (cr_om r1))) (it_root (om_interfaces (cr_om r3)))"
    using d1 d2 same_shape_trans by blast
  moreover have "itv_handler (view (om_interfaces (cr_om r1)) ps) = Some h \<or> om_next (cr_om r1) \<le> fst h"
    if "itv_handler (view (om_interfaces (cr_om r3)) ps) = Some h" for ps h
    using d1 d2 that order_trans by blast
  moreover have "om_ifaces (cr_om r1) ps = [] \<or> itv_handler (view (om_interfaces (cr_om r3)) ps) \<noteq> None \<or>
      (\<exists>T. resolves L (om_pathTree (cr_om r1)) T \<and> unconnectable L fac (CHR ''/'' # join_components ps) (om_ifaces (cr_om r1) ps) T)"
    if "cr_stop r3 = None" "ps \<in> S \<union> S'" for ps
  proof (cases "ps \<in> S")
    case True
    with S [OF True] d1 d2 that(1) show ?thesis by metis
  next
    case False
    then have "ps \<in> S'" using that(2) by blast
    then show ?thesis using d1 d2 that(1) resolves_trans by metis
  qed
  moreover have "resolves L (om_pathTree (cr_om r1)) (om_pathTree (cr_om r3))"
    using d1 d2 resolves_trans by blast
  ultimately show ?thesis using d1 d2 unfolding connects_def by (auto intro: order_trans)
qed


lemma connectsI:
  assumes "om_ok {} (cr_om run')" and "om_ifaces (cr_om run') = om_ifaces (cr_om run)"
    and "om_next (cr_om run) \<le> om_next (cr_om run')"
    and "same_shape (it_root (om_interfaces (cr_om run))) (it_root (om_interfaces (cr_om run')))"
    and "resolves L (om_pathTree (cr_om run)) (om_pathTree (cr_om run'))"
    and "\<And>ps. ps \<notin> S \<Longrightarrow> view (om_interfaces (cr_om run')) ps = view (om_interfaces (cr_om run)) ps"
    and "\<And>ps h. itv_handler (view (om_interfaces (cr_om run')) ps) = Some h \<Longrightarrow>
        itv_handler (view (om_interfaces (cr_om run)) ps) = Some h \<or> om_next (cr_om run) \<le> fst h"
    and "cr_stop run' = None \<Longrightarrow> cr_stop run = None"
    and "\<And>ps. cr_stop run' = None \<Longrightarrow> ps \<in> S \<Longrightarrow> om_ifaces (cr_om run) ps = [] \<or>
        itv_handler (view (om_interfaces (cr_om run')) ps) \<noteq> None \<or>
        (\<exists>T. resolves L (om_pathTree (cr_om run)) T \<and> unconnectable L fac (CHR ''/'' # join_components ps) (om_ifaces (cr_om run) ps) T)"
  shows "connects L fac S run run'"
  unfolding connects_def using assms by (intro conjI allI ballI impI) assumption+

lemma connects_UNIV:
  assumes "connects L fac S run run'" and "\<And>ps. ps \<notin> S \<Longrightarrow> om_ifaces (cr_om run) ps = []"
  shows "connects L fac UNIV run run'"
proof (rule connectsI)
  show "om_ifaces (cr_om run) ps = [] \<or> itv_handler (view (om_interfaces (cr_om run')) ps) \<noteq> None \<or>
      (\<exists>T. resolves L (om_pathTree (cr_om run)) T \<and> unconnectable L fac (CHR ''/'' # join_components ps) (om_ifaces (cr_om run) ps) T)"
    if "cr_stop run' = None" for ps
    using assms that unfolding connects_def by blast
qed (use assms(1) [unfolded connects_def] in \<open>blast+\<close>)

lemma connects_refl:
  assumes "om_ok {} (cr_om run)"
    and "\<And>ps. cr_stop run = None \<Longrightarrow> ps \<in> S \<Longrightarrow>
      om_ifaces (cr_om run) ps = [] \<or> itv_handler (view (om_interfaces (cr_om run)) ps) \<noteq> None"
  shows "connects L fac S run run"
  by (rule connectsI) (use assms in \<open>simp_all\<close>, blast)

lemma connect_visit_connects:
  assumes "om_ok {} (cr_om run)" and "i < length (it_root (om_interfaces (cr_om run)))"
  shows "connects L fac {node_path (it_root (om_interfaces (cr_om run))) i} run (connect_visit L fac i run)"
proof -
  let ?om = "cr_om run"
  let ?t = "it_root (om_interfaces ?om)"
  let ?ps = "node_path ?t i"
  note pl = om_okD(1) [OF assms(1)]
  then have wf: "wf_tree ?t" by (simp add: plain_tree_def)
  note vn = view_node [OF wf assms(2)]
  show ?thesis
  proof (cases "cr_stop run \<noteq> None \<or> itv_handler (value_of ?t i) \<noteq> None \<or> itv_interfaces (value_of ?t i) = []")
    case True
    then have "connect_visit L fac i run = run" by (simp add: connect_visit_def Let_def)
    then show ?thesis using True vn by (auto intro: connects_refl [OF assms(1)])
  next
    case False
    define path where "path = getFullPath ?t i"
    obtain om1 r where c: "m_connectCallbacksOnPath L fac path ?om = (om1, r)" by fastforce
    have path: "path_names path = Some ?ps" "path = CHR ''/'' # join_components ?ps"
      unfolding path_def by (rule path_names_printed [OF pl assms(2)], rule getFullPath_eq [OF wf assms(2)])
    from False vn have ne: "om_ifaces ?om ?ps \<noteq> []" by simp
    note spec = connect_path_spec [OF assms(1) path(1) ne c]
    note at1 = connects_atD [OF conjunct1 [OF spec]]
    have shape: "same_shape ?t (it_root (om_interfaces om1))"
      by (rule connect_same_shape [OF pl assms(2) path_def c])
    have run': "connect_visit L fac i run = \<lparr>cr_om = om1, cr_stop = (case r of Inl e \<Rightarrow> Some e | Inr b \<Rightarrow> None)\<rparr>"
      using False c by (auto simp: connect_visit_def Let_def path_def getFullPath_def split: sum.split)
    have new: "itv_handler (view (om_interfaces ?om) ps) = Some h \<or> om_next ?om \<le> fst h"
      if "itv_handler (view (om_interfaces om1) ps) = Some h" for ps h
      using at1(4) [of ps] at1(5) [of h] that by (cases "ps = ?ps") auto
    have "itv_handler (view (om_interfaces om1) ?ps) \<noteq> None \<or>
        (\<exists>T. resolves L (om_pathTree ?om) T \<and> unconnectable L fac path (om_ifaces ?om ?ps) T)" if "r = Inr b" for b
      using spec that by (cases b) (auto intro: exI [of _ "om_pathTree ?om"])
    then have con: "itv_handler (view (om_interfaces om1) ?ps) \<noteq> None \<or>
        (\<exists>T. resolves L (om_pathTree ?om) T \<and> unconnectable L fac (CHR ''/'' # join_components ?ps) (om_ifaces ?om ?ps) T)" if "\<forall>e. r \<noteq> Inl e"
      using that path(2) by (cases r) auto
    show ?thesis unfolding run'
    proof (rule connectsI, unfold connect_run.simps)
      show "om_ok {} om1" "om_ifaces om1 = om_ifaces ?om" "om_next ?om \<le> om_next om1" by (fact at1(1-3))+
      show "same_shape ?t (it_root (om_interfaces om1))" by (rule shape)
      show "resolves L (om_pathTree ?om) (om_pathTree om1)" using spec by blast
      show "ps \<notin> {?ps} \<Longrightarrow> view (om_interfaces om1) ps = view (om_interfaces ?om) ps" for ps
        using at1(4) by simp
      show "itv_handler (view (om_interfaces om1) ps) = Some h \<Longrightarrow>
          itv_handler (view (om_interfaces ?om) ps) = Some h \<or> om_next ?om \<le> fst h" for ps h
        by (rule new)
      show "cr_stop run = None" using False by blast
      show "om_ifaces ?om ps = [] \<or> itv_handler (view (om_interfaces om1) ps) \<noteq> None \<or>
          (\<exists>T. resolves L (om_pathTree ?om) T \<and> unconnectable L fac (CHR ''/'' # join_components ps) (om_ifaces ?om ps) T)"
        if "(case r of Inl e \<Rightarrow> Some e | Inr b \<Rightarrow> None) = None" "ps \<in> {?ps}" for ps
        using that con by (auto split: sum.splits)
    qed
  qed
qed

lemma connect_fold:
  assumes "om_ok {} (cr_om run)" and "t = it_root (om_interfaces (cr_om run))"
    and "set js \<subseteq> {..<length t}" and "distinct js"
  shows "connects L fac (node_path t ` set js) run (fold (connect_visit L fac) js run)"
  using assms
proof (induction js arbitrary: run t)
  case Nil
  then show ?case by (auto intro: connects_refl)
next
  case (Cons j js)
  have j: "j < length (it_root (om_interfaces (cr_om run)))" using Cons.prems(2,3) by simp
  define run1 where "run1 = connect_visit L fac j run"
  note c1 = connect_visit_connects [OF Cons.prems(1) j, of L fac, folded run1_def]
  then have ok1: "om_ok {} (cr_om run1)" and ss: "same_shape t (it_root (om_interfaces (cr_om run1)))"
    using Cons.prems(2) unfolding connects_def by blast+
  have np: "node_path (it_root (om_interfaces (cr_om run1))) = node_path t"
    by (rule ext) (rule same_shape_node_path [OF ss])
  have "connects L fac (node_path t ` set js) run1 (fold (connect_visit L fac) js run1)"
    using Cons.IH [OF ok1 refl] Cons.prems(3,4) ss np by (simp add: same_shape_def)
  moreover have "node_path t j \<notin> node_path t ` set js"
  proof
    assume "node_path t j \<in> node_path t ` set js"
    then obtain k where k: "k \<in> set js" "node_path t j = node_path t k" by blast
    have "wf_tree t" using om_okD(1) [OF Cons.prems(1)] Cons.prems(2) by (simp add: plain_tree_def)
    moreover have "k < length t" "j < length t" "j \<noteq> k" using k(1) Cons.prems(3,4) by auto
    ultimately show False using node_path_inj [of t j k] k(2) by blast
  qed
  ultimately have "connects L fac ({node_path t j} \<union> node_path t ` set js) run (fold (connect_visit L fac) js run1)"
    using c1 Cons.prems(2) by (intro connects_trans [of L fac "{node_path t j}" run run1]) auto
  then show ?case by (simp add: run1_def)
qed

lemma connectNeeded_spec:
  assumes "om_ok {} om"
  shows "\<exists>run'. m_connectNeededCallbacks L fac om =
      Some (cr_om run', case cr_stop run' of None \<Rightarrow> Inr () | Some e \<Rightarrow> Inl e) \<and>
    connects L fac UNIV \<lparr>cr_om = om, cr_stop = None\<rparr> run'"
proof -
  let ?run = "\<lparr>cr_om = om, cr_stop = None\<rparr>" and ?t = "it_root (om_interfaces om)"
  note pl = om_okD(1) [OF assms]
  then have wf: "wf_tree ?t" by (simp add: plain_tree_def)
  let ?I = "\<lambda>run. om_ok {} (cr_om run) \<and> same_shape ?t (it_root (om_interfaces (cr_om run)))"
  have "?I (connect_visit L fac j run)" if "j \<in> set (preorder ?t 0)" "?I run" for j run
  proof -
    have "j < length (it_root (om_interfaces (cr_om run)))"
      using that preorder_root(1) [OF wf] by (simp add: same_shape_def)
    from connect_visit_connects [OF conjunct1 [OF that(2)] this, of L fac] that(2) show ?thesis
      unfolding connects_def by (blast intro: same_shape_trans)
  qed
  then have "traverseWith (\<lambda>run. children (it_root (om_interfaces (cr_om run)))) (connect_visit L fac) 0 ?run =
      Some (fold (connect_visit L fac) (preorder ?t 0) ?run)"
    by (intro traverseWith_inv [where I = ?I]) (use wf wf_nonempty [OF wf] assms in \<open>auto simp: same_shape_def\<close>)
  moreover have c: "connects L fac (node_path ?t ` {..<length ?t}) ?run (fold (connect_visit L fac) (preorder ?t 0) ?run)"
    using connect_fold [of ?run ?t "preorder ?t 0" L fac] assms preorder_root [OF wf] by simp
  have "connects L fac UNIV ?run (fold (connect_visit L fac) (preorder ?t 0) ?run)"
  proof -
    have "om_ifaces om ps = []" if "ps \<notin> node_path ?t ` {..<length ?t}" for ps
    proof -
      have "view (om_interfaces om) ps = no_value"
        using plain_tree_view_default [OF pl, of ps] that by blast
      then show ?thesis by (simp add: no_value_def)
    qed
    then show ?thesis by (intro connects_UNIV [OF c]) simp
  qed
  ultimately show ?thesis by (auto simp: m_connectNeededCallbacks_def)
qed


lemma pathTreeReplaced_spec:
  assumes "om_ok {} om"
  shows "\<exists>om' r. pathTreeReplaced L fac newTree om = Some (om', r) \<and> om_ok {} om' \<and> om_ifaces om' = om_ifaces om \<and>
    (\<forall>h\<in>set (updateHandlers (om_interfaces om')). om_next om \<le> fst h) \<and>
    (r = Inr () \<longrightarrow> (\<forall>ps. om_ifaces om' ps \<noteq> [] \<longrightarrow> itv_handler (view (om_interfaces om') ps) \<noteq> None \<or>
       (\<exists>T. resolves L newTree T \<and> unconnectable L fac (CHR ''/'' # join_components ps) (om_ifaces om' ps) T)))"
proof -
  note ok = om_okD [OF assms]
  obtain it1 where cl: "clearHandlers (om_interfaces om) = Some it1" and it1: "plain_tree (it_root it1)"
      "it_handlers it1 = []" "\<And>ps. view it1 ps = (view (om_interfaces om) ps)\<lparr>itv_handler := None\<rparr>"
    using clearHandlers_spec [OF ok(1,2)] by blast
  let ?om1 = "om\<lparr>om_interfaces := it1, om_pathTree := newTree\<rparr>"
  have ifs: "om_ifaces ?om1 = om_ifaces om" by (simp add: it1(3) fun_eq_iff)
  have "om_ok {} ?om1" using it1 ok(4) by (simp add: om_ok_def owned_def fed_def)
  from connectNeeded_spec [OF this, of L fac] obtain run' where
    run': "m_connectNeededCallbacks L fac ?om1 =
      Some (cr_om run', case cr_stop run' of None \<Rightarrow> Inr () | Some e \<Rightarrow> Inl e)"
    and c: "connects L fac UNIV \<lparr>cr_om = ?om1, cr_stop = None\<rparr> run'" by blast
  note c = c [unfolded connects_def connect_run.simps]
  have "pathTreeReplaced L fac newTree om = Some (cr_om run', case cr_stop run' of None \<Rightarrow> Inr () | Some e \<Rightarrow> Inl e)"
    using cl run' by (simp add: pathTreeReplaced_def aboutToUpdate_def)
  moreover have ok': "om_ok {} (cr_om run')" and ifs': "om_ifaces (cr_om run') = om_ifaces om"
    using c ifs by auto
  moreover have "om_next om \<le> fst h" if h: "h \<in> set (updateHandlers (om_interfaces (cr_om run')))" for h
  proof -
    from h owned_mem [OF om_okD(2) [OF ok']] obtain ps where
      ps: "itv_handler (view (om_interfaces (cr_om run')) ps) = Some h" by (auto simp: updateHandlers_def)
    with c have "itv_handler (view (om_interfaces ?om1) ps) = Some h \<or> om_next ?om1 \<le> fst h" by blast
    then show ?thesis by (simp add: it1(3))
  qed
  moreover have "itv_handler (view (om_interfaces (cr_om run')) ps) \<noteq> None \<or>
      (\<exists>T. resolves L newTree T \<and>
        unconnectable L fac (CHR ''/'' # join_components ps) (om_ifaces (cr_om run') ps) T)"
    if "cr_stop run' = None" "om_ifaces (cr_om run') ps \<noteq> []" for ps
  proof -
    have "om_ifaces om ps \<noteq> []" using that(2) fun_cong [OF ifs', of ps] by simp
    with c that(1) ifs have "itv_handler (view (om_interfaces (cr_om run')) ps) \<noteq> None \<or>
        (\<exists>T. resolves L (om_pathTree ?om1) T \<and> unconnectable L fac (CHR ''/'' # join_components ps) (om_ifaces ?om1 ps) T)"
      by (metis UNIV_I)
    then show ?thesis using fun_cong [OF ifs', of ps] by (simp add: it1(3))
  qed
  ultimately show ?thesis by (intro exI [of _ "cr_om run'"] exI conjI) (assumption, auto split: option.splits)
qed

subsection \<open>The contexts a client can reach\<close>

definition ClientContext_create :: "PathTree \<Rightarrow> 'k ClientContext" where
  "ClientContext_create T =
     \<lparr>cc_interfaces = [], cc_mgr = \<lparr>om_interfaces = InterfaceTree_create, om_pathTree = T, om_next = 0\<rparr>, cc_next = 0\<rparr>"

text \<open>
  The operations of a client, also when they throw, and the arrival of a new path tree.
\<close>

inductive cc_reachable :: "json_lib \<Rightarrow> 'k RemoteHandlerFactory \<Rightarrow> 'k ClientContext \<Rightarrow> bool" for L fac where
  created: "cc_reachable L fac (ClientContext_create T)"
| opened: "cc_reachable L fac cc \<Longrightarrow> getInterface L fac path cc = (cc', r) \<Longrightarrow> cc_reachable L fac cc'"
| closed: "cc_reachable L fac cc \<Longrightarrow> releaseInterface iface cc = (cc', r') \<Longrightarrow> cc_reachable L fac cc'"
| updated: "cc_reachable L fac cc \<Longrightarrow> pathTreeReplaced L fac newTree (cc_mgr cc) = Some (om, u) \<Longrightarrow>
    cc_reachable L fac (cc\<lparr>cc_mgr := om\<rparr>)"

definition cc_ok :: "'k ClientContext \<Rightarrow> bool" where
  "cc_ok cc \<longleftrightarrow> om_ok {} (cc_mgr cc) \<and> distinct (map fst (cc_interfaces cc)) \<and>
     (\<forall>ps. \<forall>a\<in>set (om_ifaces (cc_mgr cc) ps). a < cc_next cc) \<and>
     (\<forall>(a, p)\<in>set (cc_interfaces cc). \<exists>ps. path_names p = Some ps \<and> a \<in> set (om_ifaces (cc_mgr cc) ps))"

lemma plain_tree_createRoot [simp]: "plain_tree (createRoot v)"
proof -
  have "i < length (createRoot v) \<Longrightarrow> node_path (createRoot v) i = []" for i
    using node_path_root [OF wf_createRoot, of v] by (simp add: createRoot_def)
  then show ?thesis by (simp add: plain_tree_def)
qed

lemma cc_ok_create: "cc_ok (ClientContext_create T)"
proof -
  have "view (InterfaceTree_create :: 'a InterfaceTree) ps = no_value" for ps
    by (simp add: view_def InterfaceTree_create_def lookup_createRoot)
  moreover have "plain_tree (it_root (InterfaceTree_create :: 'a InterfaceTree))"
    "it_handlers (InterfaceTree_create :: 'a InterfaceTree) = []"
    by (simp_all add: InterfaceTree_create_def)
  ultimately show ?thesis
    by (simp add: cc_ok_def ClientContext_create_def om_ok_def owned_def fed_def no_value_def)
qed

lemma distinct_map_fst_remove1: "distinct (map fst xs) \<Longrightarrow> distinct (map fst (remove1 x xs))"
  by (induction xs) (auto dest: set_remove1_subset [THEN subsetD])

lemma getInterface_ok:
  assumes "cc_ok cc" and "getInterface L fac path cc = (cc', r)"
  shows "cc_ok cc'"
proof (cases "StandardClientInterfaceFactory (cc_next cc) path")
  case None
  with assms show ?thesis by (simp add: getInterface_def)
next
  case (Some iface)
  then have a: "fst iface = cc_next cc" by (auto simp: StandardClientInterfaceFactory_def split: option.splits if_splits)
  obtain om res where add: "om_addInterface L fac (cc_next cc) (snd iface) (cc_mgr cc) = (om, res)" by fastforce
  have "om_ok {} (cc_mgr cc)" using assms(1) by (simp add: cc_ok_def)
  note spec = om_addInterface_spec [OF this add]
  have mem: "b \<in> set (om_ifaces om ps) \<longleftrightarrow> b \<in> set (om_ifaces (cc_mgr cc) ps) \<or>
      (b = cc_next cc \<and> path_names (snd iface) = Some ps)" for b ps
    using fun_cong [OF conjunct1 [OF conjunct2 [OF spec]], of ps] by (auto simp: ifaces_at_def split: option.splits)
  have keep: "\<exists>ps. path_names p = Some ps \<and> b \<in> set (om_ifaces om ps)" if "(b, p) \<in> set (cc_interfaces cc)" for b p
    using assms(1) that mem unfolding cc_ok_def by blast
  have old: "b < cc_next cc" if "(b, p) \<in> set (cc_interfaces cc)" for b p
    using assms(1) that unfolding cc_ok_def by blast
  have lt: "b < Suc (cc_next cc)" if "b \<in> set (om_ifaces om ps)" for b ps
    using assms(1) that mem [of b ps] by (auto simp: cc_ok_def less_Suc_eq)
  have ok: "om_ok {} om" using spec by blast
  show ?thesis
  proof (cases res)
    case (Inl e)
    with Some add a assms ok keep lt show ?thesis by (auto simp: getInterface_def cc_ok_def)
  next
    case (Inr u)
    then obtain ps where ps: "path_names (snd iface) = Some ps" using spec by auto
    have "(cc_next cc, p) \<notin> set (cc_interfaces cc)" for p using old by blast
    with Inr Some add a assms ok keep lt mem ps show ?thesis
      by (cases iface) (auto simp: getInterface_def cc_ok_def)
  qed
qed

lemma releaseInterface_ok:
  assumes "cc_ok cc" and "releaseInterface iface cc = (cc', r)"
  shows "cc_ok cc'"
proof (cases "Option.bind iface (\<lambda>a. find (\<lambda>p. fst p = a) (cc_interfaces cc))")
  case None
  with assms show ?thesis by (auto simp: releaseInterface_def split: option.splits)
next
  case (Some ret)
  then obtain a where a: "iface = Some a" "find (\<lambda>p. fst p = a) (cc_interfaces cc) = Some ret" by (cases iface) auto
  then have ret: "ret \<in> set (cc_interfaces cc)" "fst ret = a" by (auto dest: find_Some_in)
  obtain om res where rel: "om_releaseInterface (fst ret) (snd ret) (cc_mgr cc) = (om, res)" by fastforce
  have "om_ok {} (cc_mgr cc)" using assms(1) by (simp add: cc_ok_def)
  note spec = om_releaseInterface_spec [OF this rel]
  have mem: "b \<in> set (om_ifaces om ps) \<Longrightarrow> b \<in> set (om_ifaces (cc_mgr cc) ps)"
    "b \<noteq> a \<Longrightarrow> b \<in> set (om_ifaces om ps) \<longleftrightarrow> b \<in> set (om_ifaces (cc_mgr cc) ps)" for b ps
    using fun_cong [OF conjunct1 [OF conjunct2 [OF spec]], of ps] ret(2)
    by (auto simp: ifaces_at_def in_set_remove1 split: option.splits if_splits dest: set_remove1_subset [THEN subsetD])
  have d: "distinct (map fst (cc_interfaces cc))" using assms(1) by (simp add: cc_ok_def)
  note d' = distinct_map_fst_remove1 [OF d, of ret]
  have other: "b \<noteq> a \<and> (b, p) \<in> set (cc_interfaces cc)" if "(b, p) \<in> set (remove1 ret (cc_interfaces cc))" for b p
    using that d ret by (auto simp: distinct_map inj_on_def)
  have cc': "cc' = cc\<lparr>cc_interfaces := remove1 ret (cc_interfaces cc), cc_mgr := om\<rparr>"
    using assms(2) a rel by (simp add: releaseInterface_def)
  have "\<exists>ps. path_names p = Some ps \<and> b \<in> set (om_ifaces om ps)"
    if "(b, p) \<in> set (remove1 ret (cc_interfaces cc))" for b p
    using other [OF that] mem(2) assms(1) unfolding cc_ok_def by blast
  moreover have "b < cc_next cc" if "b \<in> set (om_ifaces om ps)" for b ps
    using mem(1) [OF that] assms(1) unfolding cc_ok_def by blast
  ultimately show ?thesis using spec d' by (auto simp: cc_ok_def cc')
qed

lemma reachable_cc_ok: "cc_reachable L fac cc \<Longrightarrow> cc_ok cc"
proof (induction rule: cc_reachable.induct)
  case (updated cc newTree om u)
  from updated.IH have "om_ok {} (cc_mgr cc)" by (simp add: cc_ok_def)
  from pathTreeReplaced_spec [OF this, of L fac newTree] updated.hyps(2)
  have om: "om_ok {} om" and ifs: "om_ifaces om = om_ifaces (cc_mgr cc)" by auto
  show ?case using updated.IH om fun_cong [OF ifs] by (simp add: cc_ok_def)
qed (auto intro: cc_ok_create getInterface_ok releaseInterface_ok)


text \<open>A context that has opened the alias \<open>/me\<close> of a tracker's sensor, for the examples.\<close>

declare resolveTreeNodeImpl.simps [code] visitChildren.simps [code]

definition demo_factory :: "string option RemoteHandlerFactory" where
  "demo_factory = addFactory ''tracker'' (\<lambda>T source ifaces. Inr (Some (getSensorNumber Some T source))) Map.empty"

definition demo_context :: "string option ClientContext" where
  "demo_context = fst (getInterface plain_lib demo_factory (Some ''/me'') (ClientContext_create aliased_device_tree))"

lemma demo_context_reachable: "cc_reachable plain_lib demo_factory demo_context"
  unfolding demo_context_def by (rule opened [OF created surjective_pairing])

text \<open>
  C24: in every context a client can reach by opening and closing interfaces and receiving path
  trees, also when these throw: every interface the context owns is registered at the position
  its path denotes; the container from which the context updates the handlers holds each handler
  of the tree of interfaces once and no other, a handler serves one position only, and a
  position has a handler only while it has interfaces.
\<close>

theorem handlers_follow_interfaces:
  assumes "cc_reachable L fac cc" and "it = om_interfaces (cc_mgr cc)"
  shows "(\<forall>(a, p)\<in>set (cc_interfaces cc). \<exists>ps. path_names p = Some ps \<and> a \<in> set (itv_interfaces (view it ps))) \<and>
    distinct (updateHandlers it) \<and>
    (\<forall>h. h \<in> set (updateHandlers it) \<longleftrightarrow> (\<exists>!ps. itv_handler (view it ps) = Some h)) \<and>
    (\<forall>ps. itv_handler (view it ps) \<noteq> None \<longrightarrow> itv_interfaces (view it ps) \<noteq> [])"
proof -
  note cc = reachable_cc_ok [OF assms(1)]
  then have "om_ok {} (cc_mgr cc)" by (simp add: cc_ok_def)
  note ok = om_okD [OF this, folded assms(2)]
  have "h \<in> set (updateHandlers it) \<longleftrightarrow> (\<exists>!ps. itv_handler (view it ps) = Some h)" for h
    using owned_mem [OF ok(2)] owned_unique [OF ok(2)] unfolding updateHandlers_def by blast
  with cc ok(2,3) show ?thesis
    by (simp add: cc_ok_def updateHandlers_def owned_def fed_def assms(2))
qed

theorem handlers_follow_interfaces_witness:
  "\<exists>ps qs. path_names ''/me'' = Some ps \<and> 0 \<in> set (om_ifaces (cc_mgr demo_context) ps) \<and>
     itv_handler (view (om_interfaces (cc_mgr demo_context)) qs) = Some (0, Some ''1'') \<and>
     om_ifaces (cc_mgr demo_context) qs \<noteq> []"
proof -
  have "(0, ''/me'') \<in> set (cc_interfaces demo_context)"
    "(0, Some ''1'') \<in> set (updateHandlers (om_interfaces (cc_mgr demo_context)))"
    by code_simp+
  with handlers_follow_interfaces [OF demo_context_reachable refl] show ?thesis by fastforce
qed

text \<open>
  C26: when the server's path tree replaces the client's, the two event callbacks of the manager
  return; no handler that was made for the old tree survives, every interface stays where it
  was, and when no resolution throws, each position with interfaces has a handler again or, in
  a tree that resolving paths made of the new one, its path leads to no source or to one the
  factory makes nothing of.
\<close>

theorem tree_update_reconnects:
  assumes "cc_reachable L fac cc"
  shows "\<exists>om r. pathTreeReplaced L fac newTree (cc_mgr cc) = Some (om, r) \<and>
    (\<forall>h\<in>set (updateHandlers (om_interfaces om)). h \<notin> set (updateHandlers (om_interfaces (cc_mgr cc)))) \<and>
    (\<forall>ps. om_ifaces om ps = om_ifaces (cc_mgr cc) ps) \<and>
    (r = Inr () \<longrightarrow> (\<forall>ps. om_ifaces om ps \<noteq> [] \<longrightarrow> itv_handler (view (om_interfaces om) ps) \<noteq> None \<or>
       (\<exists>T. resolves L newTree T \<and> unconnectable L fac (CHR ''/'' # join_components ps) (om_ifaces om ps) T)))"
proof -
  have "om_ok {} (cc_mgr cc)" using reachable_cc_ok [OF assms] by (simp add: cc_ok_def)
  from pathTreeReplaced_spec [OF this, of L fac newTree] om_okD(2) [OF this]
  obtain om r where *: "pathTreeReplaced L fac newTree (cc_mgr cc) = Some (om, r)"
      "om_ifaces om = om_ifaces (cc_mgr cc)"
      "\<forall>h\<in>set (updateHandlers (om_interfaces om)). om_next (cc_mgr cc) \<le> fst h"
      "r = Inr () \<longrightarrow> (\<forall>ps. om_ifaces om ps \<noteq> [] \<longrightarrow> itv_handler (view (om_interfaces om) ps) \<noteq> None \<or>
       (\<exists>T. resolves L newTree T \<and> unconnectable L fac (CHR ''/'' # join_components ps) (om_ifaces om ps) T))"
    and old: "\<forall>h\<in>set (updateHandlers (om_interfaces (cc_mgr cc))). fst h < om_next (cc_mgr cc)"
    by (auto simp: owned_def updateHandlers_def)
  then have "\<forall>h\<in>set (updateHandlers (om_interfaces om)). h \<notin> set (updateHandlers (om_interfaces (cc_mgr cc)))"
    by (meson leD)
  with *(1,4) fun_cong [OF *(2)] show ?thesis by blast
qed

theorem tree_update_reconnects_witness:
  "\<exists>om r. pathTreeReplaced plain_lib demo_factory PathTree_create (cc_mgr demo_context) = Some (om, r) \<and>
     (0, Some ''1'') \<notin> set (updateHandlers (om_interfaces om)) \<and> om_ifaces om [''me''] = [0]"
proof -
  have "(0, Some ''1'') \<in> set (updateHandlers (om_interfaces (cc_mgr demo_context)))"
    "om_ifaces (cc_mgr demo_context) [''me''] = [0]"
    by code_simp+
  with tree_update_reconnects [OF demo_context_reachable, of PathTree_create] show ?thesis by fastforce
qed

end
