(* ===== verification/Value_Range.thy ===== *)
theory Value_Range
  imports Time_Value
begin

text \<open>
  \<^verbatim>\<open>ValueOrRange<int>\<close> of \<^verbatim>\<open>inc/osvr/Util/ValueOrRange.h\<close>: a single value or a range of integers,
  kept as a half-open interval, as the handlers of analogs and buttons use it for the channels
  they have seen. Signed overflow is undefined: \<open>None\<close>.
\<close>

record ValueOrRange =
  vor_begin :: int
  vor_end :: int

definition vor_create :: ValueOrRange where
  "vor_create = \<lparr>vor_begin = 0, vor_end = 0\<rparr>"

definition m_setMax :: "int \<Rightarrow> ValueOrRange \<Rightarrow> ValueOrRange option" where
  "m_setMax maxVal r = do { e \<leftarrow> checked 32 (maxVal + 1); Some (r\<lparr>vor_end := e\<rparr>) }"

definition setEmpty :: "ValueOrRange \<Rightarrow> ValueOrRange" where
  "setEmpty r = \<lparr>vor_begin = 0, vor_end = 0\<rparr>"

definition SingleValue :: "int \<Rightarrow> ValueOrRange option" where
  "SingleValue v = m_setMax v \<lparr>vor_begin = v, vor_end = 0\<rparr>"

definition RangeMaxMin :: "int \<Rightarrow> int \<Rightarrow> ValueOrRange option" where
  "RangeMaxMin maxVal minVal =
     (let r = \<lparr>vor_begin = minVal, vor_end = 0\<rparr>
      in if maxVal \<ge> minVal then m_setMax maxVal r else Some (setEmpty r))"

definition RangeZeroTo :: "int \<Rightarrow> ValueOrRange option" where
  "RangeZeroTo maxVal = RangeMaxMin maxVal 0"

definition vor_empty :: "ValueOrRange \<Rightarrow> bool" where
  "vor_empty r \<longleftrightarrow> vor_begin r = 0 \<and> vor_end r = 0"

definition isValue :: "ValueOrRange \<Rightarrow> bool option" where
  "isValue r = do { b \<leftarrow> checked 32 (vor_begin r + 1); Some (b = vor_end r) }"

definition isNonEmptyRange :: "ValueOrRange \<Rightarrow> bool option" where
  "isNonEmptyRange r = do { b \<leftarrow> checked 32 (vor_begin r + 1); Some (vor_end r > b) }"

definition getMin :: "ValueOrRange \<Rightarrow> int" where
  "getMin r = vor_begin r"

definition getMax :: "ValueOrRange \<Rightarrow> int option" where
  "getMax r = checked 32 (vor_end r - 1)"

definition vor_size :: "ValueOrRange \<Rightarrow> int option" where
  "vor_size r = checked 32 (vor_end r - vor_begin r)"

definition getValue :: "ValueOrRange \<Rightarrow> int" where
  "getValue r = vor_begin r"

text \<open>The conjunction short-circuits.\<close>

definition vor_contains :: "int \<Rightarrow> ValueOrRange \<Rightarrow> bool option" where
  "vor_contains val r =
     (if vor_empty r \<or> \<not> getMin r \<le> val then Some False
      else do { m \<leftarrow> getMax r; Some (val \<le> m) })"

definition setValue :: "int \<Rightarrow> ValueOrRange \<Rightarrow> ValueOrRange option" where
  "setValue val r = m_setMax val (r\<lparr>vor_begin := val\<rparr>)"

text \<open>A range with the minimum above the maximum is emptied and then written all the same.\<close>

definition setRangeMaxMin :: "int \<Rightarrow> int \<Rightarrow> ValueOrRange \<Rightarrow> ValueOrRange option" where
  "setRangeMaxMin maxVal minVal r =
     (let r1 = (if minVal > maxVal then setEmpty r else r)
      in m_setMax maxVal (r1\<lparr>vor_begin := minVal\<rparr>))"

definition getIntersection :: "ValueOrRange \<Rightarrow> ValueOrRange \<Rightarrow> ValueOrRange option" where
  "getIntersection r other =
     (if vor_empty other then Some other
      else if vor_empty r then Some (setEmpty other)
      else do { m1 \<leftarrow> getMax r; m2 \<leftarrow> getMax other;
                setRangeMaxMin (min m1 m2) (max (getMin r) (getMin other)) other })"

definition extendRangeToMax :: "int \<Rightarrow> ValueOrRange \<Rightarrow> (exn, ValueOrRange) result option" where
  "extendRangeToMax maxVal r =
     (if vor_empty r then Some (Inl (LogicError ''Can't extend an empty range with a new max!''))
      else if maxVal \<ge> vor_end r then map_option Inr (m_setMax maxVal r)
      else Some (Inr r))"

text \<open>
  What a range-based for loop visits: from \<^verbatim>\<open>begin\<close> up to \<^verbatim>\<open>end\<close>; with \<^verbatim>\<open>end\<close> below \<^verbatim>\<open>begin\<close> the
  increments overflow.
\<close>

definition vor_elements :: "ValueOrRange \<Rightarrow> int list option" where
  "vor_elements r = (if vor_begin r \<le> vor_end r then Some [vor_begin r..vor_end r - 1] else None)"

subsection \<open>Ranges as sets\<close>

text \<open>A range in order, with room for the arithmetic on its bounds.\<close>

definition vor_ok :: "ValueOrRange \<Rightarrow> bool" where
  "vor_ok r \<longleftrightarrow> int_range 32 (vor_begin r) \<and> int_range 32 (vor_end r) \<and> vor_begin r \<le> vor_end r \<and>
     - (2 ^ 31) < vor_end r \<and> (vor_begin r = vor_end r \<longrightarrow> vor_begin r = 0)"

definition vor_set :: "ValueOrRange \<Rightarrow> int set" where
  "vor_set r = {vor_begin r..<vor_end r}"

lemma int_range_32_iff: "int_range 32 x \<longleftrightarrow> - 2147483648 \<le> x \<and> x \<le> 2147483647"
  by (auto simp: int_range_def)

lemma vor_elements_ok: "vor_ok r \<Longrightarrow> vor_elements r = Some [vor_begin r..vor_end r - 1]"
  by (simp add: vor_ok_def vor_elements_def)

lemma vor_set_elements: "vor_elements r = Some xs \<Longrightarrow> set xs = vor_set r"
  by (auto simp: vor_elements_def vor_set_def split: if_splits)

lemma vor_empty_iff: "vor_ok r \<Longrightarrow> vor_empty r \<longleftrightarrow> vor_set r = {}"
  by (auto simp: vor_empty_def vor_ok_def vor_set_def)

lemma vor_contains_spec: "vor_ok r \<Longrightarrow> vor_contains v r = Some (v \<in> vor_set r)"
  by (auto simp: vor_contains_def vor_ok_def vor_set_def vor_empty_def getMin_def getMax_def checked_def
      int_range_32_iff split: if_splits)

lemma setValue_spec:
  assumes "- 2147483648 \<le> v" and "v < 2147483647"
  obtains r' where "setValue v r = Some r'" "vor_ok r'" "vor_begin r' = v" "vor_end r' = v + 1"
proof
  show "setValue v r = Some (r\<lparr>vor_begin := v, vor_end := v + 1\<rparr>)"
    using assms by (simp add: setValue_def m_setMax_def checked_def int_range_32_iff)
qed (use assms in \<open>auto simp: vor_ok_def int_range_32_iff\<close>)

lemma RangeZeroTo_spec:
  assumes "- 2147483648 \<le> m" and "m < 2147483647"
  shows "RangeZeroTo m = Some \<lparr>vor_begin = 0, vor_end = max 0 (m + 1)\<rparr>"
  using assms
  by (auto simp: RangeZeroTo_def RangeMaxMin_def Let_def m_setMax_def checked_def int_range_32_iff setEmpty_def)

text \<open>
  The intersection is that of the sets, unless both ranges are non-empty and have nothing in
  common: then the result is not even an empty range.
\<close>

lemma getIntersection_spec:
  assumes "vor_ok r" and "vor_ok s" and "vor_set r = {} \<or> vor_set s = {} \<or> vor_set r \<inter> vor_set s \<noteq> {}"
  obtains q where "getIntersection r s = Some q" "vor_ok q" "vor_set q = vor_set r \<inter> vor_set s"
proof -
  consider "vor_empty s" | "\<not> vor_empty s" "vor_empty r" | "\<not> vor_empty s" "\<not> vor_empty r" by blast
  then show thesis
  proof cases
    case 1
    with assms that show thesis by (simp add: getIntersection_def vor_empty_iff)
  next
    case 2
    with assms(1) that [of "setEmpty s"] show thesis
      by (simp add: getIntersection_def vor_empty_iff) (simp add: setEmpty_def vor_ok_def vor_set_def int_range_32_iff)
  next
    case 3
    let ?lo = "max (vor_begin r) (vor_begin s)" and ?hi = "min (vor_end r) (vor_end s)"
    from 3 assms have "vor_set r \<inter> vor_set s \<noteq> {}" by (simp add: vor_empty_iff)
    then have lt: "?lo < ?hi" by (auto simp: vor_set_def)
    have "getIntersection r s = Some (s\<lparr>vor_begin := ?lo, vor_end := ?hi\<rparr>)"
      using 3 assms(1,2) lt
      by (auto simp: getIntersection_def getMax_def getMin_def setRangeMaxMin_def m_setMax_def Let_def checked_def
          vor_ok_def int_range_32_iff min_def max_def)
    moreover have "vor_ok (s\<lparr>vor_begin := ?lo, vor_end := ?hi\<rparr>)"
      using assms(1,2) lt by (auto simp: vor_ok_def int_range_32_iff)
    ultimately show thesis by (rule that) (auto simp: vor_set_def)
  qed
qed

text \<open>
  Disjoint ranges: with a gap between them the loop over their intersection overflows.
\<close>

lemma getIntersection_disjoint:
  assumes "vor_ok r" and "vor_ok s" and "vor_set r \<noteq> {}" and "vor_set s \<noteq> {}" and "vor_set r \<inter> vor_set s = {}"
  obtains q where "getIntersection r s = Some q"
    "vor_elements q = (if vor_end r < vor_begin s \<or> vor_end s < vor_begin r then None else Some [])"
proof -
  let ?lo = "max (vor_begin r) (vor_begin s)" and ?hi = "min (vor_end r) (vor_end s)"
  have ne: "vor_begin r < vor_end r" "vor_begin s < vor_end s" using assms(3,4) by (auto simp: vor_set_def)
  have ge: "?hi \<le> ?lo" using assms(3-5) by (auto simp: vor_set_def)
  have "getIntersection r s = Some \<lparr>vor_begin = ?lo, vor_end = ?hi\<rparr>"
    using assms(1-4) ge vor_empty_iff [OF assms(1)] vor_empty_iff [OF assms(2)]
    by (auto simp: getIntersection_def getMax_def getMin_def setRangeMaxMin_def m_setMax_def Let_def checked_def
        vor_ok_def int_range_32_iff min_def max_def setEmpty_def)
  then show thesis
    by (rule that) (use ge ne in \<open>auto simp: vor_elements_def min_def max_def split: if_splits\<close>)
qed

end
