(* ===== verification/Remote_Handlers.thy ===== *)
theory Remote_Handlers
  imports Value_Range Device_Components Interface_State
begin

text \<open>
  The handlers through which a client receives the reports of a source: for analogs, buttons
  and trackers on VRPN's remotes (\<^verbatim>\<open>AnalogRemoteFactory.cpp\<close>, \<^verbatim>\<open>ButtonRemoteFactory.cpp\<close>,
  \<^verbatim>\<open>TrackerRemoteFactory.cpp\<close>), for 2D locations, directions, locomotion, images and eye
  trackers on the device components (the files of these names under \<^verbatim>\<open>src/osvr/Client\<close>).

  A handler turns a message into reports, which go to the interfaces of its path one after the
  other. \<open>None\<close> is undefined behaviour: an access outside an array, signed overflow.
\<close>

text \<open>Arrays of VRPN's messages.\<close>

definition array_at :: "'a list \<Rightarrow> int \<Rightarrow> 'a option" where
  "array_at xs i = (if 0 \<le> i \<and> nat i < length xs then Some (xs ! nat i) else None)"

fun arrays_at :: "'a list \<Rightarrow> int list \<Rightarrow> 'a list option" where
  "arrays_at xs [] = Some []"
| "arrays_at xs (i # is) = do { x \<leftarrow> array_at xs i; ys \<leftarrow> arrays_at xs is; Some (x # ys) }"

subsection \<open>Analogs\<close>

text \<open>VRPN's message: the time, the number of channels and an array for all possible ones.\<close>

record vrpn_ANALOGCB =
  an_msg_time :: "int \<times> int"
  an_num_channel :: int
  an_channel :: "u64 list"

record VRPNAnalogHandler =
  ah_all :: bool
  ah_sensors :: ValueOrRange

definition AnalogHandler_create :: "int option \<Rightarrow> VRPNAnalogHandler option" where
  "AnalogHandler_create sensor =
     (case sensor of
        None \<Rightarrow> Some \<lparr>ah_all = True, ah_sensors = vor_create\<rparr>
      | Some s \<Rightarrow> do { r \<leftarrow> setValue s vor_create; Some \<lparr>ah_all = False, ah_sensors = r\<rparr> })"

text \<open>The range of channels seen so far grows; extending does not throw as it is not empty then.\<close>

definition grow_range :: "int \<Rightarrow> ValueOrRange \<Rightarrow> ValueOrRange option" where
  "grow_range maxChannel sensors =
     (if vor_empty sensors then setRangeMaxMin maxChannel 0 sensors
      else (case extendRangeToMax maxChannel sensors of Some (Inr r) \<Rightarrow> Some r | _ \<Rightarrow> None))"

definition analog_m_handle :: "vrpn_ANALOGCB \<Rightarrow> VRPNAnalogHandler \<Rightarrow> (VRPNAnalogHandler \<times> report_list) option" where
  "analog_m_handle info h =
     do { maxChannel \<leftarrow> (if ah_all h then checked 32 (an_num_channel info - 1) else Some (getValue (ah_sensors h)));
          single \<leftarrow> isValue (ah_sensors h);
          if single \<and> maxChannel < getValue (ah_sensors h) then Some (h, [])
          else do {
            timestamp \<leftarrow> fromStructTimeval (an_msg_time info);
            sensors \<leftarrow> (if ah_all h then grow_range maxChannel (ah_sensors h) else Some (ah_sensors h));
            zero \<leftarrow> RangeZeroTo maxChannel;
            common \<leftarrow> getIntersection sensors zero;
            is \<leftarrow> vor_elements common;
            states \<leftarrow> arrays_at (an_channel info) is;
            Some (h\<lparr>ah_sensors := sensors\<rparr>,
                  map (\<lambda>(i, x). (timestamp, AnalogReport (word_of_int i) x)) (zip is states)) } }"

subsection \<open>Buttons\<close>

record vrpn_BUTTONCB =
  bt_msg_time :: "int \<times> int"
  bt_button :: int
  bt_state :: int

record vrpn_BUTTONSTATESCB =
  bs_msg_time :: "int \<times> int"
  bs_num_buttons :: int
  bs_states :: "int list"

record VRPNButtonHandler =
  bh_all :: bool
  bh_sensors :: ValueOrRange

definition ButtonHandler_create :: "int option \<Rightarrow> VRPNButtonHandler option" where
  "ButtonHandler_create sensor =
     (case sensor of
        None \<Rightarrow> Some \<lparr>bh_all = True, bh_sensors = vor_create\<rparr>
      | Some s \<Rightarrow> do { r \<leftarrow> setValue s vor_create; Some \<lparr>bh_all = False, bh_sensors = r\<rparr> })"

definition button_m_report :: "OSVR_TimeValue \<Rightarrow> int \<Rightarrow> int \<Rightarrow> OSVR_TimeValue \<times> Report" where
  "button_m_report timestamp sensor state = (timestamp, ButtonReport (word_of_int sensor) (word_of_int state))"

definition button_m_handle :: "vrpn_BUTTONCB \<Rightarrow> VRPNButtonHandler \<Rightarrow> (VRPNButtonHandler \<times> report_list) option" where
  "button_m_handle info h =
     do { in_range \<leftarrow> (if bh_all h then Some True else vor_contains (bt_button info) (bh_sensors h));
          if \<not> bh_all h \<and> \<not> in_range then Some (h, [])
          else do { timestamp \<leftarrow> fromStructTimeval (bt_msg_time info);
                    Some (h, [button_m_report timestamp (bt_button info) (bt_state info)]) } }"

definition button_m_handle_states ::
    "vrpn_BUTTONSTATESCB \<Rightarrow> VRPNButtonHandler \<Rightarrow> (VRPNButtonHandler \<times> report_list) option" where
  "button_m_handle_states info h =
     do { maxChannel \<leftarrow> (if bh_all h then checked 32 (bs_num_buttons info - 1) else Some (getValue (bh_sensors h)));
          zero \<leftarrow> RangeZeroTo maxChannel;
          outside \<leftarrow> (if bh_all h then Some False
                     else do { common \<leftarrow> getIntersection (bh_sensors h) zero; Some (vor_empty common) });
          if \<not> bh_all h \<and> outside then Some (h, [])
          else do {
            sensors \<leftarrow> (if bh_all h then grow_range maxChannel (bh_sensors h) else Some (bh_sensors h));
            timestamp \<leftarrow> fromStructTimeval (bs_msg_time info);
            common \<leftarrow> getIntersection sensors zero;
            is \<leftarrow> vor_elements common;
            states \<leftarrow> arrays_at (bs_states info) is;
            Some (h\<lparr>bh_sensors := sensors\<rparr>, map (\<lambda>(i, x). button_m_report timestamp i x) (zip is states)) } }"

subsection \<open>Which channels are read\<close>

lemma arrays_at_prefix:
  "n \<le> length xs \<Longrightarrow> arrays_at xs [0..int n - 1] = Some (take n xs)"
proof (induction n)
  case 0
  then show ?case by simp
next
  case (Suc n)
  have app: "arrays_at xs (is @ js) = do { a \<leftarrow> arrays_at xs is; b \<leftarrow> arrays_at xs js; Some (a @ b) }" for "is" js
    by (induction "is") (auto split: Option.bind_splits)
  have "[0..int (Suc n) - 1] = [0..int n - 1] @ [int n]" by (simp add: upto_rec2)
  with Suc app show ?case by (simp add: array_at_def take_Suc_conv_app_nth)
qed


text \<open>
  What a handler does with a sequence of messages. Its contract: messages that are well formed
  are handled without undefined behaviour, and the reports depend on the message alone.
\<close>

fun run_handler :: "('m \<Rightarrow> 'h \<Rightarrow> ('h \<times> report_list) option) \<Rightarrow> 'm list \<Rightarrow> 'h \<Rightarrow> ('h \<times> report_list) option" where
  "run_handler handle [] h = Some (h, [])"
| "run_handler handle (m # ms) h =
     do { (h1, rs) \<leftarrow> handle m h; (h2, rs') \<leftarrow> run_handler handle ms h1; Some (h2, rs @ rs') }"

locale report_handler =
  fixes handle :: "'m \<Rightarrow> 'h \<Rightarrow> ('h \<times> report_list) option"
    and inv :: "'h \<Rightarrow> bool"
    and well_formed :: "'m \<Rightarrow> bool"
    and reports_of :: "'m \<Rightarrow> report_list"
  assumes handles: "inv h \<Longrightarrow> well_formed m \<Longrightarrow> \<exists>h'. handle m h = Some (h', reports_of m) \<and> inv h'"
begin

lemma run:
  assumes "inv h" and "\<forall>m\<in>set ms. well_formed m"
  shows "\<exists>h'. run_handler handle ms h = Some (h', concat (map reports_of ms)) \<and> inv h'"
  using assms
proof (induction ms arbitrary: h)
  case Nil
  then show ?case by simp
next
  case (Cons m ms)
  then obtain h1 where h1: "handle m h = Some (h1, reports_of m)" "inv h1" using handles by force
  with Cons obtain h2 where "run_handler handle ms h1 = Some (h2, concat (map reports_of ms))" "inv h2" by fastforce
  with h1 show ?case by simp
qed

end

text \<open>The channels a handler for all sensors has seen: none, or all from 0 up to a maximum.\<close>

definition channels_inv :: "nat \<Rightarrow> int option \<Rightarrow> bool \<Rightarrow> ValueOrRange \<Rightarrow> bool" where
  "channels_inv n sensor all sensors \<longleftrightarrow> n < 2 ^ 31 \<and> all = (sensor = None) \<and>
     (case sensor of
        None \<Rightarrow> vor_begin sensors = 0 \<and> 0 \<le> vor_end sensors \<and> vor_end sensors \<le> int n
      | Some s \<Rightarrow> - (2 ^ 31) \<le> s \<and> s < int n \<and> vor_begin sensors = s \<and> vor_end sensors = s + 1)"

text \<open>The channels that are reported from a message with \<open>num\<close> of them.\<close>

definition channels_of :: "int option \<Rightarrow> int \<Rightarrow> int list" where
  "channels_of sensor num =
     (case sensor of None \<Rightarrow> [0..num - 1] | Some s \<Rightarrow> if 0 \<le> s then [s] else [])"

lemma grow_range_spec:
  assumes "channels_inv n None True sensors" and "0 \<le> num" and "num \<le> int n"
  obtains sensors' where "grow_range (num - 1) sensors = Some sensors'" "channels_inv n None True sensors'"
    "vor_end sensors' = max (vor_end sensors) num" "vor_ok sensors'" "vor_begin sensors' = 0"
proof -
  have "grow_range (num - 1) sensors = Some (sensors\<lparr>vor_begin := 0, vor_end := max (vor_end sensors) num\<rparr>)"
    using assms
    by (auto simp: grow_range_def channels_inv_def vor_empty_def setRangeMaxMin_def Let_def m_setMax_def checked_def
        int_range_32_iff extendRangeToMax_def setEmpty_def max_def)
  then show thesis
    by (rule that) (use assms in \<open>auto simp: channels_inv_def vor_ok_def int_range_32_iff\<close>)
qed

lemma common_range:
  assumes "vor_ok sensors" and "vor_begin sensors = 0" and "num \<le> vor_end sensors" and "0 \<le> num" and "num < 2 ^ 31"
  obtains zero common where "RangeZeroTo (num - 1) = Some zero" "getIntersection sensors zero = Some common"
    "vor_elements common = Some [0..num - 1]"
proof -
  let ?zero = "\<lparr>vor_begin = 0, vor_end = num\<rparr>"
  have zero: "RangeZeroTo (num - 1) = Some ?zero" using RangeZeroTo_spec [of "num - 1"] assms(4,5) by simp
  have "vor_ok ?zero" using assms(4,5) by (auto simp: vor_ok_def int_range_32_iff)
  moreover have "vor_set sensors = {} \<or> vor_set ?zero = {} \<or> vor_set sensors \<inter> vor_set ?zero \<noteq> {}"
    using assms(2-4) by (auto simp: vor_set_def)
  ultimately obtain q where q: "getIntersection sensors ?zero = Some q" "vor_ok q" "vor_set q = vor_set sensors \<inter> vor_set ?zero"
    by (rule getIntersection_spec [OF assms(1)])
  have "vor_set q = {0..<num}" using q(3) assms(2,3) by (auto simp: vor_set_def)
  then have "{vor_begin q..vor_end q - 1} = {0..num - 1}" by (auto simp: vor_set_def set_eq_iff)
  then have "[vor_begin q..vor_end q - 1] = [0..num - 1]" by auto
  with zero q(1) vor_elements_ok [OF q(2)] that show thesis by simp
qed


lemma single_range:
  assumes "channels_inv n (Some s) all sensors"
  obtains zero common where "RangeZeroTo s = Some zero" "getIntersection sensors zero = Some common"
    "vor_elements common = Some (channels_of (Some s) num)" "vor_empty common = (s < 0)"
proof -
  from assms have s: "- 2147483648 \<le> s" "s < 2147483647" "vor_begin sensors = s" "vor_end sensors = s + 1"
    by (auto simp: channels_inv_def)
  let ?zero = "\<lparr>vor_begin = 0, vor_end = max 0 (s + 1)\<rparr>"
  have zero: "RangeZeroTo s = Some ?zero" using RangeZeroTo_spec [of s] s by simp
  show thesis
  proof (cases "s < 0")
    case True
    then have "getIntersection sensors ?zero = Some ?zero" by (simp add: getIntersection_def vor_empty_def)
    with True zero that show thesis by (auto simp: vor_elements_def channels_of_def vor_empty_def)
  next
    case False
    then have "getIntersection sensors ?zero = Some \<lparr>vor_begin = s, vor_end = s + 1\<rparr>"
      using s by (simp add: getIntersection_def vor_empty_def getMax_def getMin_def checked_def int_range_32_iff
          setRangeMaxMin_def Let_def m_setMax_def)
    with False zero that show thesis by (auto simp: vor_elements_def channels_of_def vor_empty_def)
  qed
qed

lemma channels_inv_of_sensor:
  assumes "n < 2 ^ 31" and "\<And>s. sensor = Some s \<Longrightarrow> - (2 ^ 31) \<le> s \<and> s < int n"
  obtains sensors where
    "(case sensor of None \<Rightarrow> Some vor_create | Some s \<Rightarrow> setValue s vor_create) = Some sensors"
    "channels_inv n sensor (sensor = None) sensors"
proof (cases sensor)
  case None
  then show thesis using that assms(1) by (simp add: channels_inv_def vor_create_def)
next
  case (Some s)
  with assms have s: "- 2147483648 \<le> s" "s < int n" "int n < 2147483648" by auto
  then obtain r where "setValue s vor_create = Some r" "vor_begin r = s" "vor_end r = s + 1"
    using setValue_spec [of s vor_create] by auto
  then show thesis using that [of r] Some s by (simp add: channels_inv_def)
qed

lemma arrays_at_channels:
  assumes "length xs = n" and "num \<le> int n" and "\<And>s. sensor = Some s \<Longrightarrow> s < int n"
  shows "arrays_at xs (channels_of sensor num) = Some (map (\<lambda>i. xs ! nat i) (channels_of sensor num))"
proof -
  have "arrays_at xs is = Some (map (\<lambda>i. xs ! nat i) is)" if "\<forall>i\<in>set is. 0 \<le> i \<and> i < int (length xs)" for "is"
    using that by (induction "is") (auto simp: array_at_def)
  then show ?thesis using assms by (auto simp: channels_of_def split: option.splits)
qed

subsubsection \<open>Analogs\<close>

definition analog_inv :: "nat \<Rightarrow> int option \<Rightarrow> VRPNAnalogHandler \<Rightarrow> bool" where
  "analog_inv n sensor h = channels_inv n sensor (ah_all h) (ah_sensors h)"

definition analog_ok :: "nat \<Rightarrow> vrpn_ANALOGCB \<Rightarrow> bool" where
  "analog_ok n info \<longleftrightarrow> fromStructTimeval (an_msg_time info) \<noteq> None \<and> length (an_channel info) = n \<and>
     0 \<le> an_num_channel info \<and> an_num_channel info \<le> int n"

definition analog_reports :: "int option \<Rightarrow> vrpn_ANALOGCB \<Rightarrow> report_list" where
  "analog_reports sensor info =
     (case fromStructTimeval (an_msg_time info) of
        None \<Rightarrow> []
      | Some t \<Rightarrow> map (\<lambda>i. (t, AnalogReport (word_of_int i) (an_channel info ! nat i)))
                   (channels_of sensor (an_num_channel info)))"

lemma analog_handles:
  assumes inv: "analog_inv n sensor h" and ok: "analog_ok n info"
  shows "\<exists>h'. analog_m_handle info h = Some (h', analog_reports sensor info) \<and> analog_inv n sensor h'"
proof (cases sensor)
  case None
  let ?num = "an_num_channel info"
  from inv None have all: "ah_all h" and ci: "channels_inv n None True (ah_sensors h)"
    by (auto simp: analog_inv_def channels_inv_def)
  from ok obtain t where t: "fromStructTimeval (an_msg_time info) = Some t" and len: "length (an_channel info) = n"
    and num: "0 \<le> ?num" "?num \<le> int n" by (auto simp: analog_ok_def)
  from ci have n: "int n < 2 ^ 31" by (simp add: channels_inv_def)
  obtain s' where s': "grow_range (?num - 1) (ah_sensors h) = Some s'" "channels_inv n None True s'"
    "vor_end s' = max (vor_end (ah_sensors h)) ?num" "vor_ok s'" "vor_begin s' = 0"
    using grow_range_spec [OF ci num] by blast
  obtain zero common where zc: "RangeZeroTo (?num - 1) = Some zero" "getIntersection s' zero = Some common"
    "vor_elements common = Some [0..?num - 1]"
    using common_range [OF s'(4,5), of ?num] s'(3) num n by auto
  have arr: "arrays_at (an_channel info) [0..?num - 1] = Some (map (\<lambda>i. an_channel info ! nat i) [0..?num - 1])"
    using arrays_at_channels [OF len num(2), of None] by (simp add: channels_of_def)
  have val: "isValue (ah_sensors h) = Some (vor_end (ah_sensors h) = 1)" "getValue (ah_sensors h) = 0"
    "checked 32 (?num - 1) = Some (?num - 1)"
    using ci num n by (auto simp: channels_inv_def isValue_def checked_def int_range_32_iff getValue_def)
  have reports: "analog_reports sensor info = map (\<lambda>(i, x). (t, AnalogReport (word_of_int i) x))
      (zip [0..?num - 1] (map (\<lambda>i. an_channel info ! nat i) [0..?num - 1]))"
    using t None by (simp add: analog_reports_def channels_of_def zip_map2 zip_same_conv_map comp_def)
  show ?thesis
  proof (cases "vor_end (ah_sensors h) = 1 \<and> ?num - 1 < 0")
    case True
    with all val None t inv show ?thesis by (simp add: analog_m_handle_def analog_reports_def channels_of_def)
  next
    case False
    then have "analog_m_handle info h = Some (h\<lparr>ah_sensors := s'\<rparr>, analog_reports sensor info)"
      unfolding reports using all val t s'(1) zc arr by (auto simp: analog_m_handle_def)
    moreover have "analog_inv n sensor (h\<lparr>ah_sensors := s'\<rparr>)" using s'(2) all None by (simp add: analog_inv_def)
    ultimately show ?thesis by blast
  qed
next
  case (Some s)
  from inv Some have all: "\<not> ah_all h" and ci: "channels_inv n (Some s) False (ah_sensors h)"
    by (auto simp: analog_inv_def channels_inv_def)
  from ok obtain t where t: "fromStructTimeval (an_msg_time info) = Some t" and len: "length (an_channel info) = n"
    and num: "0 \<le> an_num_channel info" "an_num_channel info \<le> int n" by (auto simp: analog_ok_def)
  let ?is = "channels_of (Some s) (an_num_channel info)"
  obtain zero common where zc: "RangeZeroTo s = Some zero" "getIntersection (ah_sensors h) zero = Some common"
    "vor_elements common = Some ?is" using single_range [OF ci] by blast
  have arr: "arrays_at (an_channel info) ?is = Some (map (\<lambda>i. an_channel info ! nat i) ?is)"
    using arrays_at_channels [OF len num(2), of "Some s"] ci by (simp add: channels_inv_def)
  have val: "isValue (ah_sensors h) = Some True" "getValue (ah_sensors h) = s"
    using ci by (auto simp: channels_inv_def isValue_def checked_def int_range_32_iff getValue_def)
  have "analog_m_handle info h = Some (h, analog_reports sensor info)"
    using all val t zc arr Some
    by (simp add: analog_m_handle_def analog_reports_def zip_map2 zip_same_conv_map comp_def)
  with inv show ?thesis by blast
qed

interpretation analog: report_handler analog_m_handle "analog_inv n sensor" "analog_ok n" "analog_reports sensor"
  for n sensor
  by unfold_locales (rule analog_handles)


subsubsection \<open>Buttons\<close>

datatype button_message = ButtonChange vrpn_BUTTONCB | ButtonStates vrpn_BUTTONSTATESCB

fun button_handle :: "button_message \<Rightarrow> VRPNButtonHandler \<Rightarrow> (VRPNButtonHandler \<times> report_list) option" where
  "button_handle (ButtonChange info) h = button_m_handle info h"
| "button_handle (ButtonStates info) h = button_m_handle_states info h"

definition button_inv :: "nat \<Rightarrow> int option \<Rightarrow> VRPNButtonHandler \<Rightarrow> bool" where
  "button_inv n sensor h = channels_inv n sensor (bh_all h) (bh_sensors h)"

fun button_ok :: "nat \<Rightarrow> button_message \<Rightarrow> bool" where
  "button_ok n (ButtonChange info) = (fromStructTimeval (bt_msg_time info) \<noteq> None)"
| "button_ok n (ButtonStates info) =
     (fromStructTimeval (bs_msg_time info) \<noteq> None \<and> length (bs_states info) = n \<and>
      0 \<le> bs_num_buttons info \<and> bs_num_buttons info \<le> int n)"

fun button_reports :: "int option \<Rightarrow> button_message \<Rightarrow> report_list" where
  "button_reports sensor (ButtonChange info) =
     (case fromStructTimeval (bt_msg_time info) of
        None \<Rightarrow> []
      | Some t \<Rightarrow> if sensor = None \<or> sensor = Some (bt_button info)
                 then [(t, ButtonReport (word_of_int (bt_button info)) (word_of_int (bt_state info)))] else [])"
| "button_reports sensor (ButtonStates info) =
     (case fromStructTimeval (bs_msg_time info) of
        None \<Rightarrow> []
      | Some t \<Rightarrow> map (\<lambda>i. (t, ButtonReport (word_of_int i) (word_of_int (bs_states info ! nat i))))
                   (channels_of sensor (bs_num_buttons info)))"

lemma button_change_handles:
  assumes inv: "button_inv n sensor h" and ok: "button_ok n (ButtonChange info)"
  shows "button_m_handle info h = Some (h, button_reports sensor (ButtonChange info))"
proof -
  from ok obtain t where t: "fromStructTimeval (bt_msg_time info) = Some t" by auto
  show ?thesis
  proof (cases sensor)
    case None
    with inv t show ?thesis
      by (simp add: button_m_handle_def button_inv_def channels_inv_def button_m_report_def)
  next
    case (Some s)
    with inv have s: "\<not> bh_all h" "vor_begin (bh_sensors h) = s" "vor_end (bh_sensors h) = s + 1"
      "- 2147483648 \<le> s" "s < 2147483647"
      by (auto simp: button_inv_def channels_inv_def)
    then have "vor_ok (bh_sensors h)" by (auto simp: vor_ok_def int_range_32_iff)
    from vor_contains_spec [OF this, of "bt_button info"] s(2,3)
    have "vor_contains (bt_button info) (bh_sensors h) = Some (bt_button info = s)"
      by (auto simp: vor_set_def)
    with Some s(1) t show ?thesis by (auto simp: button_m_handle_def button_m_report_def)
  qed
qed

lemma button_states_handles:
  assumes inv: "button_inv n sensor h" and ok: "button_ok n (ButtonStates info)"
  shows "\<exists>h'. button_m_handle_states info h = Some (h', button_reports sensor (ButtonStates info)) \<and> button_inv n sensor h'"
proof -
  let ?num = "bs_num_buttons info" and ?is = "channels_of sensor (bs_num_buttons info)"
  from ok obtain t where t: "fromStructTimeval (bs_msg_time info) = Some t" and len: "length (bs_states info) = n"
    and num: "0 \<le> ?num" "?num \<le> int n" by auto
  have reports: "button_reports sensor (ButtonStates info) =
      map (\<lambda>(i, x). button_m_report t i x) (zip ?is (map (\<lambda>i. bs_states info ! nat i) ?is))"
    using t by (simp add: button_m_report_def zip_map2 zip_same_conv_map comp_def)
  have n: "int n < 2 ^ 31" using inv by (simp add: button_inv_def channels_inv_def)
  show ?thesis
  proof (cases sensor)
    case None
    from inv None have all: "bh_all h" and ci: "channels_inv n None True (bh_sensors h)"
      by (auto simp: button_inv_def channels_inv_def)
    obtain s' where s': "grow_range (?num - 1) (bh_sensors h) = Some s'" "channels_inv n None True s'"
      "vor_end s' = max (vor_end (bh_sensors h)) ?num" "vor_ok s'" "vor_begin s' = 0"
      using grow_range_spec [OF ci num] by blast
    obtain zero common where zc: "RangeZeroTo (?num - 1) = Some zero" "getIntersection s' zero = Some common"
      "vor_elements common = Some ?is"
      using common_range [OF s'(4,5), of ?num] s'(3) num n None by (auto simp: channels_of_def)
    have "checked 32 (?num - 1) = Some (?num - 1)" using num n by (auto simp: checked_def int_range_32_iff)
    moreover have "arrays_at (bs_states info) ?is = Some (map (\<lambda>i. bs_states info ! nat i) ?is)"
      using arrays_at_channels [OF len num(2)] None by auto
    ultimately have "button_m_handle_states info h =
        Some (h\<lparr>bh_sensors := s'\<rparr>, button_reports sensor (ButtonStates info))"
      unfolding reports using all t s'(1) zc by (simp add: button_m_handle_states_def)
    moreover have "button_inv n sensor (h\<lparr>bh_sensors := s'\<rparr>)" using s'(2) all None by (simp add: button_inv_def)
    ultimately show ?thesis by blast
  next
    case (Some s)
    from inv Some have all: "\<not> bh_all h" and ci: "channels_inv n (Some s) False (bh_sensors h)"
      by (auto simp: button_inv_def channels_inv_def)
    obtain zero common where zc: "RangeZeroTo s = Some zero" "getIntersection (bh_sensors h) zero = Some common"
      "vor_elements common = Some (channels_of (Some s) ?num)" "vor_empty common = (s < 0)"
      using single_range [OF ci] by blast
    have val: "getValue (bh_sensors h) = s" using ci by (simp add: channels_inv_def getValue_def)
    have arr: "arrays_at (bs_states info) (channels_of (Some s) ?num) =
        Some (map (\<lambda>i. bs_states info ! nat i) (channels_of (Some s) ?num))"
      using arrays_at_channels [OF len num(2), of "Some s"] ci by (simp add: channels_inv_def)
    have "button_m_handle_states info h = Some (h, button_reports sensor (ButtonStates info))"
    proof (cases "s < 0")
      case True
      with all zc val Some t show ?thesis by (simp add: button_m_handle_states_def channels_of_def)
    next
      case False
      with all zc val arr t Some show ?thesis unfolding reports by (simp add: button_m_handle_states_def)
    qed
    with inv show ?thesis by blast
  qed
qed

interpretation buttons: report_handler button_handle "button_inv n sensor" "button_ok n" "button_reports sensor"
  for n sensor
proof (unfold_locales, goal_cases)
  case (1 h m)
  then show ?case
    using button_change_handles button_states_handles by (cases m) fastforce+
qed




end
