(* ===== verification/Network_Handlers.thy ===== *)
theory Network_Handlers
  imports Device_Components Interface_State "HOL-Library.AList"
begin

text \<open>
  The handlers through which a client receives the reports of the device components: 2D
  locations, directions, locomotion, images and eye trackers (\<^verbatim>\<open>Location2DRemoteFactory.cpp\<close>,
  \<^verbatim>\<open>DirectionRemoteFactory.cpp\<close>, \<^verbatim>\<open>LocomotionRemoteFactory.cpp\<close>,
  \<^verbatim>\<open>ImagingRemoteFactory.cpp\<close>, \<^verbatim>\<open>EyeTrackerRemoteFactory.cpp\<close> in \<^verbatim>\<open>src/osvr/Client\<close>).
  Each has a client device with one component, registers one callback with it, and passes what
  matches its sensor on to the interfaces of its path. The factories'
  constructors of handlers are modelled; the registry of factories and the connections are not.

  \<open>None\<close> is undefined behaviour: an empty optional or a null pointer is dereferenced, or a
  time is converted with an overflow.
\<close>

subsection \<open>Ownership of objects by pointer\<close>

text \<open>
  \<^verbatim>\<open>KeyedOwnershipContainer.h\<close>: a map, or a multimap, from addresses to smart pointers, in the
  order of insertion for equal keys. Addresses are natural numbers.
\<close>

type_synonym 'p owned = "(nat \<times> 'p) list"

definition single_acquire :: "nat \<Rightarrow> 'p \<Rightarrow> 'p owned \<Rightarrow> 'p owned" where
  "single_acquire rawPtr smartPtr c = AList.update rawPtr smartPtr c"

definition single_release :: "nat \<Rightarrow> 'p owned \<Rightarrow> 'p owned \<times> bool" where
  "single_release rawPtr c = (AList.delete rawPtr c, rawPtr \<in> fst ` set c)"

definition multi_acquire :: "nat \<Rightarrow> 'p \<Rightarrow> 'p owned \<Rightarrow> 'p owned" where
  "multi_acquire rawPtr smartPtr c = c @ [(rawPtr, smartPtr)]"

fun multi_release :: "nat \<Rightarrow> 'p owned \<Rightarrow> 'p owned \<times> bool" where
  "multi_release rawPtr [] = ([], False)"
| "multi_release rawPtr ((k, p) # c) =
     (if k = rawPtr then (c, True)
      else case multi_release rawPtr c of (c', found) \<Rightarrow> ((k, p) # c', found))"

definition owners :: "nat \<Rightarrow> 'p owned \<Rightarrow> nat" where
  "owners rawPtr c = length (filter (\<lambda>(k, p). k = rawPtr) c)"

lemma owners_acquire: "owners k (multi_acquire k' p c) = owners k c + (if k = k' then 1 else 0)"
  by (simp add: owners_def multi_acquire_def)

lemma owners_release:
  "multi_release k' c = (c', found) \<Longrightarrow>
     found = (0 < owners k' c) \<and> owners k c' = owners k c - (if k = k' then 1 else 0)"
proof (induction c arbitrary: c' found)
  case Nil
  then show ?case by (simp add: owners_def)
next
  case (Cons x c)
  obtain k1 p where "x = (k1, p)" by fastforce
  with Cons show ?case by (auto simp: owners_def split: if_splits prod.splits)
qed

lemma owners_single:
  "owners k (single_acquire k p c) = (if owners k c = 0 then 1 else owners k c)"
  by (induction c) (auto simp: owners_def single_acquire_def)

subsection \<open>The filter by sensor\<close>

text \<open>Each handler keeps whether it is for all sensors, and the optional sensor itself.\<close>

record RemoteFilter =
  m_all :: bool
  m_sensor :: "OSVR_ChannelCount option"

definition filter_create :: "OSVR_ChannelCount option \<Rightarrow> RemoteFilter" where
  "filter_create sensor = \<lparr>m_all = (sensor = None), m_sensor = sensor\<rparr>"

text \<open>\<^verbatim>\<open>!m_all && *m_sensor != data.sensor\<close>\<close>

definition filtered :: "'z RemoteFilter_scheme \<Rightarrow> OSVR_ChannelCount \<Rightarrow> bool option" where
  "filtered self sensor =
     (if m_all self then Some False
      else case m_sensor self of None \<Rightarrow> None | Some s \<Rightarrow> Some (s \<noteq> sensor))"

definition matches :: "OSVR_ChannelCount option \<Rightarrow> OSVR_ChannelCount \<Rightarrow> bool" where
  "matches sensor s \<longleftrightarrow> sensor = None \<or> sensor = Some s"

lemma filtered_create: "filtered (filter_create sensor) s = Some (\<not> matches sensor s)"
  by (auto simp: filtered_def filter_create_def matches_def split: option.splits)

definition m_handleLocation :: "RemoteFilter \<Rightarrow> LocationData \<Rightarrow> OSVR_TimeValue \<Rightarrow> report_list option" where
  "m_handleLocation self data timestamp =
     do { skip \<leftarrow> filtered self (ld_sensor data);
          Some (if skip then [] else [(timestamp, Location2DReport (ld_sensor data) (ld_location data))]) }"

definition m_handleDirection :: "RemoteFilter \<Rightarrow> DirectionData \<Rightarrow> OSVR_TimeValue \<Rightarrow> report_list option" where
  "m_handleDirection self data timestamp =
     do { skip \<leftarrow> filtered self (dd_sensor data);
          Some (if skip then [] else [(timestamp, DirectionReport (dd_sensor data) (dd_direction data))]) }"

definition m_handleNaviVelocity :: "RemoteFilter \<Rightarrow> NaviVelocityData \<Rightarrow> OSVR_TimeValue \<Rightarrow> report_list option" where
  "m_handleNaviVelocity self data timestamp =
     do { skip \<leftarrow> filtered self (nv_sensor data);
          Some (if skip then [] else [(timestamp, NaviVelocityReport (nv_sensor data) (nv_naviVelState data))]) }"

definition m_handleNaviPosition :: "RemoteFilter \<Rightarrow> NaviPositionData \<Rightarrow> OSVR_TimeValue \<Rightarrow> report_list option" where
  "m_handleNaviPosition self data timestamp =
     do { skip \<leftarrow> filtered self (np_sensor data);
          Some (if skip then [] else [(timestamp, NaviPositionReport (np_sensor data) (np_naviPosnState data))]) }"

subsection \<open>A handler and its component\<close>

text \<open>
  A handler makes a client device, adds a fresh component to it and registers one callback,
  which is \<open>()\<close>. \<open>run_callbacks\<close> is what the component's calls do.
\<close>

record 'c RemoteHandler =
  rh_filter :: RemoteFilter
  rh_component :: 'c
  rh_dev :: BaseDevice

fun run_callbacks :: "('a \<Rightarrow> OSVR_TimeValue \<Rightarrow> report_list option) \<Rightarrow> (unit, 'a) calls \<Rightarrow> report_list option" where
  "run_callbacks f [] = Some []"
| "run_callbacks f ((_, data, t) # cs) =
     do { timestamp \<leftarrow> t; rs \<leftarrow> f data timestamp; rs' \<leftarrow> run_callbacks f cs; Some (rs @ rs') }"

definition on_calls ::
    "('a \<Rightarrow> OSVR_TimeValue \<Rightarrow> report_list option) \<Rightarrow> (exn, (unit, 'a) calls) result \<Rightarrow> (exn, report_list) result option" where
  "on_calls f r = (case r of Inl e \<Rightarrow> Some (Inl e) | Inr cs \<Rightarrow> map_option Inr (run_callbacks f cs))"

definition Location2DHandler_create ::
    "(string \<Rightarrow> int) \<Rightarrow> OSVR_ChannelCount option \<Rightarrow> BaseDevice \<Rightarrow> unit Location2DComponent RemoteHandler option" where
  "Location2DHandler_create type_id sensor dev =
     do { added \<leftarrow> recordParent (Location2D_parentSet type_id) (Location2D_create 1, dev);
          let (c, d) = registerLocationHandler () added
          in Some \<lparr>rh_filter = filter_create sensor, rh_component = c, rh_dev = d\<rparr> }"

definition DirectionHandler_create ::
    "(string \<Rightarrow> int) \<Rightarrow> OSVR_ChannelCount option \<Rightarrow> BaseDevice \<Rightarrow> unit DirectionComponent RemoteHandler option" where
  "DirectionHandler_create type_id sensor dev =
     do { added \<leftarrow> recordParent (Direction_parentSet type_id) (Direction_create 1, dev);
          let (c, d) = registerDirectionHandler () added
          in Some \<lparr>rh_filter = filter_create sensor, rh_component = c, rh_dev = d\<rparr> }"

definition LocomotionHandler_create ::
    "(string \<Rightarrow> int) \<Rightarrow> OSVR_ChannelCount option \<Rightarrow> BaseDevice \<Rightarrow> (unit, unit) LocomotionComponent RemoteHandler option" where
  "LocomotionHandler_create type_id sensor dev =
     do { added \<leftarrow> recordParent (Locomotion_parentSet type_id) (Locomotion_create, dev);
          let (c, d) = registerNaviPositionHandler () (registerNaviVelocityHandler () added)
          in Some \<lparr>rh_filter = filter_create sensor, rh_component = c, rh_dev = d\<rparr> }"

text \<open>What a message does at the receiving end, from its bytes to the reports.\<close>

definition location_message where
  "location_message bo self payload msg_time =
     on_calls (m_handleLocation (rh_filter self)) (m_handleLocationRecord bo (rh_component self) payload msg_time)"

definition direction_message where
  "direction_message bo self payload msg_time =
     on_calls (m_handleDirection (rh_filter self)) (m_handleDirectionRecord bo (rh_component self) payload msg_time)"

definition navi_velocity_message where
  "navi_velocity_message bo self payload msg_time =
     on_calls (m_handleNaviVelocity (rh_filter self)) (m_handleNaviVelocityRecord bo (rh_component self) payload msg_time)"

definition navi_position_message where
  "navi_position_message bo self payload msg_time =
     on_calls (m_handleNaviPosition (rh_filter self)) (m_handleNaviPositionRecord bo (rh_component self) payload msg_time)"


subsection \<open>From the server's component to the client's interfaces\<close>

text \<open>A server device sends a sequence of reports; the client handles the messages in order.\<close>

fun send_all ::
    "('x \<Rightarrow> 'c \<times> BaseDevice \<Rightarrow> (exn, BaseDevice) result) \<Rightarrow> 'x list \<Rightarrow> 'c \<times> BaseDevice \<Rightarrow> (exn, BaseDevice) result" where
  "send_all send [] (c, dev) = Inr dev"
| "send_all send (x # xs) (c, dev) = result_bind (send x (c, dev)) (\<lambda>dev'. send_all send xs (c, dev'))"

text \<open>The reports made until an exception, and the exception.\<close>

fun client_session ::
    "('h \<Rightarrow> u8 list \<Rightarrow> int \<times> int \<Rightarrow> (exn, report_list) result option) \<Rightarrow> 'h \<Rightarrow> packed_message list
     \<Rightarrow> (report_list \<times> exn option) option" where
  "client_session handle h [] = Some ([], None)"
| "client_session handle h (m # ms) =
     (case handle h (pm_payload m) (osvrTimeValueToStructTimeval (pm_time m)) of
        None \<Rightarrow> None
      | Some (Inl e) \<Rightarrow> Some ([], Some e)
      | Some (Inr rs) \<Rightarrow> map_option (apfst ((@) rs)) (client_session handle h ms))"

text \<open>What the interfaces of a path show after a list of reports.\<close>

definition interfaces_show :: "nat list \<Rightarrow> report_list \<Rightarrow> 'cb iface_store \<Rightarrow> bool" where
  "interfaces_show ifaces rs store \<longleftrightarrow>
     (\<forall>i\<in>set ifaces. \<forall>ty. case iface_getState ty (store i) of
        None \<Rightarrow> of_type ty rs = []
      | Some (t, st) \<Rightarrow> \<exists>r. newest_of (of_type ty rs) t r \<and> st = reportState r)"

lemma delivered_show:
  assumes "distinct ifaces" and "\<forall>i\<in>set ifaces. iface_ok (store i) \<and> \<not> hasAnyState (ci_state (store i))"
    and "\<forall>(t, r)\<in>set rs. tv_canonical t"
  shows "interfaces_show ifaces rs (fst (deliver_all ifaces rs (store, calls)))"
proof -
  obtain store' calls' where d: "deliver_all ifaces rs (store, calls) = (store', calls')" by fastforce
  show ?thesis unfolding interfaces_show_def d fst_conv
  proof (intro ballI allI)
    fix i ty
    assume "i \<in> set ifaces"
    with deliver_all_spec [OF assms, of calls] have "case iface_getState ty (store' i) of
         None \<Rightarrow> of_type ty rs = []
       | Some (t, st) \<Rightarrow> \<exists>r. newest_of (of_type ty rs) t r \<and> st = reportState r \<and> tv_canonical t"
      unfolding d prod.case by blast
    then show "case iface_getState ty (store' i) of
         None \<Rightarrow> of_type ty rs = []
       | Some (t, st) \<Rightarrow> \<exists>r. newest_of (of_type ty rs) t r \<and> st = reportState r"
      by (auto split: option.splits)
  qed
qed

definition reports_for ::
    "('a \<Rightarrow> OSVR_ChannelCount) \<Rightarrow> ('a \<Rightarrow> Report) \<Rightarrow> OSVR_ChannelCount option \<Rightarrow> ('a \<times> OSVR_TimeValue) list \<Rightarrow> report_list" where
  "reports_for sensor_of report_of sensor xs =
     map (\<lambda>(v, t). (t, report_of v)) (filter (\<lambda>(v, t). matches sensor (sensor_of v)) xs)"

locale remote_channel = report_codec ser deser space for ser :: "'a serializer" and deser space +
  fixes on_data :: "RemoteFilter \<Rightarrow> 'a \<Rightarrow> OSVR_TimeValue \<Rightarrow> report_list option"
    and sensor_of :: "'a \<Rightarrow> OSVR_ChannelCount"
    and report_of :: "'a \<Rightarrow> Report"
  assumes on_data: "on_data f v t =
    do { skip \<leftarrow> filtered f (sensor_of v); Some (if skip then [] else [(t, report_of v)]) }"
begin

lemma message:
  assumes "tv_canonical t" and "tv_in_range t"
  shows "on_calls (on_data (filter_create sensor)) (dispatch deser [()] (ser v []) (osvrTimeValueToStructTimeval t)) =
    Some (Inr (if matches sensor (sensor_of v) then [(t, report_of v)] else []))"
  by (simp add: on_calls_def dispatch_delivers timeval_roundtrip [OF assms] on_data filtered_create)

lemma session:
  assumes "\<forall>(v, t)\<in>set xs. tv_canonical t \<and> tv_in_range t"
    and "map (\<lambda>m. (pm_payload m, pm_time m)) ms = map (\<lambda>(v, t). (ser v [], t)) xs"
    and "\<And>p t. handle h p t = on_calls (on_data (filter_create sensor)) (dispatch deser [()] p t)"
  shows "client_session handle h ms = Some (reports_for sensor_of report_of sensor xs, None)"
  using assms(1,2)
proof (induction xs arbitrary: ms)
  case Nil
  then show ?case by (simp add: reports_for_def)
next
  case (Cons x xs)
  obtain v t where x: "x = (v, t)" by fastforce
  with Cons.prems obtain m ms' where ms: "ms = m # ms'" "pm_payload m = ser v []" "pm_time m = t"
    "map (\<lambda>m. (pm_payload m, pm_time m)) ms' = map (\<lambda>(v, t). (ser v [], t)) xs" by auto
  have "handle h (ser v []) (osvrTimeValueToStructTimeval t) =
      Some (Inr (if matches sensor (sensor_of v) then [(t, report_of v)] else []))"
    unfolding assms(3) using Cons.prems(1) by (intro message) (auto simp: x)
  moreover have "client_session handle h ms' = Some (reports_for sensor_of report_of sensor xs, None)"
    using Cons.IH [OF _ ms(4)] Cons.prems(1) by auto
  ultimately show ?case by (simp add: ms(1-3)) (simp add: x reports_for_def)
qed

lemma sent:
  assumes "\<And>x d. send x (c, d) = packMessage accepts (ser (value_sent x) []) (mt c) (time_sent x) d"
    and "send_all send xs (c, dev) = Inr dev'"
  shows "map (\<lambda>m. (pm_payload m, pm_time m)) (conn_packed dev') =
    map (\<lambda>m. (pm_payload m, pm_time m)) (conn_packed dev) @
    map (\<lambda>(v, t). (ser v [], t)) (map (\<lambda>x. (value_sent x, time_sent x)) xs)"
  using assms(2)
proof (induction xs arbitrary: dev)
  case Nil
  then show ?case by simp
next
  case (Cons x xs)
  then obtain d1 where d1: "send x (c, dev) = Inr d1" "send_all send xs (c, d1) = Inr dev'"
    by (auto split: sum.splits simp: result_bind_def)
  from last_packed [OF d1(1) [unfolded assms(1)]] obtain msg where
    "conn_packed d1 = conn_packed dev @ [msg]" "pm_payload msg = ser (value_sent x) []" "pm_time msg = time_sent x"
    by blast
  with Cons.IH [OF d1(2)] show ?case by simp
qed

lemma sent_session:
  assumes "\<And>x d. send x (c, d) = packMessage accepts (ser (value_sent x) []) (mt c) (time_sent x) d"
    and "send_all send xs (c, dev) = Inr dev'" and "conn_packed dev = []"
    and "\<forall>x\<in>set xs. tv_canonical (time_sent x) \<and> tv_in_range (time_sent x)"
    and "\<And>p t. handle h p t = on_calls (on_data (filter_create sensor)) (dispatch deser [()] p t)"
  shows "client_session handle h (conn_packed dev') =
    Some (reports_for sensor_of report_of sensor (map (\<lambda>x. (value_sent x, time_sent x)) xs), None)"
  by (rule session) (use assms(4) sent [of send c accepts value_sent mt time_sent, OF assms(1,2)] assms(3,5) in auto)

end

interpretation location_remote: remote_channel "LocationRecord_serialize bo" "LocationRecord_deserialize bo"
  "\<lambda>n d. pair_spaceRequired Vec2_spaceRequired arith_spaceRequired n (ld_location d, ld_sensor d)"
  m_handleLocation ld_sensor "\<lambda>d. Location2DReport (ld_sensor d) (ld_location d)" for bo
  by (intro remote_channel.intro location.report_codec_axioms remote_channel_axioms.intro) (simp add: m_handleLocation_def)

interpretation direction_remote: remote_channel "DirectionRecord_serialize bo" "DirectionRecord_deserialize bo"
  "\<lambda>n d. pair_spaceRequired Vec3_spaceRequired arith_spaceRequired n (dd_direction d, dd_sensor d)"
  m_handleDirection dd_sensor "\<lambda>d. DirectionReport (dd_sensor d) (dd_direction d)" for bo
  by (intro remote_channel.intro direction.report_codec_axioms remote_channel_axioms.intro) (simp add: m_handleDirection_def)

interpretation navi_velocity_remote: remote_channel "NaviVelocityRecord_serialize bo" "NaviVelocityRecord_deserialize bo"
  "\<lambda>n d. pair_spaceRequired Vec2_spaceRequired arith_spaceRequired n (nv_naviVelState d, nv_sensor d)"
  m_handleNaviVelocity nv_sensor "\<lambda>d. NaviVelocityReport (nv_sensor d) (nv_naviVelState d)" for bo
  by (intro remote_channel.intro navi_velocity.report_codec_axioms remote_channel_axioms.intro) (simp add: m_handleNaviVelocity_def)

interpretation navi_position_remote: remote_channel "NaviPositionRecord_serialize bo" "NaviPositionRecord_deserialize bo"
  "\<lambda>n d. pair_spaceRequired Vec2_spaceRequired arith_spaceRequired n (np_naviPosnState d, np_sensor d)"
  m_handleNaviPosition np_sensor "\<lambda>d. NaviPositionReport (np_sensor d) (np_naviPosnState d)" for bo
  by (intro remote_channel.intro navi_position.report_codec_axioms remote_channel_axioms.intro) (simp add: m_handleNaviPosition_def)


lemma handlers_created:
  "\<exists>d. Location2DHandler_create type_id sensor dev = Some \<lparr>rh_filter = filter_create sensor,
     rh_component = (Location2D_create 1)\<lparr>m_parent := True, m_messageHandlers := [(H_LocationRecord, Some (type_id ''com.osvr.location2D.locationrecord''))],
       locationRecord := Some (type_id ''com.osvr.location2D.locationrecord''), l2_cb := [()]\<rparr>, rh_dev = d\<rparr>"
  "\<exists>d. DirectionHandler_create type_id sensor dev = Some \<lparr>rh_filter = filter_create sensor,
     rh_component = (Direction_create 1)\<lparr>m_parent := True, m_messageHandlers := [(H_DirectionRecord, Some (type_id ''com.osvr.direction.directionrecord''))],
       directionRecord := Some (type_id ''com.osvr.direction.directionrecord''), di_cb := [()]\<rparr>, rh_dev = d\<rparr>"
  "\<exists>c d. LocomotionHandler_create type_id sensor dev = Some \<lparr>rh_filter = filter_create sensor,
     rh_component = c, rh_dev = d\<rparr> \<and> m_cb_vel c = [()] \<and> m_cb_posn c = [()]"
  by (simp_all add: Location2DHandler_create_def DirectionHandler_create_def LocomotionHandler_create_def recordParent_def
      Location2D_create_def Direction_create_def Locomotion_create_def Location2D_parentSet_def Direction_parentSet_def
      Locomotion_parentSet_def registerLocationHandler_def registerDirectionHandler_def registerNaviVelocityHandler_def
      registerNaviPositionHandler_def m_registerHandler_def registerMessageType_def)


text \<open>
  A client with a handler made as given gets exactly the reports \<open>rs\<close> from the messages on the
  connection, without an exception, and its interfaces show the newest of them.
\<close>

definition client_gets ::
    "'h option \<Rightarrow> ('h \<Rightarrow> u8 list \<Rightarrow> int \<times> int \<Rightarrow> (exn, report_list) result option) \<Rightarrow> BaseDevice \<Rightarrow> report_list
     \<Rightarrow> nat list \<Rightarrow> 'cb iface_store \<Rightarrow> bool" where
  "client_gets handler handle dev rs ifaces store \<longleftrightarrow>
     (\<exists>h. handler = Some h \<and> client_session handle h (conn_packed dev) = Some (rs, None) \<and>
        interfaces_show ifaces rs (fst (deliver_all ifaces rs (store, []))))"

lemma client_getsI:
  assumes "handler = Some h" and "client_session handle h (conn_packed dev) = Some (rs, None)"
    and "distinct ifaces" and "\<forall>i\<in>set ifaces. iface_ok (store i) \<and> \<not> hasAnyState (ci_state (store i))"
    and "\<forall>(t, r)\<in>set rs. tv_canonical t"
  shows "client_gets handler handle dev rs ifaces store"
  unfolding client_gets_def using assms(1,2) delivered_show [OF assms(3-5), of "[]"] by blast

lemma reports_for_sends:
  "reports_for sensor_of report_of sensor (map (\<lambda>x. (mk x, time x)) xs) =
     map (\<lambda>x. (time x, report_of (mk x))) (filter (\<lambda>x. matches sensor (sensor_of (mk x))) xs)"
  by (induction xs) (auto simp: reports_for_def)

context remote_channel
begin

lemma client_gets_reports:
  assumes "send_all send xs (c, dev) = Inr dev'" and "\<And>x d. send x (c, d) = packMessage accepts (ser (value_sent x) []) (mt c) (time_sent x) d"
    and "handler = Some h" and "\<And>p t. handle h p t = on_calls (on_data (filter_create sensor)) (dispatch deser [()] p t)"
    and "conn_packed dev = []" and "\<forall>x\<in>set xs. tv_canonical (time_sent x) \<and> tv_in_range (time_sent x)"
    and "distinct ifaces" and "\<forall>i\<in>set ifaces. iface_ok (store i) \<and> \<not> hasAnyState (ci_state (store i))"
    and "map (\<lambda>x. (time_sent x, report_of (value_sent x))) (filter (\<lambda>x. matches sensor (sensor_of (value_sent x))) xs) = rs"
  shows "client_gets handler handle dev' rs ifaces store"
proof (rule client_getsI [OF assms(3) _ assms(7,8)])
  show "client_session handle h (conn_packed dev') = Some (rs, None)"
    using sent_session [of send c accepts value_sent mt time_sent xs dev dev' handle h sensor, OF assms(2,1,5,6,4)] assms(9)
    by (simp add: reports_for_sends)
  show "\<forall>(t, r)\<in>set rs. tv_canonical t" using assms(6) unfolding assms(9) [symmetric] by auto
qed

end

lemma location_gets:
  fixes comp :: "'lc Location2DComponent" and sends :: "(OSVR_Vec2 \<times> OSVR_ChannelCount \<times> OSVR_TimeValue) list"
  assumes "send_all (\<lambda>(x, s, t). sendLocationData bo accepts x s t) sends (comp, dev) = Inr dev'" and "conn_packed dev = []"
    and "\<forall>(x, s, t)\<in>set sends. tv_canonical t \<and> tv_in_range t"
    and "distinct ifaces" and "\<forall>i\<in>set ifaces. iface_ok (store i) \<and> \<not> hasAnyState (ci_state (store i))"
  shows "client_gets (Location2DHandler_create type_id sensor cdev) (location_message bo') dev'
    (map (\<lambda>(x, s, t). (t, Location2DReport s x)) (filter (\<lambda>(x, s, t). matches sensor s) sends)) ifaces store"
proof -
  obtain h where h: "Location2DHandler_create type_id sensor cdev = Some h" "rh_filter h = filter_create sensor"
    "l2_cb (rh_component h) = [()]" using handlers_created(1) [of type_id sensor cdev] by auto
  show ?thesis
    by (rule location_remote.client_gets_reports [where mt = locationRecord and time_sent = "\<lambda>x. snd (snd x)"
          and accepts = accepts and value_sent = "\<lambda>x. \<lparr>ld_sensor = fst (snd x), ld_location = fst x\<rparr>",
          OF assms(1) _ h(1) _ assms(2) _ assms(4,5)])
      (use assms(3) in \<open>auto simp: sendLocationData_def message_serialize_host [of bo bo'] location_message_def h(2,3) m_handleLocationRecord_def
         case_prod_unfold\<close>)
qed

lemma direction_gets:
  fixes comp :: "'lc DirectionComponent" and sends :: "(OSVR_Vec3 \<times> OSVR_ChannelCount \<times> OSVR_TimeValue) list"
  assumes "send_all (\<lambda>(x, s, t). sendDirectionData bo accepts x s t) sends (comp, dev) = Inr dev'" and "conn_packed dev = []"
    and "\<forall>(x, s, t)\<in>set sends. tv_canonical t \<and> tv_in_range t"
    and "distinct ifaces" and "\<forall>i\<in>set ifaces. iface_ok (store i) \<and> \<not> hasAnyState (ci_state (store i))"
  shows "client_gets (DirectionHandler_create type_id sensor cdev) (direction_message bo') dev'
    (map (\<lambda>(x, s, t). (t, DirectionReport s x)) (filter (\<lambda>(x, s, t). matches sensor s) sends)) ifaces store"
proof -
  obtain h where h: "DirectionHandler_create type_id sensor cdev = Some h" "rh_filter h = filter_create sensor"
    "di_cb (rh_component h) = [()]" using handlers_created(2) [of type_id sensor cdev] by auto
  show ?thesis
    by (rule direction_remote.client_gets_reports [where mt = directionRecord and time_sent = "\<lambda>x. snd (snd x)"
          and accepts = accepts and value_sent = "\<lambda>x. \<lparr>dd_sensor = fst (snd x), dd_direction = fst x\<rparr>",
          OF assms(1) _ h(1) _ assms(2) _ assms(4,5)])
      (use assms(3) in \<open>auto simp: sendDirectionData_def message_serialize_host [of bo bo'] direction_message_def h(2,3) m_handleDirectionRecord_def
         case_prod_unfold\<close>)
qed

lemma navi_velocity_gets:
  fixes comp :: "('v, 'p) LocomotionComponent" and sends :: "(OSVR_Vec2 \<times> OSVR_ChannelCount \<times> OSVR_TimeValue) list"
  assumes "send_all (\<lambda>(x, s, t). sendNaviVelocityData bo accepts x s t) sends (comp, dev) = Inr dev'" and "conn_packed dev = []"
    and "\<forall>(x, s, t)\<in>set sends. tv_canonical t \<and> tv_in_range t"
    and "distinct ifaces" and "\<forall>i\<in>set ifaces. iface_ok (store i) \<and> \<not> hasAnyState (ci_state (store i))"
  shows "client_gets (LocomotionHandler_create type_id sensor cdev) (navi_velocity_message bo') dev'
    (map (\<lambda>(x, s, t). (t, NaviVelocityReport s x)) (filter (\<lambda>(x, s, t). matches sensor s) sends)) ifaces store"
proof -
  obtain h where h: "LocomotionHandler_create type_id sensor cdev = Some h" "rh_filter h = filter_create sensor"
    "m_cb_vel (rh_component h) = [()]" using handlers_created(3) [of type_id sensor cdev] by auto
  show ?thesis
    by (rule navi_velocity_remote.client_gets_reports [where mt = naviVelRecord and time_sent = "\<lambda>x. snd (snd x)"
          and accepts = accepts and value_sent = "\<lambda>x. \<lparr>nv_sensor = fst (snd x), nv_naviVelState = fst x\<rparr>",
          OF assms(1) _ h(1) _ assms(2) _ assms(4,5)])
      (use assms(3) in \<open>auto simp: sendNaviVelocityData_def message_serialize_host [of bo bo'] navi_velocity_message_def h(2,3) m_handleNaviVelocityRecord_def
         case_prod_unfold\<close>)
qed

lemma navi_position_gets:
  fixes comp :: "('v, 'p) LocomotionComponent" and sends :: "(OSVR_Vec2 \<times> OSVR_ChannelCount \<times> OSVR_TimeValue) list"
  assumes "send_all (\<lambda>(x, s, t). sendNaviPositionData bo accepts x s t) sends (comp, dev) = Inr dev'" and "conn_packed dev = []"
    and "\<forall>(x, s, t)\<in>set sends. tv_canonical t \<and> tv_in_range t"
    and "distinct ifaces" and "\<forall>i\<in>set ifaces. iface_ok (store i) \<and> \<not> hasAnyState (ci_state (store i))"
  shows "client_gets (LocomotionHandler_create type_id sensor cdev) (navi_position_message bo') dev'
    (map (\<lambda>(x, s, t). (t, NaviPositionReport s x)) (filter (\<lambda>(x, s, t). matches sensor s) sends)) ifaces store"
proof -
  obtain h where h: "LocomotionHandler_create type_id sensor cdev = Some h" "rh_filter h = filter_create sensor"
    "m_cb_posn (rh_component h) = [()]" using handlers_created(3) [of type_id sensor cdev] by auto
  show ?thesis
    by (rule navi_position_remote.client_gets_reports [where mt = naviPosnRecord and time_sent = "\<lambda>x. snd (snd x)"
          and accepts = accepts and value_sent = "\<lambda>x. \<lparr>np_sensor = fst (snd x), np_naviPosnState = fst x\<rparr>",
          OF assms(1) _ h(1) _ assms(2) _ assms(4,5)])
      (use assms(3) in \<open>auto simp: sendNaviPositionData_def message_serialize_host [of bo bo'] navi_position_message_def h(2,3) m_handleNaviPositionRecord_def
         case_prod_unfold\<close>)
qed



end
