(* ===== verification/Image_Eye_Handlers.thy ===== *)
theory Image_Eye_Handlers
  imports Network_Handlers Json_Value
begin

text \<open>
  The handlers of images and of eye trackers (\<^verbatim>\<open>ImagingRemoteFactory.cpp\<close>,
  \<^verbatim>\<open>EyeTrackerRemoteFactory.cpp\<close>). An image is not kept as state: each callback is called with
  a pointer to its pixels, of which the client context owns one reference per call until the
  client frees it. An eye tracker's notification has no data of its own: the handler reads the
  states of other interfaces of the client.
\<close>

subsection \<open>Images\<close>

text \<open>The calls of callbacks, with the address of the pixels they were given.\<close>

type_synonym 'cb image_calls = "(nat \<times> 'cb \<times> OSVR_TimeValue \<times> Report) list"

text \<open>
  \<^verbatim>\<open>m_handleImage\<close>: for every interface, a reference is acquired for each of its callbacks, then
  they are called.
\<close>

fun image_loop ::
    "nat \<Rightarrow> OSVR_TimeValue \<Rightarrow> Report \<Rightarrow> 'cb iface_store \<Rightarrow> nat list \<Rightarrow> 'cb image_calls \<times> unit owned
     \<Rightarrow> 'cb image_calls \<times> unit owned" where
  "image_loop addr timestamp report store [] world = world"
| "image_loop addr timestamp report store (i # is) (calls, own) =
     (let n = getNumCallbacksFor report (ci_callbacks (store i));
          own' = (multi_acquire addr () ^^ n) own;
          cs = map (\<lambda>c. (addr, c)) (triggerCallbacks timestamp report (ci_callbacks (store i)))
      in image_loop addr timestamp report store is (calls @ cs, own'))"

definition m_handleImage ::
    "RemoteFilter \<Rightarrow> nat list \<Rightarrow> 'cb iface_store \<Rightarrow> nat \<Rightarrow> ImageData \<Rightarrow> OSVR_TimeValue
     \<Rightarrow> 'cb image_calls \<times> unit owned \<Rightarrow> ('cb image_calls \<times> unit owned) option" where
  "m_handleImage self ifaces store addr data timestamp world =
     do { skip \<leftarrow> filtered self (id_sensor data);
          if skip then Some world
          else Some (image_loop addr timestamp (ImagingReport (id_sensor data) data) store ifaces world) }"

text \<open>\<^verbatim>\<open>osvrClientFreeImage\<close>: whether it returns success.\<close>

definition osvrClientFreeImage :: "nat \<Rightarrow> unit owned \<Rightarrow> unit owned \<times> bool" where
  "osvrClientFreeImage buf own = multi_release buf own"

datatype image_event = ImageArrives nat ImageData OSVR_TimeValue | ImageFreed nat

text \<open>A run: the calls made, the references owned, and the addresses freed with success.\<close>

fun image_run ::
    "RemoteFilter \<Rightarrow> nat list \<Rightarrow> 'cb iface_store \<Rightarrow> image_event list
     \<Rightarrow> ('cb image_calls \<times> unit owned) \<times> nat list \<Rightarrow> (('cb image_calls \<times> unit owned) \<times> nat list) option" where
  "image_run self ifaces store [] w = Some w"
| "image_run self ifaces store (ImageArrives addr data t # es) (w, freed) =
     do { w' \<leftarrow> m_handleImage self ifaces store addr data t w; image_run self ifaces store es (w', freed) }"
| "image_run self ifaces store (ImageFreed addr # es) ((calls, own), freed) =
     (case osvrClientFreeImage addr own of
        (own', ok) \<Rightarrow> image_run self ifaces store es ((calls, own'), if ok then freed @ [addr] else freed))"

definition calls_for :: "nat \<Rightarrow> 'cb image_calls \<Rightarrow> nat" where
  "calls_for addr calls = length (filter (\<lambda>(a, c). a = addr) calls)"

lemma owners_acquire_n: "owners k ((multi_acquire a p ^^ n) c) = owners k c + (if k = a then n else 0)"
  by (induction n) (auto simp: owners_acquire)

lemma calls_for_append: "calls_for k (a @ b) = calls_for k a + calls_for k b"
  by (simp add: calls_for_def)

lemma image_loop_balanced:
  assumes "image_loop addr t r store ifaces (calls, own) = (calls', own')"
  shows "calls_for k calls' + owners k own = calls_for k calls + owners k own' \<and>
    (\<exists>cs. calls' = calls @ map (\<lambda>c. (addr, c)) cs \<and>
       cs = concat (map (\<lambda>i. triggerCallbacks t r (ci_callbacks (store i))) ifaces))"
  using assms
proof (induction ifaces arbitrary: calls own)
  case Nil
  then show ?case by simp
next
  case (Cons i "is")
  let ?cs = "triggerCallbacks t r (ci_callbacks (store i))"
  from Cons.prems have "image_loop addr t r store is (calls @ map (\<lambda>c. (addr, c)) ?cs,
      (multi_acquire addr () ^^ getNumCallbacksFor r (ci_callbacks (store i))) own) = (calls', own')"
    by (simp add: Let_def)
  from Cons.IH [OF this] have IH: "calls_for k calls' + owners k ((multi_acquire addr () ^^ getNumCallbacksFor r (ci_callbacks (store i))) own) =
      calls_for k (calls @ map (\<lambda>c. (addr, c)) ?cs) + owners k own'"
    "calls' = calls @ map (\<lambda>c. (addr, c)) (?cs @ concat (map (\<lambda>i. triggerCallbacks t r (ci_callbacks (store i))) is))"
    by auto
  have "calls_for k (map (\<lambda>c. (addr, c)) ?cs) = (if k = addr then getNumCallbacksFor r (ci_callbacks (store i)) else 0)"
    by (simp add: calls_for_def filter_map comp_def getNumCallbacksFor_def triggerCallbacks_def)
  with IH show ?case by (auto simp: owners_acquire_n calls_for_append split: if_splits)
qed

text \<open>The calls that the arrival of an image makes.\<close>

definition image_calls_of ::
    "OSVR_ChannelCount option \<Rightarrow> nat list \<Rightarrow> 'cb iface_store \<Rightarrow> image_event \<Rightarrow> 'cb image_calls" where
  "image_calls_of sensor ifaces store e =
     (case e of
        ImageFreed a \<Rightarrow> []
      | ImageArrives addr data t \<Rightarrow>
          if matches sensor (id_sensor data)
          then map (\<lambda>f. (addr, f, t, ImagingReport (id_sensor data) data))
                 (concat (map (\<lambda>i. callbacks_at T_Imaging (ci_callbacks (store i))) ifaces))
          else [])"

lemma image_run_balanced:
  "\<exists>calls' own' freed'. image_run (filter_create sensor) ifaces store es ((calls, own), freed) = Some ((calls', own'), freed') \<and>
     calls' = calls @ concat (map (image_calls_of sensor ifaces store) es) \<and>
     calls_for k calls' + owners k own + count_list freed k = calls_for k calls + owners k own' + count_list freed' k"
proof (induction es arbitrary: calls own freed)
  case Nil
  then show ?case by simp
next
  case (Cons e es)
  show ?case
  proof (cases e)
    case (ImageArrives addr data t)
    obtain c1 o1 where loop: "image_loop addr t (ImagingReport (id_sensor data) data) store ifaces (calls, own) = (c1, o1)"
      by fastforce
    show ?thesis
    proof (cases "matches sensor (id_sensor data)")
      case False
      with Cons.IH [of calls own freed] ImageArrives show ?thesis
        by (auto simp: m_handleImage_def filtered_create image_calls_of_def)
    next
      case True
      from image_loop_balanced [OF loop, of k] have
        "c1 = calls @ image_calls_of sensor ifaces store e"
        "calls_for k c1 + owners k own = calls_for k calls + owners k o1"
        using True ImageArrives by (auto simp: image_calls_of_def triggerCallbacks_def map_concat comp_def)
      with Cons.IH [of c1 o1 freed] True ImageArrives loop show ?thesis
        by (auto simp: m_handleImage_def filtered_create)
    qed
  next
    case (ImageFreed a)
    obtain o1 ok where rel: "multi_release a own = (o1, ok)" by fastforce
    from owners_release [OF rel, of k] Cons.IH [of calls o1 "if ok then freed @ [a] else freed"] ImageFreed rel
    show ?thesis by (auto simp: osvrClientFreeImage_def image_calls_of_def split: if_splits)
  qed
qed


text \<open>
  C31: Every image that arrives for a matching sensor is passed to each imaging callback of the
  interfaces of its path once, in order, with a reference to its pixels for each call, and never
  to others. After any sequence of arrivals and calls of the freeing function, the
  client context owns for every address exactly one reference per call not freed yet, so
  freeing succeeds exactly as often as callbacks were called with that address.
\<close>

theorem image_references_balanced:
  "\<exists>calls own freed. image_run (filter_create sensor) ifaces store es (([], []), []) = Some ((calls, own), freed) \<and>
     calls = concat (map (image_calls_of sensor ifaces store) es) \<and>
     (\<forall>k. calls_for k calls = owners k own + count_list freed k \<and>
        (snd (osvrClientFreeImage k own) \<longleftrightarrow> count_list freed k < calls_for k calls))"
proof -
  obtain calls own freed where run: "image_run (filter_create sensor) ifaces store es (([], []), []) = Some ((calls, own), freed)"
    "calls = concat (map (image_calls_of sensor ifaces store) es)"
    using image_run_balanced [of sensor ifaces store es "[]" "[]" "[]" 0] by auto
  have bal: "calls_for k calls = owners k own + count_list freed k" for k
  proof -
    have "owners k ([] :: unit owned) = 0" "calls_for k ([] :: 'a image_calls) = 0"
      by (simp_all add: calls_for_def owners_def)
    then show ?thesis using image_run_balanced [of sensor ifaces store es "[]" "[]" "[]" k] run(1) by auto
  qed
  have "snd (osvrClientFreeImage k own) \<longleftrightarrow> 0 < owners k own" for k
    using owners_release [of k own] by (cases "multi_release k own") (auto simp: osvrClientFreeImage_def)
  with run bal show ?thesis by auto
qed

subsection \<open>Well-typed states\<close>

text \<open>The type of a state: the structure kept for a type of report is of that report's state type.\<close>

fun state_type :: "ReportState \<Rightarrow> ReportType" where
  "state_type (AnalogState x) = T_Analog"
| "state_type (ButtonState b) = T_Button"
| "state_type (PoseState p) = T_Pose"
| "state_type (PositionState v) = T_Position"
| "state_type (OrientationState q) = T_Orientation"
| "state_type (VelocityState vs) = T_Velocity"
| "state_type (LinearVelocityState v) = T_LinearVelocity"
| "state_type (AngularVelocityState iq) = T_AngularVelocity"
| "state_type (AccelerationState as) = T_Acceleration"
| "state_type (LinearAccelerationState v) = T_LinearAcceleration"
| "state_type (AngularAccelerationState iq) = T_AngularAcceleration"
| "state_type (ImagingState i) = T_Imaging"
| "state_type (Location2DState v2) = T_Location2D"
| "state_type (DirectionState v) = T_Direction"
| "state_type (EyeTracker2DState v2) = T_EyeTracker2D"
| "state_type (EyeTracker3DState es) = T_EyeTracker3D"
| "state_type (EyeTrackerBlinkState b) = T_EyeTrackerBlink"
| "state_type (NaviVelocityState v2) = T_NaviVelocity"
| "state_type (NaviPositionState v2) = T_NaviPosition"

lemma state_type_report: "state_type (reportState r) = report_type r"
  by (cases r) simp_all

definition iface_typed :: "'cb ClientInterface \<Rightarrow> bool" where
  "iface_typed iface \<longleftrightarrow> iface_ok iface \<and>
     (\<forall>ty c. state_at ty (ci_state iface) = Some c \<longrightarrow> state_type (smc_state c) = ty)"

lemma iface_typed_create: "iface_typed (ClientInterface_create path)"
  using iface_ok_create [of path]
  by (simp add: iface_typed_def ClientInterface_create_def InterfaceState_create_def state_at_def typekeyed_get_create)

lemma iface_typed_register: "iface_typed iface \<Longrightarrow> iface_typed (registerCallback ty cb iface)"
  using iface_ok_register [of iface ty cb] by (simp add: iface_typed_def registerCallback_def)

lemma iface_typed_setState: "iface_typed iface \<Longrightarrow> iface_typed (iface_setState t r iface)"
  using iface_ok_setState [of iface t r]
  by (auto simp: iface_typed_def iface_setState_def state_at_set iface_ok_def state_type_report split: if_splits)

lemma getState_typed:
  "iface_typed iface \<Longrightarrow> iface_getState ty iface = Some (t, st) \<Longrightarrow> state_type st = ty"
  by (auto simp: iface_typed_def iface_getState_def getState_def split: if_splits)

lemma forEach_typed:
  "\<forall>i. iface_typed (store i) \<Longrightarrow> (\<And>iface. iface_typed iface \<Longrightarrow> iface_typed (fst (f iface))) \<Longrightarrow>
     \<forall>i. iface_typed (fst (forEachInterface f is (store, calls)) i)"
  by (induction "is" arbitrary: store calls) (auto split: prod.splits simp: prod_eq_iff)

lemma deliver_typed:
  assumes "\<forall>i. iface_typed (fst w i)"
  shows "\<forall>i. iface_typed (fst (deliver_all ifaces rs w) i)"
  using assms
proof (induction rs arbitrary: w)
  case Nil
  then show ?case by (simp add: deliver_all_def)
next
  case (Cons tr rs)
  obtain t r where tr: "tr = (t, r)" by fastforce
  obtain store calls where w: "w = (store, calls)" by fastforce
  have "\<forall>i. iface_typed (fst (setStateAndTriggerCallbacks ifaces t r (store, calls)) i)"
    unfolding setStateAndTriggerCallbacks_def
    by (rule forEach_typed) (use Cons.prems w in \<open>auto simp: Let_def iface_typed_setState\<close>)
  from Cons.IH [OF this] show ?case by (simp add: deliver_all_def tr w)
qed

text \<open>Registering callbacks and delivering reports, in any order.\<close>

datatype 'cb iface_event = Registers nat ReportType 'cb | Delivers "nat list" OSVR_TimeValue Report

fun iface_run :: "'cb iface_event list \<Rightarrow> 'cb iface_store \<times> 'cb report_calls \<Rightarrow> 'cb iface_store \<times> 'cb report_calls" where
  "iface_run [] w = w"
| "iface_run (Registers i ty cb # es) (store, calls) =
     iface_run es (store(i := registerCallback ty cb (store i)), calls)"
| "iface_run (Delivers ifaces t r # es) w = iface_run es (setStateAndTriggerCallbacks ifaces t r w)"

lemma iface_run_typed:
  "\<forall>i. iface_typed (fst w i) \<Longrightarrow> \<forall>i. iface_typed (fst (iface_run es w) i)"
proof (induction es w rule: iface_run.induct)
  case (2 i ty cb es store calls)
  then show ?case by (auto simp: iface_typed_register)
next
  case (3 ifaces t r es w)
  have "\<forall>i. iface_typed (fst (setStateAndTriggerCallbacks ifaces t r w) i)"
    using deliver_typed [OF "3.prems", of ifaces "[(t, r)]"] by (simp add: deliver_all_def)
  from "3.IH" [OF this] show ?case by simp
qed simp


subsection \<open>Eye trackers\<close>

record EyeOptions =
  reportDirection :: bool
  reportBasePoint :: bool
  reportLocation2D :: bool
  reportBlink :: bool
  dirIface :: "nat option"
  locationIface :: "nat option"
  trackerIface :: "nat option"
  buttonIface :: "nat option"

definition EyeOptions_create :: EyeOptions where
  "EyeOptions_create = \<lparr>reportDirection = False, reportBasePoint = False, reportLocation2D = False,
     reportBlink = False, dirIface = None, locationIface = None, trackerIface = None, buttonIface = None\<rparr>"

text \<open>
  Reading a state through a pointer to an interface: \<open>None\<close> for a null pointer, else the state
  if there is one. A field that is never written keeps what \<open>junk\<close> is.
\<close>

definition read_state :: "ReportType \<Rightarrow> nat option \<Rightarrow> 'cb iface_store \<Rightarrow> ReportState option option" where
  "read_state ty iface store = map_option (\<lambda>i. map_option snd (iface_getState ty (store i))) iface"

definition vec3_or :: "OSVR_Vec3 \<Rightarrow> ReportState option \<Rightarrow> bool \<times> OSVR_Vec3" where
  "vec3_or junk st =
     (case st of Some (DirectionState v) \<Rightarrow> (True, v) | Some (PositionState v) \<Rightarrow> (True, v) | _ \<Rightarrow> (False, junk))"

definition m_handleEyeTracking3d ::
    "OSVR_Vec3 \<times> OSVR_Vec3 \<Rightarrow> EyeOptions \<Rightarrow> nat list \<Rightarrow> OSVR_EyeNotification \<Rightarrow> OSVR_TimeValue
     \<Rightarrow> 'cb iface_store \<times> 'cb report_calls \<Rightarrow> ('cb iface_store \<times> 'cb report_calls) option" where
  "m_handleEyeTracking3d junk opts ifaces data timestamp world =
     do { dir \<leftarrow> (if reportDirection opts then read_state T_Direction (dirIface opts) (fst world) else Some None);
          base \<leftarrow> (if reportBasePoint opts then read_state T_Position (trackerIface opts) (fst world) else Some None);
          let (dirValid, d) = vec3_or (fst junk) dir; (baseValid, b) = vec3_or (snd junk) base
          in if \<not> (baseValid \<or> dirValid) then Some world
             else Some (setStateAndTriggerCallbacks ifaces timestamp
                    (EyeTracker3DReport (en_sensor data)
                       \<lparr>directionValid = dirValid, gaze_direction = d, basePointValid = baseValid, basePoint = b\<rparr>) world) }"

definition m_handleEyeTracking2d ::
    "EyeOptions \<Rightarrow> nat list \<Rightarrow> OSVR_EyeNotification \<Rightarrow> OSVR_TimeValue
     \<Rightarrow> 'cb iface_store \<times> 'cb report_calls \<Rightarrow> ('cb iface_store \<times> 'cb report_calls) option" where
  "m_handleEyeTracking2d opts ifaces data timestamp world =
     (if \<not> reportLocation2D opts then Some world
      else do { st \<leftarrow> read_state T_Location2D (locationIface opts) (fst world);
                case st of
                  Some (Location2DState v) \<Rightarrow>
                    Some (setStateAndTriggerCallbacks ifaces timestamp (EyeTracker2DReport (en_sensor data) v) world)
                | _ \<Rightarrow> Some world })"

definition m_handleEyeBlink ::
    "EyeOptions \<Rightarrow> nat list \<Rightarrow> OSVR_EyeNotification \<Rightarrow> OSVR_TimeValue
     \<Rightarrow> 'cb iface_store \<times> 'cb report_calls \<Rightarrow> ('cb iface_store \<times> 'cb report_calls) option" where
  "m_handleEyeBlink opts ifaces data timestamp world =
     (if \<not> reportBlink opts then Some world
      else do { st \<leftarrow> read_state T_Button (buttonIface opts) (fst world);
                case st of
                  Some (ButtonState b) \<Rightarrow>
                    Some (setStateAndTriggerCallbacks ifaces timestamp (EyeTrackerBlinkReport (en_sensor data) b) world)
                | _ \<Rightarrow> Some world })"

definition m_handleEyeTracking ::
    "OSVR_Vec3 \<times> OSVR_Vec3 \<Rightarrow> RemoteFilter \<Rightarrow> EyeOptions \<Rightarrow> nat list \<Rightarrow> OSVR_EyeNotification \<Rightarrow> OSVR_TimeValue
     \<Rightarrow> 'cb iface_store \<times> 'cb report_calls \<Rightarrow> ('cb iface_store \<times> 'cb report_calls) option" where
  "m_handleEyeTracking junk self opts ifaces data timestamp world =
     do { skip \<leftarrow> filtered self (en_sensor data);
          if skip then Some world
          else do { w1 \<leftarrow> m_handleEyeTracking3d junk opts ifaces data timestamp world;
                    w2 \<leftarrow> m_handleEyeTracking2d opts ifaces data timestamp w1;
                    m_handleEyeBlink opts ifaces data timestamp w2 } }"


text \<open>
  The options of a handler, from the descriptor of its device: an interface is opened for each
  part that the eye tracker has. Opening is the client context's \<^verbatim>\<open>getInterface\<close>, here a
  parameter.
\<close>

definition eye_part ::
    "(string \<Rightarrow> 'ctx \<Rightarrow> (exn, nat option) result \<times> 'ctx) \<Rightarrow> json \<Rightarrow> string \<Rightarrow> string \<Rightarrow> 'ctx
     \<Rightarrow> (exn, bool \<times> nat option) result \<times> 'ctx" where
  "eye_part getInterface descriptor part path ctx =
     (case result_bind (result_bind (json_at descriptor ''interfaces'') (\<lambda>i. json_at i ''eyetracker'')) (\<lambda>e. isMember e part) of
        Inl e \<Rightarrow> (Inl e, ctx)
      | Inr False \<Rightarrow> (Inr (False, None), ctx)
      | Inr True \<Rightarrow> apfst (\<lambda>r. result_bind r (\<lambda>i. Inr (True, i))) (getInterface path ctx))"

definition eye_options ::
    "(string \<Rightarrow> 'ctx \<Rightarrow> (exn, nat option) result \<times> 'ctx) \<Rightarrow> json \<Rightarrow> string \<Rightarrow> 'ctx \<Rightarrow> (exn, EyeOptions) result \<times> 'ctx" where
  "eye_options getInterface descriptor devicePath ctx =
     (case eye_part getInterface descriptor ''direction'' (devicePath @ ''/direction'') ctx of
        (Inl e, c1) \<Rightarrow> (Inl e, c1)
      | (Inr (dr, di), c1) \<Rightarrow>
     (case eye_part getInterface descriptor ''tracker'' (devicePath @ ''/tracker/'') c1 of
        (Inl e, c2) \<Rightarrow> (Inl e, c2)
      | (Inr (br, ti), c2) \<Rightarrow>
     (case eye_part getInterface descriptor ''location2D'' (devicePath @ ''/location2D/'') c2 of
        (Inl e, c3) \<Rightarrow> (Inl e, c3)
      | (Inr (lr, li), c3) \<Rightarrow>
     (case eye_part getInterface descriptor ''button'' (devicePath @ ''/button/'') c3 of
        (Inl e, c4) \<Rightarrow> (Inl e, c4)
      | (Inr (kr, bi), c4) \<Rightarrow>
          (Inr \<lparr>reportDirection = dr, reportBasePoint = br, reportLocation2D = lr, reportBlink = kr,
                dirIface = di, locationIface = li, trackerIface = ti, buttonIface = bi\<rparr>, c4)))))"

text \<open>What a notification reports, from the states of the interfaces at the time it arrives.\<close>

definition state_if :: "bool \<Rightarrow> ReportType \<Rightarrow> nat option \<Rightarrow> 'cb iface_store \<Rightarrow> ReportState option" where
  "state_if wanted ty iface store =
     (if wanted then (case iface of None \<Rightarrow> None | Some i \<Rightarrow> map_option snd (iface_getState ty (store i))) else None)"

definition eye_reports ::
    "OSVR_Vec3 \<times> OSVR_Vec3 \<Rightarrow> EyeOptions \<Rightarrow> 'cb iface_store \<Rightarrow> OSVR_ChannelCount \<Rightarrow> OSVR_TimeValue \<Rightarrow> report_list" where
  "eye_reports junk opts store sensor t =
     (let dir = state_if (reportDirection opts) T_Direction (dirIface opts) store;
          base = state_if (reportBasePoint opts) T_Position (trackerIface opts) store
      in (if dir = None \<and> base = None then []
          else [(t, EyeTracker3DReport sensor
                  \<lparr>directionValid = dir \<noteq> None,
                   gaze_direction = (case dir of Some (DirectionState v) \<Rightarrow> v | _ \<Rightarrow> fst junk),
                   basePointValid = base \<noteq> None,
                   basePoint = (case base of Some (PositionState v) \<Rightarrow> v | _ \<Rightarrow> snd junk)\<rparr>)]) @
         (case state_if (reportLocation2D opts) T_Location2D (locationIface opts) store of
            Some (Location2DState v) \<Rightarrow> [(t, EyeTracker2DReport sensor v)] | _ \<Rightarrow> []) @
         (case state_if (reportBlink opts) T_Button (buttonIface opts) store of
            Some (ButtonState b) \<Rightarrow> [(t, EyeTrackerBlinkReport sensor b)] | _ \<Rightarrow> []))"

definition eye_pointers :: "EyeOptions \<Rightarrow> bool" where
  "eye_pointers opts \<longleftrightarrow> (reportDirection opts \<longrightarrow> dirIface opts \<noteq> None) \<and>
     (reportBasePoint opts \<longrightarrow> trackerIface opts \<noteq> None) \<and>
     (reportLocation2D opts \<longrightarrow> locationIface opts \<noteq> None) \<and> (reportBlink opts \<longrightarrow> buttonIface opts \<noteq> None)"

lemma getState_other:
  assumes "iface_ok iface" and "report_type r \<noteq> ty"
  shows "iface_getState ty (iface_setState t r iface) = iface_getState ty iface"
proof -
  have "state_at ty (ci_state (iface_setState t r iface)) = state_at ty (ci_state iface)"
    using assms by (auto simp: iface_setState_def state_at_set iface_ok_def)
  moreover have "m_hasState (ci_state (iface_setState t r iface)) \<or> state_at ty (ci_state iface) = None"
    using assms(1) by (auto simp: iface_setState_def setStateFromReport_def iface_ok_def)
  ultimately show ?thesis using assms(1)
    by (auto simp: iface_getState_def getState_def hasState_def iface_ok_def)
qed

lemma state_if_other:
  assumes "distinct ifaces" and "\<forall>i. iface_typed (store i)" and "report_type r \<noteq> ty"
  shows "state_if wanted ty iface (fst (setStateAndTriggerCallbacks ifaces t r (store, calls))) = state_if wanted ty iface store"
proof -
  have "iface_ok (store i)" for i using assms(2) by (simp add: iface_typed_def)
  then show ?thesis
    using deliver_one [OF assms(1), of t r store calls] assms(3)
    by (auto simp: state_if_def getState_other split: option.split)
qed

lemma state_if_typed:
  assumes "\<forall>i. iface_typed (store i)" and "state_if wanted ty iface store = Some st"
  shows "state_type st = ty"
  using assms by (auto simp: state_if_def split: if_splits option.splits dest: getState_typed)

lemma read_state_if:
  "wanted \<longrightarrow> iface \<noteq> None \<Longrightarrow>
     (if wanted then read_state ty iface store else Some None) = Some (state_if wanted ty iface store)"
  by (auto simp: read_state_def state_if_def)


lemma state_cases:
  "state_type st = T_Direction \<Longrightarrow> \<exists>v. st = DirectionState v"
  "state_type st = T_Position \<Longrightarrow> \<exists>v. st = PositionState v"
  "state_type st = T_Location2D \<Longrightarrow> \<exists>v2. st = Location2DState v2"
  "state_type st = T_Button \<Longrightarrow> \<exists>b. st = ButtonState b"
  by (cases st; simp)+

definition eye_step ::
    "nat list \<Rightarrow> OSVR_TimeValue \<Rightarrow> Report option \<Rightarrow> 'cb iface_store \<times> 'cb report_calls \<Rightarrow> 'cb iface_store \<times> 'cb report_calls" where
  "eye_step ifaces t r w = (case r of None \<Rightarrow> w | Some rep \<Rightarrow> setStateAndTriggerCallbacks ifaces t rep w)"

definition eye_report :: "Report option \<Rightarrow> bool" where
  "eye_report r \<longleftrightarrow> (case r of None \<Rightarrow> True | Some rep \<Rightarrow>
     report_type rep \<in> {T_EyeTracker2D, T_EyeTracker3D, T_EyeTrackerBlink})"

lemma eye_step_keeps:
  assumes "distinct ifaces" and "\<forall>i. iface_typed (fst w i)" and "eye_report r"
  shows "\<forall>i. iface_typed (fst (eye_step ifaces t r w) i)"
    and "ty \<in> {T_Direction, T_Position, T_Location2D, T_Button} \<Longrightarrow>
      state_if wanted ty iface (fst (eye_step ifaces t r w)) = state_if wanted ty iface (fst w)"
proof -
  obtain store calls where w: "w = (store, calls)" by fastforce
  show "\<forall>i. iface_typed (fst (eye_step ifaces t r w) i)"
    using assms(2) deliver_typed [of w ifaces "[(t, the r)]"]
    by (auto simp: eye_step_def deliver_all_def split: option.split)
  show "state_if wanted ty iface (fst (eye_step ifaces t r w)) = state_if wanted ty iface (fst w)"
    if "ty \<in> {T_Direction, T_Position, T_Location2D, T_Button}"
    using assms that state_if_other [OF assms(1), of store _ ty wanted iface t calls]
    by (auto simp: eye_step_def w eye_report_def split: option.splits)
qed

lemma eye_deliver:
  "deliver_all ifaces (map (Pair t) (concat (map (\<lambda>r. case r of None \<Rightarrow> [] | Some x \<Rightarrow> [x]) rs))) w =
     fold (eye_step ifaces t) rs w"
  by (induction rs arbitrary: w) (auto simp: deliver_all_def eye_step_def split: option.split)

lemma eye_2d:
  assumes "reportLocation2D opts \<longrightarrow> locationIface opts \<noteq> None"
  shows "m_handleEyeTracking2d opts ifaces \<lparr>en_sensor = s\<rparr> t w = Some (eye_step ifaces t
    (case state_if (reportLocation2D opts) T_Location2D (locationIface opts) (fst w) of
       Some (Location2DState v) \<Rightarrow> Some (EyeTracker2DReport s v) | _ \<Rightarrow> None) w)"
proof (cases "reportLocation2D opts")
  case False
  then show ?thesis by (simp add: m_handleEyeTracking2d_def state_if_def eye_step_def)
next
  case True
  with read_state_if [OF assms, of T_Location2D "fst w"]
  have "read_state T_Location2D (locationIface opts) (fst w) = Some (state_if True T_Location2D (locationIface opts) (fst w))"
    by simp
  with True show ?thesis
    by (simp add: m_handleEyeTracking2d_def eye_step_def split: option.split ReportState.split)
qed

lemma eye_blink:
  assumes "reportBlink opts \<longrightarrow> buttonIface opts \<noteq> None"
  shows "m_handleEyeBlink opts ifaces \<lparr>en_sensor = s\<rparr> t w = Some (eye_step ifaces t
    (case state_if (reportBlink opts) T_Button (buttonIface opts) (fst w) of
       Some (ButtonState b) \<Rightarrow> Some (EyeTrackerBlinkReport s b) | _ \<Rightarrow> None) w)"
proof (cases "reportBlink opts")
  case False
  then show ?thesis by (simp add: m_handleEyeBlink_def state_if_def eye_step_def)
next
  case True
  with read_state_if [OF assms, of T_Button "fst w"]
  have "read_state T_Button (buttonIface opts) (fst w) = Some (state_if True T_Button (buttonIface opts) (fst w))"
    by simp
  with True show ?thesis
    by (simp add: m_handleEyeBlink_def eye_step_def split: option.split ReportState.split)
qed

text \<open>
  C30: An eye tracker's notification for a matching sensor is turned into reports from the states
  that the client's own interfaces for direction, position, 2D location and blinking have when
  it arrives: a 3D report if there is a direction or a position (each marked valid exactly when
  it is there), a 2D report if there is a location, a blink report if there is a button, all
  with the notification's sensor and timestamp and delivered in this order; nothing else is
  reported and nothing goes wrong as long as every part that is reported has an interface.
\<close>

theorem eye_reports_current_states:
  assumes "distinct ifaces" and "\<forall>i. iface_typed (store i)" and "eye_pointers opts"
  shows "m_handleEyeTracking junk (filter_create sensor) opts ifaces \<lparr>en_sensor = s\<rparr> t (store, calls) =
    Some (deliver_all ifaces (if matches sensor s then eye_reports junk opts store s t else []) (store, calls))"
proof (cases "matches sensor s")
  case False
  then show ?thesis by (simp add: m_handleEyeTracking_def filtered_create deliver_all_def)
next
  case True
  let ?w = "(store, calls)"
  let ?dir = "state_if (reportDirection opts) T_Direction (dirIface opts) store"
  let ?base = "state_if (reportBasePoint opts) T_Position (trackerIface opts) store"
  let ?loc = "state_if (reportLocation2D opts) T_Location2D (locationIface opts) store"
  let ?but = "state_if (reportBlink opts) T_Button (buttonIface opts) store"
  define r3 where "r3 = (if ?dir = None \<and> ?base = None then None
     else Some (EyeTracker3DReport s \<lparr>directionValid = ?dir \<noteq> None,
       gaze_direction = (case ?dir of Some (DirectionState v) \<Rightarrow> v | _ \<Rightarrow> fst junk), basePointValid = ?base \<noteq> None,
       basePoint = (case ?base of Some (PositionState v) \<Rightarrow> v | _ \<Rightarrow> snd junk)\<rparr>))"
  define r2 where "r2 = (case ?loc of Some (Location2DState v) \<Rightarrow> Some (EyeTracker2DReport s v) | _ \<Rightarrow> None)"
  define rb where "rb = (case ?but of Some (ButtonState b) \<Rightarrow> Some (EyeTrackerBlinkReport s b) | _ \<Rightarrow> None)"
  have eye: "eye_report r3" "eye_report r2" "eye_report rb"
    by (auto simp: eye_report_def r3_def r2_def rb_def split: option.splits ReportState.splits)
  let ?w1 = "eye_step ifaces t r3 ?w" let ?w2 = "eye_step ifaces t r2 ?w1"
  have typed: "\<forall>i. iface_typed (fst ?w i)" "\<forall>i. iface_typed (fst ?w1 i)" "\<forall>i. iface_typed (fst ?w2 i)"
    using assms(2) eye_step_keeps(1) [OF assms(1) _ eye(1), of ?w t] eye_step_keeps(1) [OF assms(1) _ eye(2), of ?w1 t] by simp_all
  have s1: "m_handleEyeTracking3d junk opts ifaces \<lparr>en_sensor = s\<rparr> t ?w = Some ?w1"
    using assms(3) state_if_typed [OF assms(2), of "reportDirection opts" T_Direction "dirIface opts"]
      state_if_typed [OF assms(2), of "reportBasePoint opts" T_Position "trackerIface opts"]
    by (auto simp: m_handleEyeTracking3d_def read_state_if eye_pointers_def eye_step_def r3_def vec3_or_def Let_def
        dest!: state_cases split: option.split)
  have l: "state_if (reportLocation2D opts) T_Location2D (locationIface opts) (fst ?w1) = ?loc"
    using eye_step_keeps(2) [OF assms(1) typed(1) eye(1), of T_Location2D] by simp
  have s2: "m_handleEyeTracking2d opts ifaces \<lparr>en_sensor = s\<rparr> t ?w1 = Some ?w2"
    using assms(3) l by (simp add: eye_2d eye_pointers_def r2_def)
  have b: "state_if (reportBlink opts) T_Button (buttonIface opts) (fst ?w2) = ?but"
    using eye_step_keeps(2) [OF assms(1) typed(1) eye(1), of T_Button]
      eye_step_keeps(2) [OF assms(1) typed(2) eye(2), of T_Button] by simp
  have s3: "m_handleEyeBlink opts ifaces \<lparr>en_sensor = s\<rparr> t ?w2 = Some (eye_step ifaces t rb ?w2)"
    using assms(3) b by (simp add: eye_blink eye_pointers_def rb_def)
  have "eye_reports junk opts store s t =
      map (Pair t) (concat (map (\<lambda>r. case r of None \<Rightarrow> [] | Some x \<Rightarrow> [x]) [r3, r2, rb]))"
    by (simp add: eye_reports_def Let_def r3_def r2_def rb_def split: option.split ReportState.split)
  then have "deliver_all ifaces (eye_reports junk opts store s t) ?w = fold (eye_step ifaces t) [r3, r2, rb] ?w"
    by (simp only: eye_deliver)
  with True s1 s2 s3 show ?thesis by (simp add: m_handleEyeTracking_def filtered_create)
qed


definition demo_eye_store :: "string iface_store" where
  "demo_eye_store = (\<lambda>i. if i = 1
     then iface_setState \<lparr>seconds = 4, microseconds = 0\<rparr> (ButtonReport 0 1) (ClientInterface_create ''/b'')
     else registerCallback T_EyeTrackerBlink ''cb'' (ClientInterface_create ''/e''))"

theorem eye_reports_current_states_witness:
  "\<forall>junk. m_handleEyeTracking junk (filter_create (Some 3)) (EyeOptions_create\<lparr>reportBlink := True, buttonIface := Some 1\<rparr>)
     [0] \<lparr>en_sensor = 3\<rparr> \<lparr>seconds = 5, microseconds = 0\<rparr> (demo_eye_store, []) =
   Some (deliver_all [0] [(\<lparr>seconds = 5, microseconds = 0\<rparr>, EyeTrackerBlinkReport 3 1)] (demo_eye_store, []))"
proof
  fix junk
  let ?opts = "EyeOptions_create\<lparr>reportBlink := True, buttonIface := Some 1\<rparr>"
  have typed: "\<forall>i. iface_typed (demo_eye_store i)"
    by (simp add: demo_eye_store_def iface_typed_setState iface_typed_register iface_typed_create)
  have "iface_getState T_Button (demo_eye_store 1) = Some (\<lparr>seconds = 4, microseconds = 0\<rparr>, ButtonState 1)"
    by (simp add: demo_eye_store_def) code_simp
  then have "eye_reports junk ?opts demo_eye_store 3 \<lparr>seconds = 5, microseconds = 0\<rparr> =
      [(\<lparr>seconds = 5, microseconds = 0\<rparr>, EyeTrackerBlinkReport 3 1)]"
    by (simp add: eye_reports_def state_if_def EyeOptions_create_def)
  moreover have "eye_pointers ?opts" by (simp add: eye_pointers_def EyeOptions_create_def)
  ultimately show "m_handleEyeTracking junk (filter_create (Some 3)) ?opts [0] \<lparr>en_sensor = 3\<rparr>
      \<lparr>seconds = 5, microseconds = 0\<rparr> (demo_eye_store, []) =
    Some (deliver_all [0] [(\<lparr>seconds = 5, microseconds = 0\<rparr>, EyeTrackerBlinkReport 3 1)] (demo_eye_store, []))"
    using eye_reports_current_states [of "[0]" demo_eye_store ?opts junk "Some 3" 3 "\<lparr>seconds = 5, microseconds = 0\<rparr>" "[]"] typed
    by (simp add: matches_def)
qed

end
