(* ===== verification/Tracker_Handler.thy ===== *)
theory Tracker_Handler
  imports Json_Value Device_Components Interface_State
begin

text \<open>
  Trackers on the client: what a tracker's sensor reports according to its device descriptor
  (\<^verbatim>\<open>inc/osvr/Common/TrackerSensorInfo.h\<close>) and the handler that turns VRPN's pose, velocity
  and acceleration messages into reports (\<^verbatim>\<open>src/osvr/Client/TrackerRemoteFactory.cpp\<close>).

  The spatial transform current for a message is a matrix product of Eigen's: its actions on a
  pose and on a vector are parameters. \<open>None\<close> is the undefined overflow of a time conversion.
\<close>

subsection \<open>What a sensor reports\<close>

record TrackerSensorInfo =
  reportsPosition :: bool
  reportsOrientation :: bool
  reportsLinearVelocity :: bool
  reportsAngularVelocity :: bool
  reportsLinearAcceleration :: bool
  reportsAngularAcceleration :: bool

definition TrackerSensorInfo_create :: TrackerSensorInfo where
  "TrackerSensorInfo_create = \<lparr>reportsPosition = True, reportsOrientation = True, reportsLinearVelocity = False,
     reportsAngularVelocity = False, reportsLinearAcceleration = False, reportsAngularAcceleration = False\<rparr>"

text \<open>The const subscript with an \<^verbatim>\<open>int\<close>.\<close>

fun json_index :: "json \<Rightarrow> int \<Rightarrow> (exn, json) result" where
  "json_index v i =
     (if i < 0 then Inl (RuntimeError ''in Json::Value::operator[](int index) const: index cannot be negative'')
      else (case v of
              JNull \<Rightarrow> Inr JNull
            | JArray xs \<Rightarrow> Inr (if nat i < length xs then xs ! nat i else JNull)
            | _ \<Rightarrow> Inl (RuntimeError ''in Json::Value::operator[](ArrayIndex)const: requires arrayValue'')))"

definition getBool :: "json \<Rightarrow> string \<Rightarrow> bool \<Rightarrow> (exn, bool) result" where
  "getBool v key val = result_bind (json_get v key (JBool val)) asBool"

definition setupFromJson :: "TrackerSensorInfo \<Rightarrow> json \<Rightarrow> (exn, TrackerSensorInfo) result" where
  "setupFromJson info v =
     (if isNull_json v then Inr info
      else
        result_bind (getBool v ''position'' (reportsPosition info)) (\<lambda>p.
        result_bind (getBool v ''orientation'' (reportsOrientation info)) (\<lambda>ori.
        result_bind (getBool v ''linearVelocity'' (reportsLinearVelocity info)) (\<lambda>lv.
        result_bind (getBool v ''angularVelocity'' (reportsAngularVelocity info)) (\<lambda>av.
        result_bind (getBool v ''linearAcceleration'' (reportsLinearAcceleration info)) (\<lambda>la.
        result_bind (getBool v ''angularAcceleration'' (reportsAngularAcceleration info)) (\<lambda>aa.
          Inr \<lparr>reportsPosition = p, reportsOrientation = ori, reportsLinearVelocity = lv,
               reportsAngularVelocity = av, reportsLinearAcceleration = la, reportsAngularAcceleration = aa\<rparr>)))))))"

definition getTrackerSensorInfo :: "json \<Rightarrow> int option \<Rightarrow> (exn, TrackerSensorInfo) result" where
  "getTrackerSensorInfo descriptor sensor =
     result_bind (result_bind (json_at descriptor ''interfaces'') (\<lambda>i. json_at i ''tracker'')) (\<lambda>devDescriptor.
     result_bind (setupFromJson TrackerSensorInfo_create devDescriptor) (\<lambda>ret.
       (case sensor of
          None \<Rightarrow> Inr ret
        | Some s \<Rightarrow>
            result_bind (result_bind (json_at devDescriptor ''traits'') (\<lambda>t. json_index t s)) (setupFromJson ret))))"

subsection \<open>The handler\<close>

record TrackerOptions =
  reportPose :: bool
  reportPosition :: bool
  reportOrientation :: bool

text \<open>VRPN's messages, with the components of vectors and quaternions in quatlib's order x, y, z, w.\<close>

type_synonym q_vec_type = "u64 \<times> u64 \<times> u64"
type_synonym q_type = "u64 \<times> u64 \<times> u64 \<times> u64"

record vrpn_TRACKERCB =
  tr_msg_time :: "int \<times> int"
  tr_sensor :: int
  tr_pos :: q_vec_type
  tr_quat :: q_type

record vrpn_TRACKERVELCB =
  tv_msg_time :: "int \<times> int"
  tv_sensor :: int
  tv_vel :: q_vec_type
  tv_vel_quat :: q_type
  tv_vel_quat_dt :: u64

record vrpn_TRACKERACCCB =
  ta_msg_time :: "int \<times> int"
  ta_sensor :: int
  ta_acc :: q_vec_type
  ta_acc_quat :: q_type
  ta_acc_quat_dt :: u64

definition osvrQuatFromQuatlib :: "q_type \<Rightarrow> OSVR_Quaternion" where
  "osvrQuatFromQuatlib src =
     (case src of (x, y, z, w) \<Rightarrow> \<lparr>quat_0 = w, quat_1 = x, quat_2 = y, quat_3 = z\<rparr>)"

definition osvrVec3FromQuatlib :: "q_vec_type \<Rightarrow> OSVR_Vec3" where
  "osvrVec3FromQuatlib src = (case src of (x, y, z) \<Rightarrow> \<lparr>vec3_0 = x, vec3_1 = y, vec3_2 = z\<rparr>)"

text \<open>The current transform; applied to a quaternion of a velocity or acceleration it is the identity.\<close>

record Transform =
  transform_pose :: "OSVR_Pose3 \<Rightarrow> OSVR_Pose3"
  transformLinear :: "OSVR_Vec3 \<Rightarrow> OSVR_Vec3"

definition transformLinear_quat :: "Transform \<Rightarrow> OSVR_Quaternion \<Rightarrow> OSVR_Quaternion" where
  "transformLinear_quat xform q = q"

datatype tracker_kind = K_Pose | K_Velocity | K_Acceleration

text \<open>A handler registers with VRPN for the kinds of messages that its sensor sends; \<^verbatim>\<open>-1\<close> is every sensor.\<close>

record VRPNTrackerHandler =
  th_opts :: TrackerOptions
  th_info :: TrackerSensorInfo
  th_sensor :: "int option"
  th_registered :: "(tracker_kind \<times> int) list"

definition get_value_or :: "'a \<Rightarrow> 'a option \<Rightarrow> 'a" where
  "get_value_or d v = (case v of None \<Rightarrow> d | Some x \<Rightarrow> x)"

definition TrackerHandler_create :: "TrackerOptions \<Rightarrow> TrackerSensorInfo \<Rightarrow> int option \<Rightarrow> VRPNTrackerHandler" where
  "TrackerHandler_create options info sensor =
     \<lparr>th_opts = options, th_info = info, th_sensor = sensor,
      th_registered =
        (if reportsPosition info \<or> reportsOrientation info then [(K_Pose, get_value_or (- 1) sensor)] else []) @
        (if reportsLinearVelocity info \<or> reportsAngularVelocity info
         then [(K_Velocity, get_value_or (- 1) sensor)] else []) @
        (if reportsLinearAcceleration info \<or> reportsAngularAcceleration info
         then [(K_Acceleration, get_value_or (- 1) sensor)] else [])\<rparr>"

definition TrackerHandler_destroy :: "VRPNTrackerHandler \<Rightarrow> VRPNTrackerHandler" where
  "TrackerHandler_destroy h =
     (let info = th_info h; sensor = get_value_or (- 1) (th_sensor h);
          r1 = (if reportsPosition info \<or> reportsOrientation info
                then remove1 (K_Pose, sensor) (th_registered h) else th_registered h);
          r2 = (if reportsLinearVelocity info \<or> reportsAngularVelocity info then remove1 (K_Velocity, sensor) r1 else r1);
          r3 = (if reportsLinearAcceleration info \<or> reportsAngularAcceleration info
                then remove1 (K_Acceleration, sensor) r2 else r2)
      in h\<lparr>th_registered := r3\<rparr>)"

definition tracker_factory :: "json \<Rightarrow> int option \<Rightarrow> (exn, VRPNTrackerHandler) result" where
  "tracker_factory descriptor sensor =
     result_bind (getTrackerSensorInfo descriptor sensor) (\<lambda>info.
       Inr (TrackerHandler_create
              \<lparr>reportPose = reportsPosition info \<or> reportsOrientation info,
               reportPosition = reportsPosition info, reportOrientation = reportsOrientation info\<rparr> info sensor))"


definition tracker_m_handle :: "Transform \<Rightarrow> vrpn_TRACKERCB \<Rightarrow> VRPNTrackerHandler \<Rightarrow> report_list option" where
  "tracker_m_handle xform info h =
     do { timestamp \<leftarrow> fromStructTimeval (tr_msg_time info);
          let sensor = word_of_int (tr_sensor info);
              pose = transform_pose xform
                \<lparr>translation = osvrVec3FromQuatlib (tr_pos info), rotation = osvrQuatFromQuatlib (tr_quat info)\<rparr>;
              opts = th_opts h
          in Some ((if reportPose opts then [(timestamp, PoseReport sensor pose)] else []) @
                   (if reportPosition opts then [(timestamp, PositionReport sensor (translation pose))] else []) @
                   (if reportOrientation opts then [(timestamp, OrientationReport sensor (rotation pose))] else [])) }"

text \<open>Fields of the overall report that are not assigned keep what was there: a parameter.\<close>

definition tracker_m_handle_vel ::
    "OSVR_VelocityState \<Rightarrow> Transform \<Rightarrow> vrpn_TRACKERVELCB \<Rightarrow> VRPNTrackerHandler \<Rightarrow> report_list option" where
  "tracker_m_handle_vel uninitialised xform info h =
     do { timestamp \<leftarrow> fromStructTimeval (tv_msg_time info);
          let sensor = word_of_int (tv_sensor info); overall = uninitialised;
              overall = overall\<lparr>linearVelocityValid := reportsLinearVelocity (th_info h)\<rparr>;
              vel = transformLinear xform (osvrVec3FromQuatlib (tv_vel info));
              (overall, rs) = (if reportsLinearVelocity (th_info h)
                 then (overall\<lparr>linearVelocity := vel\<rparr>, [(timestamp, LinearVelocityReport sensor vel)])
                 else (overall, []));
              overall = overall\<lparr>angularVelocityValid := reportsAngularVelocity (th_info h)\<rparr>;
              state = \<lparr>incrementalRotation = transformLinear_quat xform (osvrQuatFromQuatlib (tv_vel_quat info)),
                       iq_dt = tv_vel_quat_dt info\<rparr>;
              (overall, rs) = (if reportsAngularVelocity (th_info h)
                 then (overall\<lparr>angularVelocity := state\<rparr>, rs @ [(timestamp, AngularVelocityReport sensor state)])
                 else (overall, rs))
          in Some (rs @ [(timestamp, VelocityReport sensor overall)]) }"

definition tracker_m_handle_accel ::
    "OSVR_AccelerationState \<Rightarrow> Transform \<Rightarrow> vrpn_TRACKERACCCB \<Rightarrow> VRPNTrackerHandler \<Rightarrow> report_list option" where
  "tracker_m_handle_accel uninitialised xform info h =
     do { timestamp \<leftarrow> fromStructTimeval (ta_msg_time info);
          let sensor = word_of_int (ta_sensor info); overall = uninitialised;
              overall = overall\<lparr>linearAccelerationValid := reportsLinearAcceleration (th_info h)\<rparr>;
              accel = transformLinear xform (osvrVec3FromQuatlib (ta_acc info));
              (overall, rs) = (if reportsLinearAcceleration (th_info h)
                 then (overall\<lparr>linearAcceleration := accel\<rparr>, [(timestamp, LinearAccelerationReport sensor accel)])
                 else (overall, []));
              overall = overall\<lparr>angularAccelerationValid := reportsAngularAcceleration (th_info h)\<rparr>;
              state = \<lparr>incrementalRotation = transformLinear_quat xform (osvrQuatFromQuatlib (ta_acc_quat info)),
                       iq_dt = ta_acc_quat_dt info\<rparr>;
              (overall, rs) = (if reportsAngularAcceleration (th_info h)
                 then (overall\<lparr>angularAcceleration := state\<rparr>, rs @ [(timestamp, AngularAccelerationReport sensor state)])
                 else (overall, rs))
          in Some (rs @ [(timestamp, AccelerationReport sensor overall)]) }"

datatype tracker_message = TrackerPose vrpn_TRACKERCB | TrackerVelocity vrpn_TRACKERVELCB | TrackerAcceleration vrpn_TRACKERACCCB

fun message_kind :: "tracker_message \<Rightarrow> tracker_kind" where
  "message_kind (TrackerPose m) = K_Pose"
| "message_kind (TrackerVelocity m) = K_Velocity"
| "message_kind (TrackerAcceleration m) = K_Acceleration"

fun message_time :: "tracker_message \<Rightarrow> int \<times> int" where
  "message_time (TrackerPose m) = tr_msg_time m"
| "message_time (TrackerVelocity m) = tv_msg_time m"
| "message_time (TrackerAcceleration m) = ta_msg_time m"

fun tracker_handle ::
    "OSVR_VelocityState \<times> OSVR_AccelerationState \<Rightarrow> Transform \<Rightarrow> tracker_message \<Rightarrow> VRPNTrackerHandler \<Rightarrow> report_list option" where
  "tracker_handle junk xform (TrackerPose m) h = tracker_m_handle xform m h"
| "tracker_handle junk xform (TrackerVelocity m) h = tracker_m_handle_vel (fst junk) xform m h"
| "tracker_handle junk xform (TrackerAcceleration m) h = tracker_m_handle_accel (snd junk) xform m h"

subsection \<open>The reports follow the descriptor\<close>

text \<open>A member that need not be there, and a flag with its default.\<close>

fun member_of :: "json \<Rightarrow> string \<Rightarrow> json" where
  "member_of (JObject ms) k = (case map_of ms k of None \<Rightarrow> JNull | Some v \<Rightarrow> v)"
| "member_of _ k = JNull"

fun flag_of :: "json \<Rightarrow> string \<Rightarrow> bool \<Rightarrow> bool" where
  "flag_of (JObject ms) k d = (case map_of ms k of Some (JBool b) \<Rightarrow> b | _ \<Rightarrow> d)"
| "flag_of _ k d = d"

definition object_or_null :: "json \<Rightarrow> bool" where
  "object_or_null v \<longleftrightarrow> v = JNull \<or> isObject v"

definition tracker_flags :: "string list" where
  "tracker_flags = [''position'', ''orientation'', ''linearVelocity'', ''angularVelocity'',
     ''linearAcceleration'', ''angularAcceleration'']"

definition flags_ok :: "json \<Rightarrow> bool" where
  "flags_ok v \<longleftrightarrow> object_or_null v \<and> (\<forall>k\<in>set tracker_flags. member_of v k = JNull \<and> \<not> (\<exists>ms. v = JObject ms \<and> map_of ms k \<noteq> None) \<or>
     (\<exists>b. member_of v k = JBool b))"

definition device_tracker :: "json \<Rightarrow> json" where
  "device_tracker descriptor = member_of (member_of descriptor ''interfaces'') ''tracker''"

definition sensor_traits :: "json \<Rightarrow> int option \<Rightarrow> json" where
  "sensor_traits descriptor sensor =
     (case (member_of (device_tracker descriptor) ''traits'', sensor) of
        (JArray xs, Some s) \<Rightarrow> if 0 \<le> s \<and> nat s < length xs then xs ! nat s else JNull
      | _ \<Rightarrow> JNull)"

text \<open>What the schema says of a flag: the sensor's traits override the device, which overrides the default.\<close>

definition sensor_flag :: "json \<Rightarrow> int option \<Rightarrow> string \<Rightarrow> bool \<Rightarrow> bool" where
  "sensor_flag descriptor sensor k d =
     flag_of (sensor_traits descriptor sensor) k (flag_of (device_tracker descriptor) k d)"

definition tracker_descriptor_ok :: "json \<Rightarrow> int option \<Rightarrow> bool" where
  "tracker_descriptor_ok descriptor sensor \<longleftrightarrow>
     object_or_null descriptor \<and> object_or_null (member_of descriptor ''interfaces'') \<and>
     flags_ok (device_tracker descriptor) \<and> flags_ok (sensor_traits descriptor sensor) \<and>
     (sensor \<noteq> None \<longrightarrow> 0 \<le> the sensor \<and>
        (member_of (device_tracker descriptor) ''traits'' = JNull \<or> isArray (member_of (device_tracker descriptor) ''traits'')))"

lemma json_at_member_of: "object_or_null v \<Longrightarrow> json_at v k = Inr (member_of v k)"
  by (cases v) (auto simp: object_or_null_def split: option.split)

lemma getBool_flag:
  assumes "flags_ok v" and "k \<in> set tracker_flags"
  shows "getBool v k d = Inr (flag_of v k d)"
proof (cases v)
  case (JObject ms)
  with assms show ?thesis
    by (auto simp: flags_ok_def getBool_def split: option.splits dest!: bspec [of _ _ k])
qed (use assms in \<open>auto simp: flags_ok_def object_or_null_def getBool_def\<close>)

lemma setupFromJson_flags:
  assumes "flags_ok v"
  shows "setupFromJson info v = Inr
    \<lparr>reportsPosition = flag_of v ''position'' (reportsPosition info),
     reportsOrientation = flag_of v ''orientation'' (reportsOrientation info),
     reportsLinearVelocity = flag_of v ''linearVelocity'' (reportsLinearVelocity info),
     reportsAngularVelocity = flag_of v ''angularVelocity'' (reportsAngularVelocity info),
     reportsLinearAcceleration = flag_of v ''linearAcceleration'' (reportsLinearAcceleration info),
     reportsAngularAcceleration = flag_of v ''angularAcceleration'' (reportsAngularAcceleration info)\<rparr>"
proof (cases "v = JNull")
  case True
  then show ?thesis by (simp add: setupFromJson_def isNull_json_def)
next
  case False
  have "getBool v k d = Inr (flag_of v k d)" if "k \<in> set tracker_flags" for k d
    using getBool_flag [OF assms that] .
  then show ?thesis using False by (simp add: setupFromJson_def isNull_json_def tracker_flags_def)
qed


definition sensor_info :: "json \<Rightarrow> int option \<Rightarrow> TrackerSensorInfo" where
  "sensor_info descriptor sensor =
     \<lparr>reportsPosition = sensor_flag descriptor sensor ''position'' True,
      reportsOrientation = sensor_flag descriptor sensor ''orientation'' True,
      reportsLinearVelocity = sensor_flag descriptor sensor ''linearVelocity'' False,
      reportsAngularVelocity = sensor_flag descriptor sensor ''angularVelocity'' False,
      reportsLinearAcceleration = sensor_flag descriptor sensor ''linearAcceleration'' False,
      reportsAngularAcceleration = sensor_flag descriptor sensor ''angularAcceleration'' False\<rparr>"

lemma getTrackerSensorInfo_flags:
  assumes "tracker_descriptor_ok descriptor sensor"
  shows "getTrackerSensorInfo descriptor sensor = Inr (sensor_info descriptor sensor)"
proof -
  from assms have d: "result_bind (json_at descriptor ''interfaces'') (\<lambda>i. json_at i ''tracker'') = Inr (device_tracker descriptor)"
    by (simp add: tracker_descriptor_ok_def json_at_member_of device_tracker_def)
  from assms have ok: "flags_ok (device_tracker descriptor)" "flags_ok (sensor_traits descriptor sensor)"
    by (simp_all add: tracker_descriptor_ok_def)
  then have obj: "object_or_null (device_tracker descriptor)" by (simp add: flags_ok_def)
  show ?thesis
  proof (cases sensor)
    case None
    then have "sensor_traits descriptor sensor = JNull" by (simp add: sensor_traits_def split: json.split)
    with None show ?thesis unfolding getTrackerSensorInfo_def d
      by (simp add: setupFromJson_flags [OF ok(1)] sensor_info_def sensor_flag_def TrackerSensorInfo_create_def)
  next
    case (Some s)
    let ?traits = "member_of (device_tracker descriptor) ''traits''"
    from assms Some have s: "0 \<le> s" "?traits = JNull \<or> isArray ?traits" by (auto simp: tracker_descriptor_ok_def)
    have "json_index ?traits s = Inr (sensor_traits descriptor sensor)"
      using s Some by (cases ?traits) (auto simp: sensor_traits_def)
    with Some show ?thesis unfolding getTrackerSensorInfo_def d
      by (simp add: json_at_member_of [OF obj] setupFromJson_flags [OF ok(1)] setupFromJson_flags [OF ok(2) [unfolded Some]]
          sensor_info_def sensor_flag_def TrackerSensorInfo_create_def)
  qed
qed

text \<open>The reports of a message from a sensor with the given properties.\<close>

fun tracker_reports ::
    "OSVR_VelocityState \<times> OSVR_AccelerationState \<Rightarrow> Transform \<Rightarrow> TrackerSensorInfo \<Rightarrow> tracker_message \<Rightarrow> Report list" where
  "tracker_reports junk xform info (TrackerPose m) =
     (let s = word_of_int (tr_sensor m);
          p = transform_pose xform \<lparr>translation = osvrVec3FromQuatlib (tr_pos m), rotation = osvrQuatFromQuatlib (tr_quat m)\<rparr>
      in [PoseReport s p. reportsPosition info \<or> reportsOrientation info] @
         [PositionReport s (translation p). reportsPosition info] @
         [OrientationReport s (rotation p). reportsOrientation info])"
| "tracker_reports junk xform info (TrackerVelocity m) =
     (let s = word_of_int (tv_sensor m); v = transformLinear xform (osvrVec3FromQuatlib (tv_vel m));
          q = \<lparr>incrementalRotation = osvrQuatFromQuatlib (tv_vel_quat m), iq_dt = tv_vel_quat_dt m\<rparr>
      in [LinearVelocityReport s v. reportsLinearVelocity info] @
         [AngularVelocityReport s q. reportsAngularVelocity info] @
         [VelocityReport s
            \<lparr>linearVelocity = (if reportsLinearVelocity info then v else linearVelocity (fst junk)),
             linearVelocityValid = reportsLinearVelocity info,
             angularVelocity = (if reportsAngularVelocity info then q else angularVelocity (fst junk)),
             angularVelocityValid = reportsAngularVelocity info\<rparr>])"
| "tracker_reports junk xform info (TrackerAcceleration m) =
     (let s = word_of_int (ta_sensor m); v = transformLinear xform (osvrVec3FromQuatlib (ta_acc m));
          q = \<lparr>incrementalRotation = osvrQuatFromQuatlib (ta_acc_quat m), iq_dt = ta_acc_quat_dt m\<rparr>
      in [LinearAccelerationReport s v. reportsLinearAcceleration info] @
         [AngularAccelerationReport s q. reportsAngularAcceleration info] @
         [AccelerationReport s
            \<lparr>linearAcceleration = (if reportsLinearAcceleration info then v else linearAcceleration (snd junk)),
             linearAccelerationValid = reportsLinearAcceleration info,
             angularAcceleration = (if reportsAngularAcceleration info then q else angularAcceleration (snd junk)),
             angularAccelerationValid = reportsAngularAcceleration info\<rparr>])"

text \<open>Which kinds of messages a sensor with the given properties is listened to for.\<close>

fun listens :: "TrackerSensorInfo \<Rightarrow> tracker_kind \<Rightarrow> bool" where
  "listens info K_Pose = (reportsPosition info \<or> reportsOrientation info)"
| "listens info K_Velocity = (reportsLinearVelocity info \<or> reportsAngularVelocity info)"
| "listens info K_Acceleration = (reportsLinearAcceleration info \<or> reportsAngularAcceleration info)"

lemma tracker_handle_reports:
  assumes "fromStructTimeval (message_time m) = Some t"
    and "th_info h = info" and "th_opts h = \<lparr>reportPose = reportsPosition info \<or> reportsOrientation info,
      reportPosition = reportsPosition info, reportOrientation = reportsOrientation info\<rparr>"
  shows "tracker_handle junk xform m h = Some (map (Pair t) (tracker_reports junk xform info m))"
  using assms
  by (cases m) (simp_all add: tracker_m_handle_def tracker_m_handle_vel_def tracker_m_handle_accel_def Let_def
      transformLinear_quat_def)

text \<open>
  C28: A client's tracker handler reports what the descriptor of the device says of its sensor:
  every property is that of the sensor's traits, else that of the device, else the
  schema's default. The handler listens, for its sensor (or all), to exactly the kinds of
  messages that carry a property the sensor has, and stops listening to all of them when it is
  destroyed. A pose message becomes a pose report and a position and an orientation report
  with the parts of that same pose; a velocity or acceleration message becomes the
  linear and the angular report and the overall report that marks each part valid exactly when
  it was reported; vectors are transformed, quaternions reordered from x, y, z, w to w, x, y, z.
\<close>

theorem tracker_reports_follow_descriptor:
  assumes "tracker_descriptor_ok descriptor sensor" and "fromStructTimeval (message_time m) = Some t"
  shows "\<exists>h. tracker_factory descriptor sensor = Inr h \<and>
    (\<forall>k s. (k, s) \<in> set (th_registered h) \<longleftrightarrow>
       listens (sensor_info descriptor sensor) k \<and> s = (case sensor of None \<Rightarrow> - 1 | Some i \<Rightarrow> i)) \<and>
    th_registered (TrackerHandler_destroy h) = [] \<and>
    tracker_handle junk xform m h =
      Some (map (Pair t) (tracker_reports junk xform (sensor_info descriptor sensor) m))"
proof -
  let ?info = "sensor_info descriptor sensor"
  let ?h = "TrackerHandler_create \<lparr>reportPose = reportsPosition ?info \<or> reportsOrientation ?info,
    reportPosition = reportsPosition ?info, reportOrientation = reportsOrientation ?info\<rparr> ?info sensor"
  have "tracker_factory descriptor sensor = Inr ?h"
    by (simp add: tracker_factory_def getTrackerSensorInfo_flags [OF assms(1)])
  moreover have "(k, s) \<in> set (th_registered ?h) \<longleftrightarrow>
      listens ?info k \<and> s = (case sensor of None \<Rightarrow> - 1 | Some i \<Rightarrow> i)" for k s
    by (cases k) (auto simp: TrackerHandler_create_def get_value_or_def)
  moreover have "th_registered (TrackerHandler_destroy ?h) = []"
    by (simp add: TrackerHandler_destroy_def TrackerHandler_create_def Let_def)
  moreover have "tracker_handle junk xform m ?h = Some (map (Pair t) (tracker_reports junk xform ?info m))"
    by (rule tracker_handle_reports [OF assms(2)]) (simp_all add: TrackerHandler_create_def)
  ultimately show ?thesis by blast
qed


definition demo_tracker :: json where
  "demo_tracker = JObject [(''interfaces'', JObject [(''tracker'', JObject
     [(''linearVelocity'', JBool True), (''position'', JBool False),
      (''traits'', JArray [JObject [], JObject [(''linearVelocity'', JBool False)]])])])]"

lemma demo_tracker_facts:
  "tracker_descriptor_ok demo_tracker (Some 0)"
  "sensor_info demo_tracker (Some 0) = TrackerSensorInfo_create\<lparr>reportsPosition := False, reportsLinearVelocity := True\<rparr>"
  "fromStructTimeval (5, 7) = Some \<lparr>seconds = 5, microseconds = 7\<rparr>"
proof -
  have "(\<exists>b. \<not> b) \<and> (\<exists>b :: bool. b)" by blast
  then show "tracker_descriptor_ok demo_tracker (Some 0)"
    by (simp add: tracker_descriptor_ok_def object_or_null_def demo_tracker_def device_tracker_def flags_ok_def
        tracker_flags_def sensor_traits_def)
  show "sensor_info demo_tracker (Some 0) = TrackerSensorInfo_create\<lparr>reportsPosition := False, reportsLinearVelocity := True\<rparr>"
    by (simp add: sensor_info_def sensor_flag_def demo_tracker_def device_tracker_def sensor_traits_def TrackerSensorInfo_create_def)
  show "fromStructTimeval (5, 7) = Some \<lparr>seconds = 5, microseconds = 7\<rparr>" by code_simp
qed

theorem tracker_reports_follow_descriptor_witness:
  "\<forall>junk. \<exists>h. tracker_factory demo_tracker (Some 0) = Inr h \<and> (K_Velocity, 0) \<in> set (th_registered h) \<and>
     tracker_handle junk \<lparr>transform_pose = (\<lambda>p. p), transformLinear = (\<lambda>v. v)\<rparr>
       (TrackerPose \<lparr>tr_msg_time = (5, 7), tr_sensor = 0, tr_pos = (1, 2, 3), tr_quat = (4, 5, 6, 9)\<rparr>) h =
     Some [(\<lparr>seconds = 5, microseconds = 7\<rparr>, PoseReport 0
              \<lparr>translation = \<lparr>vec3_0 = 1, vec3_1 = 2, vec3_2 = 3\<rparr>, rotation = \<lparr>quat_0 = 9, quat_1 = 4, quat_2 = 5, quat_3 = 6\<rparr>\<rparr>),
           (\<lparr>seconds = 5, microseconds = 7\<rparr>, OrientationReport 0 \<lparr>quat_0 = 9, quat_1 = 4, quat_2 = 5, quat_3 = 6\<rparr>)]"
proof
  fix junk
  let ?m = "TrackerPose \<lparr>tr_msg_time = (5, 7), tr_sensor = 0, tr_pos = (1, 2, 3), tr_quat = (4, 5, 6, 9)\<rparr>"
  have "fromStructTimeval (message_time ?m) = Some \<lparr>seconds = 5, microseconds = 7\<rparr>"
    using demo_tracker_facts(3) by simp
  from tracker_reports_follow_descriptor [OF demo_tracker_facts(1) this,
      of junk "\<lparr>transform_pose = (\<lambda>p. p), transformLinear = (\<lambda>v. v)\<rparr>"]
  obtain h where h: "tracker_factory demo_tracker (Some 0) = Inr h"
    "\<forall>k s. (k, s) \<in> set (th_registered h) \<longleftrightarrow> listens (sensor_info demo_tracker (Some 0)) k \<and> s = 0"
    "tracker_handle junk \<lparr>transform_pose = (\<lambda>p. p), transformLinear = (\<lambda>v. v)\<rparr> ?m h =
      Some (map (Pair \<lparr>seconds = 5, microseconds = 7\<rparr>)
        (tracker_reports junk \<lparr>transform_pose = (\<lambda>p. p), transformLinear = (\<lambda>v. v)\<rparr> (sensor_info demo_tracker (Some 0)) ?m))"
    by auto
  then show "\<exists>h. tracker_factory demo_tracker (Some 0) = Inr h \<and> (K_Velocity, 0) \<in> set (th_registered h) \<and>
     tracker_handle junk \<lparr>transform_pose = (\<lambda>p. p), transformLinear = (\<lambda>v. v)\<rparr> ?m h =
     Some [(\<lparr>seconds = 5, microseconds = 7\<rparr>, PoseReport 0
              \<lparr>translation = \<lparr>vec3_0 = 1, vec3_1 = 2, vec3_2 = 3\<rparr>, rotation = \<lparr>quat_0 = 9, quat_1 = 4, quat_2 = 5, quat_3 = 6\<rparr>\<rparr>),
           (\<lparr>seconds = 5, microseconds = 7\<rparr>, OrientationReport 0 \<lparr>quat_0 = 9, quat_1 = 4, quat_2 = 5, quat_3 = 6\<rparr>)]"
    by (intro exI [of _ h]) (simp add: demo_tracker_facts(2) TrackerSensorInfo_create_def osvrVec3FromQuatlib_def
        osvrQuatFromQuatlib_def Let_def)
qed

end
