(* ===== verification/Change_Flags.thy ===== *)
theory Change_Flags
  imports Device_Descriptor Tree_Sync
begin

text \<open>
  The flags by which operations on the path tree say that they changed it: an operation is
  \<open>honest\<close> if it leaves a well-formed tree in which no node moved and, when it reports no change,
  the same elements at the same paths (it may have created null nodes). Shown for every
  operation of the server on its tree; the runs of the alias processor keep the invariant
  \<open>run_ok\<close> even when an exception is thrown.
\<close>

definition honest :: "PathTree \<Rightarrow> PathTree \<times> (exn, bool) result \<Rightarrow> bool" where
  "honest t out \<longleftrightarrow> wf_tree (fst out) \<and> length t \<le> length (fst out) \<and>
     (snd out = Inr False \<longrightarrow> content (fst out) = content t)"

lemma honestD:
  "honest t (t', r) \<Longrightarrow> wf_tree t'"
  "honest t (t', r) \<Longrightarrow> length t \<le> length t'"
  "honest t (t', Inr False) \<Longrightarrow> content t' = content t"
  by (simp_all add: honest_def)

lemma addAliasImpl_honest:
  assumes "wf_tree t" and "k < length t" and "addAliasImpl t k source prio = (t', b)"
  shows "wf_tree t' \<and> length t' = length t \<and> (\<not> b \<longrightarrow> content t' = content t)"
  using alias_stored [OF assms(1,2), of source prio] assms(3) by (auto simp: same_shape_def)

lemma getNodeByPath_keeps:
  assumes "wf_tree t" and "getNodeByPath t path = (t', r)"
  shows "wf_tree t'" and "content t' = content t" and "length t \<le> length t'" and "r = Inr i \<Longrightarrow> i < length t'"
  using getNodeByPath_spec [OF assms] by (auto split: if_splits sum.splits)

lemma treePathRetrieve_keeps:
  assumes "wf_tree t" and "i < length t" and "treePathRetrieve NullElement t i path False = (t', r)"
  shows "wf_tree t'" and "content t' = content t" and "length t \<le> length t'" and "r = Inr k \<Longrightarrow> k < length t'"
  using treePathRetrieve_spec [OF assms] by (auto simp: grows_def split: sum.splits)

lemma getAbsolutePath_keeps:
  assumes "wf_tree t" and "i < length t" and "getAbsolutePath t i path = (t', r)"
  shows "wf_tree t' \<and> content t' = content t \<and> length t \<le> length t'"
proof (cases "isPathAbsolute path")
  case True
  with assms show ?thesis by (simp add: getAbsolutePath_def)
next
  case False
  obtain u q where u: "treePathRetrieve NullElement t i path False = (u, q)" by fastforce
  with False assms(3) have "t' = u" by (auto simp: getAbsolutePath_def split: sum.splits)
  with treePathRetrieve_keeps [OF assms(1,2) u] show ?thesis by simp
qed

lemma addAlias_honest:
  assumes "wf_tree t" and "i < length t" and "addAlias L t i source prio = (t', r)"
  shows "honest t (t', r)" and "r = Inl e \<Longrightarrow> content t' = content t"
  using assms addAliasImpl_honest [OF assms(1,2)]
  by (auto simp: addAlias_def honest_def split: sum.splits if_splits prod.splits)

text \<open>An alias entry throws before it touches an element.\<close>

lemma addAliasFromSource_honest:
  assumes "wf_tree t" and "i < length t" and "addAliasFromSourceAndRelativeDest L t i source dest prio = (t', r)"
  shows "honest t (t', r) \<and> (\<forall>e. r = Inl e \<longrightarrow> content t' = content t)"
proof -
  obtain t1 r1 where t1: "treePathRetrieve NullElement t i dest False = (t1, r1)" by fastforce
  note k1 = treePathRetrieve_keeps [OF assms(1,2) t1]
  show ?thesis
  proof (cases r1)
    case (Inl e)
    with assms(3) t1 k1 show ?thesis by (auto simp: addAliasFromSourceAndRelativeDest_def honest_def)
  next
    case (Inr k)
    have k: "k < length t1" "i < length t1" using k1(3,4) Inr assms(2) by auto
    show ?thesis
    proof (cases "\<exists>pa leaf. ParsedAlias_string L source = Inr pa \<and> isValid pa \<and> getLeaf L pa = Inr leaf")
      case False
      with assms(3) t1 Inr k1 show ?thesis
        by (auto simp: addAliasFromSourceAndRelativeDest_def honest_def split: sum.splits if_splits)
    next
      case True
      then obtain pa leaf where pa: "ParsedAlias_string L source = Inr pa" "isValid pa" "getLeaf L pa = Inr leaf" by blast
      obtain t2 r2 where t2: "getAbsolutePath t1 i leaf = (t2, r2)" by fastforce
      from getAbsolutePath_keeps [OF k1(1) k(2) t2] have k2: "wf_tree t2" "content t2 = content t" "length t1 \<le> length t2"
        using k1(2) by simp_all
      show ?thesis
      proof (cases r2)
        case (Inl e)
        with assms(3) t1 \<open>r1 = Inr k\<close> pa t2 k1 k2 show ?thesis
          by (auto simp: addAliasFromSourceAndRelativeDest_def honest_def)
      next
        case (Inr abs)
        obtain t3 b where t3: "addAliasImpl t2 k (getAlias L (setLeaf pa abs)) prio = (t3, b)" by fastforce
        have "k < length t2" using k(1) k2(3) by simp
        from addAliasImpl_honest [OF k2(1) this t3] assms(3) t1 \<open>r1 = Inr k\<close> pa t2 Inr t3 k1 k2 show ?thesis
          by (auto simp: addAliasFromSourceAndRelativeDest_def honest_def)
      qed
    qed
  qed
qed

subsection \<open>Runs of the alias processor\<close>

definition run_ok :: "PathTree \<Rightarrow> alias_run \<Rightarrow> bool" where
  "run_ok t run \<longleftrightarrow> wf_tree (ar_tree run) \<and> length t \<le> length (ar_tree run) \<and>
     (\<not> ar_flag run \<longrightarrow> content (ar_tree run) = content t)"

lemma processSingleEntry_ok:
  assumes "run_ok t run" and "i < length (ar_tree run)"
  shows "run_ok t (m_processSingleEntry L i path source prio run) \<and>
    length (ar_tree run) \<le> length (ar_tree (m_processSingleEntry L i path source prio run))"
proof -
  obtain t' r where t': "addAliasFromSourceAndRelativeDest L (ar_tree run) i source path prio = (t', r)" by fastforce
  from assms(1) have w: "wf_tree (ar_tree run)" by (simp add: run_ok_def)
  from addAliasFromSource_honest [OF w assms(2) t'] assms(1) t' show ?thesis
    by (cases r) (auto simp: m_processSingleEntry_def run_ok_def honest_def)
qed

text \<open>
  A traversal whose functor keeps an invariant of the state and never removes nodes: whatever
  it visits are nodes, and if it ends the invariant holds.
\<close>

lemma visitChildren_keeps:
  assumes "visitChildren K f i k s = Some s'" and "I s" and "i < n s"
    and "\<And>j s. I s \<Longrightarrow> j < n s \<Longrightarrow> I (f j s) \<and> n s \<le> n (f j s)"
    and "\<And>j s c. I s \<Longrightarrow> j < n s \<Longrightarrow> c \<in> set (K s j) \<Longrightarrow> c < (n s :: nat)"
  shows "I s' \<and> n s \<le> n s'"
proof -
  have "(\<forall>j s. I s \<longrightarrow> j < n s \<longrightarrow> I (f j s) \<and> n s \<le> n (f j s)) \<longrightarrow>
      (\<forall>j s c. I s \<longrightarrow> j < n s \<longrightarrow> c \<in> set (K s j) \<longrightarrow> c < n s) \<longrightarrow> I s \<longrightarrow> i < n s \<longrightarrow> I s' \<and> n s \<le> n s'"
    using assms(1)
  proof (rule visitChildren.raw_induct [rotated], goal_cases)
    case (1 V K f i k s y)
    show ?case
    proof (intro impI)
      assume f: "\<forall>j s. I s \<longrightarrow> j < n s \<longrightarrow> I (f j s) \<and> n s \<le> n (f j s)"
        and K: "\<forall>j s c. I s \<longrightarrow> j < n s \<longrightarrow> c \<in> set (K s j) \<longrightarrow> c < n s" and I: "I s" "i < n s"
      show "I y \<and> n s \<le> n y"
      proof (cases "k < length (K s i)")
        case False
        with 1(2) I show ?thesis by simp
      next
        case True
        let ?c = "K s i ! k"
        have "?c \<in> set (K s i)" using True by simp
        with I K have cn: "?c < n s" by blast
        with f I have c: "I (f ?c s)" "n s \<le> n (f ?c s)" by auto
        from 1(2) True obtain s1 where s1: "V K f ?c 0 (f ?c s) = Some s1" "V K f i (Suc k) s1 = Some y"
          by (auto simp: bind_eq_Some_conv)
        have "?c < n (f ?c s)" using cn c(2) by simp
        with 1(1) [OF s1(1)] f K c have a: "I s1" "n (f ?c s) \<le> n s1" by blast+
        then have "i < n s1" using I(2) c(2) by simp
        with 1(1) [OF s1(2)] f K a(1) have "I y" "n s1 \<le> n y" by blast+
        with c(2) a(2) show ?thesis by simp
      qed
    qed
  qed
  with assms(2-5) show ?thesis by blast
qed

lemma traverseWith_keeps:
  assumes "traverseWith K f i s = Some s'" and "I s" and "i < n s"
    and "\<And>j s. I s \<Longrightarrow> j < n s \<Longrightarrow> I (f j s) \<and> n s \<le> n (f j s)"
    and "\<And>j s c. I s \<Longrightarrow> j < n s \<Longrightarrow> c \<in> set (K s j) \<Longrightarrow> c < (n s :: nat)"
  shows "I s' \<and> n s \<le> n s'"
proof -
  have s: "I (f i s)" "n s \<le> n (f i s)" using assms(2-4) by blast+
  have "I s' \<and> n (f i s) \<le> n s'"
    by (rule visitChildren_keeps [of K f i 0 "f i s" s' I n, OF _ s(1) _ assms(4,5)])
      (use assms(1,3) s(2) in \<open>simp_all add: traverseWith_def\<close>)
  with s(2) show ?thesis by simp
qed

text \<open>A functor of a wildcard that keeps the runs of the processor.\<close>

definition entry_functor :: "PathTree \<Rightarrow> nat \<Rightarrow> (nat \<Rightarrow> string \<Rightarrow> alias_run \<Rightarrow> alias_run) \<Rightarrow> bool" where
  "entry_functor t m g \<longleftrightarrow> (\<forall>i rel run. run_ok t run \<longrightarrow> m \<le> length (ar_tree run) \<longrightarrow> i < length (ar_tree run) \<longrightarrow>
     run_ok t (g i rel run) \<and> length (ar_tree run) \<le> length (ar_tree (g i rel run)))"

lemma applyWildcard_ok:
  assumes "run_ok t run" and "i < length (ar_tree run)" and "entry_functor t (length (ar_tree run)) g"
    and "applyWildcard i path g run = Some run'"
  shows "run_ok t run' \<and> length (ar_tree run) \<le> length (ar_tree run')"
proof -
  let ?start = "take (length path - length WILDCARD_SUFFIX) path"
  obtain t1 r where t1: "treePathRetrieve NullElement (ar_tree run) i ?start False = (t1, r)" by fastforce
  from assms(1) have w: "wf_tree (ar_tree run)" by (simp add: run_ok_def)
  note k = treePathRetrieve_keeps [OF w assms(2) t1]
  have ok1: "run_ok t (run\<lparr>ar_tree := t1\<rparr>)" "length (ar_tree run) \<le> length t1"
    using assms(1) k by (auto simp: run_ok_def)
  show ?thesis
  proof (cases r)
    case (Inl e)
    with assms(4) t1 ok1 show ?thesis by (auto simp: applyWildcard_def run_ok_def)
  next
    case (Inr start)
    let ?I = "\<lambda>run'. run_ok t run' \<and> length (ar_tree run) \<le> length (ar_tree run')"
    let ?n = "\<lambda>run'. length (ar_tree run')"
    from assms(4) t1 Inr have tr: "traverseWith run_children (wildcard_visit (length (getFullPath t1 start)) g) start
        (run\<lparr>ar_tree := t1\<rparr>) = Some run'" by (simp add: applyWildcard_def)
    have "?I run' \<and> ?n (run\<lparr>ar_tree := t1\<rparr>) \<le> ?n run'"
    proof (rule traverseWith_keeps [OF tr, where I = ?I and n = ?n])
      show "?I (run\<lparr>ar_tree := t1\<rparr>)" using ok1 by simp
      show "start < ?n (run\<lparr>ar_tree := t1\<rparr>)" using k(4) Inr by simp
    next
      fix j s assume "?I s" "j < ?n s"
      then have "run_ok t (g j rel s) \<and> ?n s \<le> ?n (g j rel s)" for rel
        using assms(3) unfolding entry_functor_def by blast
      with \<open>?I s\<close> show "?I (wildcard_visit (length (getFullPath t1 start)) g j s) \<and>
          ?n s \<le> ?n (wildcard_visit (length (getFullPath t1 start)) g j s)"
        by (auto simp: wildcard_visit_def intro: order.trans)
    next
      fix j s c assume s: "?I s" and j: "j < ?n s" and c: "c \<in> set (run_children s j)"
      then have wf: "wf_tree (ar_tree s)" and cj: "c \<in> set (children (ar_tree s) j)"
        by (auto simp: run_ok_def run_children_def split: if_splits)
      then show "c < ?n s" using wf_child(2) [OF wf j cj] by simp
    qed
    then show ?thesis by simp
  qed
qed


lemma processEntry_ok:
  assumes "run_ok t run" and "i < length (ar_tree run)" and "m_processEntry L opts i path source prio run = Some run'"
  shows "run_ok t run' \<and> length (ar_tree run) \<le> length (ar_tree run')"
proof -
  have run: "run_ok t (run\<lparr>ar_exn := e\<rparr>)" "run_ok t (run\<lparr>ar_source := pa\<rparr>)" for e pa
    using assms(1) by (simp_all add: run_ok_def)
  have simple: "entry_functor t m (\<lambda>j rel run. m_processSingleEntry L i (q rel) (src j run) prio run)"
    if "i < m" for m q src
    unfolding entry_functor_def using processSingleEntry_ok [of t _ i L] that by auto
  have nested: "entry_functor t m (\<lambda>j rel run. m_processSingleEntry L i (q rel) (src j run) prio (run\<lparr>ar_source := pa j run\<rparr>))"
    if "i < m" for m q src pa
    unfolding entry_functor_def
  proof (intro allI impI)
    fix j rel r
    assume r: "run_ok t r" "m \<le> length (ar_tree r)"
    have "run_ok t (r\<lparr>ar_source := pa j r\<rparr>)" "i < length (ar_tree (r\<lparr>ar_source := pa j r\<rparr>))"
      using r that by (auto simp: run_ok_def)
    from processSingleEntry_ok [OF this, of L "q rel" "src j r" prio]
    show "run_ok t (m_processSingleEntry L i (q rel) (src j r) prio (r\<lparr>ar_source := pa j r\<rparr>)) \<and>
        length (ar_tree r) \<le> length (ar_tree (m_processSingleEntry L i (q rel) (src j r) prio (r\<lparr>ar_source := pa j r\<rparr>)))"
      by simp
  qed
  note entry = assms(3) [unfolded m_processEntry_def Let_def]
  show ?thesis
  proof (cases "\<not> permitRelativePath opts \<and> \<not> isPathAbsolute path")
    case True
    with entry assms(1) show ?thesis by simp
  next
    case False
    note entry = entry [unfolded if_not_P [OF False]]
    show ?thesis
    proof (cases "\<exists>pa leaf. ParsedAlias_json L source = Inr pa \<and> getLeaf L pa = Inr leaf")
      case False
      with entry run show ?thesis by (auto split: sum.splits)
    next
      case True
      then obtain pa leaf where pa: "ParsedAlias_json L source = Inr pa" "getLeaf L pa = Inr leaf" by blast
      note entry = entry [unfolded pa sum.case]
      let ?A = "\<not> permitRelativeSource opts \<and> \<not> isPathAbsolute leaf" and ?B = "\<not> doesPathContainWildcard leaf"
      show ?thesis
      proof (cases ?A)
        case True
        from entry [unfolded if_P [OF True]] assms(1) show ?thesis by simp
      next
        case nA: False
        note entry = entry [unfolded if_not_P [OF nA]]
        show ?thesis
        proof (cases ?B)
          case True
          from entry [unfolded if_P [OF True]] processSingleEntry_ok [OF assms(1,2)] show ?thesis by auto
        next
          case nB: False
          note entry = entry [unfolded if_not_P [OF nB]]
          show ?thesis
          proof (cases "isSimple pa")
            case True
            show ?thesis
              by (rule applyWildcard_ok [OF assms(1,2) simple [OF assms(2)] entry [unfolded if_P [OF True]]])
          next
            case False
            have "i < length (ar_tree (run\<lparr>ar_source := pa\<rparr>))" using assms(2) by simp
            from applyWildcard_ok [OF run(2) this nested [OF this] entry [unfolded if_not_P [OF False]]]
            show ?thesis by simp
          qed
        qed
      qed
    qed
  qed
qed

lemma process_members_ok:
  "run_ok t run \<Longrightarrow> i < length (ar_tree run) \<Longrightarrow> process_members L opts i prio ms run = Some run' \<Longrightarrow>
     run_ok t run' \<and> length (ar_tree run) \<le> length (ar_tree run')"
proof (induction ms arbitrary: run)
  case Nil
  then show ?case by simp
next
  case (Cons m ms)
  obtain k v where m: "m = (k, v)" by fastforce
  show ?case
  proof (cases "ar_exn run \<noteq> None \<or> k = PRIORITY_KEY")
    case True
    with Cons m show ?thesis by (auto split: if_splits)
  next
    case False
    with Cons.prems(3) m obtain r1 where r1: "m_processEntry L opts i k v prio run = Some r1"
      "process_members L opts i prio ms r1 = Some run'" by (auto simp: bind_eq_Some_conv)
    from processEntry_ok [OF Cons.prems(1,2) r1(1)] have "run_ok t r1" "length (ar_tree run) \<le> length (ar_tree r1)" by auto
    with Cons.IH [OF _ _ r1(2)] Cons.prems(2) show ?thesis by force
  qed
qed

lemma processObject_ok:
  assumes "run_ok t run" and "i < length (ar_tree run)" and "m_processObject L opts i ms run = Some run'"
  shows "run_ok t run' \<and> length (ar_tree run) \<le> length (ar_tree run')"
  using assms process_members_ok [OF assms(1,2)]
  by (auto simp: m_processObject_def run_ok_def split: option.splits sum.splits)

lemma processArray_ok:
  "run_ok t run \<Longrightarrow> i < length (ar_tree run) \<Longrightarrow> m_processArray L opts i arr run = Some run' \<Longrightarrow>
     run_ok t run' \<and> length (ar_tree run) \<le> length (ar_tree run')"
proof (induction arr arbitrary: run)
  case Nil
  then show ?case by simp
next
  case (Cons v arr)
  show ?case
  proof (cases "ar_exn run = None \<and> (\<exists>ms. v = JObject ms)")
    case False
    with Cons show ?thesis by (auto split: if_splits json.splits)
  next
    case True
    then obtain ms where v: "v = JObject ms" by blast
    with True Cons.prems(3) obtain r1 where r1: "m_processObject L opts i ms run = Some r1"
      "m_processArray L opts i arr r1 = Some run'" by (auto simp: bind_eq_Some_conv)
    from processObject_ok [OF Cons.prems(1,2) r1(1)] have "run_ok t r1" "length (ar_tree run) \<le> length (ar_tree r1)" by auto
    with Cons.IH [OF _ _ r1(2)] Cons.prems(2) show ?thesis by force
  qed
qed

lemma process_alias_honest:
  assumes "wf_tree t" and "i < length t" and "process_alias L opts t i v = Some out"
  shows "honest t out"
proof -
  have start: "run_ok t (start_run t)" "i < length (ar_tree (start_run t))"
    using assms by (simp_all add: run_ok_def start_run_def)
  from assms(3) obtain run where run: "AutomaticAliases L opts i v (start_run t) = Some run" "out = run_result run"
    by (auto simp: process_alias_def)
  have "run_ok t run"
    using run(1) start processObject_ok [OF start] processArray_ok [OF start]
    by (cases v) (auto simp: AutomaticAliases_def)
  then show ?thesis
    by (auto simp: run(2) run_result_def honest_def run_ok_def split: option.splits)
qed

lemma route_honest:
  assumes "wf_tree t" and "addAliasFromRoute L t 0 route prio = Some out"
  shows "honest t out"
  using assms process_alias_honest [OF assms(1) wf_nonempty [OF assms(1)]]
  by (auto simp: addAliasFromRoute_def honest_def split: sum.splits)

subsection \<open>Device descriptors\<close>

lemma interface_loop_honest:
  "wf_tree t \<Longrightarrow> i < length t \<Longrightarrow> interface_loop t i names changed = (t', r) \<Longrightarrow>
     wf_tree t' \<and> length t \<le> length t' \<and> (\<forall>b. r = Inr b \<longrightarrow> (changed \<longrightarrow> b) \<and> (\<not> b \<longrightarrow> content t' = content t))"
proof (induction names arbitrary: t changed)
  case Nil
  then show ?case by auto
next
  case (Cons n names)
  obtain t1 r1 where t1: "treePathRetrieve NullElement t i n False = (t1, r1)" by fastforce
  note k = treePathRetrieve_keeps [OF Cons.prems(1,2) t1]
  show ?case
  proof (cases r1)
    case (Inl e)
    with Cons.prems(3) t1 k show ?thesis by auto
  next
    case (Inr j)
    have i1: "i < length t1" using Cons.prems(2) k(3) by simp
    show ?thesis
    proof (cases "isNull (value_of t1 j)")
      case False
      with Cons.IH [OF k(1) i1, of changed] Cons.prems(3) t1 Inr k show ?thesis by auto
    next
      case True
      let ?t2 = "set_value t1 j InterfaceElement"
      have "wf_tree ?t2" "i < length ?t2" using k(1) i1 by simp_all
      from Cons.IH [OF this, of True] Cons.prems(3) t1 Inr True k show ?thesis by auto
    qed
  qed
qed

lemma processInterfaces_honest:
  assumes "wf_tree t" and "i < length t" and "processInterfacesFromDescriptor t i desc = out"
  shows "honest t out"
  using assms interface_loop_honest [OF assms(1,2)]
  by (auto simp: processInterfacesFromDescriptor_def honest_def split: sum.splits if_splits) (metis prod.collapse)+


lemma honest_bind:
  "honest t out \<Longrightarrow> (\<And>t1 b. out = (t1, Inr b) \<Longrightarrow> wf_tree t1 \<Longrightarrow> length t \<le> length t1 \<Longrightarrow>
     (\<not> b \<longrightarrow> content t1 = content t) \<Longrightarrow> honest t (g t1 b)) \<Longrightarrow>
   honest t (case out of (t1, Inl e) \<Rightarrow> (t1, Inl e) | (t1, Inr b) \<Rightarrow> g t1 b)"
  by (cases out) (auto simp: honest_def split: sum.splits)

lemma m_add_honest:
  assumes "honest t run" and "i < length t"
  shows "honest t (m_add L i v path run)"
proof -
  have "m_add L i v path run = (case run of (t1, Inl e) \<Rightarrow> (t1, Inl e) | (t1, Inr flag) \<Rightarrow>
      (case addAliasFromSourceAndRelativeDest L t1 i (lib_styled L v) path ALIASPRIORITY_SEMANTICROUTE of
         (t2, Inl e) \<Rightarrow> (t2, Inl e) | (t2, Inr b) \<Rightarrow> (t2, Inr (flag \<or> b))))"
    by (simp add: m_add_def)
  also have "honest t \<dots>"
  proof (rule honest_bind [OF assms(1)])
    fix t1 flag
    assume t1: "wf_tree t1" "length t \<le> length t1" "\<not> flag \<longrightarrow> content t1 = content t"
    obtain t2 r where t2: "addAliasFromSourceAndRelativeDest L t1 i (lib_styled L v) path ALIASPRIORITY_SEMANTICROUTE = (t2, r)"
      by fastforce
    have "i < length t1" using t1(2) assms(2) by simp
    from addAliasFromSource_honest [OF t1(1) this t2] t1 t2
    show "honest t (case addAliasFromSourceAndRelativeDest L t1 i (lib_styled L v) path ALIASPRIORITY_SEMANTICROUTE of
         (t2, Inl e) \<Rightarrow> (t2, Inl e) | (t2, Inr b) \<Rightarrow> (t2, Inr (flag \<or> b)))"
      by (cases r) (auto simp: honest_def)
  qed
  finally show ?thesis .
qed

lemma m_recurse_honest:
  "i < length t \<Longrightarrow> honest t run \<Longrightarrow> honest t (m_recurse L i v path run)"
  "i < length t \<Longrightarrow> honest t run \<Longrightarrow> honest t (recurse_members L i ms path run)"
proof (induction L i v path run and L i ms path run rule: m_recurse_recurse_members.induct)
  case (2 L i ms path run)
  show ?case
  proof (cases "map_of ms TARGET_KEY")
    case None
    with 2 show ?thesis by simp
  next
    case (Some tgt)
    then have "honest t (if isNull_json tgt then run else m_add L i tgt path run)"
      using 2(2,3) m_add_honest by simp
    with 2(1) [OF 2(2)] Some show ?thesis by simp
  qed
qed (simp_all add: m_add_honest)

lemma processSemantic_honest:
  assumes "wf_tree t" and "i < length t"
  shows "honest t (processSemanticFromDescriptor L t i desc)"
proof -
  have "honest t (t, Inr False)" using assms(1) by (simp add: honest_def)
  from m_recurse_honest(1) [OF assms(2) this] assms(1) show ?thesis
    by (auto simp: processSemanticFromDescriptor_def honest_def split: sum.splits)
qed

lemma existing_device_honest:
  assumes "wf_tree t" and "i < length t" and "processDeviceDescriptorFromExistingDevice L t i desc = Some out"
  shows "honest t out"
proof -
  obtain t1 r1 where t1: "processInterfacesFromDescriptor t i desc = (t1, r1)" by fastforce
  note h1 = processInterfaces_honest [OF assms(1,2) t1]
  obtain t2 r2 where t2: "processSemanticFromDescriptor L t1 i desc = (t2, r2)" by fastforce
  have "i < length t1" using h1 assms(2) by (simp add: honest_def)
  from processSemantic_honest [OF honestD(1) [OF h1] this, of L desc] t2 have h2: "honest t1 (t2, r2)" by simp
  show ?thesis
  proof (cases "(\<exists>e. r1 = Inl e) \<or> (\<exists>e. r2 = Inl e)")
    case True
    have "out = (t1, Inl e)" if "r1 = Inl e" for e
      using that assms(3) t1 by (simp add: processDeviceDescriptorFromExistingDevice_def)
    moreover have "out = (t2, Inl e)" if "r2 = Inl e" "r1 = Inr c" for e c
      using that assms(3) t1 t2 by (simp add: processDeviceDescriptorFromExistingDevice_def)
    ultimately show ?thesis using True h1 h2 by (cases r1; cases r2) (auto simp: honest_def)
  next
    case False
    then obtain c1 c2 where c: "r1 = Inr c1" "r2 = Inr c2" by (metis sum.exhaust)
    with assms(3) t1 t2 obtain t3 r3 where t3: "processAutomaticFromDescriptor L t2 i desc = Some (t3, r3)"
      "out = (t3, case r3 of Inl e \<Rightarrow> Inl e | Inr c3 \<Rightarrow> Inr (c1 \<or> c2 \<or> c3))"
      by (auto simp: processDeviceDescriptorFromExistingDevice_def)
    have "i < length t2" "wf_tree t2" using h1 h2 assms(2) by (auto simp: honest_def)
    then have "honest t2 (t3, r3)"
      using t3(1) process_alias_honest [of t2 i L _ _ "(t3, r3)"]
      by (auto simp: processAutomaticFromDescriptor_def honest_def split: sum.splits)
    with h1 h2 t3(2) c show ?thesis by (cases r3) (auto simp: honest_def)
  qed
qed

text \<open>The content with the descriptors of devices left out.\<close>

fun undescribed :: "PathElement \<Rightarrow> PathElement" where
  "undescribed (DeviceElement name server descriptor) = DeviceElement name server JNull"
| "undescribed e = e"

definition skeleton :: "PathTree \<Rightarrow> string list \<Rightarrow> PathElement option" where
  "skeleton t = (\<lambda>ps. map_option undescribed (content t ps))"

lemma undescribed_setDescriptor [simp]: "undescribed (setDescriptor d e) = undescribed e"
  by (cases e) (simp_all add: setDescriptor_def)

lemma skeleton_setDescriptor:
  assumes "wf_tree t" and "i < length t" and "is_DeviceElement (value_of t i)"
  shows "skeleton (set_value t i (setDescriptor d (value_of t i))) = skeleton t"
proof -
  have "\<not> isNull (setDescriptor d (value_of t i))" "\<not> isNull (value_of t i)"
    using assms(3) by (cases "value_of t i"; simp add: setDescriptor_def isNull_def)+
  then show ?thesis
    using content_set_value [OF assms(1,2)] content_node [OF assms(1,2)]
    by (auto simp: skeleton_def fun_eq_iff)
qed

text \<open>
  A device descriptor: no change reported means that only descriptors may differ; with an
  exception anything may have been done.
\<close>

lemma descriptor_keeps:
  assumes "wf_tree t" and "processDeviceDescriptorForPathTree L t name json = Some (t', r)"
  shows "wf_tree t' \<and> (r = Inr False \<longrightarrow> skeleton t' = skeleton t)"
proof (cases "name = []")
  case True
  with assms show ?thesis by (auto simp: processDeviceDescriptorForPathTree_def)
next
  case False
  let ?dev = "if hd name = getPathSeparatorCharacter then tl name else name"
  obtain t1 r1 where t1: "getNodeByPath t (getPathSeparator @ ?dev) = (t1, r1)" by fastforce
  note k = getNodeByPath_keeps [OF assms(1) t1]
  note main = assms(2) [unfolded processDeviceDescriptorForPathTree_def if_not_P [OF False] Let_def t1 prod.case]
  show ?thesis
  proof (cases r1)
    case (Inl e)
    with main k show ?thesis by auto
  next
    case (Inr i)
    note i = k(4) [OF Inr]
    define t2 where "t2 = (if is_DeviceElement (value_of t1 i) then t1
      else set_value t1 i (createVRPNDeviceElement (fst (split_host ?dev)) (snd (split_host ?dev))))"
    define changed where "changed = (\<not> is_DeviceElement (value_of t1 i))"
    have pair: "(if is_DeviceElement (value_of t1 i) then (t1, False)
        else (set_value t1 i (createVRPNDeviceElement (fst (split_host ?dev)) (snd (split_host ?dev))), True)) = (t2, changed)"
      by (simp add: t2_def changed_def)
    have back_value: "value_of (set_value t1 i e) i = e" for e using i by (simp add: set_value_def value_of_def)
    have t2: "wf_tree t2" "i < length t2" "is_DeviceElement (value_of t2 i)" "\<not> changed \<longrightarrow> content t2 = content t"
      using k i by (simp_all add: t2_def changed_def createVRPNDeviceElement_def back_value)
    note main = main [unfolded Inr sum.case pair prod.case]
    show ?thesis
    proof (cases "\<exists>e. normalizeDeviceDescriptor L json = Inl e")
      case True
      with main t2 show ?thesis by auto
    next
      case False
      then obtain nd where nd: "normalizeDeviceDescriptor L json = Inr nd" by (metis sum.exhaust)
      note main = main [unfolded nd sum.case]
      have quiet: "(r = Inr False \<longrightarrow> skeleton t' = skeleton t) \<and> wf_tree t'" if "(t', r) = (t2, Inr changed)"
        using that t2 by (auto simp: skeleton_def)
      show ?thesis
      proof (cases "lib_parse L nd")
        case None
        with main quiet show ?thesis by simp
      next
        case (Some d)
        show ?thesis
        proof (cases "d = getDescriptor (value_of t2 i) \<and> \<not> changed")
          case True
          with main Some quiet show ?thesis by simp
        next
          case False
          let ?t3 = "set_value t2 i (setDescriptor d (value_of t2 i))"
          from main [unfolded Some option.case if_not_P [OF False]] obtain t4 r4 where t4:
            "processDeviceDescriptorFromExistingDevice L ?t3 i d = Some (t4, r4)" "t' = t4"
            "r = (case r4 of Inl e \<Rightarrow> Inl e | Inr c \<Rightarrow> Inr (changed \<or> c))" by auto
          have "wf_tree ?t3" "i < length ?t3" using t2(1,2) by simp_all
          from existing_device_honest [OF this t4(1)] have h: "honest ?t3 (t4, r4)" .
          have "skeleton t4 = skeleton t" if "r = Inr False"
          proof -
            from that t4(3) have "r4 = Inr False" "\<not> changed" by (auto split: sum.splits)
            with h t2(4) have "content t4 = content ?t3" "content t2 = content t" by (auto simp: honest_def)
            with skeleton_setDescriptor [OF t2(1-3), of d] show ?thesis by (simp add: skeleton_def)
          qed
          with h t4(2) show ?thesis by (simp add: honest_def)
        qed
      qed
    qed
  qed
qed

end
