(* ===== verification/Server_Tree.thy ===== *)
theory Server_Tree
  imports Change_Flags
begin

text \<open>
  The server's path tree and its main loop (\<^verbatim>\<open>src/osvr/Server/ServerImpl.cpp\<close>): every operation
  that may change the tree, the flag that it has to be sent, the update that sends it, the idle
  sleep times. Whatever reaches the server while it processes its connection, its devices and
  its main loop methods is a list of events; which thread a call comes from is the subject of
  \<^verbatim>\<open>Server_Threads\<close>.

  An operation returns the server it leaves and the exception it throws, if any. \<open>None\<close> is a
  wildcard that does not end. Loading plugins and instantiating drivers are not modelled: what
  they do to the tree comes as device descriptors.
\<close>

datatype ping_handler = QueueTreeSend | TriggerDetect

record 'h Server =
  sv_tree :: PathTree
  sv_treeDirty :: bool
  sv_triggeredDetect :: bool
  sv_pingHandlers :: "ping_handler list"
  sv_sleepTime :: int
  sv_currentSleepTime :: int
  sv_component :: "'h SystemComponent"
  sv_dev :: BaseDevice

definition IDLE_SLEEP_TIME :: int where "IDLE_SLEEP_TIME = 1000"

type_synonym 'h server_result = "'h Server \<times> exn option"

text \<open>The part of the constructor that concerns the tree; \<open>display\<close> is the built-in display descriptor.\<close>

definition ServerImpl_create :: "string \<Rightarrow> 'h SystemComponent \<Rightarrow> BaseDevice \<Rightarrow> (exn, 'h Server) result" where
  "ServerImpl_create display component dev =
     (case getNodeByPath PathTree_create ''/display'' of
        (t, Inl e) \<Rightarrow> Inl e
      | (t, Inr node) \<Rightarrow>
          Inr \<lparr>sv_tree = set_value t node (StringElement display), sv_treeDirty = False,
               sv_triggeredDetect = False, sv_pingHandlers = [QueueTreeSend], sv_sleepTime = 0,
               sv_currentSleepTime = IDLE_SLEEP_TIME, sv_component = component, sv_dev = dev\<rparr>)"

text \<open>
  What the operations below have in common: the tree an operation leaves becomes the server's;
  its result is added to the flag, unless it throws.
\<close>

definition flag_change :: "'h Server \<Rightarrow> PathTree \<times> (exn, bool) result \<Rightarrow> 'h server_result" where
  "flag_change srv out =
     (case out of
        (t, Inl e) \<Rightarrow> (srv\<lparr>sv_tree := t\<rparr>, Some e)
      | (t, Inr change) \<Rightarrow> (srv\<lparr>sv_tree := t, sv_treeDirty := (sv_treeDirty srv \<or> change)\<rparr>, None))"

definition server_addRoute :: "json_lib \<Rightarrow> string \<Rightarrow> 'h Server \<Rightarrow> 'h server_result option" where
  "server_addRoute L routingDirective srv =
     map_option (flag_change srv) (addAliasFromRoute L (sv_tree srv) 0 routingDirective ALIASPRIORITY_MANUAL)"

definition server_addAlias :: "json_lib \<Rightarrow> string \<Rightarrow> string \<Rightarrow> AliasPriority \<Rightarrow> 'h Server \<Rightarrow> 'h server_result option" where
  "server_addAlias L path source priority srv =
     Some (case getNodeByPath (sv_tree srv) path of
             (t, Inl e) \<Rightarrow> (srv\<lparr>sv_tree := t\<rparr>, Some e)
           | (t, Inr node) \<Rightarrow> flag_change srv (addAlias L t node source priority))"

definition server_addAliases :: "json_lib \<Rightarrow> json \<Rightarrow> AliasPriority \<Rightarrow> 'h Server \<Rightarrow> 'h server_result option" where
  "server_addAliases L aliases priority srv =
     map_option (flag_change srv)
       (process_alias L (enableWildcard (setDefaultPriority priority AliasProcessor_create)) (sv_tree srv) 0 aliases)"

definition addExternalDevice ::
    "json_lib \<Rightarrow> string \<Rightarrow> string \<Rightarrow> string \<Rightarrow> string \<Rightarrow> 'h Server \<Rightarrow> 'h server_result option" where
  "addExternalDevice L path deviceName server descriptor srv =
     (case lib_parse L descriptor of
        None \<Rightarrow> Some (srv, None)
      | Some descriptorVal \<Rightarrow>
          (case getNodeByPath (sv_tree srv) path of
             (t, Inl e) \<Rightarrow> Some (srv\<lparr>sv_tree := t\<rparr>, Some e)
           | (t, Inr node) \<Rightarrow>
               map_option (\<lambda>(t', r). (srv\<lparr>sv_tree := t', sv_treeDirty := True\<rparr>,
                                      case r of Inl e \<Rightarrow> Some e | Inr b \<Rightarrow> None))
                 (processDeviceDescriptorFromExistingDevice L
                    (set_value t node (DeviceElement deviceName server descriptorVal)) node descriptorVal)))"

definition addString :: "string \<Rightarrow> string \<Rightarrow> 'h Server \<Rightarrow> 'h server_result option" where
  "addString path val srv =
     Some (case getNodeByPath (sv_tree srv) path of
             (t, Inl e) \<Rightarrow> (srv\<lparr>sv_tree := t\<rparr>, Some e)
           | (t, Inr node) \<Rightarrow>
               if StringElement val \<noteq> value_of t node
               then (srv\<lparr>sv_tree := set_value t node (StringElement val), sv_treeDirty := True\<rparr>, None)
               else (srv\<lparr>sv_tree := t\<rparr>, None))"

text \<open>The devices of the connection with their descriptors; an empty descriptor is only logged.\<close>

fun m_handleDeviceDescriptors :: "json_lib \<Rightarrow> (string \<times> string) list \<Rightarrow> 'h Server \<Rightarrow> 'h server_result option" where
  "m_handleDeviceDescriptors L [] srv = Some (srv, None)"
| "m_handleDeviceDescriptors L ((name, descriptor) # devs) srv =
     (if descriptor = [] then m_handleDeviceDescriptors L devs srv
      else
        do { out \<leftarrow> processDeviceDescriptorForPathTree L (sv_tree srv) name descriptor;
             (case flag_change srv out of
                (srv', Some e) \<Rightarrow> Some (srv', Some e)
              | (srv', None) \<Rightarrow> m_handleDeviceDescriptors L devs srv') })"

definition m_queueTreeSend :: "'h Server \<Rightarrow> 'h Server" where
  "m_queueTreeSend srv = srv\<lparr>sv_treeDirty := True\<rparr>"

definition triggerHardwareDetect :: "'h Server \<Rightarrow> 'h Server" where
  "triggerHardwareDetect srv = srv\<lparr>sv_triggeredDetect := True\<rparr>"

definition setHardwareDetectOnConnection :: "'h Server \<Rightarrow> 'h Server" where
  "setHardwareDetectOnConnection srv = srv\<lparr>sv_pingHandlers := sv_pingHandlers srv @ [TriggerDetect]\<rparr>"

fun on_ping :: "ping_handler \<Rightarrow> 'h Server \<Rightarrow> 'h Server" where
  "on_ping QueueTreeSend srv = m_queueTreeSend srv"
| "on_ping TriggerDetect srv = triggerHardwareDetect srv"

definition setSleepTime :: "int \<Rightarrow> 'h Server \<Rightarrow> 'h Server" where
  "setSleepTime usecs srv = srv\<lparr>sv_sleepTime := usecs\<rparr>"

definition m_exitIdle :: "'h Server \<Rightarrow> 'h Server" where
  "m_exitIdle srv =
     (if sv_currentSleepTime srv > sv_sleepTime srv then srv\<lparr>sv_currentSleepTime := sv_sleepTime srv\<rparr> else srv)"

definition m_enterIdle :: "'h Server \<Rightarrow> 'h Server" where
  "m_enterIdle srv =
     (if sv_currentSleepTime srv < IDLE_SLEEP_TIME then srv\<lparr>sv_currentSleepTime := IDLE_SLEEP_TIME\<rparr> else srv)"

text \<open>Everything that can reach the server between two points of its main loop.\<close>

datatype server_event =
    GotDescriptors "(string \<times> string) list"
  | GotRoute string
  | GotPing
  | GotFirstConnection
  | DroppedLastConnection
  | CallAddRoute string
  | CallAddAlias string string AliasPriority
  | CallAddAliases json AliasPriority
  | CallAddExternalDevice string string string string
  | CallAddString string string
  | CallTriggerDetect
  | CallDetectOnConnection
  | CallSetSleepTime int

fun server_do :: "json_lib \<Rightarrow> server_event \<Rightarrow> 'h Server \<Rightarrow> 'h server_result option" where
  "server_do L (GotDescriptors devs) srv = m_handleDeviceDescriptors L devs srv"
| "server_do L (GotRoute route) srv = server_addRoute L route srv"
| "server_do L GotPing srv = Some (fold on_ping (sv_pingHandlers srv) srv, None)"
| "server_do L GotFirstConnection srv = Some (m_exitIdle srv, None)"
| "server_do L DroppedLastConnection srv = Some (m_enterIdle srv, None)"
| "server_do L (CallAddRoute route) srv = server_addRoute L route srv"
| "server_do L (CallAddAlias path source prio) srv = server_addAlias L path source prio srv"
| "server_do L (CallAddAliases aliases prio) srv = server_addAliases L aliases prio srv"
| "server_do L (CallAddExternalDevice path name server descriptor) srv = addExternalDevice L path name server descriptor srv"
| "server_do L (CallAddString path val) srv = addString path val srv"
| "server_do L CallTriggerDetect srv = Some (triggerHardwareDetect srv, None)"
| "server_do L CallDetectOnConnection srv = Some (setHardwareDetectOnConnection srv, None)"
| "server_do L (CallSetSleepTime n) srv = Some (setSleepTime n srv, None)"

fun run_events :: "json_lib \<Rightarrow> server_event list \<Rightarrow> 'h Server \<Rightarrow> 'h server_result option" where
  "run_events L [] srv = Some (srv, None)"
| "run_events L (e # es) srv =
     do { (srv', x) \<leftarrow> server_do L e srv;
          if x = None then run_events L es srv' else Some (srv', x) }"

definition m_sendTree ::
    "json_lib \<Rightarrow> (packed_message \<Rightarrow> bool) \<Rightarrow> OSVR_TimeValue \<Rightarrow> 'h Server \<Rightarrow> 'h server_result" where
  "m_sendTree L accepts now srv =
     (case sendReplacementTree L accepts (sv_tree srv) now (sv_component srv, sv_dev srv) of
        Inl e \<Rightarrow> (srv, Some e)
      | Inr dev \<Rightarrow> (srv\<lparr>sv_dev := dev\<rparr>, None))"

text \<open>
  One update: the connection and the system device are processed (\<open>incoming\<close>), the main loop
  methods run (\<open>methods\<close>), a triggered hardware detection adds devices (\<open>detected\<close>), and a changed
  tree is sent.
\<close>

definition detect_step :: "json_lib \<Rightarrow> server_event list \<Rightarrow> 'h Server \<Rightarrow> 'h server_result option" where
  "detect_step L detected srv =
     (if sv_triggeredDetect srv
      then do { (srv', x) \<leftarrow> run_events L detected srv;
                Some (if x = None then srv'\<lparr>sv_triggeredDetect := False\<rparr> else srv', x) }
      else Some (srv, None))"

definition send_step :: "json_lib \<Rightarrow> (packed_message \<Rightarrow> bool) \<Rightarrow> OSVR_TimeValue \<Rightarrow> 'h Server \<Rightarrow> 'h server_result" where
  "send_step L accepts now srv =
     (if sv_treeDirty srv
      then (case m_sendTree L accepts now srv of
              (srv', Some e) \<Rightarrow> (srv', Some e)
            | (srv', None) \<Rightarrow> (srv'\<lparr>sv_treeDirty := False\<rparr>, None))
      else (srv, None))"

definition m_update ::
    "json_lib \<Rightarrow> (packed_message \<Rightarrow> bool) \<Rightarrow> OSVR_TimeValue \<Rightarrow> server_event list \<Rightarrow> server_event list \<Rightarrow> server_event list
     \<Rightarrow> 'h Server \<Rightarrow> 'h server_result option" where
  "m_update L accepts now incoming methods detected srv =
     do { (s1, x1) \<leftarrow> run_events L (incoming @ methods) srv;
          if x1 \<noteq> None then Some (s1, x1)
          else do {
            (s2, x2) \<leftarrow> detect_step L detected s1;
            if x2 \<noteq> None then Some (s2, x2)
            else Some (send_step L accepts now s2) } }"

text \<open>A history of the server: calls between updates, and updates.\<close>

datatype server_turn =
    Call server_event
  | Update OSVR_TimeValue "server_event list" "server_event list" "server_event list"

fun server_step :: "json_lib \<Rightarrow> (packed_message \<Rightarrow> bool) \<Rightarrow> server_turn \<Rightarrow> 'h Server \<Rightarrow> 'h server_result option" where
  "server_step L accepts (Call e) srv = server_do L e srv"
| "server_step L accepts (Update now incoming methods detected) srv = m_update L accepts now incoming methods detected srv"

fun server_run :: "json_lib \<Rightarrow> (packed_message \<Rightarrow> bool) \<Rightarrow> server_turn list \<Rightarrow> 'h Server \<Rightarrow> 'h server_result option" where
  "server_run L accepts [] srv = Some (srv, None)"
| "server_run L accepts (s # ss) srv =
     do { (srv', x) \<leftarrow> server_step L accepts s srv;
          if x = None then server_run L accepts ss srv' else Some (srv', x) }"


subsection \<open>The clients follow the server\<close>

text \<open>
  The message sent last carries a tree that differs from \<open>t\<close> at most in null elements and in the
  descriptors of devices.
\<close>

definition sent_tree :: "json_lib \<Rightarrow> BaseDevice \<Rightarrow> PathTree \<Rightarrow> bool" where
  "sent_tree L dev t \<longleftrightarrow> conn_packed dev \<noteq> [] \<and>
     (\<exists>src. wf_tree src \<and> skeleton src = skeleton t \<and>
        pm_payload (last (conn_packed dev)) = json_only_serialize L (pathTreeToJson src False) [])"

text \<open>
  The invariant, relative to the skeleton the tree had when nothing was sent yet: the tree is
  well-formed, and unless it is marked for sending it is what was sent last.
\<close>

definition server_inv :: "json_lib \<Rightarrow> (string list \<Rightarrow> PathElement option) \<Rightarrow> 'h Server \<Rightarrow> bool" where
  "server_inv L sk srv \<longleftrightarrow> wf_tree (sv_tree srv) \<and> QueueTreeSend \<in> set (sv_pingHandlers srv) \<and>
     (\<not> sv_treeDirty srv \<longrightarrow>
        (if conn_packed (sv_dev srv) = [] then skeleton (sv_tree srv) = sk
         else sent_tree L (sv_dev srv) (sv_tree srv)))"

text \<open>What an event may do: to the tree only with the flag set, and nothing to what was sent.\<close>

definition event_ok :: "'h Server \<Rightarrow> 'h Server \<Rightarrow> bool" where
  "event_ok srv srv' \<longleftrightarrow> (wf_tree (sv_tree srv) \<longrightarrow> wf_tree (sv_tree srv')) \<and> sv_dev srv' = sv_dev srv \<and>
     set (sv_pingHandlers srv) \<subseteq> set (sv_pingHandlers srv') \<and> (sv_treeDirty srv \<longrightarrow> sv_treeDirty srv') \<and>
     (wf_tree (sv_tree srv) \<and> \<not> sv_treeDirty srv' \<longrightarrow> skeleton (sv_tree srv') = skeleton (sv_tree srv))"

lemma event_ok_refl: "event_ok srv srv"
  by (simp add: event_ok_def)

lemma event_ok_trans: "event_ok a b \<Longrightarrow> event_ok b c \<Longrightarrow> event_ok a c"
  by (auto simp: event_ok_def)

lemma event_ok_inv: "event_ok srv srv' \<Longrightarrow> server_inv L sk srv \<Longrightarrow> server_inv L sk srv'"
  by (auto simp: event_ok_def server_inv_def sent_tree_def)

lemma skeleton_eqI: "content t' = content t \<Longrightarrow> skeleton t' = skeleton t"
  by (simp add: skeleton_def)

lemma flag_change_ok:
  assumes "flag_change srv (t, r) = (srv', None)" and "wf_tree (sv_tree srv) \<Longrightarrow> wf_tree t"
    and "wf_tree (sv_tree srv) \<Longrightarrow> r = Inr False \<Longrightarrow> skeleton t = skeleton (sv_tree srv)"
  shows "event_ok srv srv'"
  using assms by (auto simp: flag_change_def event_ok_def split: sum.splits)

lemma flag_change_honest:
  assumes "flag_change srv out = (srv', None)" and "wf_tree (sv_tree srv) \<Longrightarrow> honest (sv_tree srv) out"
  shows "event_ok srv srv'"
  using flag_change_ok [of srv "fst out" "snd out" srv'] assms
  by (auto simp: honest_def intro: skeleton_eqI)

lemma addRoute_ok: "server_addRoute L route srv = Some (srv', None) \<Longrightarrow> event_ok srv srv'"
  using route_honest by (auto simp: server_addRoute_def intro: flag_change_honest)

lemma addAliases_ok: "server_addAliases L v prio srv = Some (srv', None) \<Longrightarrow> event_ok srv srv'"
  using process_alias_honest wf_nonempty by (fastforce simp: server_addAliases_def intro: flag_change_honest)

lemma addAlias_ok:
  assumes "server_addAlias L path source prio srv = Some (srv', None)"
  shows "event_ok srv srv'"
proof -
  obtain t r where t: "getNodeByPath (sv_tree srv) path = (t, r)" by fastforce
  with assms obtain i where i: "r = Inr i" "flag_change srv (addAlias L t i source prio) = (srv', None)"
    by (auto simp: server_addAlias_def split: sum.splits)
  show ?thesis
  proof (rule flag_change_honest [OF i(2)])
    assume wf: "wf_tree (sv_tree srv)"
    note k = getNodeByPath_keeps [OF wf t]
    obtain t' q where t': "addAlias L t i source prio = (t', q)" by fastforce
    from addAlias_honest(1) [OF k(1) k(4) [OF i(1)] t'] k t' show "honest (sv_tree srv) (addAlias L t i source prio)"
      by (auto simp: honest_def)
  qed
qed

lemma addExternalDevice_ok:
  assumes "addExternalDevice L path name server descriptor srv = Some (srv', None)"
  shows "event_ok srv srv'"
proof (cases "lib_parse L descriptor")
  case None
  with assms show ?thesis by (simp add: addExternalDevice_def event_ok_refl)
next
  case (Some d)
  obtain t r where t: "getNodeByPath (sv_tree srv) path = (t, r)" by fastforce
  with assms Some obtain i t' q where i: "r = Inr i" "processDeviceDescriptorFromExistingDevice L
      (set_value t i (DeviceElement name server d)) i d = Some (t', q)" "srv' = srv\<lparr>sv_tree := t', sv_treeDirty := True\<rparr>"
    by (auto simp: addExternalDevice_def split: sum.splits) (meson sum.exhaust)
  have "wf_tree t'" if wf: "wf_tree (sv_tree srv)"
  proof -
    note k = getNodeByPath_keeps [OF wf t]
    have "wf_tree (set_value t i (DeviceElement name server d))" "i < length (set_value t i (DeviceElement name server d))"
      using k(1) k(4) [OF i(1)] by simp_all
    from existing_device_honest [OF this i(2)] show ?thesis by (simp add: honest_def)
  qed
  then show ?thesis by (simp add: i(3) event_ok_def)
qed

lemma addString_ok:
  assumes "addString path val srv = Some (srv', None)"
  shows "event_ok srv srv'"
proof -
  obtain t r where t: "getNodeByPath (sv_tree srv) path = (t, r)" by fastforce
  with assms show ?thesis
    using getNodeByPath_keeps [OF _ t]
    by (auto simp: addString_def event_ok_def skeleton_def split: sum.splits if_splits)
qed

lemma descriptors_ok:
  "m_handleDeviceDescriptors L devs srv = Some (srv', None) \<Longrightarrow> event_ok srv srv'"
proof (induction devs arbitrary: srv)
  case Nil
  then show ?case by (simp add: event_ok_refl)
next
  case (Cons dev devs)
  obtain name descriptor where dev: "dev = (name, descriptor)" by fastforce
  show ?case
  proof (cases "descriptor = []")
    case True
    with Cons dev show ?thesis by simp
  next
    case False
    with Cons.prems dev obtain out where out: "processDeviceDescriptorForPathTree L (sv_tree srv) name descriptor = Some out"
      by (auto simp: bind_eq_Some_conv)
    obtain t r where tr: "out = (t, r)" by fastforce
    obtain s1 x where s1: "flag_change srv (t, r) = (s1, x)" by fastforce
    with Cons.prems dev False out tr have x: "x = None" "m_handleDeviceDescriptors L devs s1 = Some (srv', None)"
      by (cases x; simp)+
    have "event_ok srv s1"
      using flag_change_ok [OF s1 [unfolded x(1)]] descriptor_keeps [of "sv_tree srv" L name descriptor t r] out tr by blast
    with Cons.IH [OF x(2)] show ?thesis by (blast intro: event_ok_trans)
  qed
qed

lemma ping_ok: "event_ok srv (fold on_ping hs srv)"
proof (induction hs arbitrary: srv)
  case Nil
  then show ?case by (simp add: event_ok_refl)
next
  case (Cons h hs)
  have "event_ok srv (on_ping h srv)"
    by (cases h) (simp_all add: event_ok_def m_queueTreeSend_def triggerHardwareDetect_def)
  with Cons [of "on_ping h srv"] show ?case by (auto intro: event_ok_trans)
qed

lemma setting_ok:
  "event_ok srv (m_exitIdle srv)" "event_ok srv (m_enterIdle srv)" "event_ok srv (triggerHardwareDetect srv)"
  "event_ok srv (setHardwareDetectOnConnection srv)" "event_ok srv (setSleepTime n srv)"
  by (auto simp: event_ok_def m_exitIdle_def m_enterIdle_def triggerHardwareDetect_def
      setHardwareDetectOnConnection_def setSleepTime_def)

lemma server_do_ok: "server_do L e srv = Some (srv', None) \<Longrightarrow> event_ok srv srv'"
  by (cases e) (auto intro: setting_ok ping_ok dest: addRoute_ok addAliases_ok addAlias_ok addExternalDevice_ok
      addString_ok descriptors_ok)

lemma run_events_ok:
  "run_events L es srv = Some (srv', None) \<Longrightarrow> event_ok srv srv'"
proof (induction es arbitrary: srv)
  case Nil
  then show ?case by (simp add: event_ok_refl)
next
  case (Cons e es)
  then obtain s1 where s1: "server_do L e srv = Some (s1, None)" "run_events L es s1 = Some (srv', None)"
    by (auto simp: bind_eq_Some_conv split: if_splits)
  from server_do_ok [OF s1(1)] Cons.IH [OF s1(2)] show ?case by (rule event_ok_trans)
qed


text \<open>Since a client's ping, or a change, the tree has been sent or is marked for sending.\<close>

definition alerted :: "'h Server \<Rightarrow> bool" where
  "alerted srv \<longleftrightarrow> sv_treeDirty srv \<or> conn_packed (sv_dev srv) \<noteq> []"

lemma event_ok_alerted: "event_ok srv srv' \<Longrightarrow> alerted srv \<Longrightarrow> alerted srv'"
  by (auto simp: event_ok_def alerted_def)

lemma ping_alerts:
  assumes "QueueTreeSend \<in> set (sv_pingHandlers srv)"
  shows "sv_treeDirty (fold on_ping (sv_pingHandlers srv) srv)"
proof -
  have keeps: "sv_treeDirty srv \<Longrightarrow> sv_treeDirty (fold on_ping hs srv)" for hs and srv :: "'h Server"
    using ping_ok [of srv hs] by (simp add: event_ok_def)
  have "QueueTreeSend \<in> set hs \<Longrightarrow> sv_treeDirty (fold on_ping hs srv)" for hs and srv :: "'h Server"
  proof (induction hs arbitrary: srv)
    case Nil
    then show ?case by simp
  next
    case (Cons h hs)
    show ?case
    proof (cases h)
      case QueueTreeSend
      then show ?thesis using keeps [of "m_queueTreeSend srv" hs] by (simp add: m_queueTreeSend_def)
    next
      case TriggerDetect
      with Cons show ?thesis by simp
    qed
  qed
  with assms show ?thesis by blast
qed

lemma server_do_alerts:
  assumes "server_do L e srv = Some (srv', None)" and "QueueTreeSend \<in> set (sv_pingHandlers srv)" and "alerted srv \<or> e = GotPing"
  shows "alerted srv'"
  using assms event_ok_alerted [OF server_do_ok [OF assms(1)]] ping_alerts [OF assms(2)]
  by (auto simp: alerted_def)

lemma run_events_alerts:
  "run_events L es srv = Some (srv', None) \<Longrightarrow> QueueTreeSend \<in> set (sv_pingHandlers srv) \<Longrightarrow>
     alerted srv \<or> GotPing \<in> set es \<Longrightarrow> alerted srv'"
proof (induction es arbitrary: srv)
  case Nil
  then show ?case by simp
next
  case (Cons e es)
  then obtain s1 where s1: "server_do L e srv = Some (s1, None)" "run_events L es s1 = Some (srv', None)"
    by (auto simp: bind_eq_Some_conv split: if_splits)
  have "QueueTreeSend \<in> set (sv_pingHandlers s1)"
    using server_do_ok [OF s1(1)] Cons.prems(2) by (auto simp: event_ok_def)
  with Cons.IH [OF s1(2)] server_do_alerts [OF s1(1) Cons.prems(2)] Cons.prems(3) show ?case by auto
qed

lemma detect_step_ok:
  assumes "detect_step L detected srv = Some (srv', None)"
  shows "event_ok srv srv'"
proof (cases "sv_triggeredDetect srv")
  case True
  with assms obtain s1 where "run_events L detected srv = Some (s1, None)" "srv' = s1\<lparr>sv_triggeredDetect := False\<rparr>"
    by (auto simp: detect_step_def bind_eq_Some_conv split: if_splits)
  with run_events_ok [of L detected srv s1] show ?thesis by (simp add: event_ok_def)
next
  case False
  with assms show ?thesis by (simp add: detect_step_def event_ok_refl)
qed

lemma send_step_inv:
  assumes "server_inv L sk srv" and "send_step L accepts now srv = (srv', None)"
  shows "server_inv L sk srv' \<and> \<not> sv_treeDirty srv' \<and> (alerted srv \<longrightarrow> alerted srv')"
proof (cases "sv_treeDirty srv")
  case False
  with assms show ?thesis by (simp add: send_step_def)
next
  case True
  with assms(2) obtain s1 where s1: "m_sendTree L accepts now srv = (s1, None)" "srv' = s1\<lparr>sv_treeDirty := False\<rparr>"
    by (auto simp: send_step_def split: prod.splits option.splits)
  then obtain dev where dev: "sendReplacementTree L accepts (sv_tree srv) now (sv_component srv, sv_dev srv) = Inr dev"
    "s1 = srv\<lparr>sv_dev := dev\<rparr>" by (auto simp: m_sendTree_def split: sum.splits)
  obtain msg where "conn_packed dev = conn_packed (sv_dev srv) @ [msg]"
    "pm_payload msg = json_only_serialize L (pathTreeToJson (sv_tree srv) False) []"
    using last_packed dev(1) unfolding sendReplacementTree_def prod.case by blast
  with assms(1) s1(2) dev(2) show ?thesis
    by (auto simp: server_inv_def sent_tree_def alerted_def)
qed

fun turn_events :: "server_turn \<Rightarrow> server_event list" where
  "turn_events (Call e) = [e]"
| "turn_events (Update now incoming methods detected) = incoming @ methods"

lemma update_inv:
  assumes "server_inv L sk srv" and "m_update L accepts now incoming methods detected srv = Some (srv', None)"
  shows "server_inv L sk srv' \<and> \<not> sv_treeDirty srv' \<and>
    (alerted srv \<or> GotPing \<in> set (incoming @ methods) \<longrightarrow> alerted srv')"
proof -
  from assms(2) obtain s1 s2 where s: "run_events L (incoming @ methods) srv = Some (s1, None)"
    "detect_step L detected s1 = Some (s2, None)" "send_step L accepts now s2 = (srv', None)"
    by (auto simp: m_update_def bind_eq_Some_conv split: if_splits)
  have inv: "server_inv L sk s1" "server_inv L sk s2"
    using event_ok_inv [OF run_events_ok [OF s(1)]] event_ok_inv [OF detect_step_ok [OF s(2)]] assms(1) by blast+
  have "alerted s2" if "alerted srv \<or> GotPing \<in> set (incoming @ methods)"
    using run_events_alerts [OF s(1)] event_ok_alerted [OF detect_step_ok [OF s(2)]] that assms(1)
    by (auto simp: server_inv_def)
  with send_step_inv [OF inv(2) s(3)] show ?thesis by blast
qed

lemma server_run_inv:
  "server_inv L sk srv \<Longrightarrow> server_run L accepts ts srv = Some (srv', None) \<Longrightarrow>
     server_inv L sk srv' \<and> (alerted srv \<or> GotPing \<in> set (concat (map turn_events ts)) \<longrightarrow> alerted srv')"
proof (induction ts arbitrary: srv)
  case Nil
  then show ?case by simp
next
  case (Cons t ts)
  from Cons.prems(2) obtain s1 where s1: "server_step L accepts t srv = Some (s1, None)" "server_run L accepts ts s1 = Some (srv', None)"
    by (auto simp: bind_eq_Some_conv split: if_splits)
  have "server_inv L sk s1 \<and> (alerted srv \<or> GotPing \<in> set (turn_events t) \<longrightarrow> alerted s1)"
  proof (cases t)
    case (Call e)
    with s1(1) have d: "server_do L e srv = Some (s1, None)" by simp
    show ?thesis
      using event_ok_inv [OF server_do_ok [OF d] Cons.prems(1)] server_do_alerts [OF d] Cons.prems(1) Call
      by (auto simp: server_inv_def)
  next
    case (Update now incoming methods detected)
    with update_inv [OF Cons.prems(1)] s1(1) show ?thesis by simp
  qed
  with Cons.IH [OF _ s1(2)] show ?case by auto
qed

lemma server_run_snoc:
  "server_run L accepts (ts @ [t]) srv = Some (srv', None) \<Longrightarrow>
     \<exists>s1. server_run L accepts ts srv = Some (s1, None) \<and> server_step L accepts t s1 = Some (srv', None)"
proof (induction ts arbitrary: srv)
  case Nil
  then obtain s x where "server_step L accepts t srv = Some (s, x)" "(s, x) = (srv', None)"
    by (auto simp: bind_eq_Some_conv split: if_splits)
  then show ?case by simp
next
  case (Cons a ts)
  from Cons.prems obtain s2 where s2: "server_step L accepts a srv = Some (s2, None)"
    "server_run L accepts (ts @ [t]) s2 = Some (srv', None)"
    by (auto simp: bind_eq_Some_conv split: if_splits)
  from Cons.IH [OF s2(2)] s2(1) show ?case by simp
qed

lemma ServerImpl_create_inv:
  assumes "ServerImpl_create display component dev = Inr srv" and "conn_packed dev = []"
  shows "server_inv L (skeleton (sv_tree srv)) srv" and "content (sv_tree srv) = [[''display''] \<mapsto> StringElement display]"
proof -
  have t: "getNodeByPath PathTree_create ''/display'' = (fst (getNodeByPath PathTree_create ''/display''), Inr 1)" by code_simp
  have wf: "wf_tree PathTree_create" by (simp add: PathTree_create_def)
  note k = getNodeByPath_keeps [OF wf t]
  let ?t = "fst (getNodeByPath PathTree_create ''/display'')"
  have srv: "sv_tree srv = set_value ?t 1 (StringElement display)" "sv_pingHandlers srv = [QueueTreeSend]"
    "sv_dev srv = dev" "\<not> sv_treeDirty srv"
    using assms(1) t by (auto simp: ServerImpl_create_def split: prod.splits)
  have "node_path ?t 1 = [''display'']" by code_simp
  then show "content (sv_tree srv) = [[''display''] \<mapsto> StringElement display]"
    using content_set_value [OF k(1) k(4) [OF refl]] k(2) by (simp add: srv(1) isNull_def)
  show "server_inv L (skeleton (sv_tree srv)) srv"
    using k(1) srv assms(2) by (simp add: server_inv_def)
qed


text \<open>
  C9: The clients follow the server's tree. Take any history of a server: calls of its
  interface, and updates in which routes, pings and device descriptors arrive, main loop
  methods run and hardware detection adds devices; let it end with an update and nothing have
  thrown. Then the tree is not left marked for sending, and the message sent last carries a
  tree that has the same elements at the same paths, except that the descriptor of a device may
  be another one. If nothing was ever sent, no client has pinged and the tree still has just
  the elements the server started with, the display descriptor.
\<close>

theorem clients_follow_server:
  assumes "ServerImpl_create display component dev = Inr srv0" and "conn_packed dev = []"
    and "server_run L accepts (turns @ [Update now incoming methods detected]) srv0 = Some (srv, None)"
  shows "\<not> sv_treeDirty srv \<and> wf_tree (sv_tree srv) \<and>
    (if conn_packed (sv_dev srv) = []
     then GotPing \<notin> set (concat (map turn_events (turns @ [Update now incoming methods detected]))) \<and>
       skeleton (sv_tree srv) = [[''display''] \<mapsto> StringElement display]
     else \<exists>src. wf_tree src \<and> skeleton src = skeleton (sv_tree srv) \<and>
       pm_payload (last (conn_packed (sv_dev srv))) = json_only_serialize L (pathTreeToJson src False) [])"
proof -
  note start = ServerImpl_create_inv [OF assms(1,2)]
  have sk: "skeleton (sv_tree srv0) = [[''display''] \<mapsto> StringElement display]"
    by (auto simp: skeleton_def start(2))
  note run = server_run_inv [OF start(1) assms(3)]
  from server_run_snoc [OF assms(3)] obtain s1 where s1: "server_run L accepts turns srv0 = Some (s1, None)"
    "m_update L accepts now incoming methods detected s1 = Some (srv, None)" by auto
  from update_inv [OF conjunct1 [OF server_run_inv [OF start(1) s1(1)]] s1(2)] have clean: "\<not> sv_treeDirty srv" by blast
  then have "alerted srv \<longleftrightarrow> conn_packed (sv_dev srv) \<noteq> []" by (simp add: alerted_def)
  with run clean sk show ?thesis by (auto simp: server_inv_def sent_tree_def)
qed

definition server_demo_dev :: BaseDevice where
  "server_demo_dev = \<lparr>m_name = System_deviceName, m_sender = Some 0, conn_types = [], conn_handlers = [], conn_packed = []\<rparr>"

lemma server_demo_runs:
  "\<exists>srv0 srv. ServerImpl_create ''d'' (System_create :: string SystemComponent) server_demo_dev = Inr srv0 \<and>
     server_run route_lib (\<lambda>_. True)
       ([Call (CallAddString ''/s'' ''x'')] @ [Update \<lparr>seconds = 1, microseconds = 0\<rparr> [GotPing] [] []]) srv0 = Some (srv, None)"
proof -
  have "case ServerImpl_create ''d'' (System_create :: string SystemComponent) server_demo_dev of Inl e \<Rightarrow> False
    | Inr srv0 \<Rightarrow> (case server_run route_lib (\<lambda>_. True)
        ([Call (CallAddString ''/s'' ''x'')] @ [Update \<lparr>seconds = 1, microseconds = 0\<rparr> [GotPing] [] []]) srv0 of
          Some (srv, None) \<Rightarrow> True | _ \<Rightarrow> False)"
    by code_simp
  then show ?thesis by (simp split: sum.splits option.splits prod.splits)
qed

theorem clients_follow_server_witness:
  "\<exists>srv0 srv src. ServerImpl_create ''d'' (System_create :: string SystemComponent) server_demo_dev = Inr srv0 \<and>
     server_run route_lib (\<lambda>_. True)
       ([Call (CallAddString ''/s'' ''x'')] @ [Update \<lparr>seconds = 1, microseconds = 0\<rparr> [GotPing] [] []]) srv0 = Some (srv, None) \<and>
     wf_tree src \<and> skeleton src = skeleton (sv_tree srv) \<and>
     pm_payload (last (conn_packed (sv_dev srv))) = json_only_serialize route_lib (pathTreeToJson src False) []"
proof -
  obtain srv0 srv where run: "ServerImpl_create ''d'' (System_create :: string SystemComponent) server_demo_dev = Inr srv0"
    "server_run route_lib (\<lambda>_. True)
       ([Call (CallAddString ''/s'' ''x'')] @ [Update \<lparr>seconds = 1, microseconds = 0\<rparr> [GotPing] [] []]) srv0 = Some (srv, None)"
    using server_demo_runs by blast
  have "conn_packed server_demo_dev = []" by (simp add: server_demo_dev_def)
  from clients_follow_server [OF run(1) this run(2)] run show ?thesis by (auto split: if_splits)
qed

end
