(* ===== verification/Server_Threads.thy ===== *)
theory Server_Threads
  imports Osvr_Prelude
begin

text \<open>
  The threads of the server (\<^verbatim>\<open>src/osvr/Server/ServerImpl.cpp\<close>, \<^verbatim>\<open>ServerImpl.h\<close>): the thread that
  runs the main loop, and any number of other threads that start and stop it, call the operations
  that go through \<^verbatim>\<open>m_callControlled\<close>, or update a server that has no thread of its own.

  A step is what a thread does between two points at which another one can get in. The phase of a
  thread says which of the mutexes \<^verbatim>\<open>m_runControl\<close> and \<^verbatim>\<open>m_mainThreadMutex\<close> it holds; a step that
  takes one is enabled when it is free. Both are plain mutexes: the thread that holds one waits
  for ever when it takes it again. The run loop manager (\<^verbatim>\<open>vendor/util-headers\<close>) is its two
  variables, whose own mutex is never held while another one is taken.

  Not modelled: \<^verbatim>\<open>setSleepTime\<close>, \<^verbatim>\<open>loadAutoPlugins\<close> and \<^verbatim>\<open>setHardwareDetectOnConnection\<close>, which take no
  lock at all, and a second \<^verbatim>\<open>start\<close> while the loop runs, which \<^verbatim>\<open>start\<close> does not refuse.
\<close>

datatype RunningState = STATE_STOPPED | STATE_STARTING | STATE_RUNNING

text \<open>
  The thread of the main loop: none yet; created; after \<^verbatim>\<open>reportStarting\<close>; before
  \<^verbatim>\<open>m_mainThreadMutex\<close> in \<^verbatim>\<open>m_loop\<close>; in \<^verbatim>\<open>m_update\<close>; in a callback of \<^verbatim>\<open>m_update\<close>, before
  \<^verbatim>\<open>m_runControl\<close> and with it; after the update, with what \<^verbatim>\<open>m_loop\<close> will return; in
  \<^verbatim>\<open>m_orderedDestruction\<close>; before it clears \<^verbatim>\<open>m_running\<close>; before the guard reports the end; ended.
\<close>

datatype loop_phase =
    L_None | L_Spawned | L_Starting | L_WantMain | L_Update | L_CallbackWant | L_Callback
  | L_Between bool | L_Destroying | L_Destroyed | L_Guard | L_Done

text \<open>
  Another thread: outside; in \<^verbatim>\<open>m_callControlled\<close>, before \<^verbatim>\<open>m_runControl\<close>, with it, before
  \<^verbatim>\<open>m_mainThreadMutex\<close>, in the callable with both, in the callable with \<^verbatim>\<open>m_runControl\<close> only; in
  \<^verbatim>\<open>start\<close>, before the lock, after creating the thread, waiting for it to run; in \<^verbatim>\<open>stop\<close>, before
  the lock, destroying a server that never ran, waiting for the loop to stop, joining the thread;
  in \<^verbatim>\<open>update\<close>, before the lock, in \<^verbatim>\<open>m_update\<close>, and in a callback before \<^verbatim>\<open>m_runControl\<close>.
\<close>

datatype caller_phase =
    C_Idle | C_WantRun | C_HasRun | C_WantMain | C_Controlled | C_Direct
  | S_WantRun | S_Created | S_Waiting
  | T_WantRun | T_Destroying | T_Signalled | T_Joining
  | U_WantRun | U_Update | U_CallbackWant

record ServerThreads =
  st_ctx :: bool
  st_running :: bool
  st_everStarted :: bool
  st_shouldStop :: bool
  st_currentState :: RunningState
  st_loop :: loop_phase
  st_callers :: "nat \<Rightarrow> caller_phase"

definition ServerThreads_create :: ServerThreads where
  "ServerThreads_create =
     \<lparr>st_ctx = True, st_running = False, st_everStarted = False, st_shouldStop = False,
      st_currentState = STATE_STOPPED, st_loop = L_None, st_callers = (\<lambda>_. C_Idle)\<rparr>"

fun holds_run :: "caller_phase \<Rightarrow> bool" where
  "holds_run C_HasRun = True"
| "holds_run C_WantMain = True"
| "holds_run C_Controlled = True"
| "holds_run C_Direct = True"
| "holds_run S_Created = True"
| "holds_run S_Waiting = True"
| "holds_run T_Destroying = True"
| "holds_run T_Signalled = True"
| "holds_run T_Joining = True"
| "holds_run U_Update = True"
| "holds_run U_CallbackWant = True"
| "holds_run _ = False"

fun loop_holds_main :: "loop_phase \<Rightarrow> bool" where
  "loop_holds_main L_Update = True"
| "loop_holds_main L_CallbackWant = True"
| "loop_holds_main L_Callback = True"
| "loop_holds_main _ = False"

definition run_free :: "ServerThreads \<Rightarrow> bool" where
  "run_free s \<longleftrightarrow> (\<forall>q. \<not> holds_run (st_callers s q)) \<and> st_loop s \<noteq> L_Callback"

definition main_free :: "ServerThreads \<Rightarrow> bool" where
  "main_free s \<longleftrightarrow> (\<forall>q. st_callers s q \<noteq> C_Controlled) \<and> \<not> loop_holds_main (st_loop s)"

definition set_caller :: "nat \<Rightarrow> caller_phase \<Rightarrow> ServerThreads \<Rightarrow> ServerThreads" where
  "set_caller p ph s = s\<lparr>st_callers := (st_callers s)(p := ph)\<rparr>"

text \<open>
  What the threads do once a call is under way. With \<open>C\<close>, the update may run a callback that goes
  through \<^verbatim>\<open>m_callControlled\<close>: the handler of a client's ping does.
\<close>

inductive st_internal :: "bool \<Rightarrow> ServerThreads \<Rightarrow> ServerThreads \<Rightarrow> bool"
  for C :: bool
where
  call_lock:
    "st_callers s p = C_WantRun \<Longrightarrow> run_free s \<Longrightarrow> st_internal C s (set_caller p C_HasRun s)"
| call_check:
    "st_callers s p = C_HasRun \<Longrightarrow>
     st_internal C s (set_caller p (if st_running s then C_WantMain else C_Direct) s)"
| call_lock_main:
    "st_callers s p = C_WantMain \<Longrightarrow> main_free s \<Longrightarrow> st_internal C s (set_caller p C_Controlled s)"
| call_return:
    "st_callers s p = C_Controlled \<or> st_callers s p = C_Direct \<Longrightarrow> st_internal C s (set_caller p C_Idle s)"
| start_throw:
    "st_callers s p = S_WantRun \<Longrightarrow> run_free s \<Longrightarrow> \<not> st_ctx s \<Longrightarrow> st_internal C s (set_caller p C_Idle s)"
| start_thread:
    "st_callers s p = S_WantRun \<Longrightarrow> run_free s \<Longrightarrow> st_ctx s \<Longrightarrow> st_loop s = L_None \<Longrightarrow>
     st_internal C s (set_caller p S_Created
       (s\<lparr>st_everStarted := True, st_running := True, st_loop := L_Spawned\<rparr>))"
| start_signal:
    "st_callers s p = S_Created \<Longrightarrow>
     st_internal C s (set_caller p S_Waiting (s\<lparr>st_shouldStop := False\<rparr>))"
| start_return:
    "st_callers s p = S_Waiting \<Longrightarrow> st_currentState s = STATE_RUNNING \<Longrightarrow>
     st_internal C s (set_caller p C_Idle s)"
| stop_signal:
    "st_callers s p = T_WantRun \<Longrightarrow> run_free s \<Longrightarrow> st_everStarted s \<Longrightarrow>
     st_internal C s (set_caller p T_Signalled (s\<lparr>st_shouldStop := True\<rparr>))"
| stop_unstarted:
    "st_callers s p = T_WantRun \<Longrightarrow> run_free s \<Longrightarrow> \<not> st_everStarted s \<Longrightarrow>
     st_internal C s (set_caller p T_Destroying s)"
| stop_destroyed:
    "st_callers s p = T_Destroying \<Longrightarrow> st_internal C s (set_caller p C_Idle (s\<lparr>st_ctx := False\<rparr>))"
| stop_stopped:
    "st_callers s p = T_Signalled \<Longrightarrow> st_currentState s = STATE_STOPPED \<Longrightarrow>
     st_internal C s (set_caller p T_Joining s)"
| stop_joined:
    "st_callers s p = T_Joining \<Longrightarrow> st_loop s = L_Done \<Longrightarrow> st_internal C s (set_caller p C_Idle s)"
| update_lock:
    "st_callers s p = U_WantRun \<Longrightarrow> run_free s \<Longrightarrow>
     st_internal C s (set_caller p (if st_everStarted s then C_Idle else U_Update) s)"
| update_callback:
    "C \<Longrightarrow> st_callers s p = U_Update \<Longrightarrow> st_internal C s (set_caller p U_CallbackWant s)"
| update_callback_lock:
    "st_callers s p = U_CallbackWant \<Longrightarrow> run_free s \<Longrightarrow> st_internal C s (set_caller p U_Update s)"
| update_return:
    "st_callers s p = U_Update \<Longrightarrow> st_internal C s (set_caller p C_Idle s)"
| loop_starting:
    "st_loop s = L_Spawned \<Longrightarrow>
     st_internal C s (s\<lparr>st_loop := L_Starting, st_currentState := STATE_STARTING\<rparr>)"
| loop_running:
    "st_loop s = L_Starting \<Longrightarrow>
     st_internal C s (s\<lparr>st_loop := L_WantMain, st_currentState := STATE_RUNNING\<rparr>)"
| loop_lock:
    "st_loop s = L_WantMain \<Longrightarrow> main_free s \<Longrightarrow> st_internal C s (s\<lparr>st_loop := L_Update\<rparr>)"
| loop_callback:
    "C \<Longrightarrow> st_loop s = L_Update \<Longrightarrow> st_internal C s (s\<lparr>st_loop := L_CallbackWant\<rparr>)"
| loop_callback_lock:
    "st_loop s = L_CallbackWant \<Longrightarrow> run_free s \<Longrightarrow> st_internal C s (s\<lparr>st_loop := L_Callback\<rparr>)"
| loop_callback_return:
    "st_loop s = L_Callback \<Longrightarrow> st_internal C s (s\<lparr>st_loop := L_Update\<rparr>)"
| loop_updated:
    "st_loop s = L_Update \<Longrightarrow> st_internal C s (s\<lparr>st_loop := L_Between (\<not> st_shouldStop s)\<rparr>)"
| loop_again:
    "st_loop s = L_Between True \<Longrightarrow> st_internal C s (s\<lparr>st_loop := L_WantMain\<rparr>)"
| loop_ends:
    "st_loop s = L_Between False \<Longrightarrow> st_internal C s (s\<lparr>st_loop := L_Destroying\<rparr>)"
| loop_destroyed:
    "st_loop s = L_Destroying \<Longrightarrow> st_internal C s (s\<lparr>st_loop := L_Destroyed, st_ctx := False\<rparr>)"
| loop_not_running:
    "st_loop s = L_Destroyed \<Longrightarrow> st_internal C s (s\<lparr>st_loop := L_Guard, st_running := False\<rparr>)"
| loop_stopped:
    "st_loop s = L_Guard \<Longrightarrow>
     st_internal C s (s\<lparr>st_loop := L_Done, st_currentState := STATE_STOPPED\<rparr>)"

text \<open>
  All steps: a thread begins a call, or signals the loop to stop; with \<open>E\<close>, also before the
  server was ever started.
\<close>

inductive st_step :: "bool \<Rightarrow> bool \<Rightarrow> ServerThreads \<Rightarrow> ServerThreads \<Rightarrow> bool"
  for C E :: bool
where
  internal: "st_internal C s s' \<Longrightarrow> st_step C E s s'"
| begin_call: "st_callers s p = C_Idle \<Longrightarrow> st_step C E s (set_caller p C_WantRun s)"
| begin_start: "st_callers s p = C_Idle \<Longrightarrow> st_step C E s (set_caller p S_WantRun s)"
| begin_stop: "st_callers s p = C_Idle \<Longrightarrow> st_step C E s (set_caller p T_WantRun s)"
| begin_update: "st_callers s p = C_Idle \<Longrightarrow> st_step C E s (set_caller p U_WantRun s)"
| signalStop:
    "run_free s \<Longrightarrow> E \<or> st_everStarted s \<Longrightarrow> st_step C E s (s\<lparr>st_shouldStop := True\<rparr>)"

definition st_reachable :: "bool \<Rightarrow> bool \<Rightarrow> ServerThreads \<Rightarrow> bool" where
  "st_reachable C E s \<longleftrightarrow> (st_step C E)\<^sup>*\<^sup>* ServerThreads_create s"

lemma set_caller_simps [simp]:
  "st_callers (set_caller p ph s) = (st_callers s)(p := ph)"
  "st_loop (set_caller p ph s) = st_loop s"
  "st_ctx (set_caller p ph s) = st_ctx s"
  "st_running (set_caller p ph s) = st_running s"
  "st_everStarted (set_caller p ph s) = st_everStarted s"
  "st_shouldStop (set_caller p ph s) = st_shouldStop s"
  "st_currentState (set_caller p ph s) = st_currentState s"
  by (simp_all add: set_caller_def)


subsection \<open>Safety\<close>

text \<open>Running something that is meant for the server's thread only.\<close>

fun in_call :: "caller_phase \<Rightarrow> bool" where
  "in_call C_Controlled = True"
| "in_call C_Direct = True"
| "in_call U_Update = True"
| "in_call U_CallbackWant = True"
| "in_call T_Destroying = True"
| "in_call _ = False"

text \<open>The phases that need a server that never ran, and those of its loop after it was started.\<close>

fun needs_unstarted :: "caller_phase \<Rightarrow> bool" where
  "needs_unstarted U_Update = True"
| "needs_unstarted U_CallbackWant = True"
| "needs_unstarted T_Destroying = True"
| "needs_unstarted _ = False"

fun after_running :: "loop_phase \<Rightarrow> bool" where
  "after_running L_None = True"
| "after_running L_Guard = True"
| "after_running L_Done = True"
| "after_running _ = False"

definition st_locks :: "ServerThreads \<Rightarrow> bool" where
  "st_locks s \<longleftrightarrow>
     (\<forall>p q. holds_run (st_callers s p) \<longrightarrow> holds_run (st_callers s q) \<longrightarrow> p = q) \<and>
     (\<forall>p. holds_run (st_callers s p) \<longrightarrow> st_loop s \<noteq> L_Callback) \<and>
     (\<forall>p. st_callers s p = C_Controlled \<longrightarrow> \<not> loop_holds_main (st_loop s))"

definition st_phases :: "ServerThreads \<Rightarrow> bool" where
  "st_phases s \<longleftrightarrow> (st_everStarted s \<longleftrightarrow> st_loop s \<noteq> L_None) \<and>
     (st_running s \<longleftrightarrow> \<not> after_running (st_loop s)) \<and>
     (\<forall>p. needs_unstarted (st_callers s p) \<longrightarrow> st_loop s = L_None) \<and>
     (\<forall>p. st_callers s p = C_Direct \<longrightarrow> after_running (st_loop s))"

lemma st_locks_internal: "st_internal C s s' \<Longrightarrow> st_locks s \<Longrightarrow> st_locks s'"
  by (induction rule: st_internal.induct)
    (auto simp: st_locks_def run_free_def main_free_def split: if_splits, (metis holds_run.simps)+)

lemma st_phases_internal: "st_internal C s s' \<Longrightarrow> st_locks s \<Longrightarrow> st_phases s \<Longrightarrow> st_phases s'"
proof (induction rule: st_internal.induct)
  case (start_thread s p)
  then have "\<not> needs_unstarted (st_callers s q)" "st_callers s q \<noteq> C_Direct" for q
    by (auto simp: run_free_def dest: spec [of _ q] elim!: needs_unstarted.elims)
  with start_thread show ?case by (auto simp: st_phases_def)
qed (auto simp: st_phases_def split: if_splits, (metis needs_unstarted.simps)+)

lemma st_step_inv: "st_step C E s s' \<Longrightarrow> st_locks s \<and> st_phases s \<Longrightarrow> st_locks s' \<and> st_phases s'"
proof (induction rule: st_step.induct)
  case (internal s s')
  then show ?case using st_locks_internal st_phases_internal by blast
qed (auto simp: st_locks_def st_phases_def)

lemma st_reachable_inv: "st_reachable C E s \<Longrightarrow> st_locks s \<and> st_phases s"
  unfolding st_reachable_def
proof (induction rule: rtranclp_induct)
  case base
  show ?case by (simp add: ServerThreads_create_def st_locks_def st_phases_def)
next
  case (step s s')
  then show ?case using st_step_inv by blast
qed

text \<open>
  C10: what is meant for the server's thread runs alone. In every interleaving, while one thread is
  in a callable passed to \<^verbatim>\<open>m_callControlled\<close>, in \<^verbatim>\<open>update\<close>, or destroys a server that never ran, no
  other thread is in one of these, and the main loop is not in its update.
\<close>

theorem controlled_calls_exclusive:
  assumes "st_reachable C E s" and "in_call (st_callers s p)"
  shows "\<not> loop_holds_main (st_loop s) \<and> (\<forall>q. in_call (st_callers s q) \<longleftrightarrow> q = p)"
proof -
  note inv = st_reachable_inv [OF assms(1)]
  have run: "holds_run (st_callers s q)" if "in_call (st_callers s q)" for q
    using that by (cases "st_callers s q") simp_all
  have "q = p" if "in_call (st_callers s q)" for q
    using run [OF that] run [OF assms(2)] inv by (simp add: st_locks_def)
  moreover have "\<not> loop_holds_main (st_loop s)"
  proof (cases "st_callers s p = C_Controlled")
    case True
    with inv show ?thesis by (auto simp: st_locks_def)
  next
    case False
    with assms(2) have "needs_unstarted (st_callers s p) \<or> st_callers s p = C_Direct"
      by (cases "st_callers s p") simp_all
    with inv have "after_running (st_loop s)" by (auto simp: st_phases_def)
    then show ?thesis by (cases "st_loop s") simp_all
  qed
  ultimately show ?thesis using assms(2) by blast
qed


text \<open>The states of runs in which only thread 0 does something.\<close>

definition one_caller ::
    "bool \<Rightarrow> bool \<Rightarrow> bool \<Rightarrow> bool \<Rightarrow> RunningState \<Rightarrow> loop_phase \<Rightarrow> caller_phase \<Rightarrow> ServerThreads" where
  "one_caller ctx running ever stop cur lp ph =
     \<lparr>st_ctx = ctx, st_running = running, st_everStarted = ever, st_shouldStop = stop,
      st_currentState = cur, st_loop = lp, st_callers = (\<lambda>_. C_Idle)(0 := ph)\<rparr>"

lemma one_caller_simps [simp]:
  "st_ctx (one_caller ctx running ever stop cur lp ph) = ctx"
  "st_running (one_caller ctx running ever stop cur lp ph) = running"
  "st_everStarted (one_caller ctx running ever stop cur lp ph) = ever"
  "st_shouldStop (one_caller ctx running ever stop cur lp ph) = stop"
  "st_currentState (one_caller ctx running ever stop cur lp ph) = cur"
  "st_loop (one_caller ctx running ever stop cur lp ph) = lp"
  "st_callers (one_caller ctx running ever stop cur lp ph) = (\<lambda>_. C_Idle)(0 := ph)"
  "one_caller ctx running ever stop cur lp ph\<lparr>st_loop := lp'\<rparr> = one_caller ctx running ever stop cur lp' ph"
  "one_caller ctx running ever stop cur lp ph\<lparr>st_ctx := ctx'\<rparr> = one_caller ctx' running ever stop cur lp ph"
  "one_caller ctx running ever stop cur lp ph\<lparr>st_running := running'\<rparr> = one_caller ctx running' ever stop cur lp ph"
  "one_caller ctx running ever stop cur lp ph\<lparr>st_everStarted := ever'\<rparr> = one_caller ctx running ever' stop cur lp ph"
  "one_caller ctx running ever stop cur lp ph\<lparr>st_shouldStop := stop'\<rparr> = one_caller ctx running ever stop' cur lp ph"
  "one_caller ctx running ever stop cur lp ph\<lparr>st_currentState := cur'\<rparr> = one_caller ctx running ever stop cur' lp ph"
  "set_caller 0 ph' (one_caller ctx running ever stop cur lp ph) = one_caller ctx running ever stop cur lp ph'"
  "run_free (one_caller ctx running ever stop cur lp ph) \<longleftrightarrow> \<not> holds_run ph \<and> lp \<noteq> L_Callback"
  "main_free (one_caller ctx running ever stop cur lp ph) \<longleftrightarrow> ph \<noteq> C_Controlled \<and> \<not> loop_holds_main lp"
  by (auto simp: one_caller_def set_caller_def run_free_def main_free_def fun_eq_iff)

lemma st_reachable_step: "st_reachable C E s \<Longrightarrow> st_step C E s u \<Longrightarrow> s' = u \<Longrightarrow> st_reachable C E s'"
  unfolding st_reachable_def by (metis rtranclp.rtrancl_into_rtrancl)

lemma st_reachable_internal: "st_reachable C E s \<Longrightarrow> st_internal C s u \<Longrightarrow> s' = u \<Longrightarrow> st_reachable C E s'"
  by (erule st_reachable_step) (rule st_step.internal)

lemma st_created: "st_reachable C E (one_caller True False False False STATE_STOPPED L_None C_Idle)"
  by (simp add: st_reachable_def ServerThreads_create_def one_caller_def fun_upd_def)

text \<open>A server whose loop has been started and is in its first update.\<close>

lemma st_started: "st_reachable C E (one_caller True True True False STATE_RUNNING L_Update C_Idle)"
proof -
  have "st_reachable C E (one_caller True False False False STATE_STOPPED L_None S_WantRun)"
    using st_created by (rule st_reachable_step) (rule begin_start [of _ 0], simp_all)
  then have "st_reachable C E (one_caller True True True False STATE_STOPPED L_Spawned S_Created)"
    by (rule st_reachable_internal) (rule start_thread [of _ 0], simp_all)
  then have "st_reachable C E (one_caller True True True False STATE_STOPPED L_Spawned S_Waiting)"
    by (rule st_reachable_internal) (rule start_signal [of _ 0], simp_all)
  then have "st_reachable C E (one_caller True True True False STATE_STARTING L_Starting S_Waiting)"
    by (rule st_reachable_internal) (rule loop_starting, simp_all)
  then have "st_reachable C E (one_caller True True True False STATE_RUNNING L_WantMain S_Waiting)"
    by (rule st_reachable_internal) (rule loop_running, simp_all)
  then have "st_reachable C E (one_caller True True True False STATE_RUNNING L_WantMain C_Idle)"
    by (rule st_reachable_internal) (rule start_return [of _ 0], simp_all)
  then show ?thesis
    by (rule st_reachable_internal) (rule loop_lock, simp_all)
qed

lemma st_calling:
  "st_reachable C E (one_caller True True True False STATE_RUNNING L_Update C_WantMain)"
proof -
  have "st_reachable C E (one_caller True True True False STATE_RUNNING L_Update C_WantRun)"
    using st_started by (rule st_reachable_step) (rule begin_call [of _ 0], simp_all)
  then have "st_reachable C E (one_caller True True True False STATE_RUNNING L_Update C_HasRun)"
    by (rule st_reachable_internal) (rule call_lock [of _ 0], simp_all)
  then show ?thesis
    by (rule st_reachable_internal) (rule call_check [of _ 0], simp_all)
qed

lemma st_call_runs:
  "st_reachable C E (one_caller True True True False STATE_RUNNING (L_Between True) C_Controlled)"
proof -
  have "st_reachable C E (one_caller True True True False STATE_RUNNING (L_Between True) C_WantMain)"
    using st_calling by (rule st_reachable_internal) (rule loop_updated, simp_all)
  then show ?thesis
    by (rule st_reachable_internal) (rule call_lock_main [of _ 0], simp_all)
qed

theorem controlled_calls_exclusive_witness:
  "st_reachable True True (one_caller True True True False STATE_RUNNING (L_Between True) C_Controlled) \<and>
   \<not> loop_holds_main (L_Between True)"
  using controlled_calls_exclusive [OF st_call_runs [of True True], of 0] st_call_runs by simp


subsection \<open>What can go wrong\<close>

definition for_ever :: "bool \<Rightarrow> bool \<Rightarrow> (ServerThreads \<Rightarrow> bool) \<Rightarrow> ServerThreads \<Rightarrow> bool" where
  "for_ever C E Q s \<longleftrightarrow> (\<forall>s'. (st_step C E)\<^sup>*\<^sup>* s s' \<longrightarrow> Q s')"

lemma for_everI:
  assumes "Q s" and "\<And>s s'. Q s \<Longrightarrow> st_step C E s s' \<Longrightarrow> Q s'"
  shows "for_ever C E Q s"
  unfolding for_ever_def
proof (intro allI impI)
  fix s' assume "(st_step C E)\<^sup>*\<^sup>* s s'"
  then show "Q s'" by (induction rule: rtranclp_induct) (use assms in auto)
qed

text \<open>The four kinds of threads that wait for ever.\<close>

definition call_deadlock :: "ServerThreads \<Rightarrow> bool" where
  "call_deadlock s \<longleftrightarrow> st_callers s 0 = C_WantMain \<and> st_loop s = L_CallbackWant"

definition stop_deadlock :: "ServerThreads \<Rightarrow> bool" where
  "stop_deadlock s \<longleftrightarrow> st_callers s 0 = T_Signalled \<and> st_loop s = L_CallbackWant \<and> st_currentState s = STATE_RUNNING"

definition update_deadlock :: "ServerThreads \<Rightarrow> bool" where
  "update_deadlock s \<longleftrightarrow> st_callers s 0 = U_CallbackWant"

definition start_waits :: "ServerThreads \<Rightarrow> bool" where
  "start_waits s \<longleftrightarrow> st_callers s 0 = S_Waiting \<and> st_loop s = L_Done \<and> st_currentState s = STATE_STOPPED"

lemma not_run_free: "holds_run (st_callers s p) \<Longrightarrow> \<not> run_free s"
  by (auto simp: run_free_def)

lemma call_deadlock_step: "call_deadlock s \<Longrightarrow> st_step C E s s' \<Longrightarrow> call_deadlock s'"
  using not_run_free [of s 0]
  by (auto simp: call_deadlock_def main_free_def intro!: gr0I elim!: st_step.cases st_internal.cases split: if_splits)

lemma stop_deadlock_step: "stop_deadlock s \<Longrightarrow> st_step C E s s' \<Longrightarrow> stop_deadlock s'"
  using not_run_free [of s 0]
  by (auto simp: stop_deadlock_def intro!: gr0I elim!: st_step.cases st_internal.cases split: if_splits)

lemma update_deadlock_step: "update_deadlock s \<Longrightarrow> st_step C E s s' \<Longrightarrow> update_deadlock s'"
  using not_run_free [of s 0]
  by (auto simp: update_deadlock_def intro!: gr0I elim!: st_step.cases st_internal.cases split: if_splits)

lemma start_waits_step: "start_waits s \<Longrightarrow> st_step C E s s' \<Longrightarrow> start_waits s'"
  using not_run_free [of s 0]
  by (auto simp: start_waits_def intro!: gr0I elim!: st_step.cases st_internal.cases split: if_splits)


lemma st_callback_begins:
  "st_reachable True E (one_caller True True True False STATE_RUNNING L_CallbackWant C_Idle)"
  using st_started by (rule st_reachable_internal) (rule loop_callback, simp_all)

lemma reach_call_deadlock:
  "st_reachable True E (one_caller True True True False STATE_RUNNING L_CallbackWant C_WantMain)"
  using st_calling by (rule st_reachable_internal) (rule loop_callback, simp_all)

lemma reach_stop_deadlock:
  "st_reachable True E (one_caller True True True True STATE_RUNNING L_CallbackWant T_Signalled)"
proof -
  have "st_reachable True E (one_caller True True True False STATE_RUNNING L_CallbackWant T_WantRun)"
    using st_callback_begins by (rule st_reachable_step) (rule begin_stop [of _ 0], simp_all)
  then show ?thesis by (rule st_reachable_internal) (rule stop_signal [of _ 0], simp_all)
qed

lemma reach_update_deadlock:
  "st_reachable True E (one_caller True False False False STATE_STOPPED L_None U_CallbackWant)"
proof -
  have "st_reachable True E (one_caller True False False False STATE_STOPPED L_None U_WantRun)"
    using st_created by (rule st_reachable_step) (rule begin_update [of _ 0], simp_all)
  then have "st_reachable True E (one_caller True False False False STATE_STOPPED L_None U_Update)"
    by (rule st_reachable_internal) (rule update_lock [of _ 0], simp_all)
  then show ?thesis by (rule st_reachable_internal) (rule update_callback [OF TrueI, of _ 0], simp_all)
qed

text \<open>The loop comes to its end as soon as it has been told to.\<close>

lemma reach_destroying:
  assumes "st_reachable C E (one_caller True True True True cur (L_Between False) ph)"
  shows "st_reachable C E (one_caller True True True True cur L_Destroying ph)"
  using assms by (rule st_reachable_internal) (rule loop_ends, simp_all)

lemma reach_done:
  assumes "st_reachable C E (one_caller True True True True cur L_Destroying ph)"
  shows "st_reachable C E (one_caller False False True True STATE_STOPPED L_Done ph)"
proof -
  have "st_reachable C E (one_caller False True True True cur L_Destroyed ph)"
    using assms by (rule st_reachable_internal) (rule loop_destroyed, simp_all)
  then have "st_reachable C E (one_caller False False True True cur L_Guard ph)"
    by (rule st_reachable_internal) (rule loop_not_running, simp_all)
  then show ?thesis by (rule st_reachable_internal) (rule loop_stopped, simp_all)
qed

lemma reach_start_waits:
  "st_reachable C True (one_caller False False True False STATE_STOPPED L_Done S_Waiting)"
proof -
  have "st_reachable C True (one_caller True False False True STATE_STOPPED L_None C_Idle)"
    using st_created by (rule st_reachable_step) (rule st_step.signalStop, simp_all)
  then have "st_reachable C True (one_caller True False False True STATE_STOPPED L_None S_WantRun)"
    by (rule st_reachable_step) (rule begin_start [of _ 0], simp_all)
  then have "st_reachable C True (one_caller True True True True STATE_STOPPED L_Spawned S_Created)"
    by (rule st_reachable_internal) (rule start_thread [of _ 0], simp_all)
  then have "st_reachable C True (one_caller True True True True STATE_STARTING L_Starting S_Created)"
    by (rule st_reachable_internal) (rule loop_starting, simp_all)
  then have "st_reachable C True (one_caller True True True True STATE_RUNNING L_WantMain S_Created)"
    by (rule st_reachable_internal) (rule loop_running, simp_all)
  then have "st_reachable C True (one_caller True True True True STATE_RUNNING L_Update S_Created)"
    by (rule st_reachable_internal) (rule loop_lock, simp_all)
  then have "st_reachable C True (one_caller True True True True STATE_RUNNING (L_Between False) S_Created)"
    by (rule st_reachable_internal) (rule loop_updated, simp_all)
  from reach_done [OF reach_destroying [OF this]]
  show ?thesis by (rule st_reachable_internal) (rule start_signal [of _ 0], simp_all)
qed

lemma reach_call_while_destroying:
  "st_reachable C E (one_caller True True True True STATE_RUNNING L_Destroying C_Controlled)"
proof -
  have "st_reachable C E (one_caller True True True True STATE_RUNNING L_Update C_Idle)"
    using st_started by (rule st_reachable_step) (rule st_step.signalStop, simp_all)
  then have "st_reachable C E (one_caller True True True True STATE_RUNNING (L_Between False) C_Idle)"
    by (rule st_reachable_internal) (rule loop_updated, simp_all)
  then have "st_reachable C E (one_caller True True True True STATE_RUNNING L_Destroying C_Idle)"
    by (rule reach_destroying)
  then have "st_reachable C E (one_caller True True True True STATE_RUNNING L_Destroying C_WantRun)"
    by (rule st_reachable_step) (rule begin_call [of _ 0], simp_all)
  then have "st_reachable C E (one_caller True True True True STATE_RUNNING L_Destroying C_HasRun)"
    by (rule st_reachable_internal) (rule call_lock [of _ 0], simp_all)
  then have "st_reachable C E (one_caller True True True True STATE_RUNNING L_Destroying C_WantMain)"
    by (rule st_reachable_internal) (rule call_check [of _ 0], simp_all)
  then show ?thesis by (rule st_reachable_internal) (rule call_lock_main [of _ 0], simp_all)
qed

text \<open>
  C12: how the server's threads come to a stop for ever. A thread in \<^verbatim>\<open>m_callControlled\<close> waits for the
  end of an update whose ping handler waits for \<^verbatim>\<open>m_runControl\<close>, which the thread holds; \<^verbatim>\<open>stop\<close>
  waits for the loop in the same way; \<^verbatim>\<open>update\<close> takes \<^verbatim>\<open>m_runControl\<close> again in its own ping
  handler; a \<^verbatim>\<open>start\<close> after \<^verbatim>\<open>signalStop\<close> may wait for a loop that has already ended. And a call may
  run while the loop's thread destroys the context, or after it did.
\<close>

theorem server_threads_errors:
  "(\<exists>s. st_reachable True E s \<and> for_ever C' E' call_deadlock s) \<and>
   (\<exists>s. st_reachable True E s \<and> for_ever C' E' stop_deadlock s) \<and>
   (\<exists>s. st_reachable True E s \<and> for_ever C' E' update_deadlock s) \<and>
   (\<exists>s. st_reachable C True s \<and> for_ever C' E' start_waits s) \<and>
   (\<exists>s. st_reachable C E s \<and> st_callers s 0 = C_Controlled \<and> st_loop s = L_Destroying) \<and>
   (\<exists>s. st_reachable C E s \<and> st_callers s 0 = C_Controlled \<and> \<not> st_ctx s)"
proof (intro conjI)
  show "\<exists>s. st_reachable True E s \<and> for_ever C' E' call_deadlock s"
    by (rule exI [of _ "one_caller True True True False STATE_RUNNING L_CallbackWant C_WantMain"], intro conjI reach_call_deadlock for_everI,
        simp add: call_deadlock_def, erule call_deadlock_step)
  show "\<exists>s. st_reachable True E s \<and> for_ever C' E' stop_deadlock s"
    by (rule exI [of _ "one_caller True True True True STATE_RUNNING L_CallbackWant T_Signalled"], intro conjI reach_stop_deadlock for_everI,
        simp add: stop_deadlock_def, erule stop_deadlock_step)
  show "\<exists>s. st_reachable True E s \<and> for_ever C' E' update_deadlock s"
    by (rule exI [of _ "one_caller True False False False STATE_STOPPED L_None U_CallbackWant"], intro conjI reach_update_deadlock for_everI,
        simp add: update_deadlock_def, erule update_deadlock_step)
  show "\<exists>s. st_reachable C True s \<and> for_ever C' E' start_waits s"
    by (rule exI [of _ "one_caller False False True False STATE_STOPPED L_Done S_Waiting"], intro conjI reach_start_waits for_everI,
        simp add: start_waits_def, erule start_waits_step)
  show "\<exists>s. st_reachable C E s \<and> st_callers s 0 = C_Controlled \<and> st_loop s = L_Destroying"
    using reach_call_while_destroying
    by (intro exI [of _ "one_caller True True True True STATE_RUNNING L_Destroying C_Controlled"]) simp
  have "st_reachable C E (one_caller False True True True STATE_RUNNING L_Destroyed C_Controlled)"
    using reach_call_while_destroying by (rule st_reachable_internal) (rule loop_destroyed, simp_all)
  then show "\<exists>s. st_reachable C E s \<and> st_callers s 0 = C_Controlled \<and> \<not> st_ctx s"
    by (intro exI [of _ "one_caller False True True True STATE_RUNNING L_Destroyed C_Controlled"]) simp
qed


subsection \<open>Every call completes\<close>

text \<open>
  With no such handler and no \<^verbatim>\<open>signalStop\<close> before the first \<^verbatim>\<open>start\<close>, what is known of the phases.
\<close>

fun state_of :: "loop_phase \<Rightarrow> RunningState" where
  "state_of L_None = STATE_STOPPED"
| "state_of L_Spawned = STATE_STOPPED"
| "state_of L_Starting = STATE_STARTING"
| "state_of L_Done = STATE_STOPPED"
| "state_of _ = STATE_RUNNING"

fun ending :: "loop_phase \<Rightarrow> bool" where
  "ending (L_Between b) = (\<not> b)"
| "ending L_Destroying = True"
| "ending L_Destroyed = True"
| "ending L_Guard = True"
| "ending L_Done = True"
| "ending _ = False"

definition starter :: "caller_phase \<Rightarrow> bool" where
  "starter ph \<longleftrightarrow> ph = S_Created \<or> ph = S_Waiting"

definition st_flags :: "ServerThreads \<Rightarrow> bool" where
  "st_flags s \<longleftrightarrow> st_loop s \<noteq> L_CallbackWant \<and> st_loop s \<noteq> L_Callback \<and>
     (\<forall>p. st_callers s p \<noteq> U_CallbackWant) \<and> st_currentState s = state_of (st_loop s) \<and>
     (st_shouldStop s \<longrightarrow> st_everStarted s) \<and> (ending (st_loop s) \<longrightarrow> st_shouldStop s)"

definition st_waits :: "ServerThreads \<Rightarrow> bool" where
  "st_waits s \<longleftrightarrow>
     (\<forall>p. starter (st_callers s p) \<longrightarrow> \<not> st_shouldStop s \<and> st_loop s \<noteq> L_None) \<and>
     (\<forall>p. st_callers s p = T_Signalled \<longrightarrow> st_shouldStop s \<and> st_loop s \<noteq> L_None) \<and>
     (\<forall>p. st_callers s p = T_Joining \<longrightarrow> st_loop s = L_Done)"

definition st_awaited :: "ServerThreads \<Rightarrow> bool" where
  "st_awaited s \<longleftrightarrow> (st_loop s = L_Spawned \<or> st_loop s = L_Starting \<longrightarrow> (\<exists>p. starter (st_callers s p)))"

lemma starter_holds: "starter ph \<Longrightarrow> holds_run ph"
  by (auto simp: starter_def)

lemma starter_simps [simp]: "starter S_Created" "starter S_Waiting" "\<not> starter C_Idle"
  "\<not> starter C_HasRun" "\<not> starter C_WantMain" "\<not> starter C_Direct" "\<not> starter C_Controlled" "\<not> starter T_Signalled"
  "\<not> starter T_Joining" "\<not> starter T_Destroying" "\<not> starter U_Update"
  by (simp_all add: starter_def)

lemma only_holder: "st_locks s \<Longrightarrow> holds_run (st_callers s p) \<Longrightarrow> starter (st_callers s q) \<Longrightarrow> q = p"
  using starter_holds unfolding st_locks_def by blast

lemma waitsD:
  assumes "st_waits s"
  shows "st_callers s p = S_Created \<Longrightarrow> \<not> st_shouldStop s \<and> st_loop s \<noteq> L_None"
    and "st_callers s p = S_Waiting \<Longrightarrow> \<not> st_shouldStop s \<and> st_loop s \<noteq> L_None"
    and "st_callers s p = T_Signalled \<Longrightarrow> st_shouldStop s \<and> st_loop s \<noteq> L_None"
    and "st_callers s p = T_Joining \<Longrightarrow> st_loop s = L_Done"
  using assms starter_simps(1,2) unfolding st_waits_def by metis+

lemma st_flags_internal:
  "st_internal False s s' \<Longrightarrow> st_phases s \<Longrightarrow> st_waits s \<Longrightarrow> st_flags s \<Longrightarrow> st_flags s'"
proof (induction rule: st_internal.induct)
  case (start_signal s p)
  with waitsD(1) [of s p] show ?case by (auto simp: st_flags_def)
qed (auto simp: st_flags_def st_phases_def split: if_splits)

lemma stopped_loop:
  assumes "st_flags s" and "st_awaited s" and "st_locks s" and "holds_run (st_callers s p)"
    and "\<not> starter (st_callers s p)" and "st_currentState s = STATE_STOPPED"
  shows "st_loop s = L_None \<or> st_loop s = L_Done"
proof -
  have "\<not> starter (st_callers s q)" for q using only_holder [OF assms(3,4)] assms(5) by metis
  then have "st_loop s \<noteq> L_Spawned" using assms(2) by (simp add: st_awaited_def)
  moreover have "state_of (st_loop s) = STATE_STOPPED" using assms(1,6) by (simp add: st_flags_def)
  ultimately show ?thesis by (cases "st_loop s") simp_all
qed

lemma st_waits_internal:
  "st_internal False s s' \<Longrightarrow> st_locks s \<Longrightarrow> st_phases s \<Longrightarrow> st_flags s \<Longrightarrow> st_awaited s \<Longrightarrow> st_waits s \<Longrightarrow>
   st_waits s'"
proof (induction rule: st_internal.induct)
  case (stop_stopped s p)
  then have "st_loop s = L_Done" using stopped_loop [of s p] waitsD(3) [of s p] by auto
  with stop_stopped show ?case by (auto simp: st_waits_def)
next
  case (start_thread s p)
  then have "\<not> holds_run (st_callers s q)" for q by (simp add: run_free_def)
  then have "st_callers s q \<noteq> T_Joining" "st_callers s q \<noteq> T_Signalled" "\<not> starter (st_callers s q)" for q
    using starter_holds by (metis holds_run.simps)+
  with start_thread show ?case by (auto simp: st_waits_def st_flags_def st_phases_def)
next
  case (start_signal s p)
  then have "st_callers s q \<noteq> T_Signalled" for q
    using only_holder [of s q p] by auto
  moreover have "st_loop s \<noteq> L_None" using waitsD(1) [of s p] start_signal by simp
  moreover have "st_callers s q = T_Joining \<Longrightarrow> st_loop s = L_Done" for q
    using waitsD(4) start_signal by simp
  ultimately show ?case by (auto simp: st_waits_def)
next
  case (stop_signal s p)
  then have "\<not> starter (st_callers s q)" for q using starter_holds by (auto simp: run_free_def)
  with stop_signal show ?case by (auto simp: st_waits_def st_phases_def)
qed (auto simp: st_waits_def split: if_splits)

lemma starter_kept:
  "st_internal False s s' \<Longrightarrow> st_flags s \<Longrightarrow> starter (st_callers s p) \<Longrightarrow>
   st_loop s' = L_Spawned \<or> st_loop s' = L_Starting \<Longrightarrow> starter (st_callers s' p)"
proof (induction rule: st_internal.induct)
  case (start_return s q)
  then show ?case by (cases "st_loop s") (simp_all add: st_flags_def)
qed (auto simp: starter_def)

lemma begins_starting:
  "st_internal False s s' \<Longrightarrow> st_loop s' = L_Spawned \<or> st_loop s' = L_Starting \<Longrightarrow>
   st_loop s = L_Spawned \<or> st_loop s = L_Starting \<or> (\<exists>p. starter (st_callers s' p))"
  by (induction rule: st_internal.induct) auto

lemma st_awaited_internal:
  "st_internal False s s' \<Longrightarrow> st_flags s \<Longrightarrow> st_awaited s \<Longrightarrow> st_awaited s'"
  using starter_kept [of s s'] begins_starting [of s s'] unfolding st_awaited_def by blast


definition st_inv :: "ServerThreads \<Rightarrow> bool" where
  "st_inv s \<longleftrightarrow> st_locks s \<and> st_phases s \<and> st_flags s \<and> st_waits s \<and> st_awaited s"

lemma st_inv_internal: "st_internal False s s' \<Longrightarrow> st_inv s \<Longrightarrow> st_inv s'"
  unfolding st_inv_def
  using st_locks_internal st_phases_internal st_flags_internal st_waits_internal st_awaited_internal by blast

lemma st_begins_inv:
  assumes "st_callers s p = C_Idle" and "ph \<in> {C_WantRun, S_WantRun, T_WantRun, U_WantRun}" and "st_inv s"
  shows "st_inv (set_caller p ph s)"
proof -
  let ?u = "set_caller p ph s"
  have ph: "\<not> starter ph" "\<not> holds_run ph" "\<not> needs_unstarted ph" using assms(2) by (auto simp: starter_def)
  with assms(1) have same: "starter (st_callers ?u q) = starter (st_callers s q)"
    "holds_run (st_callers ?u q) = holds_run (st_callers s q)"
    "needs_unstarted (st_callers ?u q) = needs_unstarted (st_callers s q)" for q
    by simp_all
  have special: "st_callers ?u q = ph' \<longleftrightarrow> st_callers s q = ph'"
    if "ph' \<in> {C_Controlled, C_Direct, T_Signalled, T_Joining, U_CallbackWant}" for q ph'
    using that assms(1,2) by auto
  from assms(3) show ?thesis
    unfolding st_inv_def st_locks_def st_phases_def st_flags_def st_waits_def st_awaited_def same
    by (simp add: special del: set_caller_simps(1), blast)
qed

lemma st_inv_step: "st_step False False s s' \<Longrightarrow> st_inv s \<Longrightarrow> st_inv s'"
proof (induction rule: st_step.induct)
  case (signalStop s)
  then have "\<not> starter (st_callers s q)" for q using starter_holds by (auto simp: run_free_def)
  with signalStop show ?case
    by (auto simp: st_inv_def st_locks_def st_phases_def st_flags_def st_waits_def st_awaited_def)
qed (auto intro: st_inv_internal st_begins_inv)

lemma st_reachable_st_inv: "st_reachable False False s \<Longrightarrow> st_inv s"
  unfolding st_reachable_def
proof (induction rule: rtranclp_induct)
  case base
  show ?case
    by (simp add: ServerThreads_create_def st_inv_def st_locks_def st_phases_def st_flags_def st_waits_def
        st_awaited_def starter_def)
next
  case (step s s')
  then show ?case using st_inv_step by blast
qed

text \<open>
  Thread \<open>p\<close> can complete its call, alone with the loop: every other thread stays where it is,
  and a server that has not been started or is destroyed stays so.
\<close>

definition finishes :: "nat \<Rightarrow> ServerThreads \<Rightarrow> bool" where
  "finishes p s \<longleftrightarrow> (\<exists>s'. (st_internal False)\<^sup>*\<^sup>* s s' \<and> st_callers s' = (st_callers s)(p := C_Idle) \<and>
     (starter (st_callers s p) \<or> st_callers s p = S_WantRun \<or> st_loop s \<noteq> L_None \<or> st_loop s' = L_None) \<and>
     (\<not> st_ctx s \<longrightarrow> \<not> st_ctx s'))"

lemma finishes_idle: "st_callers s p = C_Idle \<Longrightarrow> finishes p s"
  unfolding finishes_def by (intro exI [of _ s]) auto

lemma finishes_step:
  assumes "st_internal False s u" and "finishes p u" and "st_callers u = (st_callers s)(p := ph)"
    and "starter (st_callers s p) \<or> st_callers s p = S_WantRun \<or> st_loop s \<noteq> L_None \<or>
      st_loop u = L_None \<and> \<not> starter ph \<and> ph \<noteq> S_WantRun"
    and "\<not> st_ctx s \<Longrightarrow> \<not> st_ctx u"
  shows "finishes p s"
proof -
  from assms(2) obtain s' where s': "(st_internal False)\<^sup>*\<^sup>* u s'" "st_callers s' = (st_callers u)(p := C_Idle)"
    "starter (st_callers u p) \<or> st_callers u p = S_WantRun \<or> st_loop u \<noteq> L_None \<or> st_loop s' = L_None"
    "\<not> st_ctx u \<longrightarrow> \<not> st_ctx s'"
    unfolding finishes_def by blast
  from assms(1) s'(1) have "(st_internal False)\<^sup>*\<^sup>* s s'" by (rule converse_rtranclp_into_rtranclp)
  with s' assms(3-5) show ?thesis unfolding finishes_def by (intro exI [of _ s']) auto
qed


lemma finishes_caller:
  assumes "st_internal False s (set_caller p ph v)" and "finishes p (set_caller p ph v)"
    and "st_callers v = st_callers s"
    and "starter (st_callers s p) \<or> st_callers s p = S_WantRun \<or> st_loop s \<noteq> L_None \<or>
      st_loop v = L_None \<and> \<not> starter ph \<and> ph \<noteq> S_WantRun"
    and "\<not> st_ctx s \<Longrightarrow> \<not> st_ctx v"
  shows "finishes p s"
  using assms by (intro finishes_step [OF assms(1,2)]) auto

lemma not_controlled:
  "st_locks s \<Longrightarrow> holds_run (st_callers s p) \<Longrightarrow> st_callers s p \<noteq> C_Controlled \<Longrightarrow> st_callers s q \<noteq> C_Controlled"
  unfolding st_locks_def by (metis holds_run.simps(3))

text \<open>A step of the loop on the way of thread \<open>p\<close>, which waits for it.\<close>

lemma finishes_loop:
  assumes "st_internal False s u" and "finishes p u" and "st_callers u = st_callers s"
    and "st_loop s \<noteq> L_None" and "\<not> st_ctx s \<Longrightarrow> \<not> st_ctx u"
  shows "finishes p s"
  using assms(1,2) by (rule finishes_step [where ph = "st_callers s p"]) (use assms in auto)

lemma finishes_call:
  "st_callers s p = C_Controlled \<or> st_callers s p = C_Direct \<Longrightarrow> finishes p s"
  by (rule finishes_caller [OF call_return [of s p] finishes_idle]) auto

lemma finishes_WantMain:
  assumes "st_inv s" and "st_callers s p = C_WantMain"
  shows "finishes p s"
proof -
  have lock: "finishes p u" if "main_free u" "st_callers u p = C_WantMain" for u
    by (rule finishes_caller [OF call_lock_main [OF that(2,1)] finishes_call]) (use that in auto)
  show ?thesis
  proof (cases "main_free s")
    case True
    from lock [OF this assms(2)] show ?thesis .
  next
    case False
    have "st_callers s q \<noteq> C_Controlled" for q
      using not_controlled [of s p q] assms by (simp add: st_inv_def)
    moreover from this False assms(1) have loop: "st_loop s = L_Update"
      by (cases "st_loop s") (auto simp: main_free_def st_inv_def st_flags_def)
    ultimately show ?thesis
      by (intro finishes_loop [OF loop_updated [OF loop] lock])
        (auto simp: main_free_def assms(2))
  qed
qed

lemma finishes_HasRun:
  assumes "st_inv s" and "st_callers s p = C_HasRun"
  shows "finishes p s"
proof -
  let ?u = "set_caller p (if st_running s then C_WantMain else C_Direct) s"
  have step: "st_internal False s ?u" by (rule call_check [OF assms(2)])
  have "finishes p ?u"
    using finishes_WantMain [OF st_inv_internal [OF step assms(1)], of p] finishes_call [of ?u p] by auto
  then show ?thesis by (rule finishes_caller [OF step]) auto
qed

lemma finishes_S_Waiting:
  assumes "st_inv s" and "st_callers s p = S_Waiting"
  shows "finishes p s"
proof -
  have run: "finishes p u" if "st_currentState u = STATE_RUNNING" "st_callers u p = S_Waiting" for u
    by (rule finishes_caller [OF start_return [OF that(2,1)] finishes_idle]) (use that in auto)
  have starting: "finishes p u" if "st_loop u = L_Starting" "st_callers u p = S_Waiting" for u
    by (rule finishes_loop [OF loop_running [OF that(1)] run]) (use that in auto)
  have spawned: "finishes p s" if "st_loop s = L_Spawned"
    by (rule finishes_loop [OF loop_starting [OF that] starting]) (use that assms in auto)
  have "\<not> st_shouldStop s" "st_loop s \<noteq> L_None" "st_currentState s = state_of (st_loop s)"
    "ending (st_loop s) \<longrightarrow> st_shouldStop s"
    using assms waitsD(2) [of s p] by (auto simp: st_inv_def st_flags_def)
  then show ?thesis using run [of s] starting [of s] spawned assms(2) by (cases "st_loop s") auto
qed

lemma finishes_S_Created:
  assumes "st_inv s" and "st_callers s p = S_Created"
  shows "finishes p s"
proof -
  note step = start_signal [OF assms(2)]
  from finishes_S_Waiting [OF st_inv_internal [OF step assms(1)], of p]
  show ?thesis by (intro finishes_caller [OF step]) (auto simp: assms(2))
qed

fun loop_rank :: "loop_phase \<Rightarrow> nat" where
  "loop_rank (L_Between True) = 8"
| "loop_rank L_WantMain = 7"
| "loop_rank L_Update = 6"
| "loop_rank (L_Between False) = 5"
| "loop_rank L_Destroying = 4"
| "loop_rank L_Destroyed = 3"
| "loop_rank L_Guard = 2"
| "loop_rank _ = 0"

lemma finishes_Signalled:
  assumes "st_inv s" and "st_callers s p = T_Signalled"
  shows "finishes p s"
  using assms
proof (induction "loop_rank (st_loop s)" arbitrary: s rule: less_induct)
  case less
  note inv = less.prems(1) and p = less.prems(2)
  have on: "finishes p s" if "st_internal False s u" "st_callers u = st_callers s" "st_loop s \<noteq> L_None"
      "\<not> st_ctx s \<Longrightarrow> \<not> st_ctx u" "loop_rank (st_loop u) < loop_rank (st_loop s)" for u
  proof (rule finishes_loop [OF that(1) _ that(2,3,4)])
    have "st_callers u p = T_Signalled" using that(2) p by simp
    then show "finishes p u" by (rule less.hyps [OF that(5) st_inv_internal [OF that(1) inv]])
  qed
  have stop: "st_shouldStop s" "st_loop s \<noteq> L_None" using waitsD(3) [of s p] inv p by (auto simp: st_inv_def)
  have "\<not> starter (st_callers s q)" for q
    using only_holder [of s p q] inv p by (auto simp: st_inv_def)
  then have "st_loop s \<noteq> L_Spawned" "st_loop s \<noteq> L_Starting" using inv by (auto simp: st_inv_def st_awaited_def)
  moreover have "st_loop s \<noteq> L_CallbackWant" "st_loop s \<noteq> L_Callback" using inv by (auto simp: st_inv_def st_flags_def)
  moreover have "main_free s" if "st_loop s = L_WantMain"
  proof -
    have "st_callers s q \<noteq> C_Controlled" for q
      using not_controlled [of s p q] inv p by (simp add: st_inv_def)
    with that show ?thesis by (simp add: main_free_def)
  qed
  moreover have "finishes p s" if "st_loop s = L_Done"
  proof -
    have "st_currentState s = STATE_STOPPED" using inv that by (simp add: st_inv_def st_flags_def)
    note stopped = stop_stopped [OF p this]
    have "finishes p (set_caller p T_Joining s)"
      by (rule finishes_caller [OF stop_joined [of _ p] finishes_idle]) (simp_all add: that)
    then show ?thesis by (rule finishes_caller [OF stopped]) (auto simp: that)
  qed
  moreover have "finishes p s" if "st_loop s = L_Between b" for b
    using on [OF loop_again] on [OF loop_ends] that by (cases b) auto
  ultimately show ?case
    using stop on [OF loop_lock] on [OF loop_updated] on [OF loop_destroyed] on [OF loop_not_running]
      on [OF loop_stopped]
    by (cases "st_loop s") auto
qed

lemma finishes_Joining:
  assumes "st_inv s" and "st_callers s p = T_Joining"
  shows "finishes p s"
proof -
  have loop: "st_loop s = L_Done" using waitsD(4) [of s p] assms by (simp add: st_inv_def)
  show ?thesis
    by (rule finishes_caller [OF stop_joined [OF assms(2) loop] finishes_idle]) (simp_all add: loop)
qed

lemma finishes_Destroying: "st_callers s p = T_Destroying \<Longrightarrow> finishes p s"
  by (rule finishes_caller [OF stop_destroyed finishes_idle]) (auto simp: starter_def)

lemma finishes_Update: "st_callers s p = U_Update \<Longrightarrow> finishes p s"
  by (rule finishes_caller [OF update_return finishes_idle]) (auto simp: starter_def)

text \<open>Whoever holds \<^verbatim>\<open>m_runControl\<close> gives it back.\<close>

lemma holder_finishes:
  assumes "st_inv s" and "holds_run (st_callers s p)"
  shows "finishes p s"
proof -
  have "st_callers s p \<noteq> U_CallbackWant" using assms(1) by (simp add: st_inv_def st_flags_def)
  then show ?thesis
    using assms finishes_call finishes_WantMain finishes_HasRun finishes_S_Waiting finishes_S_Created
      finishes_Signalled finishes_Joining finishes_Destroying finishes_Update
    by (cases "st_callers s p") auto
qed

lemma st_inv_internals: "(st_internal False)\<^sup>*\<^sup>* s s' \<Longrightarrow> st_inv s \<Longrightarrow> st_inv s'"
  by (induction rule: rtranclp_induct) (auto intro: st_inv_internal)

lemma gets_run:
  assumes "st_inv s"
  obtains s' where "(st_internal False)\<^sup>*\<^sup>* s s'" and "run_free s'" and "st_inv s'"
    and "\<And>q. \<not> holds_run (st_callers s q) \<Longrightarrow> st_callers s' q = st_callers s q"
    and "st_loop s \<noteq> L_None \<or> st_loop s' = L_None" and "\<not> st_ctx s \<longrightarrow> \<not> st_ctx s'"
proof (cases "\<exists>q. holds_run (st_callers s q)")
  case False
  with assms have "run_free s" by (auto simp: run_free_def st_inv_def st_flags_def)
  with assms show ?thesis by (intro that [of s]) auto
next
  case True
  then obtain q where q: "holds_run (st_callers s q)" by blast
  from holder_finishes [OF assms q] obtain s' where s': "(st_internal False)\<^sup>*\<^sup>* s s'"
    "st_callers s' = (st_callers s)(q := C_Idle)"
    "starter (st_callers s q) \<or> st_callers s q = S_WantRun \<or> st_loop s \<noteq> L_None \<or> st_loop s' = L_None"
    "\<not> st_ctx s \<longrightarrow> \<not> st_ctx s'"
    unfolding finishes_def by blast
  have inv: "st_inv s'" using st_inv_internals [OF s'(1) assms] .
  have "\<not> holds_run (st_callers s' r)" for r
    using q assms s'(2) by (auto simp: st_inv_def st_locks_def)
  then have "run_free s'" using inv by (simp add: run_free_def st_inv_def st_flags_def)
  moreover have "starter (st_callers s q) \<Longrightarrow> st_loop s \<noteq> L_None"
    using assms by (auto simp: st_inv_def st_waits_def)
  ultimately show ?thesis using q s' inv by (intro that [of s']) auto
qed

lemma finishes_waiting:
  assumes "st_inv s" and "run_free s" and "\<not> holds_run (st_callers s p)"
    and "st_callers s p = S_WantRun \<Longrightarrow> st_loop s = L_None \<or> \<not> st_ctx s"
  shows "\<exists>s'. (st_internal False)\<^sup>*\<^sup>* s s' \<and> st_callers s' p = C_Idle"
proof (cases "st_callers s p = C_Idle")
  case True
  then show ?thesis by blast
next
  case False
  have "\<exists>u. st_internal False s u \<and> (holds_run (st_callers u p) \<or> st_callers u p = C_Idle)"
  proof (cases "st_callers s p")
    case C_WantRun
    then show ?thesis using call_lock [OF C_WantRun assms(2), of False] by fastforce
  next
    case S_WantRun
    then show ?thesis
      using start_throw [OF S_WantRun assms(2), of False] start_thread [OF S_WantRun assms(2), of False] assms(4)
      by (cases "st_ctx s") fastforce+
  next
    case T_WantRun
    then show ?thesis
      using stop_signal [OF T_WantRun assms(2), of False] stop_unstarted [OF T_WantRun assms(2), of False]
      by (cases "st_everStarted s") fastforce+
  next
    case U_WantRun
    then show ?thesis
      using update_lock [OF U_WantRun assms(2), of False] by (cases "st_everStarted s") fastforce+
  qed (use assms False in auto)
  then obtain u where u: "st_internal False s u" "holds_run (st_callers u p) \<or> st_callers u p = C_Idle" by blast
  then have "finishes p u" using holder_finishes [OF st_inv_internal [OF u(1) assms(1)]] finishes_idle by blast
  then obtain s' where "(st_internal False)\<^sup>*\<^sup>* u s'" "st_callers s' p = C_Idle"
    unfolding finishes_def by (metis fun_upd_same)
  with u(1) show ?thesis by (meson converse_rtranclp_into_rtranclp)
qed

text \<open>
  C11: without such callbacks, no thread waits for ever. If the update runs no callback that goes
  through \<^verbatim>\<open>m_callControlled\<close> and the loop is not told to stop before it was ever started, then
  from every reachable state every call under way can complete by the steps of the threads that
  are under way; a second \<^verbatim>\<open>start\<close> apart.
\<close>

theorem server_calls_complete:
  assumes "st_reachable False False s"
    and "st_callers s p = S_WantRun \<Longrightarrow> st_loop s = L_None \<or> \<not> st_ctx s"
  shows "\<exists>s'. (st_internal False)\<^sup>*\<^sup>* s s' \<and> st_callers s' p = C_Idle"
proof -
  have inv: "st_inv s" using assms(1) by (rule st_reachable_st_inv)
  show ?thesis
  proof (cases "holds_run (st_callers s p)")
    case True
    from holder_finishes [OF inv this] show ?thesis unfolding finishes_def by auto
  next
    case False
    obtain u where u: "(st_internal False)\<^sup>*\<^sup>* s u" "run_free u" "st_inv u" "st_callers u p = st_callers s p"
      "st_loop s \<noteq> L_None \<or> st_loop u = L_None" "\<not> st_ctx s \<longrightarrow> \<not> st_ctx u"
      using gets_run [OF inv] False by metis
    have "\<exists>s'. (st_internal False)\<^sup>*\<^sup>* u s' \<and> st_callers s' p = C_Idle"
      by (rule finishes_waiting [OF u(3,2)]) (use u(4-6) False assms(2) in auto)
    with u(1) show ?thesis by (meson rtranclp_trans)
  qed
qed

theorem server_calls_complete_witness:
  "\<exists>s'. (st_internal False)\<^sup>*\<^sup>* (one_caller True True True False STATE_RUNNING L_Update C_WantMain) s' \<and>
     st_callers s' 0 = C_Idle"
  by (rule server_calls_complete [OF st_calling]) simp

end
