(* ===== verification/Server_Config.thy ===== *)
theory Server_Config
  imports Server_Tree
begin

text \<open>
  Setting up a server from a configuration file: \<^verbatim>\<open>src/osvr/Server/ConfigureServer.cpp\<close>,
  \<^verbatim>\<open>JSONResolvePossibleRef.cpp\<close> and the order in which \<^verbatim>\<open>inc/osvr/Server/ConfigureServerFromFile.h\<close>
  runs its steps.

  Parameters: the JSON library, the files (\<open>files\<close> gives the text of a file), the plugin host
  (what loading a plugin or instantiating a driver does to the server and the text of the
  exception it throws), and the creation of a connection and a server on it. As everywhere, a
  step returns the state it leaves next to its result, and \<open>None\<close> is a wildcard alias that does
  not end. What is printed is left out.
\<close>

subsection \<open>References to files\<close>

record file_system =
  files :: "string \<Rightarrow> string option"
  path_join :: "string \<Rightarrow> string \<Rightarrow> string"

definition attemptLoad :: "json_lib \<Rightarrow> file_system \<Rightarrow> string \<Rightarrow> json" where
  "attemptLoad L F fullFn =
     (case files F fullFn of
        None \<Rightarrow> JNull
      | Some text \<Rightarrow> (case lib_parse L text of None \<Rightarrow> JNull | Some v \<Rightarrow> v))"

fun loadFromFile :: "json_lib \<Rightarrow> file_system \<Rightarrow> string \<Rightarrow> string list \<Rightarrow> json" where
  "loadFromFile L F fn [] = attemptLoad L F fn"
| "loadFromFile L F fn (path # searchPath) =
     (let ret = attemptLoad L F (path_join F path fn) in
      if ret \<noteq> JNull then ret else loadFromFile L F fn searchPath)"

definition resolvePossibleRef ::
    "json_lib \<Rightarrow> file_system \<Rightarrow> json \<Rightarrow> bool \<Rightarrow> string list \<Rightarrow> (exn, json) result" where
  "resolvePossibleRef L F input stringAcceptableResult searchPath =
     (if isString input
      then result_bind (asString L input) (\<lambda>fn.
             let ret = loadFromFile L F fn searchPath in
             Inr (if ret = JNull \<and> stringAcceptableResult then input else ret))
      else
        result_bind (if isObject input then isMember input ''$ref'' else Inr False) (\<lambda>hasRef.
          if hasRef
          then result_bind (json_at input ''$ref'') (\<lambda>ref.
                 result_bind (asString L ref) (\<lambda>fn.
                   let ret = loadFromFile L F fn searchPath in
                   Inr (if ret \<noteq> JNull then ret else input)))
          else Inr input))"


subsection \<open>Constructing the server\<close>

fun isBool :: "json \<Rightarrow> bool" where
  "isBool (JBool b) = True"
| "isBool _ = False"

fun isInt :: "json \<Rightarrow> bool" where
  "isInt (JInt i) = in_int_range i"
| "isInt (JUInt i) = in_int_range i"
| "isInt (JReal x) = (- (2 ^ 31) \<le> x \<and> x \<le> 2 ^ 31 - 1 \<and> of_int \<lfloor>x\<rfloor> = x)"
| "isInt _ = False"

text \<open>\<^verbatim>\<open>asDouble\<close> of a value for which \<^verbatim>\<open>isDouble\<close> holds.\<close>

fun double_value :: "json \<Rightarrow> rat option" where
  "double_value (JReal x) = Some x"
| "double_value (JInt i) = Some (of_int i)"
| "double_value (JUInt i) = Some (of_int i)"
| "double_value _ = None"

record 'h ConfigureServer =
  cfg_root :: json
  cfg_server :: "'h Server"
  m_successfulPlugins :: "string list"
  m_failedPlugins :: "(string \<times> string) list"
  m_successfulInstances :: "string list"
  m_failedInstances :: "(string \<times> string) list"

text \<open>
  The plugin host and the factories of connections: a local server, or a server shared on an
  interface and a port. \<open>to_usecs\<close> is the product of a double and 1000.0, truncated.
\<close>

record 'h host =
  host_loadPlugin :: "string \<Rightarrow> 'h Server \<Rightarrow> 'h Server \<times> string option"
  host_instantiateDriver :: "string \<Rightarrow> string \<Rightarrow> string \<Rightarrow> 'h Server \<Rightarrow> 'h Server \<times> string option"
  host_loadPlugins :: "'h Server \<Rightarrow> 'h server_result"
  host_createLocal :: "(exn, 'h Server) result"
  host_createShared :: "string \<Rightarrow> int option \<Rightarrow> (exn, 'h Server) result"
  host_to_usecs :: "rat \<Rightarrow> int"

text \<open>What the \<^verbatim>\<open>server\<close> object says: local, the interface, the port, the sleep time in microseconds.\<close>

definition server_options ::
    "json_lib \<Rightarrow> 'h host \<Rightarrow> int \<Rightarrow> json \<Rightarrow> (exn, bool \<times> string \<times> int option \<times> int) result" where
  "server_options L H defaultSleep config =
     result_bind (isMember config ''server'') (\<lambda>present.
       if \<not> present then Inr (True, [], None, defaultSleep)
       else
         result_bind (json_at config ''server'') (\<lambda>jsonServer.
         result_bind (json_at jsonServer ''interface'') (\<lambda>jsonInterface.
         result_bind (json_at jsonServer ''local'') (\<lambda>jsonLocal.
         result_bind (if isString jsonInterface then result_bind (asString L jsonInterface) (\<lambda>s. Inr (False, s))
                      else if isBool jsonLocal then result_bind (asBool jsonLocal) (\<lambda>b. Inr (b, []))
                      else Inr (True, [])) (\<lambda>(local, iface).
         result_bind (json_at jsonServer ''port'') (\<lambda>jsonPort.
         result_bind (if isInt jsonPort
                      then result_bind (asInt jsonPort) (\<lambda>myPort. if myPort < 1 then Inl OutOfRange else Inr (Some myPort))
                      else Inr None) (\<lambda>port.
         result_bind (json_at jsonServer ''sleep'') (\<lambda>jsonSleepTime.
           Inr (local, iface, port,
                case double_value jsonSleepTime of None \<Rightarrow> defaultSleep | Some x \<Rightarrow> host_to_usecs H x)))))))))"

definition constructServer :: "json_lib \<Rightarrow> 'h host \<Rightarrow> int \<Rightarrow> json \<Rightarrow> (exn, 'h ConfigureServer) result" where
  "constructServer L H defaultSleep config =
     result_bind (server_options L H defaultSleep config) (\<lambda>(local, iface, port, sleepTime).
       result_bind (if local \<and> port = None then host_createLocal H else host_createShared H iface port) (\<lambda>srv.
         Inr \<lparr>cfg_root = config,
              cfg_server = setHardwareDetectOnConnection (if sleepTime > 0 then setSleepTime sleepTime srv else srv),
              m_successfulPlugins = [], m_failedPlugins = [], m_successfulInstances = [], m_failedInstances = []\<rparr>))"


subsection \<open>Plugins and drivers\<close>

text \<open>The entries of a value read by index; the first access throws when it is an object with members.\<close>

fun indexed_entries :: "json \<Rightarrow> (exn, json list) result" where
  "indexed_entries (JArray xs) = Inr xs"
| "indexed_entries (JObject (m # ms)) = Inl (RuntimeError ''in Json::Value::operator[](ArrayIndex)const: requires arrayValue'')"
| "indexed_entries _ = Inr []"

type_synonym 'h config_step = "'h ConfigureServer \<times> (exn, bool) result"

fun load_entries :: "json_lib \<Rightarrow> 'h host \<Rightarrow> nat \<Rightarrow> json list \<Rightarrow> bool \<Rightarrow> 'h ConfigureServer \<Rightarrow> 'h config_step" where
  "load_entries L H i [] success c = (c, Inr success)"
| "load_entries L H i (entry # entries) success c =
     (case entry of
        JString plugin \<Rightarrow>
          (case host_loadPlugin H plugin (cfg_server c) of
             (srv, None) \<Rightarrow>
               load_entries L H (Suc i) entries success
                 (c\<lparr>cfg_server := srv, m_successfulPlugins := m_successfulPlugins c @ [plugin]\<rparr>)
           | (srv, Some what) \<Rightarrow>
               load_entries L H (Suc i) entries False
                 (c\<lparr>cfg_server := srv, m_failedPlugins := m_failedPlugins c @ [(plugin, what)]\<rparr>))
      | _ \<Rightarrow>
          load_entries L H (Suc i) entries False
            (c\<lparr>m_failedPlugins := m_failedPlugins c @
                 [(''Plugin entry '' @ decimal_text i, ''Plugin name not string: '' @ lib_styled L entry)]\<rparr>))"

definition loadPlugins :: "json_lib \<Rightarrow> 'h host \<Rightarrow> 'h ConfigureServer \<Rightarrow> 'h config_step" where
  "loadPlugins L H c =
     (case result_bind (json_at (cfg_root c) ''plugins'') indexed_entries of
        Inl e \<Rightarrow> (c, Inl e)
      | Inr entries \<Rightarrow> load_entries L H 0 entries True c)"

text \<open>
  One entry of \<^verbatim>\<open>drivers\<close>. The third test repeats the second one, so that an entry with a plugin
  and no driver is instantiated with the empty name.
\<close>

definition instantiate_entry :: "json_lib \<Rightarrow> 'h host \<Rightarrow> json \<Rightarrow> 'h ConfigureServer \<Rightarrow> 'h config_step" where
  "instantiate_entry L H thisDriver c =
     (let failed = (\<lambda>name what. (c\<lparr>m_failedInstances := m_failedInstances c @ [(name, what)]\<rparr>, Inr False)) in
      case (json_at thisDriver ''plugin'', json_at thisDriver ''driver'') of
        (Inl e, _) \<Rightarrow> (c, Inl e)
      | (_, Inl e) \<Rightarrow> (c, Inl e)
      | (Inr jsonPlugin, Inr jsonDriver) \<Rightarrow>
          let hasPlugin = isString jsonPlugin; hasDriver = isString jsonDriver in
          if \<not> hasPlugin \<and> \<not> hasDriver
          then failed ''?'' ''Entry present in drivers but lacking both a driver name and a plugin name''
          else if \<not> hasPlugin
          then (case asString L jsonDriver of
                  Inl e \<Rightarrow> (c, Inl e)
                | Inr driver \<Rightarrow>
                    failed (''?/'' @ driver) ''Entry present in drivers with a driver name but lacking a plugin name'')
          else
            (case asString L jsonPlugin of
               Inl e \<Rightarrow> (c, Inl e)
             | Inr plugin \<Rightarrow>
                 if \<not> hasPlugin
                 then failed (plugin @ ''/?'') ''Entry present in drivers with a plugin name but lacking a driver name''
                 else
                   (case asString L jsonDriver of
                      Inl e \<Rightarrow> (c, Inl e)
                    | Inr driver \<Rightarrow>
                        (case json_at thisDriver ''params'' of
                           Inl e \<Rightarrow> (c, Inl e)
                         | Inr params \<Rightarrow>
                             (case host_instantiateDriver H plugin driver (lib_styled L params) (cfg_server c) of
                                (srv, None) \<Rightarrow>
                                  (c\<lparr>cfg_server := srv,
                                     m_successfulInstances := m_successfulInstances c @ [plugin @ ''/'' @ driver]\<rparr>, Inr True)
                              | (srv, Some what) \<Rightarrow>
                                  (c\<lparr>cfg_server := srv,
                                     m_failedInstances := m_failedInstances c @ [(plugin @ ''/'' @ driver, what)]\<rparr>, Inr False))))))"

fun instantiate_entries :: "json_lib \<Rightarrow> 'h host \<Rightarrow> json list \<Rightarrow> bool \<Rightarrow> 'h ConfigureServer \<Rightarrow> 'h config_step" where
  "instantiate_entries L H [] success c = (c, Inr success)"
| "instantiate_entries L H (d # ds) success c =
     (case instantiate_entry L H d c of
        (c', Inl e) \<Rightarrow> (c', Inl e)
      | (c', Inr ok) \<Rightarrow> instantiate_entries L H ds (success \<and> ok) c')"

definition instantiateDrivers :: "json_lib \<Rightarrow> 'h host \<Rightarrow> 'h ConfigureServer \<Rightarrow> 'h config_step" where
  "instantiateDrivers L H c =
     (case json_at (cfg_root c) ''drivers'' of
        Inl e \<Rightarrow> (c, Inl e)
      | Inr drivers \<Rightarrow> instantiate_entries L H (json_elements drivers) True c)"


subsection \<open>The tree\<close>

definition on_server :: "'h ConfigureServer \<Rightarrow> 'h server_result \<Rightarrow> 'h ConfigureServer \<times> exn option" where
  "on_server c out = (c\<lparr>cfg_server := fst out\<rparr>, snd out)"

fun add_routes :: "json_lib \<Rightarrow> json list \<Rightarrow> bool \<Rightarrow> 'h ConfigureServer \<Rightarrow> 'h config_step option" where
  "add_routes L [] success c = Some (c, Inr success)"
| "add_routes L (route # routes) success c =
     do { out \<leftarrow> server_addRoute L (lib_styled L route) (cfg_server c);
          (case on_server c out of
             (c', Some e) \<Rightarrow> Some (c', Inl e)
           | (c', None) \<Rightarrow> add_routes L routes True c') }"

definition processRoutes :: "json_lib \<Rightarrow> 'h ConfigureServer \<Rightarrow> 'h config_step option" where
  "processRoutes L c =
     (case result_bind (json_at (cfg_root c) ''routes'') indexed_entries of
        Inl e \<Rightarrow> Some (c, Inl e)
      | Inr routes \<Rightarrow> add_routes L routes False c)"

text \<open>What \<^verbatim>\<open>Server::addAliases\<close> and \<^verbatim>\<open>Server::addString\<close> return: whether the tree was changed.\<close>

definition aliases_changed :: "json_lib \<Rightarrow> json \<Rightarrow> 'h Server \<Rightarrow> (exn, bool) result option" where
  "aliases_changed L aliases srv =
     map_option snd
       (process_alias L (enableWildcard (setDefaultPriority ALIASPRIORITY_MANUAL AliasProcessor_create)) (sv_tree srv) 0 aliases)"

definition string_changed :: "string \<Rightarrow> string \<Rightarrow> 'h Server \<Rightarrow> (exn, bool) result" where
  "string_changed path val srv =
     (case getNodeByPath (sv_tree srv) path of
        (t, Inl e) \<Rightarrow> Inl e
      | (t, Inr node) \<Rightarrow> Inr (StringElement val \<noteq> value_of t node))"

definition processAliases :: "json_lib \<Rightarrow> 'h ConfigureServer \<Rightarrow> 'h config_step option" where
  "processAliases L c =
     (case json_at (cfg_root c) ''aliases'' of
        Inl e \<Rightarrow> Some (c, Inl e)
      | Inr aliases \<Rightarrow>
          if aliases = JNull then Some (c, Inr False)
          else
            do { out \<leftarrow> server_addAliases L aliases ALIASPRIORITY_MANUAL (cfg_server c);
                 success \<leftarrow> aliases_changed L aliases (cfg_server c);
                 Some (fst (on_server c out), success) })"

text \<open>
  One external device: its arguments, \<open>None\<close> when something is missing and the entry is skipped.
\<close>

definition external_device ::
    "json_lib \<Rightarrow> file_system \<Rightarrow> json \<Rightarrow> (exn, (string \<times> string \<times> string) option) result" where
  "external_device L F dev =
     result_bind (json_at dev ''deviceName'') (\<lambda>devName.
     result_bind (json_at dev ''server'') (\<lambda>server.
     result_bind (result_bind (json_at dev ''descriptor'') (\<lambda>d. resolvePossibleRef L F d False [])) (\<lambda>descriptor.
       if devName = JNull \<or> server = JNull \<or> descriptor = JNull then Inr None
       else
         result_bind (asString L devName) (\<lambda>n.
         result_bind (asString L server) (\<lambda>s.
           Inr (Some (n, s, lib_styled L descriptor)))))))"

fun add_devices ::
    "json_lib \<Rightarrow> file_system \<Rightarrow> json \<Rightarrow> string list \<Rightarrow> bool \<Rightarrow> 'h ConfigureServer \<Rightarrow> 'h config_step option" where
  "add_devices L F devices [] success c = Some (c, Inr success)"
| "add_devices L F devices (devPath # devPaths) success c =
     (case result_bind (json_at devices devPath) (external_device L F) of
        Inl e \<Rightarrow> Some (c, Inl e)
      | Inr None \<Rightarrow> add_devices L F devices devPaths success c
      | Inr (Some (devName, server, descriptor)) \<Rightarrow>
          do { out \<leftarrow> addExternalDevice L devPath devName server descriptor (cfg_server c);
               (case on_server c out of
                  (c', Some e) \<Rightarrow> Some (c', Inl e)
                | (c', None) \<Rightarrow> add_devices L F devices devPaths True c') })"

definition processExternalDevices :: "json_lib \<Rightarrow> file_system \<Rightarrow> 'h ConfigureServer \<Rightarrow> 'h config_step option" where
  "processExternalDevices L F c =
     (case json_at (cfg_root c) ''externalDevices'' of
        Inl e \<Rightarrow> Some (c, Inl e)
      | Inr devices \<Rightarrow>
          if devices = JNull then Some (c, Inr False)
          else (case getMemberNames devices of
                  Inl e \<Rightarrow> Some (c, Inl e)
                | Inr devPaths \<Rightarrow> add_devices L F devices devPaths False c))"

text \<open>The display and the configuration of the render manager become strings of the tree.\<close>

definition process_string ::
    "json_lib \<Rightarrow> file_system \<Rightarrow> string \<Rightarrow> string \<Rightarrow> 'h ConfigureServer \<Rightarrow> 'h config_step option" where
  "process_string L F key path c =
     (case json_at (cfg_root c) key of
        Inl e \<Rightarrow> Some (c, Inl e)
      | Inr value \<Rightarrow>
          if value = JNull then Some (c, Inr False)
          else
            (case resolvePossibleRef L F value False [] of
               Inl e \<Rightarrow> Some (c, Inl e)
             | Inr result \<Rightarrow>
                 if result = JNull then Some (c, Inr False)
                 else
                   do { out \<leftarrow> addString path (lib_styled L result) (cfg_server c);
                        Some (fst (on_server c out), string_changed path (lib_styled L result) (cfg_server c)) }))"

definition processDisplay :: "json_lib \<Rightarrow> file_system \<Rightarrow> 'h ConfigureServer \<Rightarrow> 'h config_step option" where
  "processDisplay L F = process_string L F ''display'' ''/display''"

definition processRenderManagerParameters :: "json_lib \<Rightarrow> file_system \<Rightarrow> 'h ConfigureServer \<Rightarrow> 'h config_step option" where
  "processRenderManagerParameters L F = process_string L F ''renderManagerConfig'' ''/renderManagerConfig''"


subsection \<open>The whole configuration\<close>

text \<open>A step after which the next one runs unless it threw.\<close>

definition config_then ::
    "'h config_step option \<Rightarrow> ('h ConfigureServer \<Rightarrow> 'h config_step option) \<Rightarrow> 'h config_step option" where
  "config_then r k =
     do { out \<leftarrow> r; (case out of (c, Inl e) \<Rightarrow> Some (c, Inl e) | (c, Inr success) \<Rightarrow> k c) }"

definition loadAutoPlugins :: "'h host \<Rightarrow> 'h ConfigureServer \<Rightarrow> 'h config_step" where
  "loadAutoPlugins H c =
     (case on_server c (host_loadPlugins H (cfg_server c)) of
        (c', Some e) \<Rightarrow> (c', Inl e)
      | (c', None) \<Rightarrow> (c', Inr True))"

definition tree_steps :: "json_lib \<Rightarrow> file_system \<Rightarrow> 'h ConfigureServer \<Rightarrow> 'h config_step option" where
  "tree_steps L F c =
     config_then (processExternalDevices L F c) (\<lambda>c.
     config_then (processRoutes L c) (\<lambda>c.
     config_then (processAliases L c) (\<lambda>c.
     config_then (processDisplay L F c)
       (processRenderManagerParameters L F))))"

definition configure_steps :: "json_lib \<Rightarrow> file_system \<Rightarrow> 'h host \<Rightarrow> 'h ConfigureServer \<Rightarrow> 'h config_step option" where
  "configure_steps L F H c =
     config_then (Some (loadAutoPlugins H c)) (\<lambda>c.
     config_then (Some (loadPlugins L H c)) (\<lambda>c.
     config_then (Some (instantiateDrivers L H c)) (\<lambda>c.
     config_then (tree_steps L F c) (\<lambda>c.
       Some (c\<lparr>cfg_server := triggerHardwareDetect (cfg_server c)\<rparr>, Inr True)))))"

text \<open>
  Without the file, with a file that does not parse, or when the server cannot be constructed
  there is no server: \<open>Inl\<close>. An exception of a later step is not caught.
\<close>

definition loadConfig :: "json_lib \<Rightarrow> string \<Rightarrow> (exn, json) result" where
  "loadConfig L text =
     (case lib_parse L text of
        None \<Rightarrow> Inl (RuntimeError ''Error in parsing JSON: '')
      | Some config \<Rightarrow> Inr config)"

definition configureServerFromFile ::
    "json_lib \<Rightarrow> file_system \<Rightarrow> 'h host \<Rightarrow> int \<Rightarrow> string \<Rightarrow> (unit, 'h config_step) result option" where
  "configureServerFromFile L F H defaultSleep configName =
     (case files F configName of
        None \<Rightarrow> Some (Inl ())
      | Some text \<Rightarrow>
          (case result_bind (loadConfig L text) (constructServer L H defaultSleep) of
             Inl e \<Rightarrow> Some (Inl ())
           | Inr c \<Rightarrow> map_option Inr (configure_steps L F H c)))"



subsection \<open>The configuration as a history of the server\<close>

declare result_bind_eq_Inr [simp del]

text \<open>The events a configuration stands for, in the order of the steps; \<open>Inl\<close> when reading it throws.\<close>

fun result_list :: "(exn, 'a) result list \<Rightarrow> (exn, 'a list) result" where
  "result_list [] = Inr []"
| "result_list (r # rs) = result_bind r (\<lambda>x. result_bind (result_list rs) (\<lambda>xs. Inr (x # xs)))"

definition route_events :: "json_lib \<Rightarrow> json \<Rightarrow> (exn, server_event list) result" where
  "route_events L config =
     result_bind (result_bind (json_at config ''routes'') indexed_entries)
       (\<lambda>routes. Inr (map (\<lambda>route. CallAddRoute (lib_styled L route)) routes))"

definition alias_events :: "json \<Rightarrow> (exn, server_event list) result" where
  "alias_events config =
     result_bind (json_at config ''aliases'')
       (\<lambda>aliases. Inr (if aliases = JNull then [] else [CallAddAliases aliases ALIASPRIORITY_MANUAL]))"

definition device_event :: "json_lib \<Rightarrow> file_system \<Rightarrow> json \<Rightarrow> string \<Rightarrow> (exn, server_event list) result" where
  "device_event L F devices devPath =
     result_bind (result_bind (json_at devices devPath) (external_device L F))
       (\<lambda>d. Inr (case d of None \<Rightarrow> [] | Some (n, s, descriptor) \<Rightarrow> [CallAddExternalDevice devPath n s descriptor]))"

definition device_events :: "json_lib \<Rightarrow> file_system \<Rightarrow> json \<Rightarrow> (exn, server_event list) result" where
  "device_events L F config =
     result_bind (json_at config ''externalDevices'') (\<lambda>devices.
       if devices = JNull then Inr []
       else result_bind (getMemberNames devices) (\<lambda>devPaths.
         result_bind (result_list (map (device_event L F devices) devPaths)) (\<lambda>ess. Inr (concat ess))))"

definition string_events :: "json_lib \<Rightarrow> file_system \<Rightarrow> string \<Rightarrow> string \<Rightarrow> json \<Rightarrow> (exn, server_event list) result" where
  "string_events L F key path config =
     result_bind (json_at config key) (\<lambda>value.
       if value = JNull then Inr []
       else result_bind (resolvePossibleRef L F value False []) (\<lambda>v.
         Inr (if v = JNull then [] else [CallAddString path (lib_styled L v)])))"

definition config_events :: "json_lib \<Rightarrow> file_system \<Rightarrow> json \<Rightarrow> (exn, server_event list) result" where
  "config_events L F config =
     result_bind (result_list [device_events L F config, route_events L config, alias_events config,
         string_events L F ''display'' ''/display'' config,
         string_events L F ''renderManagerConfig'' ''/renderManagerConfig'' config])
       (\<lambda>ess. Inr (concat ess))"

text \<open>What a step leaves of the server, and the exception; a step that runs these events.\<close>

definition as_events :: "'h config_step option \<Rightarrow> 'h server_result option" where
  "as_events r = map_option (\<lambda>(c, x). (cfg_server c, case x of Inl e \<Rightarrow> Some e | Inr b \<Rightarrow> None)) r"

definition runs_events ::
    "json_lib \<Rightarrow> json \<Rightarrow> server_event list \<Rightarrow> ('h ConfigureServer \<Rightarrow> 'h config_step option) \<Rightarrow> bool" where
  "runs_events L config es step \<longleftrightarrow>
     (\<forall>c. cfg_root c = config \<longrightarrow> as_events (step c) = run_events L es (cfg_server c) \<and>
        (\<forall>c' r. step c = Some (c', r) \<longrightarrow> cfg_root c' = config))"

lemma run_events_append:
  "run_events L (es @ es') srv =
     do { (s, x) \<leftarrow> run_events L es srv; if x = None then run_events L es' s else Some (s, x) }"
proof (induction es arbitrary: srv)
  case Nil
  then show ?case by simp
next
  case (Cons e es)
  show ?case
  proof (cases "server_do L e srv")
    case None
    then show ?thesis by simp
  next
    case (Some out)
    then show ?thesis by (cases out) (auto simp: Cons split: option.splits)
  qed
qed

lemma runs_then:
  assumes "runs_events L config es f" and "runs_events L config es' g"
  shows "runs_events L config (es @ es') (\<lambda>c. config_then (f c) g)"
  unfolding runs_events_def
proof (intro allI impI conjI)
  fix c :: "'a ConfigureServer"
  assume c: "cfg_root c = config"
  then have f: "as_events (f c) = run_events L es (cfg_server c)"
    and fr: "\<And>c' r. f c = Some (c', r) \<Longrightarrow> cfg_root c' = config"
    using assms(1) unfolding runs_events_def by blast+
  have g: "as_events (g c') = run_events L es' (cfg_server c')" "g c' = Some (c'', r) \<Longrightarrow> cfg_root c'' = config"
    if "cfg_root c' = config" for c' c'' r
    using assms(2) that unfolding runs_events_def by blast+
  show "as_events (config_then (f c) g) = run_events L (es @ es') (cfg_server c)"
  proof (cases "f c")
    case None
    then have "run_events L es (cfg_server c) = None" using f by (simp add: as_events_def)
    with None show ?thesis by (simp add: as_events_def config_then_def run_events_append)
  next
    case (Some out)
    obtain c' r where out: "out = (c', r)" by fastforce
    show ?thesis
    proof (cases r)
      case (Inl e)
      then have "run_events L es (cfg_server c) = Some (cfg_server c', Some e)"
        using f Some out by (simp add: as_events_def)
      then show ?thesis using Some out Inl by (simp add: as_events_def config_then_def run_events_append)
    next
      case (Inr b)
      then have "run_events L es (cfg_server c) = Some (cfg_server c', None)"
        using f Some out by (simp add: as_events_def)
      moreover have "as_events (g c') = run_events L es' (cfg_server c')" using g(1) fr Some out by blast
      ultimately show ?thesis using Some out Inr by (simp add: config_then_def run_events_append)
    qed
  qed
  show "cfg_root c' = config" if "config_then (f c) g = Some (c', r)" for c' r
  proof -
    from that obtain c1 r1 where r1: "f c = Some (c1, r1)"
      "(case r1 of Inl e \<Rightarrow> Some (c1, Inl e) | Inr b \<Rightarrow> g c1) = Some (c', r)"
      by (auto simp: config_then_def bind_eq_Some_conv)
    show ?thesis
    proof (cases r1)
      case (Inl e)
      with r1 fr show ?thesis by auto
    next
      case (Inr b)
      with r1(2) have "g c1 = Some (c', r)" by simp
      with g(2) fr [OF r1(1)] show ?thesis by blast
    qed
  qed
qed

lemma runs_nothing: "(\<And>c. cfg_root c = config \<Longrightarrow> \<exists>b. step c = Some (c, Inr b)) \<Longrightarrow> runs_events L config [] step"
  unfolding runs_events_def as_events_def by fastforce

definition keeps_root :: "'h ConfigureServer \<Rightarrow> 'h config_step option \<Rightarrow> bool" where
  "keeps_root c r \<longleftrightarrow> (\<forall>c' x. r = Some (c', x) \<longrightarrow> cfg_root c' = cfg_root c)"

lemma keeps_root_simps [simp]:
  "keeps_root (c\<lparr>cfg_server := srv\<rparr>) = keeps_root c"
  "keeps_root c None"
  "keeps_root c (Some (c', x)) \<longleftrightarrow> cfg_root c' = cfg_root c"
  by (auto simp: keeps_root_def fun_eq_iff)

lemma runs_eventsI:
  "(\<And>c. cfg_root c = config \<Longrightarrow> as_events (step c) = run_events L es (cfg_server c) \<and> keeps_root c (step c)) \<Longrightarrow>
   runs_events L config es step"
  unfolding runs_events_def keeps_root_def by metis

lemma add_routes_events:
  "as_events (add_routes L routes success c) = run_events L (map (\<lambda>route. CallAddRoute (lib_styled L route)) routes) (cfg_server c) \<and>
   keeps_root c (add_routes L routes success c)"
proof (induction routes arbitrary: success c)
  case Nil
  then show ?case by (simp add: as_events_def)
next
  case (Cons route routes)
  show ?case
  proof (cases "server_addRoute L (lib_styled L route) (cfg_server c)")
    case None
    then show ?thesis by (simp add: as_events_def)
  next
    case (Some out)
    obtain srv x where out: "out = (srv, x)" by fastforce
    show ?thesis
    proof (cases x)
      case None
      then have "add_routes L (route # routes) success c = add_routes L routes True (c\<lparr>cfg_server := srv\<rparr>)"
        using Some out by (simp add: on_server_def)
      with Cons [of True "c\<lparr>cfg_server := srv\<rparr>"] show ?thesis using Some out None by simp
    next
      case (Some e)
      then show ?thesis using \<open>server_addRoute L (lib_styled L route) (cfg_server c) = Some out\<close> out
        by (simp add: as_events_def on_server_def)
    qed
  qed
qed

lemma routes_run:
  assumes "route_events L config = Inr es"
  shows "runs_events L config es (processRoutes L)"
proof -
  from assms obtain routes where "result_bind (json_at config ''routes'') indexed_entries = Inr routes"
    "es = map (\<lambda>route. CallAddRoute (lib_styled L route)) routes"
    by (cases "result_bind (json_at config ''routes'') indexed_entries")
      (simp_all add: route_events_def)
  then show ?thesis
    using add_routes_events [of L routes False] by (intro runs_eventsI) (simp add: processRoutes_def)
qed

lemma add_devices_events:
  "result_list (map (device_event L F devices) devPaths) = Inr ess \<Longrightarrow>
   as_events (add_devices L F devices devPaths success c) = run_events L (concat ess) (cfg_server c) \<and>
   keeps_root c (add_devices L F devices devPaths success c)"
proof (induction devPaths arbitrary: ess success c)
  case Nil
  then show ?case by (simp add: as_events_def)
next
  case (Cons devPath devPaths)
  then obtain es ess' where e: "device_event L F devices devPath = Inr es"
    "result_list (map (device_event L F devices) devPaths) = Inr ess'" "ess = es # ess'"
    by (auto simp: result_bind_eq_Inr)
  then obtain d where d: "result_bind (json_at devices devPath) (external_device L F) = Inr d"
    "result_list (map (device_event L F devices) devPaths) = Inr ess'" "ess = es # ess'"
    "es = (case d of None \<Rightarrow> [] | Some (n, s, descriptor) \<Rightarrow> [CallAddExternalDevice devPath n s descriptor])"
    by (cases "result_bind (json_at devices devPath) (external_device L F)")
      (simp_all add: device_event_def)
  show ?case
  proof (cases d)
    case None
    with d Cons.IH [OF d(2)] show ?thesis by simp
  next
    case (Some a)
    obtain n s descriptor where a: "a = (n, s, descriptor)" using prod_cases3 by blast
    show ?thesis
    proof (cases "addExternalDevice L devPath n s descriptor (cfg_server c)")
      case None
      with d Some a show ?thesis by (simp add: as_events_def)
    next
      case out: (Some out)
      obtain srv x where sx: "out = (srv, x)" by fastforce
      show ?thesis
      proof (cases x)
        case None
        then have "add_devices L F devices (devPath # devPaths) success c =
            add_devices L F devices devPaths True (c\<lparr>cfg_server := srv\<rparr>)"
          using d(1) Some a out sx by (simp add: on_server_def)
        with Cons.IH [OF d(2), of True "c\<lparr>cfg_server := srv\<rparr>"] show ?thesis
          using d(3,4) Some a out sx None by simp
      next
        case e: (Some e)
        then have "add_devices L F devices (devPath # devPaths) success c = Some (c\<lparr>cfg_server := srv\<rparr>, Inl e)"
          using d(1) Some a out sx by (simp add: on_server_def)
        then show ?thesis using d(3,4) Some a out sx e by (simp add: as_events_def)
      qed
    qed
  qed
qed


lemma devices_run:
  assumes "device_events L F config = Inr es"
  shows "runs_events L config es (processExternalDevices L F)"
proof (rule runs_eventsI)
  fix c :: "'a ConfigureServer" assume c: "cfg_root c = config"
  obtain devices where devices: "json_at config ''externalDevices'' = Inr devices"
    using assms by (cases "json_at config ''externalDevices''") (simp_all add: device_events_def)
  show "as_events (processExternalDevices L F c) = run_events L es (cfg_server c) \<and>
      keeps_root c (processExternalDevices L F c)"
  proof (cases "devices = JNull")
    case True
    with assms c devices show ?thesis by (simp add: device_events_def processExternalDevices_def as_events_def)
  next
    case False
    from assms devices False obtain devPaths ess where "getMemberNames devices = Inr devPaths"
      "result_list (map (device_event L F devices) devPaths) = Inr ess" "es = concat ess"
      by (auto simp: device_events_def result_bind_eq_Inr)
    with False c devices add_devices_events [of L F devices devPaths ess False c] show ?thesis
      by (simp add: processExternalDevices_def)
  qed
qed

lemma aliases_run:
  assumes "alias_events config = Inr es"
  shows "runs_events L config es (processAliases L)"
proof (rule runs_eventsI)
  fix c :: "'a ConfigureServer" assume c: "cfg_root c = config"
  obtain aliases where a: "json_at config ''aliases'' = Inr aliases"
    "es = (if aliases = JNull then [] else [CallAddAliases aliases ALIASPRIORITY_MANUAL])"
    using assms by (cases "json_at config ''aliases''") (auto simp: alias_events_def)
  let ?out = "process_alias L (enableWildcard (setDefaultPriority ALIASPRIORITY_MANUAL AliasProcessor_create))
    (sv_tree (cfg_server c)) 0 aliases"
  show "as_events (processAliases L c) = run_events L es (cfg_server c) \<and> keeps_root c (processAliases L c)"
  proof (cases "aliases = JNull")
    case True
    with a c show ?thesis by (simp add: processAliases_def as_events_def)
  next
    case False
    show ?thesis
    proof (cases ?out)
      case None
      with False a c show ?thesis by (simp add: processAliases_def as_events_def server_addAliases_def)
    next
      case (Some out)
      obtain t r where "out = (t, r)" by fastforce
      with Some False a c show ?thesis
        by (cases r) (simp_all add: processAliases_def as_events_def server_addAliases_def aliases_changed_def
            flag_change_def on_server_def)
    qed
  qed
qed

lemma string_run:
  assumes "string_events L F key path config = Inr es"
  shows "runs_events L config es (process_string L F key path)"
proof (rule runs_eventsI)
  fix c :: "'a ConfigureServer" assume c: "cfg_root c = config"
  obtain value' where v: "json_at config key = Inr value'"
    using assms by (cases "json_at config key") (simp_all add: string_events_def)
  show "as_events (process_string L F key path c) = run_events L es (cfg_server c) \<and>
      keeps_root c (process_string L F key path c)"
  proof (cases "value' = JNull")
    case True
    with assms v c show ?thesis by (simp add: string_events_def process_string_def as_events_def)
  next
    case False
    then obtain x where x: "resolvePossibleRef L F value' False [] = Inr x"
      "es = (if x = JNull then [] else [CallAddString path (lib_styled L x)])"
      using assms v by (cases "resolvePossibleRef L F value' False []") (auto simp: string_events_def)
    obtain t r where t: "getNodeByPath (sv_tree (cfg_server c)) path = (t, r)" by fastforce
    show ?thesis
    proof (cases "x = JNull")
      case True
      with False x v c show ?thesis by (simp add: process_string_def as_events_def)
    next
      case xn: False
      show ?thesis
        using False x v c xn t by (cases r) (simp_all add: process_string_def as_events_def addString_def
            string_changed_def on_server_def)
    qed
  qed
qed

lemma tree_steps_run:
  assumes "config_events L F config = Inr es"
  shows "runs_events L config es (tree_steps L F)"
proof -
  from assms obtain e1 e2 e3 e4 e5 where e: "device_events L F config = Inr e1" "route_events L config = Inr e2"
    "alias_events config = Inr e3" "string_events L F ''display'' ''/display'' config = Inr e4"
    "string_events L F ''renderManagerConfig'' ''/renderManagerConfig'' config = Inr e5"
    "es = e1 @ e2 @ e3 @ e4 @ e5"
    by (auto simp: config_events_def result_bind_eq_Inr)
  show ?thesis
    unfolding e(6) tree_steps_def processDisplay_def processRenderManagerParameters_def
    by (intro runs_then devices_run routes_run aliases_run string_run e)
qed

text \<open>
  C14: A configuration is a history of the server. Whenever everything the steps read in the
  configuration can be read, the external devices, routes, aliases, display and render manager
  are exactly the calls of \<open>config_events\<close> in that order: the same server is left, the same
  exception ends them, and a wildcard that does not end is the same.
\<close>

theorem configuration_is_history:
  assumes "config_events L F (cfg_root c) = Inr es"
  shows "as_events (tree_steps L F c) = run_events L es (cfg_server c)"
  using tree_steps_run [OF assms] unfolding runs_events_def by blast


definition config_files :: file_system where
  "config_files = \<lparr>files = (\<lambda>fn. if fn = ''d.json'' then Some ''{}'' else None), path_join = (\<lambda>a b. a @ ''/'' @ b)\<rparr>"

definition demo_config :: json where
  "demo_config = JObject [(''routes'', JArray [JObject [(''destination'', JString ''/me/head''), (''source'', JString ''/dev/0'')]]),
     (''display'', JString ''d.json'')]"

definition demo_configured :: "'h Server \<Rightarrow> 'h ConfigureServer" where
  "demo_configured srv = \<lparr>cfg_root = demo_config, cfg_server = srv, m_successfulPlugins = [], m_failedPlugins = [],
     m_successfulInstances = [], m_failedInstances = []\<rparr>"

theorem configuration_is_history_witness:
  "\<exists>srv. ServerImpl_create ''d'' (System_create :: string SystemComponent) server_demo_dev = Inr srv \<and>
     (\<exists>route display. as_events (tree_steps route_lib config_files (demo_configured srv)) =
        run_events route_lib [CallAddRoute route, CallAddString ''/display'' display] srv)"
proof -
  have created: "\<exists>srv. ServerImpl_create ''d'' (System_create :: string SystemComponent) server_demo_dev = Inr srv"
    using server_demo_runs by blast
  have events: "\<exists>route display. config_events route_lib config_files demo_config =
      Inr [CallAddRoute route, CallAddString ''/display'' display]"
    by (simp add: config_events_def demo_config_def device_events_def route_events_def alias_events_def
        string_events_def resolvePossibleRef_def attemptLoad_def config_files_def route_lib_def)
  have "cfg_root (demo_configured srv) = demo_config" "cfg_server (demo_configured srv) = srv" for srv :: "string Server"
    by (simp_all add: demo_configured_def)
  with created events configuration_is_history [of route_lib config_files "demo_configured _"] show ?thesis
    by metis
qed


subsection \<open>Every plugin and driver is accounted for\<close>

text \<open>What an entry is reported as, loaded or failed.\<close>

fun plugin_label :: "nat \<Rightarrow> json \<Rightarrow> string" where
  "plugin_label i (JString plugin) = plugin"
| "plugin_label i entry = ''Plugin entry '' @ decimal_text i"

fun plugin_labels :: "nat \<Rightarrow> json list \<Rightarrow> string list" where
  "plugin_labels i [] = []"
| "plugin_labels i (entry # entries) = plugin_label i entry # plugin_labels (Suc i) entries"

text \<open>
  The reports a run adds: \<open>ps\<close> succeeded and \<open>fs\<close> failed, together the labels in their order,
  and the run succeeded just when none failed.
\<close>

definition reported :: "string list \<Rightarrow> bool \<Rightarrow> string list \<times> (string \<times> string) list \<Rightarrow>
    string list \<times> (string \<times> string) list \<Rightarrow> bool \<Rightarrow> bool" where
  "reported labels success before after ok \<longleftrightarrow>
     (\<exists>ps fs. after = (fst before @ ps, snd before @ fs) \<and> labels \<in> shuffles ps (map fst fs) \<and>
        (ok \<longleftrightarrow> success \<and> fs = []))"

lemma reported_Nil: "reported [] success r r success"
  by (cases r) (simp add: reported_def)

lemma reported_ok:
  "reported labels success (ss @ [label], fs) r ok \<Longrightarrow> reported (label # labels) success (ss, fs) r ok"
proof -
  assume "reported labels success (ss @ [label], fs) r ok"
  then obtain ps gs where "r = (ss @ label # ps, fs @ gs)" "labels \<in> shuffles ps (map fst gs)" "ok \<longleftrightarrow> success \<and> gs = []"
    by (auto simp: reported_def)
  then show ?thesis unfolding reported_def
    by (intro exI [of _ "label # ps"] exI [of _ gs]) (simp add: Cons_in_shuffles_leftI)
qed

lemma reported_failed:
  "reported labels False (ss, fs @ [(label, what)]) r ok \<Longrightarrow> reported (label # labels) success (ss, fs) r ok"
proof -
  assume "reported labels False (ss, fs @ [(label, what)]) r ok"
  then obtain ps gs where "r = (ss @ ps, fs @ (label, what) # gs)" "labels \<in> shuffles ps (map fst gs)" "\<not> ok"
    by (auto simp: reported_def)
  then show ?thesis unfolding reported_def
    by (intro exI [of _ ps] exI [of _ "(label, what) # gs"]) (simp add: Cons_in_shuffles_rightI)
qed

lemma load_entries_reported:
  "load_entries L H i entries success c = (c', r) \<Longrightarrow>
   \<exists>ok. r = Inr ok \<and> reported (plugin_labels i entries) success (m_successfulPlugins c, m_failedPlugins c)
     (m_successfulPlugins c', m_failedPlugins c') ok"
proof (induction entries arbitrary: i success c)
  case Nil
  then have "c' = c" "r = Inr success" by simp_all
  then show ?case by (simp add: reported_Nil)
next
  case (Cons entry entries)
  show ?case
  proof (cases "\<exists>plugin. entry = JString plugin")
    case True
    then obtain plugin srv x where e: "entry = JString plugin" "host_loadPlugin H plugin (cfg_server c) = (srv, x)"
      by fastforce
    show ?thesis
    proof (cases x)
      case None
      with e Cons.prems have run: "load_entries L H (Suc i) entries success
          (c\<lparr>cfg_server := srv, m_successfulPlugins := m_successfulPlugins c @ [plugin]\<rparr>) = (c', r)" by simp
      obtain ok where o: "r = Inr ok" "reported (plugin_labels (Suc i) entries) success
          (m_successfulPlugins c @ [plugin], m_failedPlugins c) (m_successfulPlugins c', m_failedPlugins c') ok"
        using Cons.IH [OF run] by auto
      from o(1) reported_ok [OF o(2)] show ?thesis unfolding e plugin_labels.simps plugin_label.simps by blast
    next
      case (Some what)
      with e Cons.prems have run: "load_entries L H (Suc i) entries False
          (c\<lparr>cfg_server := srv, m_failedPlugins := m_failedPlugins c @ [(plugin, what)]\<rparr>) = (c', r)" by simp
      obtain ok where o: "r = Inr ok" "reported (plugin_labels (Suc i) entries) False
          (m_successfulPlugins c, m_failedPlugins c @ [(plugin, what)]) (m_successfulPlugins c', m_failedPlugins c') ok"
        using Cons.IH [OF run] by auto
      from o(1) reported_failed [OF o(2)] show ?thesis unfolding e plugin_labels.simps plugin_label.simps by blast
    qed
  next
    case False
    then have label: "plugin_label i entry = ''Plugin entry '' @ decimal_text i" by (cases entry) simp_all
    from False Cons.prems have run: "load_entries L H (Suc i) entries False
        (c\<lparr>m_failedPlugins := m_failedPlugins c @
             [(''Plugin entry '' @ decimal_text i, ''Plugin name not string: '' @ lib_styled L entry)]\<rparr>) = (c', r)"
      by (cases entry) simp_all
    obtain ok what where o: "r = Inr ok" "reported (plugin_labels (Suc i) entries) False
        (m_successfulPlugins c, m_failedPlugins c @ [(''Plugin entry '' @ decimal_text i, what)])
        (m_successfulPlugins c', m_failedPlugins c') ok"
      using Cons.IH [OF run] by auto
    from o(1) reported_failed [OF o(2)] show ?thesis unfolding label plugin_labels.simps by blast
  qed
qed

text \<open>
  C15: Every plugin entry is accounted for. However the plugin host behaves, loading the plugins
  of an array does not throw; the entries, by their name or else their index, are those reported
  as loaded and those reported as failed, each list in the order of the configuration, and the
  result is true just when none failed.
\<close>

theorem plugins_accounted:
  assumes "json_at (cfg_root c) ''plugins'' = Inr (JArray entries)" and "loadPlugins L H c = (c', r)"
  shows "\<exists>ps fs. m_successfulPlugins c' = m_successfulPlugins c @ ps \<and> m_failedPlugins c' = m_failedPlugins c @ fs \<and>
     plugin_labels 0 entries \<in> shuffles ps (map fst fs) \<and> r = Inr (fs = [])"
proof -
  have "load_entries L H 0 entries True c = (c', r)" using assms by (simp add: loadPlugins_def)
  from load_entries_reported [OF this] show ?thesis by (auto simp: reported_def)
qed

definition demo_host :: "'h host" where
  "demo_host = \<lparr>host_loadPlugin = (\<lambda>p srv. (srv, if p = ''good'' then None else Some ''not found'')),
     host_instantiateDriver = (\<lambda>p d params srv. (srv, if d = [] then None else Some ''no such driver'')),
     host_loadPlugins = (\<lambda>srv. (srv, None)), host_createLocal = Inl OutOfRange,
     host_createShared = (\<lambda>i p. Inl OutOfRange), host_to_usecs = (\<lambda>x. \<lfloor>x * 1000\<rfloor>)\<rparr>"

theorem plugins_accounted_witness:
  "\<exists>c c' :: string ConfigureServer. json_at (cfg_root c) ''plugins'' = Inr (JArray [JString ''bad'', JNull, JString ''good'']) \<and>
     loadPlugins route_lib demo_host c = (c', Inr False) \<and>
     (\<exists>ps fs. m_successfulPlugins c' = ps \<and> m_failedPlugins c' = fs \<and>
       plugin_labels 0 [JString ''bad'', JNull, JString ''good''] \<in> shuffles ps (map fst fs) \<and> False = (fs = []))"
proof -
  obtain srv :: "string Server" where True by blast
  let ?c = "\<lparr>cfg_root = JObject [(''plugins'', JArray [JString ''bad'', JNull, JString ''good''])], cfg_server = srv,
    m_successfulPlugins = [], m_failedPlugins = [], m_successfulInstances = [], m_failedInstances = []\<rparr>"
  have root: "json_at (cfg_root ?c) ''plugins'' = Inr (JArray [JString ''bad'', JNull, JString ''good''])" by simp
  have "\<exists>c'. loadPlugins route_lib demo_host ?c = (c', Inr False)"
    by (simp add: loadPlugins_def demo_host_def)
  then obtain c' where run: "loadPlugins route_lib demo_host ?c = (c', Inr False)" by blast
  from plugins_accounted [OF root run] show ?thesis
    using root run by (intro exI [of _ ?c] exI [of _ c']) simp
qed

text \<open>
  A driver entry without a driver's name. An entry that names a plugin and no driver is not
  rejected: the plugin is asked for the driver with the empty name, and when that throws nothing
  the entry is reported as instantiated, under the plugin's name and a slash.
\<close>

lemma driver_without_name:
  assumes "map_of ms ''plugin'' = Some (JString plugin)" and "map_of ms ''driver'' = None"
    and "params = (case map_of ms ''params'' of None \<Rightarrow> JNull | Some v \<Rightarrow> v)"
    and "host_instantiateDriver H plugin [] (lib_styled L params) (cfg_server c) = (srv, x)"
  shows "instantiate_entry L H (JObject ms) c =
    (case x of
       None \<Rightarrow> (c\<lparr>cfg_server := srv, m_successfulInstances := m_successfulInstances c @ [plugin @ ''/'']\<rparr>, Inr True)
     | Some what \<Rightarrow>
         (c\<lparr>cfg_server := srv, m_failedInstances := m_failedInstances c @ [(plugin @ ''/'', what)]\<rparr>, Inr False))"
  using assms by (simp add: instantiate_entry_def Let_def split: option.splits)

lemma driver_without_name_witness:
  "\<exists>c :: string ConfigureServer. instantiate_entry route_lib demo_host (JObject [(''plugin'', JString ''p'')]) c =
     (c\<lparr>m_successfulInstances := m_successfulInstances c @ [''p/'']\<rparr>, Inr True)"
proof -
  obtain c :: "string ConfigureServer" where True by blast
  have run: "host_instantiateDriver demo_host ''p'' [] (lib_styled route_lib JNull) (cfg_server c) = (cfg_server c, None)"
    by (simp add: demo_host_def)
  from driver_without_name [where ms = "[(''plugin'', JString ''p'')]", OF _ _ _ run]
  show ?thesis by (intro exI [of _ c]) simp
qed


subsection \<open>A configured server\<close>

text \<open>
  What is assumed of the plugin host: a plugin or a driver reaches the server through its
  operations only, whatever it throws, and a server is created with nothing sent.
\<close>

definition well_behaved :: "'h host \<Rightarrow> bool" where
  "well_behaved H \<longleftrightarrow>
     (\<forall>plugin srv. event_ok srv (fst (host_loadPlugin H plugin srv))) \<and>
     (\<forall>plugin driver params srv. event_ok srv (fst (host_instantiateDriver H plugin driver params srv))) \<and>
     (\<forall>srv. event_ok srv (fst (host_loadPlugins H srv))) \<and>
     (\<forall>srv. host_createLocal H = Inr srv \<or> (\<exists>iface port. host_createShared H iface port = Inr srv) \<longrightarrow>
        (\<exists>display component dev. ServerImpl_create display component dev = Inr srv \<and> conn_packed dev = []))"

lemma load_entries_ok:
  assumes "well_behaved H"
  shows "event_ok (cfg_server c) (cfg_server (fst (load_entries L H i entries success c)))"
proof (induction entries arbitrary: i success c)
  case Nil
  then show ?case by (simp add: event_ok_refl)
next
  case (Cons entry entries)
  show ?case
  proof (cases "\<exists>plugin. entry = JString plugin")
    case True
    then obtain plugin srv x where e: "entry = JString plugin" "host_loadPlugin H plugin (cfg_server c) = (srv, x)"
      by fastforce
    have "event_ok (cfg_server c) srv" using assms e(2) unfolding well_behaved_def by (metis fst_conv)
    moreover have "event_ok srv (cfg_server (fst (load_entries L H i (entry # entries) success c)))"
      using e Cons [of "c\<lparr>cfg_server := srv, m_successfulPlugins := m_successfulPlugins c @ [plugin]\<rparr>" "Suc i" success]
        Cons [of "c\<lparr>cfg_server := srv, m_failedPlugins := m_failedPlugins c @ [(plugin, the x)]\<rparr>" "Suc i" False]
      by (cases x) simp_all
    ultimately show ?thesis by (rule event_ok_trans)
  next
    case False
    with Cons [of "c\<lparr>m_failedPlugins := m_failedPlugins c @
        [(''Plugin entry '' @ decimal_text i, ''Plugin name not string: '' @ lib_styled L entry)]\<rparr>" "Suc i" False]
    show ?thesis by (cases entry) simp_all
  qed
qed

lemma instantiate_entry_ok:
  assumes "well_behaved H"
  shows "event_ok (cfg_server c) (cfg_server (fst (instantiate_entry L H d c)))"
proof -
  have h: "event_ok (cfg_server c) srv" if "host_instantiateDriver H p n j (cfg_server c) = (srv, x)" for p n j srv x
    using assms that unfolding well_behaved_def by (metis fst_conv)
  show ?thesis unfolding instantiate_entry_def
    by (simp add: Let_def event_ok_refl h split: sum.splits prod.splits option.splits)
qed

lemma instantiate_entries_ok:
  assumes "well_behaved H"
  shows "event_ok (cfg_server c) (cfg_server (fst (instantiate_entries L H ds success c)))"
proof (induction ds arbitrary: success c)
  case Nil
  then show ?case by (simp add: event_ok_refl)
next
  case (Cons d ds)
  obtain c1 r where r: "instantiate_entry L H d c = (c1, r)" by fastforce
  have "event_ok (cfg_server c) (cfg_server c1)" using instantiate_entry_ok [OF assms, of c L d] r by simp
  moreover have "event_ok (cfg_server c1) (cfg_server (fst (instantiate_entries L H (d # ds) success c)))"
    using r Cons [of c1 "success \<and> the (case r of Inl e \<Rightarrow> None | Inr ok \<Rightarrow> Some ok)"]
    by (cases r) (simp_all add: event_ok_refl)
  ultimately show ?case by (rule event_ok_trans)
qed

text \<open>Steps that, unless they throw, act on the server as events do.\<close>

definition acts_ok :: "('h ConfigureServer \<Rightarrow> 'h config_step option) \<Rightarrow> bool" where
  "acts_ok step \<longleftrightarrow> (\<forall>c c' b. step c = Some (c', Inr b) \<longrightarrow> event_ok (cfg_server c) (cfg_server c'))"

lemma acts_okD: "acts_ok step \<Longrightarrow> step c = Some (c', Inr b) \<Longrightarrow> event_ok (cfg_server c) (cfg_server c')"
  by (simp add: acts_ok_def)

lemma acts_ok_then: "acts_ok f \<Longrightarrow> acts_ok g \<Longrightarrow> acts_ok (\<lambda>c. config_then (f c) g)"
  unfolding acts_ok_def
proof (intro allI impI)
  fix c c' b
  assume ok: "\<forall>c c' b. f c = Some (c', Inr b) \<longrightarrow> event_ok (cfg_server c) (cfg_server c')"
    "\<forall>c c' b. g c = Some (c', Inr b) \<longrightarrow> event_ok (cfg_server c) (cfg_server c')"
    and step: "config_then (f c) g = Some (c', Inr b)"
  then obtain c1 r where r: "f c = Some (c1, r)" "(case r of Inl e \<Rightarrow> Some (c1, Inl e) | Inr b \<Rightarrow> g c1) = Some (c', Inr b)"
    by (auto simp: config_then_def bind_eq_Some_conv)
  then obtain b1 where "r = Inr b1" "g c1 = Some (c', Inr b)" by (cases r) simp_all
  with ok r(1) show "event_ok (cfg_server c) (cfg_server c')" by (blast intro: event_ok_trans)
qed

lemma on_server_ok:
  assumes "server_do L e srv = Some out" and "on_server c out = (c', None)" and "cfg_server c = srv"
  shows "event_ok srv (cfg_server c')"
proof -
  from assms(2) have "snd out = None" "cfg_server c' = fst out" by (auto simp: on_server_def)
  with server_do_ok [of L e srv "fst out"] assms(1) show ?thesis by (metis prod.collapse)
qed

lemma add_routes_ok: "add_routes L routes success c = Some (c', Inr b) \<Longrightarrow> event_ok (cfg_server c) (cfg_server c')"
proof (induction routes arbitrary: success c)
  case Nil
  then show ?case by (simp add: event_ok_refl)
next
  case (Cons route routes)
  from Cons.prems obtain out where out: "server_addRoute L (lib_styled L route) (cfg_server c) = Some out"
    "(case on_server c out of (c', Some e) \<Rightarrow> Some (c', Inl e) | (c', None) \<Rightarrow> add_routes L routes True c') = Some (c', Inr b)"
    by (auto simp: bind_eq_Some_conv)
  then obtain c1 where o: "server_addRoute L (lib_styled L route) (cfg_server c) = Some out"
    "on_server c out = (c1, None)" "add_routes L routes True c1 = Some (c', Inr b)"
    by (cases "on_server c out") (auto split: option.splits)
  from o(1) have "server_do L (CallAddRoute (lib_styled L route)) (cfg_server c) = Some out" by simp
  from on_server_ok [OF this o(2) refl] Cons.IH [OF o(3)] show ?case by (rule event_ok_trans)
qed

lemma add_devices_ok:
  "add_devices L F devices devPaths success c = Some (c', Inr b) \<Longrightarrow> event_ok (cfg_server c) (cfg_server c')"
proof (induction devPaths arbitrary: success c)
  case Nil
  then show ?case by (simp add: event_ok_refl)
next
  case (Cons devPath devPaths)
  obtain d where d: "result_bind (json_at devices devPath) (external_device L F) = Inr d"
    using Cons.prems by (cases "result_bind (json_at devices devPath) (external_device L F)") simp_all
  show ?case
  proof (cases d)
    case None
    with d Cons show ?thesis by simp
  next
    case (Some a)
    obtain n s descriptor where a: "a = (n, s, descriptor)" using prod_cases3 by blast
    from Cons.prems d Some a obtain out where out:
      "server_do L (CallAddExternalDevice devPath n s descriptor) (cfg_server c) = Some out"
      "(case on_server c out of (c', Some e) \<Rightarrow> Some (c', Inl e) | (c', None) \<Rightarrow> add_devices L F devices devPaths True c') =
         Some (c', Inr b)"
      by (auto simp: bind_eq_Some_conv)
    then obtain c1 where o: "server_do L (CallAddExternalDevice devPath n s descriptor) (cfg_server c) = Some out"
      "on_server c out = (c1, None)" "add_devices L F devices devPaths True c1 = Some (c', Inr b)"
      by (cases "on_server c out") (auto split: option.splits)
    from on_server_ok [OF o(1,2) refl] Cons.IH [OF o(3)] show ?thesis by (rule event_ok_trans)
  qed
qed

lemma process_string_ok: "acts_ok (process_string L F key path)"
  unfolding acts_ok_def
proof (intro allI impI)
  fix c c' :: "'a ConfigureServer" and b
  assume step: "process_string L F key path c = Some (c', Inr b)"
  show "event_ok (cfg_server c) (cfg_server c')"
  proof (cases "c' = c")
    case True
    then show ?thesis by (simp add: event_ok_refl)
  next
    case False
    with step obtain v out where o: "addString path v (cfg_server c) = Some out" "c' = fst (on_server c out)"
      "string_changed path v (cfg_server c) = Inr b"
      unfolding process_string_def
      by (auto simp: bind_eq_Some_conv split: sum.splits if_splits)
    then have "snd out = None" by (auto simp: addString_def string_changed_def split: prod.splits sum.splits if_splits)
    then have "on_server c out = (c', None)" using o(2) by (simp add: on_server_def)
    with on_server_ok [OF _ _ refl, where e = "CallAddString path v"] o(1) show ?thesis by simp
  qed
qed

lemma processAliases_ok: "acts_ok (processAliases L)"
  unfolding acts_ok_def
proof (intro allI impI)
  fix c c' :: "'a ConfigureServer" and b
  assume step: "processAliases L c = Some (c', Inr b)"
  show "event_ok (cfg_server c) (cfg_server c')"
  proof (cases "c' = c")
    case True
    then show ?thesis by (simp add: event_ok_refl)
  next
    case False
    with step obtain v out where o: "server_addAliases L v ALIASPRIORITY_MANUAL (cfg_server c) = Some out"
      "c' = fst (on_server c out)" "aliases_changed L v (cfg_server c) = Some (Inr b)"
      unfolding processAliases_def
      by (auto simp: bind_eq_Some_conv split: sum.splits if_splits)
    then have "snd out = None"
      by (auto simp: server_addAliases_def aliases_changed_def flag_change_def)
    then have "on_server c out = (c', None)" using o(2) by (simp add: on_server_def)
    with on_server_ok [OF _ _ refl, where e = "CallAddAliases v ALIASPRIORITY_MANUAL"] o(1) show ?thesis by simp
  qed
qed

lemma tree_steps_ok: "acts_ok (tree_steps L F)"
proof -
  have devices: "acts_ok (processExternalDevices L F)"
    unfolding acts_ok_def processExternalDevices_def
    using add_devices_ok by (auto simp: event_ok_refl split: sum.splits if_splits)
  have routes: "acts_ok (processRoutes L)"
    unfolding acts_ok_def processRoutes_def using add_routes_ok by (auto split: sum.splits)
  show ?thesis
    unfolding tree_steps_def processDisplay_def processRenderManagerParameters_def
    by (intro acts_ok_then devices routes processAliases_ok process_string_ok)
qed

lemma constructServer_inv:
  assumes "well_behaved H" and "constructServer L H d config = Inr c"
  shows "\<exists>sk. server_inv L sk (cfg_server c)"
proof -
  obtain options where "server_options L H d config = Inr options"
    using assms(2) by (cases "server_options L H d config") (simp_all add: constructServer_def)
  moreover obtain local iface port sleepTime where "options = (local, iface, port, sleepTime)" by (cases options)
  ultimately obtain srv where created: "(if local \<and> port = None then host_createLocal H else host_createShared H iface port) = Inr srv"
    and srv: "cfg_server c = setHardwareDetectOnConnection (if sleepTime > 0 then setSleepTime sleepTime srv else srv)"
    using assms(2) by (auto simp: constructServer_def result_bind_eq_Inr simp del: if_split)
  from created have "host_createLocal H = Inr srv \<or> (\<exists>iface port. host_createShared H iface port = Inr srv)"
    by (auto split: if_splits)
  then obtain display component dev where "ServerImpl_create display component dev = Inr srv" "conn_packed dev = []"
    using assms(1) unfolding well_behaved_def by blast
  note start = ServerImpl_create_inv(1) [OF this]
  have "event_ok srv (cfg_server c)" unfolding srv using setting_ok(4,5) by (auto intro: event_ok_trans)
  from event_ok_inv [OF this start] show ?thesis by blast
qed

lemma configure_steps_ok:
  assumes "well_behaved H"
  shows "acts_ok (configure_steps L F H)"
proof -
  have auto_plugins: "acts_ok (\<lambda>c. Some (loadAutoPlugins H c))"
    unfolding acts_ok_def loadAutoPlugins_def on_server_def
  proof (intro allI impI)
    fix c c' :: "'a ConfigureServer" and b
    assume step: "Some (case (c\<lparr>cfg_server := fst (host_loadPlugins H (cfg_server c))\<rparr>, snd (host_loadPlugins H (cfg_server c)))
      of (c', None) \<Rightarrow> (c', Inr True) | (c', Some e) \<Rightarrow> (c', Inl e)) = Some (c', Inr b)"
    have "event_ok (cfg_server c) (fst (host_loadPlugins H (cfg_server c)))"
      using assms unfolding well_behaved_def by blast
    with step show "event_ok (cfg_server c) (cfg_server c')" by (auto split: option.splits)
  qed
  have plugins: "acts_ok (\<lambda>c. Some (loadPlugins L H c))"
    unfolding acts_ok_def loadPlugins_def
  proof (intro allI impI)
    fix c c' :: "'a ConfigureServer" and b
    assume "Some (case result_bind (json_at (cfg_root c) ''plugins'') indexed_entries of Inl e \<Rightarrow> (c, Inl e)
      | Inr entries \<Rightarrow> load_entries L H 0 entries True c) = Some (c', Inr b)"
    then obtain entries where "load_entries L H 0 entries True c = (c', Inr b)" by (auto split: sum.splits)
    with load_entries_ok [OF assms, of c L 0 entries True] show "event_ok (cfg_server c) (cfg_server c')" by simp
  qed
  have drivers: "acts_ok (\<lambda>c. Some (instantiateDrivers L H c))"
    unfolding acts_ok_def instantiateDrivers_def
  proof (intro allI impI)
    fix c c' :: "'a ConfigureServer" and b
    assume "Some (case json_at (cfg_root c) ''drivers'' of Inl e \<Rightarrow> (c, Inl e)
      | Inr drivers \<Rightarrow> instantiate_entries L H (json_elements drivers) True c) = Some (c', Inr b)"
    then obtain ds where "instantiate_entries L H ds True c = (c', Inr b)" by (auto split: sum.splits)
    with instantiate_entries_ok [OF assms, of c L ds True] show "event_ok (cfg_server c) (cfg_server c')" by simp
  qed
  have detect: "acts_ok (\<lambda>c. Some (c\<lparr>cfg_server := triggerHardwareDetect (cfg_server c)\<rparr>, Inr True))"
    unfolding acts_ok_def using setting_ok(3) by auto
  show ?thesis unfolding configure_steps_def
    by (intro acts_ok_then auto_plugins plugins drivers tree_steps_ok detect)
qed


definition config_lib :: json_lib where
  "config_lib = plain_lib\<lparr>lib_parse := (\<lambda>s. if s = ''c'' then Some (JObject [(''display'', JObject []),
     (''plugins'', JArray [JString ''bad'', JString ''good''])]) else None)\<rparr>"

definition local_host :: "string host" where
  "local_host = demo_host\<lparr>host_createLocal := ServerImpl_create ''d'' System_create server_demo_dev\<rparr>"

definition local_files :: file_system where
  "local_files = config_files\<lparr>files := (\<lambda>fn. if fn = ''c.json'' then Some ''c'' else None)\<rparr>"

lemma configured_case:
  "(case r of Some (Inr (c, Inr b)) \<Rightarrow> P c | _ \<Rightarrow> False) \<Longrightarrow> \<exists>c b. r = Some (Inr (c, Inr b)) \<and> P c"
  by (cases r rule: option.exhaust; cases "the r"; cases "snd (projr (the r))"; cases "projr (the r)") auto

lemma returned_case: "(case r of Some (srv, None) \<Rightarrow> True | _ \<Rightarrow> False) \<Longrightarrow> \<exists>srv. r = Some (srv, None)"
  by (auto split: option.split_asm prod.split_asm)

lemma config_turn_runs:
  "\<exists>c success srv. configureServerFromFile config_lib local_files local_host 1000 ''c.json'' = Some (Inr (c, Inr success)) \<and>
     m_update config_lib (\<lambda>_. True) \<lparr>seconds = 1, microseconds = 0\<rparr> [GotPing] [] [] (cfg_server c) = Some (srv, None)"
proof -
  have "case configureServerFromFile config_lib local_files local_host 1000 ''c.json'' of
      Some (Inr (c, Inr success)) \<Rightarrow>
        (case m_update config_lib (\<lambda>_. True) \<lparr>seconds = 1, microseconds = 0\<rparr> [GotPing] [] [] (cfg_server c) of
           Some (srv, None) \<Rightarrow> True | _ \<Rightarrow> False)
    | _ \<Rightarrow> False"
    by code_simp
  from configured_case [OF this] returned_case show ?thesis by blast
qed


end
