(* ===== verification/Plugin_Host.thy ===== *)
theory Plugin_Host
  imports Json_Value "HOL-Library.Multiset" "HOL-Library.AList"
begin

text \<open>
  The plugin host: \<^verbatim>\<open>src/osvr/PluginHost/RegistrationContext.cpp\<close>,
  \<^verbatim>\<open>PluginSpecificRegistrationContextImpl.cpp\<close>, \<^verbatim>\<open>SearchPath.cpp\<close> and the registration functions of
  \<^verbatim>\<open>src/osvr/PluginKit/PluginRegistrationC.cpp\<close> that a plugin calls.

  Parameters: the directories, and the plugins' own code, which the library libfunctionality
  loads. That code is an interaction: it calls the registration functions, sees whether each
  succeeded, and ends with a result and what it did to the rest of the program (\<open>'w\<close>). A callback
  or an object is a number, which stands for the C function and the data it is called with.

  The log lists the objects in the order in which they are registered and deleted. It is what
  the plugins see of the lifetimes; nothing reads it.
\<close>

subsection \<open>One plugin's registrations\<close>

datatype host_event = Registered nat | Deleted nat

record PluginContext =
  pc_name :: string
  m_parent :: "nat option"
  m_dataList :: "nat list"
  m_hardwareDetectCallbacks :: "nat list"
  m_driverInstantiationCallbacks :: "string \<Rightarrow> nat option"

definition PluginContext_create :: "string \<Rightarrow> PluginContext" where
  "PluginContext_create name =
     \<lparr>pc_name = name, m_parent = None, m_dataList = [], m_hardwareDetectCallbacks = [],
      m_driverInstantiationCallbacks = (\<lambda>_. None)\<rparr>"

definition pc_setParent :: "nat \<Rightarrow> PluginContext \<Rightarrow> (exn, PluginContext) result" where
  "pc_setParent parent c =
     (if m_parent c \<noteq> None \<and> m_parent c \<noteq> Some parent
      then Inl (LogicError ''Can't set the registration context parent - already set!'')
      else Inr (c\<lparr>m_parent := Some parent\<rparr>))"

definition pc_getParent :: "PluginContext \<Rightarrow> (exn, nat) result" where
  "pc_getParent c =
     (case m_parent c of
        None \<Rightarrow> Inl (LogicError ''Can't access the registration context parent - it is null!'')
      | Some parent \<Rightarrow> Inr parent)"

definition registerDataWithDeleteCallback :: "nat \<Rightarrow> PluginContext \<Rightarrow> PluginContext" where
  "registerDataWithDeleteCallback d c = c\<lparr>m_dataList := m_dataList c @ [d]\<rparr>"

definition registerHardwareDetectCallback :: "nat \<Rightarrow> PluginContext \<Rightarrow> PluginContext" where
  "registerHardwareDetectCallback cb c = c\<lparr>m_hardwareDetectCallbacks := m_hardwareDetectCallbacks c @ [cb]\<rparr>"

definition registerDriverInstantiationCallback :: "string \<Rightarrow> nat \<Rightarrow> PluginContext \<Rightarrow> (exn, PluginContext) result" where
  "registerDriverInstantiationCallback n cb c =
     (if n = [] then Inl (LogicError ''Cannot register a driver instantiation callback with an empty name!'')
      else if m_driverInstantiationCallbacks c n \<noteq> None
      then Inl (LogicError
        ''A driver initialization callback by this name for this plugin has already been registered!'')
      else Inr (c\<lparr>m_driverInstantiationCallbacks := (m_driverInstantiationCallbacks c)(n := Some cb)\<rparr>))"

text \<open>What a plugin asks for; the C functions turn exceptions into a failure.\<close>

datatype registration = Register_data nat | Register_detect nat | Register_driver string nat

fun register_c :: "registration \<Rightarrow> PluginContext \<Rightarrow> PluginContext \<times> bool" where
  "register_c (Register_data d) c = (registerDataWithDeleteCallback d c, True)"
| "register_c (Register_detect cb) c = (registerHardwareDetectCallback cb c, True)"
| "register_c (Register_driver n cb) c =
     (case registerDriverInstantiationCallback n cb c of Inl e \<Rightarrow> (c, False) | Inr c' \<Rightarrow> (c', True))"

fun registration_events :: "registration \<Rightarrow> host_event list" where
  "registration_events (Register_data d) = [Registered d]"
| "registration_events _ = []"

text \<open>The plugin's code as it runs: it ends, or registers something and goes on with the outcome.\<close>

datatype 'r plugin_run = Ends 'r | Registers registration "bool \<Rightarrow> 'r plugin_run"

primrec run_plugin :: "'r plugin_run \<Rightarrow> PluginContext \<Rightarrow> host_event list \<Rightarrow> PluginContext \<times> host_event list \<times> 'r" where
  "run_plugin (Ends r) c evs = (c, evs, r)"
| "run_plugin (Registers g k) c evs =
     (let (c', ok) = register_c g c in run_plugin (k ok) c' (evs @ registration_events g))"


subsection \<open>The host\<close>

text \<open>
  \<open>dir_entries\<close> lists a directory, if it exists, with the regular files marked; loading a plugin ends
  with an exception or without.
\<close>

record 'w plugin_lib =
  plugin_extension :: string
  ignore_suffix :: string
  getPluginSearchPath :: "string list"
  dir_entries :: "string \<Rightarrow> (string \<times> bool) list option"
  path_extension :: "string \<Rightarrow> string"
  path_stem :: "string \<Rightarrow> string"
  path_without_extension :: "string \<Rightarrow> string"
  loadPluginByName :: "string \<Rightarrow> 'w \<Rightarrow> ('w \<times> exn option) plugin_run"
  call_detect :: "nat \<Rightarrow> 'w \<Rightarrow> 'w plugin_run"
  call_driver :: "nat \<Rightarrow> string \<Rightarrow> 'w \<Rightarrow> ('w \<times> bool) plugin_run"
  call_delete :: "nat \<Rightarrow> 'w \<Rightarrow> 'w"

record 'w PluginHost =
  host_id :: nat
  m_regMap :: "(string \<times> PluginContext) list"
  host_world :: 'w
  host_log :: "host_event list"

definition PluginHost_create :: "nat \<Rightarrow> 'w \<Rightarrow> 'w PluginHost" where
  "PluginHost_create i w = \<lparr>host_id = i, m_regMap = [], host_world = w, host_log = []\<rparr>"

text \<open>Destroying a context deletes its objects, the last registered first.\<close>

fun delete_all :: "'w plugin_lib \<Rightarrow> nat list \<Rightarrow> 'w PluginHost \<Rightarrow> 'w PluginHost" where
  "delete_all P [] h = h"
| "delete_all P (d # ds) h =
     delete_all P ds (h\<lparr>host_world := call_delete P d (host_world h), host_log := host_log h @ [Deleted d]\<rparr>)"

definition PluginContext_destroy :: "'w plugin_lib \<Rightarrow> PluginContext \<Rightarrow> 'w PluginHost \<Rightarrow> 'w PluginHost" where
  "PluginContext_destroy P c h = delete_all P (rev (m_dataList c)) h"

fun getAllFilesWithExt :: "'w plugin_lib \<Rightarrow> string list \<Rightarrow> string \<Rightarrow> string list" where
  "getAllFilesWithExt P [] ext = []"
| "getAllFilesWithExt P (dir # dirs) ext =
     (case dir_entries P dir of
        None \<Rightarrow> getAllFilesWithExt P dirs ext
      | Some es \<Rightarrow>
          map fst (filter (\<lambda>(p, regular). regular \<and> path_extension P p = ext) es) @ getAllFilesWithExt P dirs ext)"

definition is_plugin :: "'w plugin_lib \<Rightarrow> string \<Rightarrow> string \<times> bool \<Rightarrow> bool" where
  "is_plugin P pluginName = (\<lambda>(p, regular).
     regular \<and> path_extension P p = plugin_extension P \<and>
     (path_stem P p = pluginName \<or> path_stem P p = pluginName @ ignore_suffix P))"

fun find_in :: "'w plugin_lib \<Rightarrow> string \<Rightarrow> string list \<Rightarrow> string" where
  "find_in P pluginName [] = []"
| "find_in P pluginName (dir # dirs) =
     (case dir_entries P dir of
        None \<Rightarrow> find_in P pluginName dirs
      | Some es \<Rightarrow>
          (case find (is_plugin P pluginName) es of
             None \<Rightarrow> find_in P pluginName dirs
           | Some (p, regular) \<Rightarrow> p))"

definition findPlugin :: "'w plugin_lib \<Rightarrow> string \<Rightarrow> string" where
  "findPlugin P pluginName = find_in P pluginName (getPluginSearchPath P)"

text \<open>Whether the plugin was loaded, or the exception; only a runtime error may be swallowed.\<close>

definition tryLoadingPlugin ::
    "'w plugin_lib \<Rightarrow> string \<Rightarrow> bool \<Rightarrow> PluginContext \<Rightarrow> 'w PluginHost \<Rightarrow> PluginContext \<times> 'w PluginHost \<times> (exn, bool) result" where
  "tryLoadingPlugin P name shouldRethrow c h =
     (case run_plugin (loadPluginByName P name (host_world h)) c (host_log h) of
        (c', evs, w, x) \<Rightarrow>
          (c', h\<lparr>host_world := w, host_log := evs\<rparr>,
           case x of
             None \<Rightarrow> Inr True
           | Some (RuntimeError what) \<Rightarrow> if shouldRethrow then Inl (RuntimeError what) else Inr False
           | Some e \<Rightarrow> Inl e))"

text \<open>A map by name: a name that is present is not inserted again, and the context is then destroyed.\<close>

definition adoptPluginRegistrationContext :: "'w plugin_lib \<Rightarrow> PluginContext \<Rightarrow> 'w PluginHost \<Rightarrow> 'w PluginHost \<times> exn option" where
  "adoptPluginRegistrationContext P c h =
     (case pc_setParent (host_id h) c of
        Inl e \<Rightarrow> (PluginContext_destroy P c h, Some e)
      | Inr c' \<Rightarrow>
          if map_of (m_regMap h) (pc_name c') = None
          then (h\<lparr>m_regMap := insort_key fst (pc_name c', c') (m_regMap h)\<rparr>, None)
          else (PluginContext_destroy P c' h, None))"

definition loadPlugin :: "'w plugin_lib \<Rightarrow> string \<Rightarrow> 'w PluginHost \<Rightarrow> 'w PluginHost \<times> exn option" where
  "loadPlugin P pluginName h =
     (let pluginPathName = findPlugin P pluginName in
      if pluginPathName = [] then (h, Some (RuntimeError (''Could not find plugin named '' @ pluginName)))
      else
        (case pc_setParent (host_id h) (PluginContext_create pluginName) of
           Inl e \<Rightarrow> (h, Some e)
         | Inr c \<Rightarrow>
             (case (case tryLoadingPlugin P pluginPathName False c h of
                      (c1, h1, Inr False) \<Rightarrow>
                        tryLoadingPlugin P (path_without_extension P pluginPathName) True c1 h1
                    | out \<Rightarrow> out) of
                (c', h', Inl e) \<Rightarrow> (PluginContext_destroy P c' h', Some e)
              | (c', h', Inr success) \<Rightarrow>
                  if \<not> success
                  then (PluginContext_destroy P c' h',
                        Some (RuntimeError (''Unusual error occurred trying to load plugin named '' @ pluginName)))
                  else adoptPluginRegistrationContext P c' h')))"

definition iends_with :: "string \<Rightarrow> string \<Rightarrow> bool" where
  "iends_with s t \<longleftrightarrow> length t \<le> length s \<and> map ascii_upper (drop (length s - length t) s) = map ascii_upper t"

fun load_files :: "'w plugin_lib \<Rightarrow> string list \<Rightarrow> 'w PluginHost \<Rightarrow> 'w PluginHost" where
  "load_files P [] h = h"
| "load_files P (plugin # plugins) h =
     (let pluginBaseName = path_stem P plugin in
      if iends_with pluginBaseName (ignore_suffix P) then load_files P plugins h
      else load_files P plugins (fst (loadPlugin P pluginBaseName h)))"

definition host_loadAll :: "'w plugin_lib \<Rightarrow> 'w PluginHost \<Rightarrow> 'w PluginHost" where
  "host_loadAll P h = load_files P (getAllFilesWithExt P (getPluginSearchPath P) (plugin_extension P)) h"

text \<open>
  The callbacks of one plugin. A callback that registers another one changes the vector while it
  is iterated, which is undefined.
\<close>

fun detect_callbacks :: "'w plugin_lib \<Rightarrow> nat list \<Rightarrow> PluginContext \<Rightarrow> 'w PluginHost \<Rightarrow> (PluginContext \<times> 'w PluginHost) option" where
  "detect_callbacks P [] c h = Some (c, h)"
| "detect_callbacks P (f # fs) c h =
     (case run_plugin (call_detect P f (host_world h)) c (host_log h) of
        (c', evs, w) \<Rightarrow>
          if m_hardwareDetectCallbacks c' \<noteq> m_hardwareDetectCallbacks c then None
          else detect_callbacks P fs c' (h\<lparr>host_world := w, host_log := evs\<rparr>))"

definition triggerHardwareDetectCallbacks :: "'w plugin_lib \<Rightarrow> PluginContext \<Rightarrow> 'w PluginHost \<Rightarrow> (PluginContext \<times> 'w PluginHost) option" where
  "triggerHardwareDetectCallbacks P c h = detect_callbacks P (m_hardwareDetectCallbacks c) c h"

text \<open>The contexts before and after the one whose callbacks run stay in the map.\<close>

fun detect_contexts :: "'w plugin_lib \<Rightarrow> (string \<times> PluginContext) list \<Rightarrow> (string \<times> PluginContext) list \<Rightarrow> 'w PluginHost \<Rightarrow> 'w PluginHost option" where
  "detect_contexts P done [] h = Some (h\<lparr>m_regMap := done\<rparr>)"
| "detect_contexts P done ((n, c) # cs) h =
     do { (c', h') \<leftarrow> triggerHardwareDetectCallbacks P c h; detect_contexts P (done @ [(n, c')]) cs h' }"

definition host_triggerHardwareDetect :: "'w plugin_lib \<Rightarrow> 'w PluginHost \<Rightarrow> 'w PluginHost option" where
  "host_triggerHardwareDetect P h = detect_contexts P [] (m_regMap h) h"

definition context_instantiateDriver ::
    "'w plugin_lib \<Rightarrow> string \<Rightarrow> string \<Rightarrow> PluginContext \<Rightarrow> 'w PluginHost \<Rightarrow> PluginContext \<times> 'w PluginHost \<times> exn option" where
  "context_instantiateDriver P driverName params c h =
     (case m_driverInstantiationCallbacks c driverName of
        None \<Rightarrow> (c, h, Some (LogicError
          (''No driver initialization callback was registered for the driver name '' @ driverName)))
      | Some f \<Rightarrow>
          (case run_plugin (call_driver P f params (host_world h)) c (host_log h) of
             (c', evs, w, success) \<Rightarrow>
               (c', h\<lparr>host_world := w, host_log := evs\<rparr>,
                if success then None
                else Some (RuntimeError (''Failure returned from driver initialization callback by name '' @ driverName)))))"

definition host_instantiate :: "'w plugin_lib \<Rightarrow> string \<Rightarrow> string \<Rightarrow> string \<Rightarrow> 'w PluginHost \<Rightarrow> 'w PluginHost \<times> exn option" where
  "host_instantiate P pluginName driverName params h =
     (case map_of (m_regMap h) pluginName of
        None \<Rightarrow> (h, Some (RuntimeError (''Could not find plugin named '' @ pluginName)))
      | Some c \<Rightarrow>
          (case context_instantiateDriver P driverName params c h of
             (c', h', x) \<Rightarrow> (h'\<lparr>m_regMap := AList.update pluginName c' (m_regMap h)\<rparr>, x)))"

definition PluginHost_destroy :: "'w plugin_lib \<Rightarrow> 'w PluginHost \<Rightarrow> 'w PluginHost" where
  "PluginHost_destroy P h =
     (fold (PluginContext_destroy P) (rev (map snd (m_regMap h))) h)\<lparr>m_regMap := []\<rparr>"


subsection \<open>The life of the plugins' objects\<close>

text \<open>
  The objects alive after a log, when every deletion in it is of an object that is alive:
  \<open>None\<close> when something is deleted twice or without having been registered.
\<close>

fun alive_from :: "nat multiset \<Rightarrow> host_event list \<Rightarrow> nat multiset option" where
  "alive_from M [] = Some M"
| "alive_from M (Registered d # evs) = alive_from (add_mset d M) evs"
| "alive_from M (Deleted d # evs) = (if d \<in># M then alive_from (M - {#d#}) evs else None)"

lemma alive_from_append: "alive_from M (evs @ evs') = do { N \<leftarrow> alive_from M evs; alive_from N evs' }"
  by (induction M evs rule: alive_from.induct) simp_all

lemma alive_from_registered: "alive_from M (map Registered ds) = Some (M + mset ds)"
  by (induction ds arbitrary: M) simp_all

lemma alive_from_deleted: "alive_from (M + mset ds) (map Deleted ds) = Some M"
  by (induction ds arbitrary: M) simp_all

lemma run_plugin_registers:
  "run_plugin p c evs = (c', evs', r) \<Longrightarrow>
   \<exists>ds. m_dataList c' = m_dataList c @ ds \<and> evs' = evs @ map Registered ds \<and>
     pc_name c' = pc_name c \<and> m_parent c' = m_parent c"
proof (induction p arbitrary: c evs)
  case (Ends x)
  then show ?case by simp
next
  case (Registers g k)
  obtain c1 ok where g: "register_c g c = (c1, ok)" by fastforce
  with Registers.prems have "run_plugin (k ok) c1 (evs @ registration_events g) = (c', evs', r)" by simp
  from Registers.IH [OF rangeI this] obtain ds where ds: "m_dataList c' = m_dataList c1 @ ds"
    "evs' = evs @ registration_events g @ map Registered ds" "pc_name c' = pc_name c1" "m_parent c' = m_parent c1" by auto
  have "\<exists>es. m_dataList c1 = m_dataList c @ es \<and> registration_events g = map Registered es \<and>
      pc_name c1 = pc_name c \<and> m_parent c1 = m_parent c"
    using g by (cases g) (auto simp: registerDataWithDeleteCallback_def registerHardwareDetectCallback_def
        registerDriverInstantiationCallback_def split: sum.splits if_splits)
  then obtain es where "m_dataList c1 = m_dataList c @ es" "registration_events g = map Registered es"
    "pc_name c1 = pc_name c" "m_parent c1 = m_parent c" by blast
  with ds show ?case by (intro exI [of _ "es @ ds"]) simp
qed

lemma delete_all_log:
  "host_log (delete_all P ds h) = host_log h @ map Deleted ds"
  "m_regMap (delete_all P ds h) = m_regMap h" "host_id (delete_all P ds h) = host_id h"
  by (induction P ds h rule: delete_all.induct) simp_all

lemma destroy_log [simp]:
  "host_log (PluginContext_destroy P c h) = host_log h @ map Deleted (rev (m_dataList c))"
  "m_regMap (PluginContext_destroy P c h) = m_regMap h"
  by (simp_all add: PluginContext_destroy_def delete_all_log)

lemma tryLoadingPlugin_registers:
  assumes "tryLoadingPlugin P name rethrow c h = (c', h', r)"
  shows "\<exists>ds. m_dataList c' = m_dataList c @ ds \<and> host_log h' = host_log h @ map Registered ds \<and>
    pc_name c' = pc_name c \<and> m_parent c' = m_parent c \<and> m_regMap h' = m_regMap h \<and> host_id h' = host_id h"
proof -
  obtain c1 evs w x where run: "run_plugin (loadPluginByName P name (host_world h)) c (host_log h) = (c1, evs, w, x)"
    using prod_cases4 by blast
  with assms have "c' = c1" "h' = h\<lparr>host_world := w, host_log := evs\<rparr>" by (simp_all add: tryLoadingPlugin_def)
  with run_plugin_registers [OF run] show ?thesis by auto
qed

text \<open>
  Loading a plugin: the objects \<open>ds\<close> its code registers are kept, in the context that is stored
  under the name, when the loading succeeds and the name is new. Otherwise nothing is stored
  and they are deleted at once. That includes a second successful loading under the same name.
\<close>

lemma loadPlugin_effect:
  assumes "loadPlugin P name h = (h', x)"
  shows "\<exists>ds. if x = None \<and> map_of (m_regMap h) name = None
    then (\<exists>c. pc_name c = name \<and> m_parent c = Some (host_id h) \<and> m_dataList c = ds \<and>
            m_regMap h' = insort_key fst (name, c) (m_regMap h)) \<and>
         host_log h' = host_log h @ map Registered ds
    else m_regMap h' = m_regMap h \<and> host_log h' = host_log h @ map Registered ds @ map Deleted (rev ds)"
proof (cases "findPlugin P name = []")
  case True
  with assms show ?thesis by (intro exI [of _ "[]"]) (auto simp: loadPlugin_def)
next
  case False
  let ?c = "(PluginContext_create name)\<lparr>m_parent := Some (host_id h)\<rparr>"
  let ?attempt = "case tryLoadingPlugin P (findPlugin P name) False ?c h of
      (c1, h1, Inr False) \<Rightarrow> tryLoadingPlugin P (path_without_extension P (findPlugin P name)) True c1 h1 | out \<Rightarrow> out"
  obtain c1 h1 r1 where t1: "tryLoadingPlugin P (findPlugin P name) False ?c h = (c1, h1, r1)" using prod_cases3 by blast
  obtain c2 h2 r2 where t2: "?attempt = (c2, h2, r2)" using prod_cases3 by blast
  from tryLoadingPlugin_registers [OF t1] obtain d1 where d1: "m_dataList c1 = d1" "host_log h1 = host_log h @ map Registered d1"
    "pc_name c1 = name" "m_parent c1 = Some (host_id h)" "m_regMap h1 = m_regMap h" "host_id h1 = host_id h"
    by (auto simp: PluginContext_create_def)
  have "\<exists>ds. m_dataList c2 = ds \<and> host_log h2 = host_log h @ map Registered ds \<and> pc_name c2 = name \<and>
      m_parent c2 = Some (host_id h) \<and> m_regMap h2 = m_regMap h \<and> host_id h2 = host_id h"
  proof (cases "r1 = Inr False")
    case True
    with t1 t2 have "tryLoadingPlugin P (path_without_extension P (findPlugin P name)) True c1 h1 = (c2, h2, r2)" by simp
    from tryLoadingPlugin_registers [OF this] d1 show ?thesis by auto
  next
    case False
    with t1 t2 have "(c2, h2, r2) = (c1, h1, r1)" by (auto split: sum.splits bool.splits)
    with d1 show ?thesis by simp
  qed
  then obtain ds where ds: "m_dataList c2 = ds" "host_log h2 = host_log h @ map Registered ds" "pc_name c2 = name"
    "m_parent c2 = Some (host_id h)" "m_regMap h2 = m_regMap h" "host_id h2 = host_id h" by blast
  have parent: "pc_setParent (host_id h) (PluginContext_create name) = Inr ?c"
    by (simp add: pc_setParent_def PluginContext_create_def)
  have "(h', x) = (case (c2, h2, r2) of
      (c', h', Inl e) \<Rightarrow> (PluginContext_destroy P c' h', Some e)
    | (c', h', Inr success) \<Rightarrow>
        if \<not> success
        then (PluginContext_destroy P c' h',
              Some (RuntimeError (''Unusual error occurred trying to load plugin named '' @ name)))
        else adoptPluginRegistrationContext P c' h')"
    using assms False parent t2 unfolding loadPlugin_def Let_def by simp
  then show ?thesis
    using ds by (intro exI [of _ ds])
      (auto simp: adoptPluginRegistrationContext_def pc_setParent_def split: sum.splits if_splits
        intro!: exI [of _ "c2\<lparr>m_parent := Some (host_id h)\<rparr>"])
qed

text \<open>The objects of the contexts in the map.\<close>

definition host_objects :: "(string \<times> PluginContext) list \<Rightarrow> nat multiset" where
  "host_objects cs = mset (concat (map (\<lambda>(n, c). m_dataList c) cs))"

lemma host_objects_insort: "host_objects (insort_key fst (n, c) cs) = mset (m_dataList c) + host_objects cs"
  by (induction cs) (auto simp: host_objects_def)

lemma host_objects_update:
  "map_of cs n = Some c \<Longrightarrow> m_dataList c' = m_dataList c @ ds \<Longrightarrow>
     host_objects (AList.update n c' cs) = host_objects cs + mset ds"
  by (induction cs) (auto simp: host_objects_def split: if_splits)

definition host_inv :: "'w PluginHost \<Rightarrow> bool" where
  "host_inv h \<longleftrightarrow> sorted (map fst (m_regMap h)) \<and> distinct (map fst (m_regMap h)) \<and>
     alive_from {#} (host_log h) = Some (host_objects (m_regMap h))"

lemma loadPlugin_inv:
  assumes "host_inv h" and "loadPlugin P name h = (h', x)"
  shows "host_inv h'"
proof -
  from loadPlugin_effect [OF assms(2)] obtain ds where ds: "if x = None \<and> map_of (m_regMap h) name = None
    then (\<exists>c. pc_name c = name \<and> m_parent c = Some (host_id h) \<and> m_dataList c = ds \<and>
            m_regMap h' = insort_key fst (name, c) (m_regMap h)) \<and>
         host_log h' = host_log h @ map Registered ds
    else m_regMap h' = m_regMap h \<and> host_log h' = host_log h @ map Registered ds @ map Deleted (rev ds)" by blast
  show ?thesis
  proof (cases "x = None \<and> map_of (m_regMap h) name = None")
    case True
    with ds obtain c where "m_dataList c = ds" "m_regMap h' = insort_key fst (name, c) (m_regMap h)"
      "host_log h' = host_log h @ map Registered ds" by auto
    moreover have "name \<notin> fst ` set (m_regMap h)" using True by (simp add: map_of_eq_None_iff)
    moreover have "distinct (map fst (insort_key fst (name, c) cs))" if "distinct (map fst cs)" "name \<notin> fst ` set cs" for cs
      using that by (induction cs) (auto simp: set_insort_key)
    ultimately show ?thesis using assms(1)
      by (simp add: host_inv_def sorted_insort_key host_objects_insort alive_from_append alive_from_registered add.commute)
  next
    case False
    with ds have "m_regMap h' = m_regMap h" "host_log h' = host_log h @ map Registered ds @ map Deleted (rev ds)"
      by presburger+
    with assms(1) alive_from_deleted [of "host_objects (m_regMap h)" "rev ds"] show ?thesis
      by (simp add: host_inv_def alive_from_append alive_from_registered)
  qed
qed

lemma load_files_inv: "host_inv h \<Longrightarrow> host_inv (load_files P fs h)"
proof (induction fs arbitrary: h)
  case Nil
  then show ?case by simp
next
  case (Cons f fs)
  have "host_inv (fst (loadPlugin P (path_stem P f) h))" using loadPlugin_inv [OF Cons.prems] by (metis prod.collapse)
  with Cons show ?case by (simp add: Let_def)
qed

lemma detect_callbacks_registers:
  "detect_callbacks P fs c h = Some (c', h') \<Longrightarrow>
   \<exists>ds. m_dataList c' = m_dataList c @ ds \<and> host_log h' = host_log h @ map Registered ds \<and> m_regMap h' = m_regMap h"
proof (induction fs arbitrary: c h)
  case Nil
  then show ?case by simp
next
  case (Cons f fs)
  obtain c1 evs w where run: "run_plugin (call_detect P f (host_world h)) c (host_log h) = (c1, evs, w)"
    using prod_cases3 by blast
  with Cons.prems have "detect_callbacks P fs c1 (h\<lparr>host_world := w, host_log := evs\<rparr>) = Some (c', h')"
    by (simp split: if_splits)
  from Cons.IH [OF this] run_plugin_registers [OF run] show ?case by (auto intro: exI [of _ "_ @ _"])
qed

lemma detect_contexts_inv:
  "detect_contexts P done cs h = Some h' \<Longrightarrow>
   map fst (m_regMap h') = map fst (done @ cs) \<and>
   (alive_from {#} (host_log h) = Some (host_objects (done @ cs)) \<longrightarrow>
    alive_from {#} (host_log h') = Some (host_objects (m_regMap h')))"
proof (induction P "done" cs h rule: detect_contexts.induct)
  case (1 P "done" h)
  then show ?case by auto
next
  case (2 P "done" n c cs h)
  then obtain c1 h1 where d: "triggerHardwareDetectCallbacks P c h = Some (c1, h1)"
    "detect_contexts P (done @ [(n, c1)]) cs h1 = Some h'" by (auto simp: bind_eq_Some_conv)
  from d(1) detect_callbacks_registers obtain ds where "m_dataList c1 = m_dataList c @ ds"
    "host_log h1 = host_log h @ map Registered ds" unfolding triggerHardwareDetectCallbacks_def by blast
  then have "alive_from {#} (host_log h) = Some (host_objects (done @ (n, c) # cs)) \<Longrightarrow>
      alive_from {#} (host_log h1) = Some (host_objects ((done @ [(n, c1)]) @ cs))"
    by (simp add: alive_from_append alive_from_registered host_objects_def ac_simps)
  with "2.IH" [OF d(1) refl d(2)] show ?case by auto
qed

lemma context_instantiateDriver_registers:
  assumes "context_instantiateDriver P n params c h = (c', h', x)"
  shows "\<exists>ds. m_dataList c' = m_dataList c @ ds \<and> host_log h' = host_log h @ map Registered ds \<and> m_regMap h' = m_regMap h"
proof (cases "m_driverInstantiationCallbacks c n")
  case None
  with assms show ?thesis by (simp add: context_instantiateDriver_def)
next
  case (Some f)
  obtain c1 evs w ok where run: "run_plugin (call_driver P f params (host_world h)) c (host_log h) = (c1, evs, w, ok)"
    using prod_cases4 by blast
  with assms Some have "c' = c1" "h' = h\<lparr>host_world := w, host_log := evs\<rparr>"
    by (simp_all add: context_instantiateDriver_def)
  with run_plugin_registers [OF run] show ?thesis by auto
qed

lemma host_instantiate_inv:
  assumes "host_inv h" and "host_instantiate P pluginName driverName params h = (h', x)"
  shows "host_inv h'"
proof (cases "map_of (m_regMap h) pluginName")
  case None
  with assms show ?thesis by (simp add: host_instantiate_def)
next
  case (Some c)
  obtain c1 h1 x1 where i: "context_instantiateDriver P driverName params c h = (c1, h1, x1)" using prod_cases3 by blast
  with assms(2) Some have h': "h' = h1\<lparr>m_regMap := AList.update pluginName c1 (m_regMap h)\<rparr>"
    by (simp add: host_instantiate_def)
  from context_instantiateDriver_registers [OF i] obtain ds where ds: "m_dataList c1 = m_dataList c @ ds"
    "host_log h1 = host_log h @ map Registered ds" by blast
  have "pluginName \<in> fst ` set (m_regMap h)" using Some by (force dest: map_of_SomeD)
  then have "map fst (AList.update pluginName c1 (m_regMap h)) = map fst (m_regMap h)"
    by (simp add: update_keys)
  with assms(1) show ?thesis
    by (simp add: h' ds host_inv_def alive_from_append alive_from_registered host_objects_update [OF Some ds(1)])
qed

text \<open>What the server asks of the host; \<open>None\<close> is the undefined case of a detect callback.\<close>

datatype host_call = CallLoad string | CallLoadAll | CallDetect | CallInstantiate string string string

fun host_do :: "'w plugin_lib \<Rightarrow> host_call \<Rightarrow> 'w PluginHost \<Rightarrow> 'w PluginHost option" where
  "host_do P (CallLoad name) h = Some (fst (loadPlugin P name h))"
| "host_do P CallLoadAll h = Some (host_loadAll P h)"
| "host_do P CallDetect h = host_triggerHardwareDetect P h"
| "host_do P (CallInstantiate pluginName driverName params) h =
     Some (fst (host_instantiate P pluginName driverName params h))"

fun host_run :: "'w plugin_lib \<Rightarrow> host_call list \<Rightarrow> 'w PluginHost \<Rightarrow> 'w PluginHost option" where
  "host_run P [] h = Some h"
| "host_run P (c # cs) h = do { h' \<leftarrow> host_do P c h; host_run P cs h' }"

lemma host_do_inv: "host_inv h \<Longrightarrow> host_do P c h = Some h' \<Longrightarrow> host_inv h'"
proof (cases c)
  case (CallLoad name)
  assume "host_inv h" "host_do P c h = Some h'"
  with CallLoad loadPlugin_inv [of h P name] show ?thesis by (metis host_do.simps(1) option.inject prod.collapse)
next
  case CallLoadAll
  assume "host_inv h" "host_do P c h = Some h'"
  with CallLoadAll load_files_inv show ?thesis by (auto simp: host_loadAll_def)
next
  case CallDetect
  assume "host_inv h" "host_do P c h = Some h'"
  with CallDetect detect_contexts_inv [of P "[]" "m_regMap h" h h'] show ?thesis
    by (simp add: host_triggerHardwareDetect_def host_inv_def)
next
  case (CallInstantiate pluginName driverName params)
  assume "host_inv h" "host_do P c h = Some h'"
  with CallInstantiate host_instantiate_inv [of h P] show ?thesis by (metis host_do.simps(4) option.inject prod.collapse)
qed

lemma host_run_inv: "host_inv h \<Longrightarrow> host_run P cs h = Some h' \<Longrightarrow> host_inv h'"
  by (induction cs arbitrary: h) (auto simp: bind_eq_Some_conv intro: host_do_inv)

lemma PluginHost_destroy_log:
  "host_log (PluginHost_destroy P h) = host_log h @ map Deleted (rev (concat (map (\<lambda>(n, c). m_dataList c) (m_regMap h))))"
proof -
  have "host_log (fold (PluginContext_destroy P) cs h) = host_log h @ map Deleted (concat (map (\<lambda>c. rev (m_dataList c)) cs))" for cs
    by (induction cs arbitrary: h) simp_all
  moreover have "concat (map (\<lambda>c. rev (m_dataList c)) (rev (map snd cs))) = rev (concat (map (\<lambda>(n, c). m_dataList c) cs))"
    for cs :: "(string \<times> PluginContext) list"
    by (induction cs) auto
  ultimately show ?thesis by (simp add: PluginHost_destroy_def)
qed

text \<open>
  C16: Each object a plugin registers is deleted exactly once. Whatever plugins are loaded, fail
  to load or are loaded again, whatever drivers are instantiated and callbacks run, and whatever
  their code registers: the names of the loaded plugins stay sorted without repetition, no
  object is deleted that is not alive, and the objects alive are those of the loaded plugins.
  Destroying the host then deletes these, the reverse of the plugins' order and in each plugin the
  last registered first, and nothing is left.
\<close>

theorem plugin_objects_deleted_once:
  assumes "host_run P calls (PluginHost_create i w) = Some h"
  shows "sorted (map fst (m_regMap h)) \<and> distinct (map fst (m_regMap h)) \<and>
    alive_from {#} (host_log h) = Some (host_objects (m_regMap h)) \<and>
    host_log (PluginHost_destroy P h) =
      host_log h @ map Deleted (rev (concat (map (\<lambda>(n, c). m_dataList c) (m_regMap h)))) \<and>
    alive_from {#} (host_log (PluginHost_destroy P h)) = Some {#}"
proof -
  have "host_inv (PluginHost_create i w)" by (simp add: host_inv_def PluginHost_create_def host_objects_def)
  then have inv: "host_inv h" using assms by (rule host_run_inv)
  let ?ds = "concat (map (\<lambda>(n, c). m_dataList c) (m_regMap h))"
  have "alive_from (host_objects (m_regMap h)) (map Deleted (rev ?ds)) = Some {#}"
    using alive_from_deleted [of "{#}" "rev ?ds"] by (simp add: host_objects_def)
  with inv show ?thesis by (simp add: host_inv_def PluginHost_destroy_log alive_from_append)
qed

definition demo_plugins :: "nat plugin_lib" where
  "demo_plugins = \<lparr>plugin_extension = ''.so'', ignore_suffix = ''.manualload'', getPluginSearchPath = [''d''],
     dir_entries = (\<lambda>d. Some [(''b.so'', True), (''a.so'', True), (''n.txt'', True)]),
     path_extension = drop 1, path_stem = take 1, path_without_extension = take 1,
     loadPluginByName = (\<lambda>p w. Registers (Register_data w) (\<lambda>_.
       if p = ''b.so'' then Ends (w + 1, Some (RuntimeError ''no''))
       else Registers (Register_driver ''d'' 7) (\<lambda>ok. Registers (Register_detect 8) (\<lambda>_. Ends (w + 1, None))))),
     call_detect = (\<lambda>f w. Registers (Register_data (w + f)) (\<lambda>_. Ends (w + 1))),
     call_driver = (\<lambda>f s w. Registers (Register_data (w + f)) (\<lambda>_. Ends (w + 1, True))), call_delete = (\<lambda>d w. w)\<rparr>"

definition demo_calls :: "host_call list" where
  "demo_calls = [CallLoad ''b'', CallLoad ''b'', CallDetect, CallInstantiate ''b'' ''d'' ''{}'']"

lemma demo_calls_run:
  "\<exists>h. host_run demo_plugins demo_calls (PluginHost_create 0 0) = Some h \<and> map fst (m_regMap h) = [''b''] \<and>
     length (host_log h) = 8"
proof -
  have "map_option (\<lambda>h. (map fst (m_regMap h), length (host_log h)))
      (host_run demo_plugins demo_calls (PluginHost_create 0 0)) = Some ([''b''], 8)"
    by code_simp
  then show ?thesis by auto
qed

theorem plugin_objects_deleted_once_witness:
  "\<exists>h. host_run demo_plugins demo_calls (PluginHost_create 0 0) = Some h \<and> map fst (m_regMap h) = [''b''] \<and>
     length (host_log h) = 8 \<and> alive_from {#} (host_log (PluginHost_destroy demo_plugins h)) = Some {#}"
proof -
  from demo_calls_run obtain h where run: "host_run demo_plugins demo_calls (PluginHost_create 0 0) = Some h"
    and names: "map fst (m_regMap h) = [''b'']" "length (host_log h) = 8"
    by (elim exE conjE)
  from plugin_objects_deleted_once [OF run] have "alive_from {#} (host_log (PluginHost_destroy demo_plugins h)) = Some {#}"
    by (elim conjE)
  with run names show ?thesis by (intro exI [of _ h] conjI)
qed

end
