(* ===== verification/Display_Config.thy ===== *)
theory Display_Config
  imports Alias_Processing Interface_State
begin

text \<open>
  What a client learns of the display: \<^verbatim>\<open>src/osvr/Client/DisplayDescriptorSchema1.cpp\<close> reads the
  display descriptor, the string at \<^verbatim>\<open>/display\<close> in the path tree, \<^verbatim>\<open>DisplayConfig.cpp\<close> turns it into
  viewers, eyes, viewports and display inputs, and \<^verbatim>\<open>src/osvr/ClientKit/DisplayC.cpp\<close> answers the
  client's questions.

  Parameters: arithmetic on doubles (a type \<open>'d\<close> with the operations of the record \<open>fp\<close>; a number
  in JSON is converted by \<open>fp_of_rat\<close>), and the matrices, which Eigen computes. Releasing the
  interfaces a configuration opens is the subject of \<open>Client_Interfaces\<close>; here an interface is a
  number, and its pose a function of it. \<open>None\<close> is undefined behaviour: an index out of range in a
  build without assertions.
\<close>

subsection \<open>The descriptor\<close>

record 'd fp =
  fp_of_rat :: "rat \<Rightarrow> 'd"
  fp_radians :: "'d \<Rightarrow> 'd"
  fp_mul :: "'d \<Rightarrow> 'd \<Rightarrow> 'd"
  fp_div :: "'d \<Rightarrow> 'd \<Rightarrow> 'd"
  fp_sub :: "'d \<Rightarrow> 'd \<Rightarrow> 'd"
  fp_neg :: "'d \<Rightarrow> 'd"
  fp_tan :: "'d \<Rightarrow> 'd"
  fp_less :: "'d \<Rightarrow> 'd \<Rightarrow> bool"
  fp_eq :: "'d \<Rightarrow> 'd \<Rightarrow> bool"

datatype DisplayMode = HORIZONTAL_SIDE_BY_SIDE | VERTICAL_SIDE_BY_SIDE | FULL_SCREEN

record Resolution =
  res_width :: int
  res_height :: int
  video_inputs :: int
  display_mode :: DisplayMode

record 'd EyeInfo =
  m_CenterProjX :: 'd
  m_CenterProjY :: 'd
  m_rotate180 :: bool

record 'd DisplayDescriptor =
  m_vendor :: string
  m_model :: string
  m_version :: string
  m_note :: string
  m_monocularHorizontalFOV :: 'd
  m_monocularVerticalFOV :: 'd
  m_overlapPercent :: 'd
  m_pitchTilt :: 'd
  m_resolutions :: "Resolution list"
  m_distort :: "'d \<times> 'd \<times> 'd"
  m_rightRoll :: 'd
  m_leftRoll :: 'd
  m_eyes :: "'d EyeInfo list"

fun asDouble :: "'d fp \<Rightarrow> json \<Rightarrow> (exn, 'd) result" where
  "asDouble R JNull = Inr (fp_of_rat R 0)"
| "asDouble R (JInt i) = Inr (fp_of_rat R (of_int i))"
| "asDouble R (JUInt i) = Inr (fp_of_rat R (of_int i))"
| "asDouble R (JReal x) = Inr (fp_of_rat R x)"
| "asDouble R (JBool b) = Inr (fp_of_rat R (if b then 1 else 0))"
| "asDouble R _ = Inl (RuntimeError ''Value is not convertible to double.'')"

definition double_at :: "'d fp \<Rightarrow> json \<Rightarrow> string \<Rightarrow> (exn, 'd) result" where
  "double_at R v k = result_bind (json_at v k) (asDouble R)"

definition double_get :: "'d fp \<Rightarrow> json \<Rightarrow> string \<Rightarrow> json \<Rightarrow> (exn, 'd) result" where
  "double_get R v k d = result_bind (json_get v k d) (asDouble R)"

definition string_at :: "json_lib \<Rightarrow> json \<Rightarrow> string \<Rightarrow> (exn, string) result" where
  "string_at L v k = result_bind (json_at v k) (asString L)"

definition parse_field_of_view :: "'d fp \<Rightarrow> json \<Rightarrow> 'd DisplayDescriptor \<Rightarrow> (exn, 'd DisplayDescriptor) result" where
  "parse_field_of_view R hmd d =
     result_bind (json_at hmd ''field_of_view'') (\<lambda>fov.
     result_bind (double_at R fov ''monocular_horizontal'') (\<lambda>h.
     result_bind (double_at R fov ''monocular_vertical'') (\<lambda>v.
     result_bind (double_get R fov ''overlap_percent'' (JInt 100)) (\<lambda>overlap.
     result_bind (double_get R fov ''pitch_tilt'' (JInt 0)) (\<lambda>tilt.
       Inr (d\<lparr>m_monocularHorizontalFOV := fp_radians R h, m_monocularVerticalFOV := fp_radians R v,
             m_overlapPercent := fp_div R overlap (fp_of_rat R 100), m_pitchTilt := fp_radians R tilt\<rparr>))))))"

definition parse_device :: "json_lib \<Rightarrow> json \<Rightarrow> 'd DisplayDescriptor \<Rightarrow> (exn, 'd DisplayDescriptor) result" where
  "parse_device L hmd d =
     result_bind (json_at hmd ''device'') (\<lambda>devprops.
     result_bind (string_at L devprops ''vendor'') (\<lambda>vendor.
     result_bind (string_at L devprops ''model'') (\<lambda>model.
     result_bind (string_at L devprops ''Version'') (\<lambda>version.
     result_bind (string_at L devprops ''Note'') (\<lambda>note.
       Inr (d\<lparr>m_vendor := vendor, m_model := model, m_version := version, m_note := note\<rparr>))))))"

fun display_mode_of :: "string \<Rightarrow> DisplayMode option" where
  "display_mode_of s =
     (if s = ''horz_side_by_side'' then Some HORIZONTAL_SIDE_BY_SIDE
      else if s = ''vert_side_by_side'' then Some VERTICAL_SIDE_BY_SIDE
      else if s = ''full_screen'' then Some FULL_SCREEN
      else None)"

definition m_processResolution :: "json_lib \<Rightarrow> json \<Rightarrow> (exn, Resolution) result" where
  "m_processResolution L resolution =
     result_bind (result_bind (json_get resolution ''video_inputs'' (JInt 1)) asInt) (\<lambda>inputs.
     result_bind (result_bind (json_at resolution ''width'') asInt) (\<lambda>width.
     result_bind (result_bind (json_at resolution ''height'') asInt) (\<lambda>height.
     result_bind (json_at resolution ''display_mode'') (\<lambda>mode.
     result_bind (if isString mode then asString L mode else Inr []) (\<lambda>mode_str.
       let default = if inputs > 1 then FULL_SCREEN else HORIZONTAL_SIDE_BY_SIDE in
       Inr \<lparr>res_width = width, res_height = height, video_inputs = inputs,
            display_mode = (case display_mode_of mode_str of None \<Rightarrow> default | Some m \<Rightarrow> m)\<rparr>)))))"

fun parse_resolutions :: "json_lib \<Rightarrow> json list \<Rightarrow> (exn, Resolution list) result" where
  "parse_resolutions L [] = Inr []"
| "parse_resolutions L (r # rs) =
     result_bind (m_processResolution L r) (\<lambda>res. result_bind (parse_resolutions L rs) (\<lambda>ress. Inr (res # ress)))"

definition parse_rolls :: "'d fp \<Rightarrow> json \<Rightarrow> 'd DisplayDescriptor \<Rightarrow> (exn, 'd DisplayDescriptor) result" where
  "parse_rolls R hmd d =
     result_bind (json_at hmd ''rendering'') (\<lambda>rendering.
     result_bind (double_get R rendering ''right_roll'' (JInt 0)) (\<lambda>right.
     result_bind (double_get R rendering ''left_roll'' (JInt 0)) (\<lambda>left.
       Inr (d\<lparr>m_rightRoll := right, m_leftRoll := left\<rparr>))))"

definition parse_distortion :: "'d fp \<Rightarrow> json \<Rightarrow> 'd DisplayDescriptor \<Rightarrow> (exn, 'd DisplayDescriptor) result" where
  "parse_distortion R hmd d =
     result_bind (json_at hmd ''distortion'') (\<lambda>distortion.
     result_bind (double_get R distortion ''k1_red'' (JInt 0)) (\<lambda>red.
     result_bind (double_get R distortion ''k1_green'' (JInt 0)) (\<lambda>green.
     result_bind (double_get R distortion ''k1_blue'' (JInt 0)) (\<lambda>blue.
       Inr (d\<lparr>m_distort := (red, green, blue)\<rparr>)))))"

definition parse_rotation :: "json \<Rightarrow> (exn, bool) result" where
  "parse_rotation eye =
     result_bind (isMember eye ''rotate_180'') (\<lambda>present.
       if present
       then result_bind (json_at eye ''rotate_180'') (\<lambda>rot.
              case rot of JBool b \<Rightarrow> Inr b | _ \<Rightarrow> result_bind (asInt rot) (\<lambda>i. Inr (i \<noteq> 0)))
       else Inr False)"

fun parse_eyes :: "'d fp \<Rightarrow> json list \<Rightarrow> (exn, 'd EyeInfo list) result" where
  "parse_eyes R [] = Inr []"
| "parse_eyes R (eye # eyes) =
     result_bind (double_get R eye ''center_proj_x'' (JReal (1 / 2))) (\<lambda>x.
     result_bind (double_get R eye ''center_proj_y'' (JReal (1 / 2))) (\<lambda>y.
     result_bind (parse_rotation eye) (\<lambda>rot.
     result_bind (parse_eyes R eyes) (\<lambda>es.
       Inr (\<lparr>m_CenterProjX = x, m_CenterProjY = y, m_rotate180 = rot\<rparr> # es)))))"

definition DisplayDescriptor_empty :: "'d fp \<Rightarrow> 'd DisplayDescriptor" where
  "DisplayDescriptor_empty R =
     (let z = fp_of_rat R 0 in
      \<lparr>m_vendor = [], m_model = [], m_version = [], m_note = [], m_monocularHorizontalFOV = z,
       m_monocularVerticalFOV = z, m_overlapPercent = z, m_pitchTilt = z, m_resolutions = [],
       m_distort = (z, z, z), m_rightRoll = z, m_leftRoll = z, m_eyes = []\<rparr>)"

text \<open>Without a usable resolution the rest, the eyes among it, is not read.\<close>

definition DisplayDescriptor_parse :: "json_lib \<Rightarrow> 'd fp \<Rightarrow> string \<Rightarrow> (exn, 'd DisplayDescriptor) result" where
  "DisplayDescriptor_parse L R display_description =
     result_bind (json_at (jsonParse L display_description) ''hmd'') (\<lambda>hmd.
     result_bind (parse_field_of_view R hmd (DisplayDescriptor_empty R)) (\<lambda>d.
     result_bind (parse_device L hmd d) (\<lambda>d.
     result_bind (json_at hmd ''resolutions'') (\<lambda>resolutions.
       if resolutions = JNull
       then Inl (RuntimeError ''Display descriptor parse error: Couldn't find resolutions array.'')
       else
         result_bind (parse_resolutions L (json_elements resolutions)) (\<lambda>ress.
           let d = d\<lparr>m_resolutions := ress\<rparr> in
           if ress = [] then Inr d
           else
             result_bind (parse_rolls R hmd d) (\<lambda>d.
             result_bind (parse_distortion R hmd d) (\<lambda>d.
             result_bind (json_at hmd ''eyes'') (\<lambda>eyes.
               if eyes = JNull
               then Inl (RuntimeError ''Display descriptor parse error: Couldn't find eyes array.'')
               else result_bind (parse_eyes R (json_elements eyes)) (\<lambda>es. Inr (d\<lparr>m_eyes := es\<rparr>))))))))))"

text \<open>\<^verbatim>\<open>m_resolutions.at(0)\<close>; the active resolution is never changed.\<close>

definition activeResolution :: "'d DisplayDescriptor \<Rightarrow> (exn, Resolution) result" where
  "activeResolution d = (case m_resolutions d of [] \<Rightarrow> Inl OutOfRange | r # rs \<Rightarrow> Inr r)"

definition getDisplayWidth :: "'d DisplayDescriptor \<Rightarrow> (exn, int) result" where
  "getDisplayWidth d = result_bind (activeResolution d) (\<lambda>r. Inr (res_width r))"

definition getDisplayHeight :: "'d DisplayDescriptor \<Rightarrow> (exn, int) result" where
  "getDisplayHeight d = result_bind (activeResolution d) (\<lambda>r. Inr (res_height r))"

definition getDisplayMode :: "'d DisplayDescriptor \<Rightarrow> (exn, DisplayMode) result" where
  "getDisplayMode d = result_bind (activeResolution d) (\<lambda>r. Inr (display_mode r))"

definition getNumDisplays :: "'d DisplayDescriptor \<Rightarrow> (exn, int) result" where
  "getNumDisplays d =
     (if length (m_eyes d) < 2 then Inr 1
      else result_bind (getDisplayMode d) (\<lambda>mode. Inr (if mode = FULL_SCREEN then 2 else 1)))"

text \<open>The parts that are present, separated by spaces.\<close>

definition getHumanReadableDescription :: "'d DisplayDescriptor \<Rightarrow> string" where
  "getHumanReadableDescription d =
     (let add = (\<lambda>present part (os, needSpace).
            if present then (os @ (if needSpace then '' '' else []) @ part, True) else (os, needSpace)) in
      fst (add (m_note d \<noteq> []) (''[Display descriptor note: '' @ m_note d @ '']'')
          (add (m_version d \<noteq> []) (''(Version '' @ m_version d @ '')'')
          (add (m_model d \<noteq> []) (m_model d) (add (m_vendor d \<noteq> []) (m_vendor d) ([], False))))))"


subsection \<open>The string of the tree\<close>

definition getJSONStringFromTree :: "PathTree \<Rightarrow> string \<Rightarrow> (exn, string) result" where
  "getJSONStringFromTree t path =
     (case getNodeByPath_const t path of
        Inl (NoSuchChild name) \<Rightarrow> Inr []
      | Inl e \<Rightarrow> Inl e
      | Inr node \<Rightarrow> Inr (case value_of t node of StringElement s \<Rightarrow> s | _ \<Rightarrow> []))"


subsection \<open>Viewers, eyes and display inputs\<close>

record Viewport =
  vp_left :: int
  vp_bottom :: int
  vp_width :: int
  vp_height :: int

record 'd Rect =
  rect_left :: 'd
  rect_right :: 'd
  rect_top :: 'd
  rect_bottom :: 'd

record 'd ViewerEye =
  eye_iface :: nat
  m_offset :: "'d \<times> 'd \<times> 'd"
  m_viewport :: Viewport
  m_unitBounds :: "'d Rect"
  m_rot180 :: bool
  eye_pitchTilt :: 'd
  m_radDistortParams :: "(('d \<times> 'd \<times> 'd) \<times> 'd \<times> 'd) option"
  m_displayInputIdx :: nat
  m_opticalAxisOffsetY :: 'd

record 'd Viewer =
  head_iface :: nat
  viewer_eyes :: "'d ViewerEye list"

record 'd DisplayConfig =
  m_displayInputs :: "(int \<times> int) list"
  m_viewers :: "'d Viewer list"

text \<open>Division by two truncates towards zero.\<close>

definition halved :: "int \<Rightarrow> int" where
  "halved x = (if x < 0 then - (- x div 2) else x div 2)"

definition computeViewport :: "nat \<Rightarrow> DisplayMode \<Rightarrow> int \<Rightarrow> int \<Rightarrow> Viewport" where
  "computeViewport eye mode width height =
     (case mode of
        FULL_SCREEN \<Rightarrow> \<lparr>vp_left = 0, vp_bottom = 0, vp_width = width, vp_height = height\<rparr>
      | HORIZONTAL_SIDE_BY_SIDE \<Rightarrow>
          \<lparr>vp_left = int eye * halved width, vp_bottom = 0, vp_width = halved width, vp_height = height\<rparr>
      | VERTICAL_SIDE_BY_SIDE \<Rightarrow>
          \<lparr>vp_left = 0, vp_bottom = (if eye = 0 then halved height else 0), vp_width = width, vp_height = halved height\<rparr>)"

definition computeRect :: "'d fp \<Rightarrow> 'd DisplayDescriptor \<Rightarrow> 'd Rect" where
  "computeRect R d =
     (let r = fp_tan R (fp_div R (m_monocularHorizontalFOV d) (fp_of_rat R 2));
          t = fp_tan R (fp_div R (m_monocularVerticalFOV d) (fp_of_rat R 2)) in
      \<lparr>rect_left = fp_neg R r, rect_right = r, rect_top = t, rect_bottom = fp_neg R t\<rparr>)"

definition eye_offset :: "'d fp \<Rightarrow> 'd DisplayDescriptor \<Rightarrow> 'd \<times> 'd \<times> 'd" where
  "eye_offset R d =
     (let z = fp_of_rat R 0; half = fp_div R (fp_of_rat R (63 / 1000)) (fp_of_rat R 2) in
      if length (m_eyes d) = 2
      then (fp_mul R half (fp_of_rat R 1), fp_mul R half z, fp_mul R half z)
      else (z, z, z))"

definition axis_offset :: "'d fp \<Rightarrow> 'd DisplayDescriptor \<Rightarrow> 'd" where
  "axis_offset R d =
     (let hfov = m_monocularHorizontalFOV d in
      if fp_less R (m_overlapPercent d) (fp_of_rat R 1)
      then fp_div R (fp_sub R hfov (fp_mul R hfov (m_overlapPercent d))) (fp_of_rat R 2)
      else fp_of_rat R 0)"

definition wants_distortion :: "'d fp \<Rightarrow> 'd DisplayDescriptor \<Rightarrow> bool" where
  "wants_distortion R d =
     (case m_distort d of (r, g, b) \<Rightarrow>
        \<not> fp_eq R r (fp_of_rat R 0) \<or> \<not> fp_eq R g (fp_of_rat R 0) \<or> \<not> fp_eq R b (fp_of_rat R 0))"

text \<open>
  One eye. The factor is -1 for the left eye and 1 for the right one, also when there is only a
  left eye, whose offset is zero. Reading the description of an eye that is not there is
  undefined.
\<close>

definition make_eye :: "'d fp \<Rightarrow> 'd DisplayDescriptor \<Rightarrow> Resolution \<Rightarrow> nat list \<Rightarrow> nat \<Rightarrow> nat \<Rightarrow> 'd ViewerEye option" where
  "make_eye R d res indices iface eye =
     (if eye < length (m_eyes d) \<and> eye < length indices
      then
        let info = m_eyes d ! eye;
            offsetFactor = fp_sub R (fp_mul R (fp_of_rat R 2) (fp_of_rat R (of_nat eye))) (fp_of_rat R 1) in
        Some \<lparr>eye_iface = iface,
              m_offset = (case eye_offset R d of (x, y, z) \<Rightarrow>
                (fp_mul R offsetFactor x, fp_mul R offsetFactor y, fp_mul R offsetFactor z)),
              m_viewport = computeViewport eye (display_mode res) (res_width res) (res_height res),
              m_unitBounds = computeRect R d,
              m_rot180 = m_rotate180 info,
              eye_pitchTilt = m_pitchTilt d,
              m_radDistortParams =
                (if wants_distortion R d then Some (m_distort d, m_CenterProjX info, m_CenterProjY info) else None),
              m_displayInputIdx = indices ! eye,
              m_opticalAxisOffsetY = fp_mul R (fp_mul R (axis_offset R d) (fp_of_rat R (- 1))) offsetFactor\<rparr>
      else None)"

fun make_eyes :: "'d fp \<Rightarrow> 'd DisplayDescriptor \<Rightarrow> Resolution \<Rightarrow> nat list \<Rightarrow> nat \<Rightarrow> nat list \<Rightarrow> 'd ViewerEye list option" where
  "make_eyes R d res indices iface [] = Some []"
| "make_eyes R d res indices iface (eye # eyes) =
     do { e \<leftarrow> make_eye R d res indices iface eye;
          es \<leftarrow> make_eyes R d res indices (Suc iface) eyes;
          Some (e # es) }"

text \<open>
  The factory: \<open>Some None\<close> is the null pointer, returned for any exception. \<open>ifaces\<close> is the number of
  the next interface the context opens; the viewer's comes first.
\<close>

definition DisplayConfig_of :: "'d fp \<Rightarrow> nat \<Rightarrow> 'd DisplayDescriptor \<Rightarrow> 'd DisplayConfig option option" where
  "DisplayConfig_of R ifaces desc =
     (let eyeIndices = (if length (m_eyes desc) = 2 then [0, 1] else [0]) in
      case activeResolution desc of
        Inl e \<Rightarrow> Some None
      | Inr res \<Rightarrow>
          let full = length (m_eyes desc) = 2 \<and> display_mode res = FULL_SCREEN;
              input = (res_width res, res_height res) in
          do { es \<leftarrow> make_eyes R desc res (if full then [0, 1] else [0, 0]) (Suc ifaces) eyeIndices;
               Some (Some \<lparr>m_displayInputs = (if full then [input, input] else [input]),
                           m_viewers = [\<lparr>head_iface = ifaces, viewer_eyes = es\<rparr>]\<rparr>) })"

definition DisplayConfig_create :: "json_lib \<Rightarrow> 'd fp \<Rightarrow> nat \<Rightarrow> PathTree \<Rightarrow> 'd DisplayConfig option option" where
  "DisplayConfig_create L R ifaces t =
     (case result_bind (getJSONStringFromTree t ''/display'') (DisplayDescriptor_parse L R) of
        Inl e \<Rightarrow> Some None
      | Inr desc \<Rightarrow> DisplayConfig_of R ifaces desc)"

definition getNumViewers :: "'d DisplayConfig \<Rightarrow> nat" where
  "getNumViewers cfg = length (m_viewers cfg)"

definition getViewer :: "'d DisplayConfig \<Rightarrow> nat \<Rightarrow> 'd Viewer option" where
  "getViewer cfg viewer = (if viewer < length (m_viewers cfg) then Some (m_viewers cfg ! viewer) else None)"

definition getNumViewerEyes :: "'d DisplayConfig \<Rightarrow> nat \<Rightarrow> nat option" where
  "getNumViewerEyes cfg viewer = map_option (\<lambda>v. length (viewer_eyes v)) (getViewer cfg viewer)"

definition getViewerEye :: "'d DisplayConfig \<Rightarrow> nat \<Rightarrow> nat \<Rightarrow> 'd ViewerEye option" where
  "getViewerEye cfg viewer eye =
     do { v \<leftarrow> getViewer cfg viewer; if eye < length (viewer_eyes v) then Some (viewer_eyes v ! eye) else None }"

definition getNumViewerEyeSurfaces :: "'d DisplayConfig \<Rightarrow> nat \<Rightarrow> nat \<Rightarrow> nat option" where
  "getNumViewerEyeSurfaces cfg viewer eye = map_option (\<lambda>e. 1) (getViewerEye cfg viewer eye)"

text \<open>The number of the surface is not looked at.\<close>

definition getViewerEyeSurface :: "'d DisplayConfig \<Rightarrow> nat \<Rightarrow> nat \<Rightarrow> nat \<Rightarrow> 'd ViewerEye option" where
  "getViewerEyeSurface cfg viewer eye surface = getViewerEye cfg viewer eye"

definition getNumDisplayInputs :: "'d DisplayConfig \<Rightarrow> nat" where
  "getNumDisplayInputs cfg = length (m_displayInputs cfg)"

definition getDisplayInput :: "'d DisplayConfig \<Rightarrow> nat \<Rightarrow> (int \<times> int) option" where
  "getDisplayInput cfg i = (if i < length (m_displayInputs cfg) then Some (m_displayInputs cfg ! i) else None)"

definition isStartupComplete :: "(nat \<Rightarrow> OSVR_Pose3 option) \<Rightarrow> 'd DisplayConfig \<Rightarrow> bool" where
  "isStartupComplete pose cfg =
     list_all (\<lambda>v. pose (head_iface v) \<noteq> None \<and> list_all (\<lambda>e. pose (eye_iface e) \<noteq> None) (viewer_eyes v)) (m_viewers cfg)"

definition m_getRect :: "'d fp \<Rightarrow> 'd \<Rightarrow> 'd ViewerEye \<Rightarrow> 'd Rect" where
  "m_getRect R near e =
     (let b = m_unitBounds e;
          r = \<lparr>rect_left = fp_mul R (rect_left b) near, rect_right = fp_mul R (rect_right b) near,
               rect_top = fp_mul R (rect_top b) near, rect_bottom = fp_mul R (rect_bottom b) near\<rparr> in
      if m_rot180 e
      then \<lparr>rect_left = rect_right r, rect_right = rect_left r, rect_top = rect_bottom r, rect_bottom = rect_top r\<rparr>
      else r)"

definition OSVR_DISTORTION_PRIORITY_UNAVAILABLE :: int where
  "OSVR_DISTORTION_PRIORITY_UNAVAILABLE = - 1"

definition getRadialDistortionPriority :: "'d ViewerEye \<Rightarrow> int" where
  "getRadialDistortionPriority e =
     (if m_radDistortParams e \<noteq> None then 1 else OSVR_DISTORTION_PRIORITY_UNAVAILABLE)"


subsection \<open>The client's questions\<close>

text \<open>
  A call returns failure, or success with what it writes through its output pointers; \<open>outs\<close> says
  which of these are not null. What the matrix functions write is left to Eigen: a record of
  functions from the eye, its pose and the arguments.
\<close>

datatype 'a c_return = Failure | Success 'a

record ('d, 'm) matrices =
  eye_pose :: "'d ViewerEye \<Rightarrow> OSVR_Pose3 \<Rightarrow> OSVR_Pose3"
  eye_view :: "'d ViewerEye \<Rightarrow> OSVR_Pose3 \<Rightarrow> nat \<Rightarrow> 'm"
  eye_projection :: "'d Rect \<Rightarrow> 'd \<Rightarrow> 'd \<Rightarrow> nat \<Rightarrow> 'm"

definition validated :: "'d DisplayConfig option \<Rightarrow> bool list \<Rightarrow> ('d DisplayConfig \<Rightarrow> 'a c_return option) \<Rightarrow> 'a c_return option" where
  "validated disp outs k =
     (case disp of None \<Rightarrow> Some Failure | Some cfg \<Rightarrow> if list_all id outs then k cfg else Some Failure)"

definition osvrClientCheckDisplayStartup :: "(nat \<Rightarrow> OSVR_Pose3 option) \<Rightarrow> 'd DisplayConfig option \<Rightarrow> unit c_return option" where
  "osvrClientCheckDisplayStartup pose disp =
     validated disp [] (\<lambda>cfg. Some (if isStartupComplete pose cfg then Success () else Failure))"

definition osvrClientGetNumDisplayInputs :: "'d DisplayConfig option \<Rightarrow> bool \<Rightarrow> nat c_return option" where
  "osvrClientGetNumDisplayInputs disp numDisplayInputs =
     validated disp [numDisplayInputs] (\<lambda>cfg. Some (Success (getNumDisplayInputs cfg)))"

definition osvrClientGetDisplayDimensions :: "'d DisplayConfig option \<Rightarrow> nat \<Rightarrow> bool list \<Rightarrow> (int \<times> int) c_return option" where
  "osvrClientGetDisplayDimensions disp displayInputIndex outs =
     validated disp outs (\<lambda>cfg. map_option Success (getDisplayInput cfg displayInputIndex))"

definition osvrClientGetNumViewers :: "'d DisplayConfig option \<Rightarrow> bool \<Rightarrow> nat c_return option" where
  "osvrClientGetNumViewers disp viewers = validated disp [viewers] (\<lambda>cfg. Some (Success (getNumViewers cfg)))"

definition osvrClientGetViewerPose ::
    "(nat \<Rightarrow> OSVR_Pose3 option) \<Rightarrow> 'd DisplayConfig option \<Rightarrow> nat \<Rightarrow> bool \<Rightarrow> OSVR_Pose3 c_return option" where
  "osvrClientGetViewerPose pose disp viewer out =
     validated disp [out] (\<lambda>cfg.
       do { v \<leftarrow> getViewer cfg viewer;
            Some (case pose (head_iface v) of None \<Rightarrow> Failure | Some p \<Rightarrow> Success p) })"

definition osvrClientGetNumEyesForViewer :: "'d DisplayConfig option \<Rightarrow> nat \<Rightarrow> bool \<Rightarrow> nat c_return option" where
  "osvrClientGetNumEyesForViewer disp viewer eyes =
     validated disp [eyes] (\<lambda>cfg. map_option Success (getNumViewerEyes cfg viewer))"

definition osvrClientGetViewerEyePose ::
    "('d, 'm) matrices \<Rightarrow> (nat \<Rightarrow> OSVR_Pose3 option) \<Rightarrow> 'd DisplayConfig option \<Rightarrow> nat \<Rightarrow> nat \<Rightarrow> bool \<Rightarrow> OSVR_Pose3 c_return option" where
  "osvrClientGetViewerEyePose M pose disp viewer eye out =
     validated disp [out] (\<lambda>cfg.
       do { e \<leftarrow> getViewerEye cfg viewer eye;
            Some (case pose (eye_iface e) of None \<Rightarrow> Failure | Some p \<Rightarrow> Success (eye_pose M e p)) })"

definition getViewMatrixImpl ::
    "('d, 'm) matrices \<Rightarrow> (nat \<Rightarrow> OSVR_Pose3 option) \<Rightarrow> 'd DisplayConfig option \<Rightarrow> nat \<Rightarrow> nat \<Rightarrow> bool \<Rightarrow> nat \<Rightarrow> 'm c_return option" where
  "getViewMatrixImpl M pose disp viewer eye mat flags =
     validated disp [mat] (\<lambda>cfg.
       do { e \<leftarrow> getViewerEye cfg viewer eye;
            Some (case pose (eye_iface e) of None \<Rightarrow> Failure | Some p \<Rightarrow> Success (eye_view M e p flags)) })"

definition osvrClientGetNumSurfacesForViewerEye :: "'d DisplayConfig option \<Rightarrow> nat \<Rightarrow> nat \<Rightarrow> bool \<Rightarrow> nat c_return option" where
  "osvrClientGetNumSurfacesForViewerEye disp viewer eye surfaces =
     validated disp [surfaces] (\<lambda>cfg. map_option Success (getNumViewerEyeSurfaces cfg viewer eye))"

definition osvrClientGetRelativeViewportForViewerEyeSurface ::
    "'d DisplayConfig option \<Rightarrow> nat \<Rightarrow> nat \<Rightarrow> nat \<Rightarrow> bool list \<Rightarrow> Viewport c_return option" where
  "osvrClientGetRelativeViewportForViewerEyeSurface disp viewer eye surface outs =
     validated disp outs (\<lambda>cfg. map_option (\<lambda>e. Success (m_viewport e)) (getViewerEyeSurface cfg viewer eye surface))"

definition osvrClientGetViewerEyeSurfaceDisplayInputIndex ::
    "'d DisplayConfig option \<Rightarrow> nat \<Rightarrow> nat \<Rightarrow> nat \<Rightarrow> bool \<Rightarrow> nat c_return option" where
  "osvrClientGetViewerEyeSurfaceDisplayInputIndex disp viewer eye surface displayInput =
     validated disp [displayInput] (\<lambda>cfg.
       map_option (\<lambda>e. Success (m_displayInputIdx e)) (getViewerEyeSurface cfg viewer eye surface))"

definition getProjectionMatrixImpl ::
    "'d fp \<Rightarrow> ('d, 'm) matrices \<Rightarrow> 'd DisplayConfig option \<Rightarrow> nat \<Rightarrow> nat \<Rightarrow> nat \<Rightarrow> 'd \<Rightarrow> 'd \<Rightarrow> nat \<Rightarrow> bool \<Rightarrow> 'm c_return option" where
  "getProjectionMatrixImpl R M disp viewer eye surface near far flags mat =
     validated disp [mat] (\<lambda>cfg.
       let z = fp_of_rat R 0 in
       if fp_eq R near z \<or> fp_eq R far z then Some Failure
       else if fp_less R near z \<or> fp_less R far z then Some Failure
       else if fp_eq R near far then Some Failure
       else map_option (\<lambda>e. Success (eye_projection M (m_getRect R near e) near far flags))
              (getViewerEyeSurface cfg viewer eye surface))"

definition osvrClientGetViewerEyeSurfaceProjectionClippingPlanes ::
    "'d fp \<Rightarrow> 'd DisplayConfig option \<Rightarrow> nat \<Rightarrow> nat \<Rightarrow> nat \<Rightarrow> bool list \<Rightarrow> 'd Rect c_return option" where
  "osvrClientGetViewerEyeSurfaceProjectionClippingPlanes R disp viewer eye surface outs =
     validated disp outs (\<lambda>cfg.
       map_option (\<lambda>e. Success (m_getRect R (fp_of_rat R 1) e)) (getViewerEyeSurface cfg viewer eye surface))"

definition osvrClientDoesViewerEyeSurfaceWantDistortion ::
    "'d DisplayConfig option \<Rightarrow> nat \<Rightarrow> nat \<Rightarrow> nat \<Rightarrow> bool \<Rightarrow> bool c_return option" where
  "osvrClientDoesViewerEyeSurfaceWantDistortion disp viewer eye surface distortionRequested =
     validated disp [distortionRequested] (\<lambda>cfg.
       map_option (\<lambda>e. Success (m_radDistortParams e \<noteq> None)) (getViewerEyeSurface cfg viewer eye surface))"

definition osvrClientGetViewerEyeSurfaceRadialDistortionPriority ::
    "'d DisplayConfig option \<Rightarrow> nat \<Rightarrow> nat \<Rightarrow> nat \<Rightarrow> bool \<Rightarrow> int c_return option" where
  "osvrClientGetViewerEyeSurfaceRadialDistortionPriority disp viewer eye surface priority =
     validated disp [priority] (\<lambda>cfg.
       map_option (\<lambda>e. Success (getRadialDistortionPriority e)) (getViewerEyeSurface cfg viewer eye surface))"

definition osvrClientGetViewerEyeSurfaceRadialDistortion ::
    "'d DisplayConfig option \<Rightarrow> nat \<Rightarrow> nat \<Rightarrow> nat \<Rightarrow> bool \<Rightarrow> (('d \<times> 'd \<times> 'd) \<times> 'd \<times> 'd) c_return option" where
  "osvrClientGetViewerEyeSurfaceRadialDistortion disp viewer eye surface params =
     validated disp [params] (\<lambda>cfg.
       map_option (\<lambda>e. case m_radDistortParams e of None \<Rightarrow> Failure | Some p \<Rightarrow> Success p)
         (getViewerEyeSurface cfg viewer eye surface))"


subsection \<open>What a display configuration promises\<close>

definition read_descriptor :: "json_lib \<Rightarrow> 'd fp \<Rightarrow> PathTree \<Rightarrow> (exn, 'd DisplayDescriptor) result" where
  "read_descriptor L R t = result_bind (getJSONStringFromTree t ''/display'') (DisplayDescriptor_parse L R)"

lemma DisplayConfig_create_read:
  "DisplayConfig_create L R ifaces t =
     (case read_descriptor L R t of Inl e \<Rightarrow> Some None | Inr desc \<Rightarrow> DisplayConfig_of R ifaces desc)"
  by (simp add: DisplayConfig_create_def read_descriptor_def)

lemma make_eyes_defined:
  "make_eyes R d res indices iface eyes = None \<longleftrightarrow>
     \<not> list_all (\<lambda>eye. eye < length (m_eyes d) \<and> eye < length indices) eyes"
  by (induction eyes arbitrary: iface) (auto simp: make_eye_def Let_def bind_eq_None_conv)

text \<open>
  Creating a display configuration is undefined exactly for a descriptor with a resolution and an
  empty list of eyes: the description of the first eye is read without a check.
\<close>

lemma display_without_eyes:
  "DisplayConfig_create L R ifaces t = None \<longleftrightarrow>
     (\<exists>desc. read_descriptor L R t = Inr desc \<and> m_resolutions desc \<noteq> [] \<and> m_eyes desc = [])"
proof (cases "read_descriptor L R t")
  case (Inl e)
  then show ?thesis by (simp add: DisplayConfig_create_read)
next
  case (Inr desc)
  have "DisplayConfig_of R ifaces desc = None \<longleftrightarrow> m_resolutions desc \<noteq> [] \<and> m_eyes desc = []"
    by (auto simp: DisplayConfig_of_def activeResolution_def Let_def bind_eq_None_conv make_eyes_defined
        simp del: make_eyes.simps split: list.splits)
  with Inr show ?thesis by (simp add: DisplayConfig_create_read)
qed

text \<open>The part of a display that its viewports are meant to fill: an odd column or row is left.\<close>

definition shown_area :: "Resolution \<Rightarrow> int \<times> int" where
  "shown_area res =
     (case display_mode res of
        FULL_SCREEN \<Rightarrow> (res_width res, res_height res)
      | HORIZONTAL_SIDE_BY_SIDE \<Rightarrow> (2 * (res_width res div 2), res_height res)
      | VERTICAL_SIDE_BY_SIDE \<Rightarrow> (res_width res, 2 * (res_height res div 2)))"

definition in_viewport :: "Viewport \<Rightarrow> int \<Rightarrow> int \<Rightarrow> bool" where
  "in_viewport v x y \<longleftrightarrow>
     vp_left v \<le> x \<and> x < vp_left v + vp_width v \<and> vp_bottom v \<le> y \<and> y < vp_bottom v + vp_height v"

text \<open>The eyes that see a point of a display input.\<close>

definition eyes_at :: "'d ViewerEye list \<Rightarrow> nat \<Rightarrow> int \<Rightarrow> int \<Rightarrow> nat list" where
  "eyes_at es i x y = filter (\<lambda>e. m_displayInputIdx (es ! e) = i \<and> in_viewport (m_viewport (es ! e)) x y) [0..<length es]"

text \<open>What the factory makes for a descriptor: one viewer with an eye per index.\<close>

lemma created_config:
  assumes "DisplayConfig_create L R ifaces t = Some (Some cfg)"
  obtains desc res es where "read_descriptor L R t = Inr desc" "activeResolution desc = Inr res"
    "m_viewers cfg = [\<lparr>head_iface = ifaces, viewer_eyes = es\<rparr>]"
    "m_displayInputs cfg = replicate (if length (m_eyes desc) = 2 \<and> display_mode res = FULL_SCREEN then 2 else 1)
       (res_width res, res_height res)"
    "map m_viewport es = map (\<lambda>eye. computeViewport eye (display_mode res) (res_width res) (res_height res))
       [0..<if length (m_eyes desc) = 2 then 2 else 1]"
    "map m_displayInputIdx es = (if length (m_eyes desc) = 2
       then [0, if display_mode res = FULL_SCREEN then 1 else 0] else [0])"
proof -
  obtain desc where desc: "read_descriptor L R t = Inr desc" "DisplayConfig_of R ifaces desc = Some (Some cfg)"
    using assms by (cases "read_descriptor L R t") (simp_all add: DisplayConfig_create_read)
  obtain res where res: "activeResolution desc = Inr res"
    using desc(2) by (cases "activeResolution desc") (simp_all add: DisplayConfig_of_def Let_def)
  let ?full = "length (m_eyes desc) = 2 \<and> display_mode res = FULL_SCREEN"
  let ?ix = "if length (m_eyes desc) = 2 then [0, 1] else [0]"
  from desc(2) res obtain es where es: "make_eyes R desc res (if ?full then [0, 1] else [0, 0]) (Suc ifaces) ?ix = Some es"
    and cfg: "cfg = \<lparr>m_displayInputs = (if ?full then [(res_width res, res_height res), (res_width res, res_height res)]
      else [(res_width res, res_height res)]), m_viewers = [\<lparr>head_iface = ifaces, viewer_eyes = es\<rparr>]\<rparr>"
    by (auto simp: DisplayConfig_of_def Let_def bind_eq_Some_conv simp del: make_eyes.simps)
  have fields: "map m_viewport es = map (\<lambda>eye. computeViewport eye (display_mode res) (res_width res) (res_height res)) eyes \<and>
      map m_displayInputIdx es = map (\<lambda>eye. indices ! eye) eyes"
    if "make_eyes R desc res indices iface eyes = Some es" for indices iface eyes and es :: "'a ViewerEye list"
    using that by (induction eyes arbitrary: iface es)
      (auto simp: bind_eq_Some_conv make_eye_def Let_def split: if_splits)
  have range: "[0..<if length (m_eyes desc) = 2 then 2 else 1] = ?ix"
    by (simp add: upt_rec)
  show ?thesis
    by (rule that [OF desc(1) res, of es])
      (use fields [OF es] in \<open>auto simp: cfg numeral_2_eq_2 range\<close>)
qed

text \<open>
  C17: The display configuration. When a client gets one, it has one viewer with one or two eyes,
  each on a display input that is there, so that every question about the viewer, its eyes and
  their display inputs is defined. With two eyes on a display of a size that is not negative, every
  point of the shown area of an input is in the viewport of exactly one eye, and no other point is
  in any: viewports stay on the display and do not overlap.
\<close>

theorem viewports_tile_display:
  assumes "DisplayConfig_create L R ifaces t = Some (Some cfg)"
  shows "\<exists>es res. m_viewers cfg = [\<lparr>head_iface = ifaces, viewer_eyes = es\<rparr>] \<and> length es \<in> {1, 2} \<and>
    (\<forall>e\<in>set es. m_displayInputIdx e < getNumDisplayInputs cfg) \<and>
    set (m_displayInputs cfg) = {(res_width res, res_height res)} \<and>
    (length es = 2 \<and> 0 \<le> res_width res \<and> 0 \<le> res_height res \<longrightarrow>
      (\<forall>i < getNumDisplayInputs cfg. \<forall>x y. length (eyes_at es i x y) =
        (if 0 \<le> x \<and> x < fst (shown_area res) \<and> 0 \<le> y \<and> y < snd (shown_area res) then 1 else 0)))"
proof -
  from assms obtain desc res es where "read_descriptor L R t = Inr desc" "activeResolution desc = Inr res"
    and c: "m_viewers cfg = [\<lparr>head_iface = ifaces, viewer_eyes = es\<rparr>]"
    "m_displayInputs cfg = replicate (if length (m_eyes desc) = 2 \<and> display_mode res = FULL_SCREEN then 2 else 1)
       (res_width res, res_height res)"
    "map m_viewport es = map (\<lambda>eye. computeViewport eye (display_mode res) (res_width res) (res_height res))
       [0..<if length (m_eyes desc) = 2 then 2 else 1]"
    "map m_displayInputIdx es = (if length (m_eyes desc) = 2
       then [0, if display_mode res = FULL_SCREEN then 1 else 0] else [0])"
    by (rule created_config)
  have len: "length es = (if length (m_eyes desc) = 2 then 2 else 1)"
    using arg_cong [OF c(4), of length] by (simp split: if_splits)
  have idx: "\<forall>e\<in>set es. m_displayInputIdx e < getNumDisplayInputs cfg"
  proof
    fix e assume "e \<in> set es"
    then have "m_displayInputIdx e \<in> set (map m_displayInputIdx es)" by simp
    then show "m_displayInputIdx e < getNumDisplayInputs cfg"
      unfolding c(4) by (auto simp: getNumDisplayInputs_def c(2) split: if_splits)
  qed
  have tile: "length (eyes_at es i x y) =
      (if 0 \<le> x \<and> x < fst (shown_area res) \<and> 0 \<le> y \<and> y < snd (shown_area res) then 1 else 0)"
    if two: "length es = 2" and size: "0 \<le> res_width res" "0 \<le> res_height res" and i: "i < getNumDisplayInputs cfg" for i x y
  proof -
    from two obtain e0 e1 where es: "es = [e0, e1]" by (auto simp: numeral_2_eq_2 length_Suc_conv)
    from two len have "length (m_eyes desc) = 2" by (simp split: if_splits)
    with c(3,4) es have e: "m_viewport e0 = computeViewport 0 (display_mode res) (res_width res) (res_height res)"
      "m_viewport e1 = computeViewport 1 (display_mode res) (res_width res) (res_height res)"
      "m_displayInputIdx e0 = 0" "m_displayInputIdx e1 = (if display_mode res = FULL_SCREEN then 1 else 0)"
      by (simp_all add: numeral_2_eq_2)
    have "i < (if display_mode res = FULL_SCREEN then 2 else 1)"
      using i \<open>length (m_eyes desc) = 2\<close> by (simp add: getNumDisplayInputs_def c(2) split: if_splits)
    then show ?thesis
      using size by (cases "display_mode res")
        (auto simp: eyes_at_def es e upt_rec in_viewport_def computeViewport_def halved_def shown_area_def)
  qed
  show ?thesis
    by (intro exI [of _ es] exI [of _ res] conjI impI allI c(1) idx tile) (use len c(2) in \<open>auto split: if_splits\<close>)
qed

text \<open>The descriptor a client reads is the string of its tree's content, by whatever way it got the tree.\<close>

lemma display_from_content:
  assumes "wf_tree t" and "content t [''display''] = Some (StringElement s)"
  shows "getJSONStringFromTree t ''/display'' = Inr s"
proof -
  obtain i where w: "walk t 0 [''display''] = Some i" and v: "value_of t i = StringElement s"
    using assms(2) by (auto simp: content_def lookup_def simp del: walk.simps split: option.splits if_splits)
  then have i: "i < length t" "node_path t i = [''display'']" "value_of t i = StringElement s"
    using walk_sound [OF assms(1) _ w] wf_nonempty [OF assms(1)] node_path_root [OF assms(1)] by simp_all
  have "resolve_names False (strip_trailing_separator (tl ''/display'')) [] (absolute_components ''/display'') = Inr [''display'']"
    by code_simp
  then have "getNodeByPath_const t ''/display'' = Inr i"
    using i getNodeByPath_const_iff [OF assms(1), of "''/display''" i]
    by (simp add: getNodeByPath_const_def)
  with i(3) show ?thesis by (simp add: getJSONStringFromTree_def)
qed

text \<open>The doubles replaced by exact fractions, for a witness.\<close>

definition rat_fp :: "rat fp" where
  "rat_fp = \<lparr>fp_of_rat = id, fp_radians = id, fp_mul = (\<lambda>x y. x * y), fp_div = (\<lambda>x y. x / y),
     fp_sub = (\<lambda>x y. x - y), fp_neg = uminus, fp_tan = id, fp_less = (\<lambda>x y. x < y), fp_eq = (\<lambda>x y. x = y)\<rparr>"

definition display_lib :: json_lib where
  "display_lib = \<lparr>lib_parse = (\<lambda>s. Some (JObject [(''hmd'', JObject [(''eyes'', JArray [JNull, JObject []]),
       (''resolutions'', JArray [JObject [(''height'', JInt 3), (''width'', JInt 5)]])])])),
     lib_fast = (\<lambda>_. []), lib_styled = (\<lambda>_. []), lib_real = (\<lambda>_. [])\<rparr>"

definition display_tree :: PathTree where
  "display_tree = set_value (fst (getNodeByPath PathTree_create ''/display'')) 1 (StringElement ''d'')"

lemma display_demo:
  "\<exists>cfg. DisplayConfig_create display_lib rat_fp 0 display_tree = Some (Some cfg) \<and>
     getNumViewerEyes cfg 0 = Some 2 \<and> m_displayInputs cfg = [(5, 3)]"
proof -
  have read: "getJSONStringFromTree display_tree ''/display'' = Inr ''d''" by code_simp
  have "\<exists>desc. read_descriptor display_lib rat_fp display_tree = Inr desc \<and> length (m_eyes desc) = 2 \<and>
      m_resolutions desc = [\<lparr>res_width = 5, res_height = 3, video_inputs = 1, display_mode = HORIZONTAL_SIDE_BY_SIDE\<rparr>]"
    by (simp add: read_descriptor_def read DisplayDescriptor_parse_def jsonParse_def display_lib_def
        parse_field_of_view_def parse_device_def parse_rolls_def parse_distortion_def double_at_def double_get_def
        string_at_def m_processResolution_def in_int_range_def parse_rotation_def Let_def)
  then obtain desc where "read_descriptor display_lib rat_fp display_tree = Inr desc" "length (m_eyes desc) = 2"
    "m_resolutions desc = [\<lparr>res_width = 5, res_height = 3, video_inputs = 1, display_mode = HORIZONTAL_SIDE_BY_SIDE\<rparr>]"
    by blast
  then show ?thesis
    by (auto simp: DisplayConfig_create_read DisplayConfig_of_def activeResolution_def Let_def make_eye_def
        getNumViewerEyes_def getViewer_def)
qed

theorem viewports_tile_display_witness:
  "\<exists>cfg es res. DisplayConfig_create display_lib rat_fp 0 display_tree = Some (Some cfg) \<and>
     m_viewers cfg = [\<lparr>head_iface = 0, viewer_eyes = es\<rparr>] \<and> length es = 2 \<and>
     (res_width res, res_height res) = (5, 3) \<and>
     length (eyes_at es 0 3 2) = (if 3 < fst (shown_area res) \<and> 2 < snd (shown_area res) then 1 else 0)"
proof -
  obtain cfg where cfg: "DisplayConfig_create display_lib rat_fp 0 display_tree = Some (Some cfg)"
    "getNumViewerEyes cfg 0 = Some 2" "m_displayInputs cfg = [(5, 3)]"
    using display_demo by auto
  from viewports_tile_display [OF cfg(1)] obtain es res where c: "m_viewers cfg = [\<lparr>head_iface = 0, viewer_eyes = es\<rparr>]"
    "set (m_displayInputs cfg) = {(res_width res, res_height res)}"
    "length es = 2 \<and> 0 \<le> res_width res \<and> 0 \<le> res_height res \<longrightarrow>
      (\<forall>i < getNumDisplayInputs cfg. \<forall>x y. length (eyes_at es i x y) =
        (if 0 \<le> x \<and> x < fst (shown_area res) \<and> 0 \<le> y \<and> y < snd (shown_area res) then 1 else 0))" by blast
  have "length es = 2" using cfg(2) c(1) by (simp add: getNumViewerEyes_def getViewer_def)
  moreover have "(res_width res, res_height res) = (5, 3)" using c(2) cfg(3) by simp
  moreover have "0 < getNumDisplayInputs cfg" by (simp add: getNumDisplayInputs_def cfg(3))
  ultimately show ?thesis using c(1,3) cfg(1) by (intro exI [of _ cfg] exI [of _ es] exI [of _ res]) simp
qed

end
