(* ===== verification/Led_Identification.thy ===== *)
theory Led_Identification
  imports Osvr_Prelude "HOL-Library.Multiset" "HOL-Library.Sublist"
begin

text \<open>
  How the video-based tracker tells the LEDs of a headset apart by their blink codes and follows
  them from frame to frame (\<^verbatim>\<open>plugins/videobasedtracker\<close>: \<^verbatim>\<open>HDKLedIdentifier.cpp\<close>,
  \<^verbatim>\<open>IdentifierHelpers.h\<close>, \<^verbatim>\<open>HDKLedIdentifierFactory.cpp\<close>, \<^verbatim>\<open>LED.cpp\<close> and the loop over the LEDs of a
  sensor in \<^verbatim>\<open>VideoBasedTracker.cpp\<close>).

  Brightnesses are compared, which is modelled by a linear order, and two floating-point results
  are taken of them: these are the record \<open>led_arith\<close>. Undefined behaviour is \<open>None\<close>. Finding
  the blobs in an image is OpenCV's, and estimating a pose from the identified LEDs is not
  modelled.
\<close>

subsection \<open>The patterns\<close>

definition VALIDCHARS :: string where "VALIDCHARS = ''*.''"

definition valid_pattern :: "string \<Rightarrow> bool" where
  "valid_pattern pat \<longleftrightarrow> pat \<noteq> [] \<and> list_all (\<lambda>c. c \<in> set VALIDCHARS) pat"

record OsvrHdkLedIdentifier =
  d_length :: nat
  d_patterns :: "string list"

text \<open>The pattern and a second copy of it without its last character; an empty one is turned off.\<close>

fun wrap_patterns :: "nat \<Rightarrow> string list \<Rightarrow> (exn, string list) result" where
  "wrap_patterns n [] = Inr []"
| "wrap_patterns n (pat # pats) =
     (if \<not> valid_pattern pat then result_bind (wrap_patterns n pats) (\<lambda>ps. Inr ([] # ps))
      else if length pat \<noteq> n then Inl (RuntimeError ''Got a pattern of incorrect length!'')
      else result_bind (wrap_patterns n pats) (\<lambda>ps. Inr (butlast (pat @ pat) # ps)))"

definition OsvrHdkLedIdentifier_create :: "string list \<Rightarrow> (exn, OsvrHdkLedIdentifier) result" where
  "OsvrHdkLedIdentifier_create PATTERNS =
     (case find valid_pattern PATTERNS of
        None \<Rightarrow> Inr \<lparr>d_length = 0, d_patterns = []\<rparr>
      | Some pat \<Rightarrow>
          result_bind (wrap_patterns (length pat) PATTERNS)
            (\<lambda>ps. Inr \<lparr>d_length = length pat, d_patterns = ps\<rparr>))"

text \<open>The codes of the headset: the face plate and the back plate, as built and as first documented.\<close>

definition SENSOR0_PATTERNS_ORIGINAL :: "string list" where
  "SENSOR0_PATTERNS_ORIGINAL =
    [''..*.....*...*...'', ''...*......*...*.'', ''.......*...*...*'', ''......*...*..*..'', ''.......*....*..*'',
     ''..*.....*..*....'', ''....*......*..*.'', ''....*..*....*...'', ''..*...*........*'', ''........*..*..*.'',
     ''..*..*.*........'', ''....*...*.*.....'', ''...*.*........*.'', ''...*.....*.*....'', ''....*.*......*..'',
     ''*.......*.*.....'', ''.*........*.*...'', ''.*.........*.*..'', ''....*.*..*......'', ''.*.*.*..........'',
     ''.........*.**...'', ''**...........*..'', ''.*...**.........'', ''.........*....**'', ''..*.....**......'',
     ''*......**.......'', ''...*.......**...'', ''...**.....*.....'', ''.**....*........'', ''....**...*......'',
     ''*...........**..'', ''......**.*......'', ''.............***'', ''..........*.....'']"

definition SENSOR1_PATTERNS_ORIGINAL :: "string list" where
  "SENSOR1_PATTERNS_ORIGINAL =
    [''***...*........*'', ''...****..*......'', ''*.*..........***'', ''**...........***'', ''*....*....*.....'',
     ''...*....*...*...'']"

definition SENSOR0_PATTERNS :: "string list" where
  "SENSOR0_PATTERNS =
    [''X.**....*........'', ''X....**...*......'', ''.*...**.........'', ''.........*....**'', ''..*.....**......'',
     ''*......**.......'', ''....*.*..*......'', ''.*.*.*..........'', ''.........*.**...'', ''X**...........*..'',
     ''....*.*......*..'', ''X*.......*.*.....'', ''X.*........*.*...'', ''X.*.........*.*..'', ''..*..*.*........'',
     ''....*...*.*.....'', ''...*.*........*.'', ''...*.....*.*....'', ''....*......*..*.'', ''....*..*....*...'',
     ''X..*...*........*'', ''........*..*..*.'', ''.......*...*...*'', ''......*...*..*..'', ''.......*....*..*'',
     ''..*.....*..*....'', ''*....*....*.....'', ''...*....*...*...'', ''..*.....*...*...'', ''...*......*...*.'',
     ''***...*........*'', ''...****..*......'', ''*.*..........***'', ''**...........***'']"

definition SENSOR1_PATTERNS :: "string list" where
  "SENSOR1_PATTERNS =
    [''X............**..'', ''......**.*......'', ''.............***'', ''X..........*.....'', ''...*.......**...'',
     ''...**.....*.....'']"

definition RANDOM_IMAGES_PATTERNS :: "string list" where
  "RANDOM_IMAGES_PATTERNS =
    [''..*.....'', ''...*....'', ''.......*'', ''......*.'', ''.......*'',
     ''..*.....'', ''....*...'', ''....*..*'', ''********'', ''........'',
     ''********'', ''....*...'', ''...*.*..'', ''...*....'', ''....*.*.'',
     ''...*.***'', ''.*......'', ''..*...*.'', ''....*.*.'', ''.*.*.*..'',
     ''........'', ''**......'', ''.*...**.'', ''........'', ''..*.....'',
     ''*......*'', ''...*....'', ''...**...'', ''.......*'', ''*..*..*.'',
     ''*.......'', ''......**'', ''........'', ''........'']"

definition UNIFIED_PATTERNS :: "string list" where
  "UNIFIED_PATTERNS = SENSOR0_PATTERNS @ SENSOR1_PATTERNS"

text \<open>The factory functions; another sensor is rejected by an assertion and gets no identifier.\<close>

definition createHDKLedIdentifier :: "nat \<Rightarrow> (exn, OsvrHdkLedIdentifier) result option" where
  "createHDKLedIdentifier sensor =
     (if sensor = 0 then Some (OsvrHdkLedIdentifier_create SENSOR0_PATTERNS)
      else if sensor = 1 then Some (OsvrHdkLedIdentifier_create SENSOR1_PATTERNS)
      else None)"

definition createHDKLedIdentifierSimulated :: "nat \<Rightarrow> (exn, OsvrHdkLedIdentifier) result option" where
  "createHDKLedIdentifierSimulated sensor =
     (if sensor = 0 then Some (OsvrHdkLedIdentifier_create SENSOR0_PATTERNS_ORIGINAL)
      else if sensor = 1 then Some (OsvrHdkLedIdentifier_create SENSOR1_PATTERNS_ORIGINAL)
      else None)"

definition createHDKUnifiedLedIdentifier :: "(exn, OsvrHdkLedIdentifier) result" where
  "createHDKUnifiedLedIdentifier = OsvrHdkLedIdentifier_create UNIFIED_PATTERNS"

definition createRandomHDKLedIdentifier :: "(exn, OsvrHdkLedIdentifier) result" where
  "createRandomHDKLedIdentifier = OsvrHdkLedIdentifier_create RANDOM_IMAGES_PATTERNS"


subsection \<open>Identifying a brightness history\<close>

definition SENTINEL_NO_IDENTIFIER_OBJECT_OR_INSUFFICIENT_DATA :: int where
  "SENTINEL_NO_IDENTIFIER_OBJECT_OR_INSUFFICIENT_DATA = - 1"

definition SENTINEL_INSUFFICIENT_EXTREMA_DIFFERENCE :: int where
  "SENTINEL_INSUFFICIENT_EXTREMA_DIFFERENCE = - 2"

definition SENTINEL_NO_PATTERN_RECOGNIZED_DESPITE_SUFFICIENT_DATA :: int where
  "SENTINEL_NO_PATTERN_RECOGNIZED_DESPITE_SUFFICIENT_DATA = - 3"

definition MAX_NOVELTY :: u8 where "MAX_NOVELTY = 4"

text \<open>
  The floating-point results: whether \<^verbatim>\<open>maxVal - minVal\<close> is at most 0.3, and \<^verbatim>\<open>(minVal + maxVal) / 2\<close>.
\<close>

record 'b led_arith =
  too_close :: "'b \<Rightarrow> 'b \<Rightarrow> bool"
  midpoint :: "'b \<Rightarrow> 'b \<Rightarrow> 'b"

function truncateBrightnessListTo :: "nat \<Rightarrow> 'b list \<Rightarrow> 'b list" where
  "truncateBrightnessListTo n brightnesses =
     (if length brightnesses > n then truncateBrightnessListTo n (tl brightnesses) else brightnesses)"
  by pat_completeness auto
termination by (relation "measure (\<lambda>(n, bs). length bs)") auto

fun findMinMaxBrightness :: "'b::linorder list \<Rightarrow> 'b \<times> 'b" where
  "findMinMaxBrightness [b] = (b, b)"
| "findMinMaxBrightness (b # bs) =
     (let (mn, mx) = findMinMaxBrightness bs in (min b mn, max b mx))"

definition getBitsUsingThreshold :: "'b::linorder list \<Rightarrow> 'b \<Rightarrow> string" where
  "getBitsUsingThreshold brightnesses threshold =
     map (\<lambda>val. if val \<ge> threshold then CHR ''*'' else CHR ''.'') brightnesses"

text \<open>\<^verbatim>\<open>std::string::find\<close> of a pattern, as far as whether it is found.\<close>

fun starts_with :: "string \<Rightarrow> string \<Rightarrow> bool" where
  "starts_with [] ys = True"
| "starts_with (x # xs) [] = False"
| "starts_with (x # xs) (y # ys) = (x = y \<and> starts_with xs ys)"

fun string_find :: "string \<Rightarrow> string \<Rightarrow> bool" where
  "string_find xs [] = (xs = [])"
| "string_find xs (y # ys) = (starts_with xs (y # ys) \<or> string_find xs ys)"

fun find_pattern :: "string \<Rightarrow> nat \<Rightarrow> string list \<Rightarrow> int" where
  "find_pattern bits i [] = SENTINEL_NO_PATTERN_RECOGNIZED_DESPITE_SUFFICIENT_DATA"
| "find_pattern bits i (pat # pats) =
     (if pat \<noteq> [] \<and> string_find bits pat then int i else find_pattern bits (Suc i) pats)"

text \<open>The ID, the truncated history and the last bright state; an empty history has no extrema.\<close>

definition getId ::
    "'b::linorder led_arith \<Rightarrow> OsvrHdkLedIdentifier \<Rightarrow> int \<Rightarrow> 'b list \<Rightarrow> bool \<Rightarrow> bool \<Rightarrow> (int \<times> 'b list \<times> bool) option" where
  "getId A idf currentId brightnesses lastBright blobsKeepId =
     (if length brightnesses < d_length idf
      then Some (SENTINEL_NO_IDENTIFIER_OBJECT_OR_INSUFFICIENT_DATA, brightnesses, lastBright)
      else
        let bs = truncateBrightnessListTo (d_length idf) brightnesses in
        if bs = [] then None
        else
          let (minVal, maxVal) = findMinMaxBrightness bs in
          if too_close A minVal maxVal then Some (SENTINEL_INSUFFICIENT_EXTREMA_DIFFERENCE, bs, lastBright)
          else
            let threshold = midpoint A minVal maxVal; bright = last bs \<ge> threshold in
            if blobsKeepId \<and> currentId \<ge> 0 then Some (currentId, bs, bright)
            else Some (find_pattern (getBitsUsingThreshold bs threshold) 0 (d_patterns idf), bs, bright))"


subsection \<open>The LEDs\<close>

record ('b, 'p) LedMeasurement =
  lm_loc :: 'p
  lm_brightness :: 'b
  lm_diameter :: 'b
  lm_area :: 'b
  lm_circularity :: 'b
  lm_knowBoundingBox :: bool
  lm_boundingBox :: "'b \<times> 'b"

record ('b, 'p) Led =
  m_latestMeasurement :: "('b, 'p) LedMeasurement"
  m_brightnessHistory :: "'b list"
  m_id :: int
  m_identifier :: "OsvrHdkLedIdentifier option"
  m_lastBright :: bool
  m_novelty :: u8
  m_wasUsedLastFrame :: bool

definition addMeasurement ::
    "'b::linorder led_arith \<Rightarrow> ('b, 'p) LedMeasurement \<Rightarrow> bool \<Rightarrow> ('b, 'p) Led \<Rightarrow> ('b, 'p) Led option" where
  "addMeasurement A meas blobsKeepId led =
     (let led1 = led\<lparr>m_latestMeasurement := meas, m_brightnessHistory := m_brightnessHistory led @ [lm_brightness meas]\<rparr> in
      case m_identifier led of
        None \<Rightarrow> Some (led1\<lparr>m_id := SENTINEL_NO_IDENTIFIER_OBJECT_OR_INSUFFICIENT_DATA\<rparr>)
      | Some idf \<Rightarrow>
          map_option (\<lambda>(newId, bs, bright).
              led1\<lparr>m_id := newId, m_brightnessHistory := bs, m_lastBright := bright,
                   m_novelty := (if m_id led \<noteq> newId then MAX_NOVELTY
                                 else if m_novelty led \<noteq> 0 then m_novelty led - 1 else m_novelty led)\<rparr>)
            (getId A idf (m_id led) (m_brightnessHistory led1) (m_lastBright led) blobsKeepId))"

text \<open>The constructor leaves the novelty as it finds it: \<open>garbage\<close>.\<close>

definition Led_create ::
    "'b::linorder led_arith \<Rightarrow> u8 \<Rightarrow> OsvrHdkLedIdentifier option \<Rightarrow> ('b, 'p) LedMeasurement \<Rightarrow> ('b, 'p) Led option" where
  "Led_create A garbage identifier meas =
     addMeasurement A meas False
       \<lparr>m_latestMeasurement = meas, m_brightnessHistory = [],
        m_id = SENTINEL_NO_IDENTIFIER_OBJECT_OR_INSUFFICIENT_DATA, m_identifier = identifier,
        m_lastBright = False, m_novelty = garbage, m_wasUsedLastFrame = False\<rparr>"

definition markMisidentified :: "('b, 'p) Led \<Rightarrow> ('b, 'p) Led" where
  "markMisidentified led =
     (let led1 = led\<lparr>m_id := SENTINEL_NO_IDENTIFIER_OBJECT_OR_INSUFFICIENT_DATA\<rparr> in
      if m_brightnessHistory led1 \<noteq> []
      then led1\<lparr>m_brightnessHistory := [lm_brightness (m_latestMeasurement led1)]\<rparr>
      else led1)"

definition identified :: "('b, 'p) Led \<Rightarrow> bool" where
  "identified led \<longleftrightarrow> \<not> m_id led < 0"

definition getOneBasedID :: "('b, 'p) Led \<Rightarrow> int" where
  "getOneBasedID led = (if m_id led < 0 then m_id led else m_id led + 1)"

definition resetUsed :: "('b, 'p) Led \<Rightarrow> ('b, 'p) Led" where
  "resetUsed led = led\<lparr>m_wasUsedLastFrame := False\<rparr>"

definition markAsUsed :: "('b, 'p) Led \<Rightarrow> ('b, 'p) Led" where
  "markAsUsed led = led\<lparr>m_wasUsedLastFrame := True\<rparr>"

text \<open>
  The index of the nearest measurement, if its squared distance is within the squared threshold.
  The search starts with the first one and goes over all of them.
\<close>

fun nearest_loop :: "('p \<Rightarrow> 'd::linorder) \<Rightarrow> ('b, 'p) LedMeasurement list \<Rightarrow> nat \<Rightarrow> nat \<Rightarrow> 'd \<Rightarrow> nat \<times> 'd" where
  "nearest_loop distSquared [] it ret minDistSq = (ret, minDistSq)"
| "nearest_loop distSquared (m # ms) it ret minDistSq =
     (let distSq = distSquared (lm_loc m) in
      if distSq < minDistSq then nearest_loop distSquared ms (Suc it) it distSq
      else nearest_loop distSquared ms (Suc it) ret minDistSq)"

definition nearest :: "('p \<Rightarrow> 'd::linorder) \<Rightarrow> ('b, 'p) LedMeasurement list \<Rightarrow> 'd \<Rightarrow> nat option" where
  "nearest distSquared meas thresholdSquared =
     (if meas = [] then None
      else
        let (ret, minDistSq) = nearest_loop distSquared meas 0 0 (distSquared (lm_loc (hd meas))) in
        if minDistSq \<le> thresholdSquared then Some ret else None)"

text \<open>
  One frame for the LEDs of a sensor: each LED takes the nearest blob left, if that is close
  enough, and is deleted otherwise; a blob nobody took becomes a new LED. \<open>distSquared\<close> and
  \<open>thresholdSquared\<close> are the squared distance of two points and, for a diameter, the square of
  its product with the configured factor.
\<close>

record ('b, 'p, 'd) tracker_params =
  distSquared :: "'p \<Rightarrow> 'p \<Rightarrow> 'd"
  thresholdSquared :: "'b \<Rightarrow> 'd"
  blobsKeepIdentity :: bool
  brightness_arith :: "'b led_arith"

fun track_leds ::
    "('b::linorder, 'p, 'd::linorder) tracker_params \<Rightarrow> ('b, 'p) Led list \<Rightarrow> ('b, 'p) LedMeasurement list
     \<Rightarrow> (('b, 'p) Led list \<times> ('b, 'p) LedMeasurement list) option" where
  "track_leds P [] meas = Some ([], meas)"
| "track_leds P (led # leds) meas =
     (let led0 = resetUsed led;
          threshold = thresholdSquared P (lm_diameter (m_latestMeasurement led0)) in
      case nearest (distSquared P (lm_loc (m_latestMeasurement led0))) meas threshold of
        None \<Rightarrow> track_leds P leds meas
      | Some i \<Rightarrow>
          do { led' \<leftarrow> addMeasurement (brightness_arith P) (meas ! i) (blobsKeepIdentity P) led0;
               (leds', rest) \<leftarrow> track_leds P leds (take i meas @ drop (Suc i) meas);
               Some (led' # leds', rest) })"

fun new_leds ::
    "'b::linorder led_arith \<Rightarrow> u8 \<Rightarrow> OsvrHdkLedIdentifier option \<Rightarrow> ('b, 'p) LedMeasurement list \<Rightarrow> ('b, 'p) Led list option" where
  "new_leds A garbage identifier [] = Some []"
| "new_leds A garbage identifier (m # ms) =
     do { led \<leftarrow> Led_create A garbage identifier m;
          leds \<leftarrow> new_leds A garbage identifier ms;
          Some (led # leds) }"

definition process_leds ::
    "('b::linorder, 'p, 'd::linorder) tracker_params \<Rightarrow> u8 \<Rightarrow> OsvrHdkLedIdentifier option
     \<Rightarrow> ('b, 'p) LedMeasurement list \<Rightarrow> ('b, 'p) Led list \<Rightarrow> ('b, 'p) Led list option" where
  "process_leds P garbage identifier meas myLeds =
     do { (kept, rest) \<leftarrow> track_leds P myLeds meas;
          added \<leftarrow> new_leds (brightness_arith P) garbage identifier rest;
          Some (kept @ added) }"



subsection \<open>Codes and their rotations\<close>

declare truncateBrightnessListTo.simps [simp del]

lemma truncate_drop: "truncateBrightnessListTo n bs = drop (length bs - n) bs"
proof (induction n bs rule: truncateBrightnessListTo.induct)
  case (1 n bs)
  show ?case
  proof (cases "length bs > n")
    case True
    then have "length bs - n = Suc (length (tl bs) - n)" by simp
    then have "drop (length bs - n) bs = drop (length (tl bs) - n) (tl bs)" by (simp add: drop_Suc)
    with 1 True show ?thesis by (simp add: truncateBrightnessListTo.simps [of n bs])
  next
    case False
    then show ?thesis by (simp add: truncateBrightnessListTo.simps [of n bs])
  qed
qed

lemma starts_with_iff: "starts_with xs ys \<longleftrightarrow> (\<exists>zs. ys = xs @ zs)"
  by (induction xs ys rule: starts_with.induct) auto

lemma string_find_iff: "string_find xs ys \<longleftrightarrow> (\<exists>us vs. ys = us @ xs @ vs)"
proof (induction ys)
  case Nil
  then show ?case by auto
next
  case (Cons y ys)
  show ?case
  proof
    assume "string_find xs (y # ys)"
    then show "\<exists>us vs. y # ys = us @ xs @ vs"
    proof (cases "starts_with xs (y # ys)")
      case True
      then show ?thesis unfolding starts_with_iff by (metis append_Nil)
    next
      case False
      with Cons \<open>string_find xs (y # ys)\<close> obtain us vs where "ys = us @ xs @ vs" by auto
      then show ?thesis by (intro exI [of _ "y # us"] exI [of _ vs]) simp
    qed
  next
    assume "\<exists>us vs. y # ys = us @ xs @ vs"
    then obtain us vs where "y # ys = us @ xs @ vs" by blast
    then have "starts_with xs (y # ys) \<or> (\<exists>us vs. ys = us @ xs @ vs)"
      unfolding starts_with_iff by (cases us) auto
    with Cons show "string_find xs (y # ys)" by auto
  qed
qed

lemma window_rotate:
  assumes "k < length p"
  shows "take (length p) (drop k (butlast (p @ p))) = rotate k p"
proof (rule nth_equalityI)
  show "length (take (length p) (drop k (butlast (p @ p)))) = length (rotate k p)" using assms by simp
next
  fix i assume "i < length (take (length p) (drop k (butlast (p @ p))))"
  then have i: "i < length p" "k + i < 2 * length p - 1" using assms by simp_all
  have "(k + i) mod length p = (if k + i < length p then k + i else k + i - length p)"
    using i by (simp add: le_mod_geq)
  with i assms show "take (length p) (drop k (butlast (p @ p))) ! i = rotate k p ! i"
    by (simp add: nth_butlast nth_append nth_rotate)
qed

lemma find_wrapped:
  assumes "p \<noteq> []" and "length bits = length p"
  shows "string_find bits (butlast (p @ p)) \<longleftrightarrow> (\<exists>k<length p. bits = rotate k p)"
proof
  assume "string_find bits (butlast (p @ p))"
  then obtain us vs where w: "butlast (p @ p) = us @ bits @ vs" by (auto simp: string_find_iff)
  from arg_cong [OF w, of length] assms have "length us < length p" by (cases p) auto
  with window_rotate [OF this] w assms show "\<exists>k<length p. bits = rotate k p"
    by (intro exI [of _ "length us"]) simp
next
  assume "\<exists>k<length p. bits = rotate k p"
  then obtain k where k: "k < length p" "bits = rotate k p" by blast
  have "butlast (p @ p) = take k (butlast (p @ p)) @ take (length p) (drop k (butlast (p @ p))) @
      drop (length p) (drop k (butlast (p @ p)))"
    by (metis append_take_drop_id)
  then show "string_find bits (butlast (p @ p))"
    unfolding string_find_iff window_rotate [OF k(1)] k(2) by blast
qed

lemma find_pattern_least:
  "find_pattern bits i pats =
     (if \<exists>j<length pats. pats ! j \<noteq> [] \<and> string_find bits (pats ! j)
      then int (i + (LEAST j. j < length pats \<and> pats ! j \<noteq> [] \<and> string_find bits (pats ! j)))
      else SENTINEL_NO_PATTERN_RECOGNIZED_DESPITE_SUFFICIENT_DATA)"
proof (induction pats arbitrary: i)
  case Nil
  then show ?case by simp
next
  case (Cons pat pats)
  let ?P = "\<lambda>pats j. j < length pats \<and> pats ! j \<noteq> [] \<and> string_find bits (pats ! j)"
  show ?case
  proof (cases "pat \<noteq> [] \<and> string_find bits pat")
    case True
    then have "(LEAST j. ?P (pat # pats) j) = 0" by (intro Least_equality) auto
    moreover have "\<exists>j<length (pat # pats). (pat # pats) ! j \<noteq> [] \<and> string_find bits ((pat # pats) ! j)"
      using True by (intro exI [of _ 0]) simp
    ultimately show ?thesis using True by simp
  next
    case False
    have ex: "(\<exists>j<length (pat # pats). (pat # pats) ! j \<noteq> [] \<and> string_find bits ((pat # pats) ! j)) \<longleftrightarrow>
        (\<exists>j<length pats. pats ! j \<noteq> [] \<and> string_find bits (pats ! j))"
      using False by (auto simp: less_Suc_eq_0_disj)
    show ?thesis
    proof (cases "\<exists>j<length pats. pats ! j \<noteq> [] \<and> string_find bits (pats ! j)")
      case True
      then obtain j where "?P (pat # pats) (Suc j)" by auto
      from Least_Suc [where P = "?P (pat # pats)", OF this] False
      have "(LEAST j. ?P (pat # pats) j) = Suc (LEAST j. ?P pats j)" by auto
      with True ex False show ?thesis by (simp add: Cons)
    next
      case none: False
      with ex False show ?thesis by (simp only: Cons find_pattern.simps if_False if_not_P)
    qed
  qed
qed

text \<open>What the constructor makes of the patterns.\<close>

lemma wrap_patterns_spec:
  "wrap_patterns n pats = Inr ps \<longleftrightarrow>
     (\<forall>pat\<in>set pats. valid_pattern pat \<longrightarrow> length pat = n) \<and>
     ps = map (\<lambda>pat. if valid_pattern pat then butlast (pat @ pat) else []) pats"
  by (induction pats arbitrary: ps) auto

lemma identifier_created:
  assumes "OsvrHdkLedIdentifier_create PATTERNS = Inr idf" and "\<exists>pat\<in>set PATTERNS. valid_pattern pat"
  shows "\<forall>pat\<in>set PATTERNS. valid_pattern pat \<longrightarrow> length pat = d_length idf"
    and "d_patterns idf = map (\<lambda>pat. if valid_pattern pat then butlast (pat @ pat) else []) PATTERNS"
    and "d_length idf > 0"
proof -
  obtain pat where pat: "find valid_pattern PATTERNS = Some pat"
    using assms(2) by (cases "find valid_pattern PATTERNS") (auto simp: find_None_iff)
  with assms(1) have w: "wrap_patterns (length pat) PATTERNS = Inr (d_patterns idf)" "d_length idf = length pat"
    by (auto simp: OsvrHdkLedIdentifier_create_def)
  show "\<forall>pat\<in>set PATTERNS. valid_pattern pat \<longrightarrow> length pat = d_length idf"
    "d_patterns idf = map (\<lambda>pat. if valid_pattern pat then butlast (pat @ pat) else []) PATTERNS"
    using w unfolding wrap_patterns_spec by simp_all
  show "d_length idf > 0" using find_Some_in [OF pat] w(2) by (auto simp: valid_pattern_def)
qed

lemma find_min_max: "bs \<noteq> [] \<Longrightarrow> findMinMaxBrightness bs = (Min (set bs), Max (set bs))"
  by (induction bs rule: findMinMaxBrightness.induct) (auto simp: Let_def)

text \<open>Whether the bits are the code of pattern \<open>i\<close>, from any of its frames on.\<close>

definition shows_code :: "string list \<Rightarrow> string \<Rightarrow> nat \<Rightarrow> bool" where
  "shows_code PATTERNS bits i \<longleftrightarrow> i < length PATTERNS \<and> valid_pattern (PATTERNS ! i) \<and>
     (\<exists>k<length (PATTERNS ! i). bits = rotate k (PATTERNS ! i))"


lemma shows_code_list [code]:
  "shows_code PATTERNS bits i \<longleftrightarrow> i < length PATTERNS \<and> valid_pattern (PATTERNS ! i) \<and>
     list_ex (\<lambda>k. bits = rotate k (PATTERNS ! i)) [0..<length (PATTERNS ! i)]"
  by (auto simp: shows_code_def list_ex_iff)

text \<open>
  What an identifier says of a brightness history, for patterns its constructor accepts. With
  fewer measurements than a pattern has frames nothing is known; otherwise only the newest
  frames count: if they are too close they are no LED's, a known LED keeps its identity where
  that is configured, and otherwise the thresholded frames are looked up among all rotations of
  the codes, the first pattern that shows them wins.
\<close>

lemma led_identity:
  assumes "OsvrHdkLedIdentifier_create PATTERNS = Inr idf" and "\<exists>pat\<in>set PATTERNS. valid_pattern pat"
  shows "getId A idf currentId bs lastBright keep = Some
    (let n = d_length idf; w = drop (length bs - n) bs;
         threshold = midpoint A (Min (set w)) (Max (set w)); bits = getBitsUsingThreshold w threshold in
     if length bs < n then (- 1, bs, lastBright)
     else if too_close A (Min (set w)) (Max (set w)) then (- 2, w, lastBright)
     else (if keep \<and> currentId \<ge> 0 then currentId
           else if \<exists>i. shows_code PATTERNS bits i then int (LEAST i. shows_code PATTERNS bits i) else - 3,
           w, threshold \<le> last w))"
proof (cases "length bs < d_length idf")
  case True
  then show ?thesis
    by (simp add: getId_def Let_def SENTINEL_NO_IDENTIFIER_OBJECT_OR_INSUFFICIENT_DATA_def)
next
  case False
  note idf = identifier_created [OF assms]
  define w where "w = drop (length bs - d_length idf) bs"
  have w: "length w = d_length idf" "w \<noteq> []" using False idf(3) by (auto simp: w_def)
  define bits where "bits = getBitsUsingThreshold w (midpoint A (Min (set w)) (Max (set w)))"
  have code: "j < length (d_patterns idf) \<and> d_patterns idf ! j \<noteq> [] \<and> string_find bits (d_patterns idf ! j)
      \<longleftrightarrow> shows_code PATTERNS bits j" for j
  proof (cases "j < length PATTERNS \<and> valid_pattern (PATTERNS ! j)")
    case True
    then have l: "length (PATTERNS ! j) = d_length idf" using idf(1) by simp
    then have "PATTERNS ! j \<noteq> []" "length bits = length (PATTERNS ! j)" "butlast (PATTERNS ! j @ PATTERNS ! j) \<noteq> []
        \<or> \<not> string_find bits (butlast (PATTERNS ! j @ PATTERNS ! j))"
      using w idf(3) by (auto simp: bits_def getBitsUsingThreshold_def string_find_iff)
    with True find_wrapped [of "PATTERNS ! j" bits] show ?thesis
      by (auto simp: idf(2) shows_code_def)
  next
    case False
    then show ?thesis by (auto simp: idf(2) shows_code_def)
  qed
  have "find_pattern bits 0 (d_patterns idf) =
      (if \<exists>i. shows_code PATTERNS bits i then int (LEAST i. shows_code PATTERNS bits i) else - 3)"
    unfolding find_pattern_least code [symmetric]
    by (simp add: SENTINEL_NO_PATTERN_RECOGNIZED_DESPITE_SUFFICIENT_DATA_def)
  then have id: "find_pattern (getBitsUsingThreshold w (midpoint A (Min (set w)) (Max (set w)))) 0 (d_patterns idf) =
      (if \<exists>i. shows_code PATTERNS bits i then int (LEAST i. shows_code PATTERNS bits i) else - 3)"
    by (simp only: bits_def)
  from False w show ?thesis
    unfolding getId_def truncate_drop w_def [symmetric] find_min_max [OF w(2)] Let_def prod.case id
    by (auto simp: bits_def SENTINEL_INSUFFICIENT_EXTREMA_DIFFERENCE_def)
qed

text \<open>Brightnesses as integers, for examples.\<close>

definition int_arith :: "int led_arith" where
  "int_arith = \<lparr>too_close = (\<lambda>a b. b - a \<le> 0), midpoint = (\<lambda>a b. (a + b + 1) div 2)\<rparr>"

lemma led_identity_witness:
  "\<exists>idf. OsvrHdkLedIdentifier_create [''*..'', ''X..'', ''**.''] = Inr idf \<and>
     getId int_arith idf (- 1) [9, 1, 5, 6] False False = Some (2, [1, 5, 6], True)"
proof -
  obtain idf where idf: "OsvrHdkLedIdentifier_create [''*..'', ''X..'', ''**.''] = Inr idf" "d_length idf = 3"
    by (rule that [of "\<lparr>d_length = 3, d_patterns = [''*..*.'', [], ''**.**'']\<rparr>"]) code_simp+
  have bits: "getBitsUsingThreshold [1, 5, 6::int] 4 = ''.**''" by code_simp
  have s0: "\<not> shows_code [''*..'', ''X..'', ''**.''] ''.**'' 0" by code_simp
  have s1: "\<not> shows_code [''*..'', ''X..'', ''**.''] ''.**'' 1" by code_simp
  have s2: "shows_code [''*..'', ''X..'', ''**.''] ''.**'' 2" by code_simp
  have s: "shows_code [''*..'', ''X..'', ''**.''] ''.**'' i \<longleftrightarrow> i = 2" for i
  proof
    assume i: "shows_code [''*..'', ''X..'', ''**.''] ''.**'' i"
    then have "i < 3" by (simp add: shows_code_def)
    moreover have "i \<noteq> 0" "i \<noteq> 1" using i s0 s1 by metis+
    ultimately show "i = 2" by linarith
  qed (simp only: s2)
  then have s': "shows_code [''*..'', ''X..'', ''**.''] ''.**'' = (\<lambda>i. i = 2)" by (simp add: fun_eq_iff)
  have least: "(LEAST i. i = 2) = (2::nat)" by (rule Least_equality) simp_all
  have "\<exists>pat\<in>set [''*..'', ''X..'', ''**.'']. valid_pattern pat" by code_simp
  from led_identity [OF idf(1) this, of int_arith "- 1" "[9, 1, 5, 6]" False False]
  have "getId int_arith idf (- 1) [9, 1, 5, 6] False False = Some (2, [1, 5, 6], True)"
    by (simp add: idf(2) int_arith_def bits Let_def s' least)
  with idf(1) show ?thesis by blast
qed



subsection \<open>A blinking LED is identified\<close>

text \<open>
  A LED that blinks the code \<open>p\<close> from frame \<open>phase\<close> on, with brightnesses in \<open>D\<close> where it is dim and in
  \<open>B\<close> where it is bright; the sets are apart when every midpoint of two levels separates them.
\<close>

definition blinks :: "'b set \<Rightarrow> 'b set \<Rightarrow> string \<Rightarrow> nat \<Rightarrow> 'b list \<Rightarrow> bool" where
  "blinks D B p phase bs \<longleftrightarrow>
     (\<forall>t<length bs. bs ! t \<in> (if p ! ((phase + t) mod length p) = CHR ''*'' then B else D))"

definition levels_apart :: "'b::linorder led_arith \<Rightarrow> 'b set \<Rightarrow> 'b set \<Rightarrow> bool" where
  "levels_apart A D B \<longleftrightarrow>
     (\<forall>d\<in>D. \<forall>b\<in>B. \<not> too_close A d b \<and> (\<forall>d'\<in>D. d' < midpoint A d b) \<and> (\<forall>b'\<in>B. midpoint A d b \<le> b'))"

definition both_levels :: "string \<Rightarrow> bool" where
  "both_levels p \<longleftrightarrow> CHR ''*'' \<in> set p \<and> CHR ''.'' \<in> set p"

lemma blinks_append: "blinks D B p phase (xs @ ys) \<Longrightarrow> blinks D B p phase xs"
  unfolding blinks_def by (metis length_append nth_append trans_less_add1)

lemma blinks_drop: "blinks D B p phase bs \<Longrightarrow> blinks D B p (phase + k) (drop k bs)"
  by (auto simp: blinks_def add.assoc)

text \<open>A window of one length of the code has both levels, and its bits are the code rotated.\<close>

lemma blinks_window:
  assumes b: "blinks D B p phase w" and n: "length w = length p" and p: "valid_pattern p" "both_levels p"
    and apart: "levels_apart A D B"
  shows "\<not> too_close A (Min (set w)) (Max (set w))"
    and "getBitsUsingThreshold w (midpoint A (Min (set w)) (Max (set w))) = rotate phase p"
    and "w \<noteq> []" and "midpoint A (Min (set w)) (Max (set w)) \<le> last w \<longleftrightarrow> last w \<in> B"
proof -
  let ?lit = "\<lambda>t. p ! ((phase + t) mod length p) = CHR ''*''"
  have pos: "length p > 0" using p(1) by (auto simp: valid_pattern_def)
  have lev: "w ! t \<in> (if ?lit t then B else D)" if "t < length p" for t
    using b that n by (auto simp: blinks_def)
  have hit: "\<exists>t<length p. (phase + t) mod length p = i" if "i < length p" for i
  proof -
    let ?t = "(i + length p * phase - phase) mod length p"
    have "phase \<le> i + length p * phase" using pos by (cases "length p") auto
    then have "(phase + (i + length p * phase - phase)) mod length p = i" using that by simp
    then have "(phase + ?t) mod length p = i" by (simp add: mod_add_right_eq)
    then show ?thesis using pos by (intro exI [of _ ?t]) simp
  qed
  have mem: "x \<in> set p \<Longrightarrow> \<exists>t<length p. p ! ((phase + t) mod length p) = x" for x
    using hit by (metis in_set_conv_nth)
  obtain t where t: "t < length p" "?lit t" using mem p(2) by (auto simp: both_levels_def)
  obtain u where u: "u < length p" "\<not> ?lit u" using mem [of "CHR ''.''"] p(2) by (force simp: both_levels_def)
  have tB: "w ! t \<in> B" "w ! u \<in> D" using lev t u by (metis (full_types))+
  show ne: "w \<noteq> []" using n pos by auto
  have less: "d < b" if "d \<in> D" "b \<in> B" for d b using apart that unfolding levels_apart_def by force
  have mem_w: "Min (set w) \<in> set w" "Max (set w) \<in> set w" using ne by simp_all
  have in_levels: "x \<in> D \<or> x \<in> B" if "x \<in> set w" for x
    using that lev n unfolding in_set_conv_nth by (metis (full_types))
  have "Min (set w) \<le> w ! u" "w ! t \<le> Max (set w)" using t u n by simp_all
  then have ext: "Min (set w) \<in> D" "Max (set w) \<in> B"
    using in_levels mem_w less tB by (metis leD order_le_less_trans order_less_le_trans)+
  then show "\<not> too_close A (Min (set w)) (Max (set w))" using apart by (auto simp: levels_apart_def)
  let ?m = "midpoint A (Min (set w)) (Max (set w))"
  have thr: "?m \<le> x \<longleftrightarrow> x \<in> B" if "x \<in> D \<or> x \<in> B" for x
    using that ext apart less unfolding levels_apart_def by (metis leD)
  show "?m \<le> last w \<longleftrightarrow> last w \<in> B" using thr in_levels ne by simp
  have bit: "(?m \<le> w ! i) \<longleftrightarrow> ?lit i" if "i < length p" for i
    using lev [OF that] thr [of "w ! i"] less by (cases "?lit i") auto
  have chars: "p ! i = CHR ''*'' \<or> p ! i = CHR ''.''" if "i < length p" for i
    using p(1) that by (auto simp: valid_pattern_def VALIDCHARS_def list_all_length)
  show "getBitsUsingThreshold w ?m = rotate phase p"
  proof (rule nth_equalityI)
    show "length (getBitsUsingThreshold w ?m) = length (rotate phase p)" by (simp add: getBitsUsingThreshold_def n)
  next
    fix i assume "i < length (getBitsUsingThreshold w ?m)"
    then have i: "i < length p" by (simp add: getBitsUsingThreshold_def n)
    then show "getBitsUsingThreshold w ?m ! i = rotate phase p ! i"
      using bit [OF i] chars [of "(phase + i) mod length p"] pos n
      by (auto simp: getBitsUsingThreshold_def nth_rotate)
  qed
qed


text \<open>No code is a rotation of another one, and every code has frames of both kinds.\<close>

definition codes_apart :: "string list \<Rightarrow> bool" where
  "codes_apart PATTERNS \<longleftrightarrow>
     (\<forall>i<length PATTERNS. valid_pattern (PATTERNS ! i) \<longrightarrow> both_levels (PATTERNS ! i) \<and>
        (\<forall>j<length PATTERNS. valid_pattern (PATTERNS ! j) \<longrightarrow> (\<exists>k l. rotate k (PATTERNS ! i) = rotate l (PATTERNS ! j)) \<longrightarrow> i = j))"

text \<open>The constructor and then the following measurements.\<close>

fun add_measurements ::
    "'b::linorder led_arith \<Rightarrow> bool \<Rightarrow> ('b, 'p) LedMeasurement list \<Rightarrow> ('b, 'p) Led \<Rightarrow> ('b, 'p) Led option" where
  "add_measurements A keep [] led = Some led"
| "add_measurements A keep (m # ms) led =
     do { led' \<leftarrow> addMeasurement A m keep led; add_measurements A keep ms led' }"

text \<open>After the measurements \<open>bs\<close>: the newest frames are kept, and enough of them are identified.\<close>

definition follows_code :: "OsvrHdkLedIdentifier \<Rightarrow> 'b set \<Rightarrow> nat \<Rightarrow> 'b list \<Rightarrow> ('b, 'p) Led \<Rightarrow> bool" where
  "follows_code idf B i bs led \<longleftrightarrow> m_identifier led = Some idf \<and>
     m_brightnessHistory led = drop (length bs - d_length idf) bs \<and>
     (if length bs < d_length idf then m_id led = - 1 else m_id led = int i \<and> m_lastBright led = (last bs \<in> B))"

lemma shows_unique:
  assumes "codes_apart PATTERNS" and "i < length PATTERNS" and "valid_pattern (PATTERNS ! i)"
  shows "shows_code PATTERNS (rotate phase (PATTERNS ! i)) j \<longleftrightarrow> j = i"
proof
  assume "shows_code PATTERNS (rotate phase (PATTERNS ! i)) j"
  then obtain k where j: "j < length PATTERNS" "valid_pattern (PATTERNS ! j)"
    "rotate phase (PATTERNS ! i) = rotate k (PATTERNS ! j)"
    unfolding shows_code_def by blast
  with assms show "j = i" unfolding codes_apart_def by blast
next
  assume "j = i"
  moreover have "rotate phase (PATTERNS ! i) = rotate (phase mod length (PATTERNS ! i)) (PATTERNS ! i)"
    by (rule rotate_conv_mod)
  moreover have "phase mod length (PATTERNS ! i) < length (PATTERNS ! i)"
    using assms(3) by (simp add: valid_pattern_def)
  ultimately show "shows_code PATTERNS (rotate phase (PATTERNS ! i)) j"
    using assms unfolding shows_code_def by blast
qed

lemma follows_code_step:
  assumes idf: "OsvrHdkLedIdentifier_create PATTERNS = Inr idf"
    and codes: "codes_apart PATTERNS" "i < length PATTERNS" "valid_pattern (PATTERNS ! i)"
    and apart: "levels_apart A D B"
    and led: "follows_code idf B i bs led"
    and b: "blinks D B (PATTERNS ! i) phase (bs @ [lm_brightness m])"
  obtains led' where "addMeasurement A m keep led = Some led'" and "follows_code idf B i (bs @ [lm_brightness m]) led'"
proof -
  have ex: "\<exists>pat\<in>set PATTERNS. valid_pattern pat" using codes(2,3) by (meson nth_mem)
  note created = identifier_created [OF idf ex]
  have n: "length (PATTERNS ! i) = d_length idf" using created(1) codes(2,3) by simp
  have both: "both_levels (PATTERNS ! i)" using codes by (simp add: codes_apart_def)
  let ?bs = "bs @ [lm_brightness m]" and ?n = "d_length idf"
  let ?h = "m_brightnessHistory led @ [lm_brightness m]"
  have h: "?h = drop (length bs - ?n) ?bs" using led by (simp add: follows_code_def)
  have w: "drop (length ?h - ?n) ?h = drop (length ?bs - ?n) ?bs"
    using created(3) unfolding h by (cases "length bs < ?n") (auto simp: Suc_diff_le)
  note id = led_identity [OF idf ex, of A "m_id led" ?h "m_lastBright led" keep]
  show thesis
  proof (cases "length ?bs < ?n")
    case True
    then have "length ?h < ?n" using h by simp
    with id have "getId A idf (m_id led) ?h (m_lastBright led) keep = Some (- 1, ?bs, m_lastBright led)"
      using True by (simp add: Let_def h)
    with led True show thesis
      by (intro that) (auto simp: addMeasurement_def follows_code_def Let_def)
  next
    case False
    define w' where "w' = drop (length ?bs - ?n) ?bs"
    have lw: "length w' = length (PATTERNS ! i)" using False n by (simp add: w'_def)
    have bw: "blinks D B (PATTERNS ! i) (phase + (length ?bs - ?n)) w'"
      unfolding w'_def using b by (rule blinks_drop)
    note win = blinks_window [OF bw lw codes(3) both apart]
    have len: "\<not> length ?h < ?n" using False h by simp
    have last: "last w' = last ?bs" unfolding w'_def using created(3) by (intro last_drop) simp
    have old: "m_id led = int i \<or> m_id led = - 1" using led by (auto simp: follows_code_def split: if_splits)
    have shown: "shows_code PATTERNS (rotate (phase + (length ?bs - ?n)) (PATTERNS ! i)) = (\<lambda>j. j = i)"
      using shows_unique [OF codes] by (simp add: fun_eq_iff)
    have "(LEAST j. j = i) = i" by (rule Least_equality) simp_all
    then have new: "(if keep \<and> 0 \<le> m_id led then m_id led
        else if Ex (\<lambda>j. j = i) then int (LEAST j. j = i) else - 3) = int i"
      using old by auto
    have "getId A idf (m_id led) ?h (m_lastBright led) keep = Some (int i, w', last ?bs \<in> B)"
      using id unfolding w w'_def [symmetric] Let_def win(2) shown new win(4) [unfolded last] last if_not_P [OF len] if_not_P [OF win(1)]
      .
    with led False show thesis
      by (intro that) (auto simp: addMeasurement_def follows_code_def Let_def w'_def)
  qed
qed


lemma follows_code_run:
  assumes "OsvrHdkLedIdentifier_create PATTERNS = Inr idf"
    and "codes_apart PATTERNS" "i < length PATTERNS" "valid_pattern (PATTERNS ! i)" and "levels_apart A D B"
  shows "follows_code idf B i bs led \<Longrightarrow> blinks D B (PATTERNS ! i) phase (bs @ map lm_brightness ms) \<Longrightarrow>
    \<exists>led'. add_measurements A keep ms led = Some led' \<and> follows_code idf B i (bs @ map lm_brightness ms) led'"
proof (induction ms arbitrary: bs led)
  case Nil
  then show ?case by simp
next
  case (Cons m ms)
  have "blinks D B (PATTERNS ! i) phase (bs @ [lm_brightness m])"
    using Cons.prems(2) blinks_append [of D B _ phase "bs @ [lm_brightness m]"] by simp
  from follows_code_step [OF assms Cons.prems(1) this] obtain led'
    where led': "addMeasurement A m keep led = Some led'" "follows_code idf B i (bs @ [lm_brightness m]) led'"
    by blast
  from Cons.IH [OF led'(2)] Cons.prems(2) led'(1) show ?case by simp
qed

text \<open>The patterns are apart, as a check on each pair of wrapped codes.\<close>

fun codes_check :: "string list \<Rightarrow> bool" where
  "codes_check [] = True"
| "codes_check (p # ps) =
     ((valid_pattern p \<longrightarrow> CHR ''*'' \<in> set p \<and> CHR ''.'' \<in> set p \<and>
         list_all (\<lambda>q. valid_pattern q \<longrightarrow> length q = length p \<and> \<not> string_find p (butlast (q @ q))) ps) \<and>
      codes_check ps)"

lemma codes_check_nth:
  "codes_check ps \<Longrightarrow> i < j \<Longrightarrow> j < length ps \<Longrightarrow> valid_pattern (ps ! i) \<Longrightarrow> valid_pattern (ps ! j) \<Longrightarrow>
     length (ps ! j) = length (ps ! i) \<and> \<not> string_find (ps ! i) (butlast (ps ! j @ ps ! j))"
proof (induction ps arbitrary: i j)
  case Nil
  then show ?case by simp
next
  case (Cons p ps)
  then obtain j' where j': "j = Suc j'" "j' < length ps" by (cases j) auto
  show ?case
  proof (cases i)
    case 0
    then show ?thesis using Cons.prems j' by (auto simp: list_all_length)
  next
    case (Suc i')
    then show ?thesis using Cons.prems Cons.IH [of i' j'] j' by auto
  qed
qed

lemma codes_check_both: "codes_check ps \<Longrightarrow> i < length ps \<Longrightarrow> valid_pattern (ps ! i) \<Longrightarrow> both_levels (ps ! i)"
  by (induction ps arbitrary: i) (auto simp: both_levels_def nth_Cons split: nat.splits)

lemma rotated_found:
  assumes "p \<noteq> []" and "rotate k p = rotate l q"
  shows "string_find p (butlast (q @ q))"
proof -
  have n: "length p = length q" using arg_cong [OF assms(2), of length] by simp
  let ?m = "length p * k - k"
  have "k \<le> length p * k" using assms(1) by (cases p) auto
  then have "rotate ?m (rotate k p) = rotate (length p * k) p" by (simp add: rotate_rotate)
  also have "\<dots> = p" by (simp add: rotate_id)
  finally have "p = rotate (?m + l) q" by (simp add: assms(2) rotate_rotate)
  then have "p = rotate ((?m + l) mod length q) q" using rotate_conv_mod by metis
  moreover have "(?m + l) mod length q < length q" "q \<noteq> []" using assms(1) n by (cases q; simp)+
  ultimately show ?thesis using find_wrapped [of q p] n by blast
qed

lemma codes_check_apart:
  assumes "codes_check PATTERNS"
  shows "codes_apart PATTERNS"
  unfolding codes_apart_def
proof (intro allI impI conjI)
  fix i assume i: "i < length PATTERNS" "valid_pattern (PATTERNS ! i)"
  then show "both_levels (PATTERNS ! i)" using codes_check_both [OF assms] by blast
  fix j assume j: "j < length PATTERNS" "valid_pattern (PATTERNS ! j)"
    and "\<exists>k l. rotate k (PATTERNS ! i) = rotate l (PATTERNS ! j)"
  then obtain k l where r: "rotate k (PATTERNS ! i) = rotate l (PATTERNS ! j)" by blast
  have ne: "PATTERNS ! i \<noteq> []" "PATTERNS ! j \<noteq> []" using i j by (auto simp: valid_pattern_def)
  show "i = j"
  proof (rule ccontr)
    assume "i \<noteq> j"
    then consider "i < j" | "j < i" by linarith
    then show False
    proof cases
      case 1
      with codes_check_nth [OF assms 1 j(1) i(2) j(2)] rotated_found [OF ne(1) r] show False by blast
    next
      case 2
      with codes_check_nth [OF assms 2 i(1) j(2) i(2)] rotated_found [OF ne(2) r [symmetric]] show False by blast
    qed
  qed
qed

lemma codes_check_append:
  "codes_check (ps @ qs) \<Longrightarrow> codes_check ps \<and> codes_check qs"
  by (induction ps) auto

lemma hdk_codes_check: "codes_check UNIFIED_PATTERNS"
  by code_simp

lemma hdk_codes_original_check: "codes_check (SENSOR0_PATTERNS_ORIGINAL @ SENSOR1_PATTERNS_ORIGINAL)"
  by code_simp

definition hdk_tables :: "string list set" where
  "hdk_tables = {SENSOR0_PATTERNS, SENSOR1_PATTERNS, UNIFIED_PATTERNS, SENSOR0_PATTERNS_ORIGINAL, SENSOR1_PATTERNS_ORIGINAL}"

lemma hdk_tables_check: "PATTERNS \<in> hdk_tables \<Longrightarrow> codes_check PATTERNS"
  using hdk_codes_check codes_check_append [OF hdk_codes_check [unfolded UNIFIED_PATTERNS_def]]
    codes_check_append [OF hdk_codes_original_check]
  by (auto simp: hdk_tables_def)

lemma codes_check_lengths:
  assumes "codes_check PATTERNS" and "p \<in> set PATTERNS" and "q \<in> set PATTERNS" and "valid_pattern p" and "valid_pattern q"
  shows "length p = length q"
  using assms by (induction PATTERNS) (auto simp: list_all_iff)

lemma codes_check_created:
  assumes "codes_check PATTERNS"
  shows "\<exists>idf. OsvrHdkLedIdentifier_create PATTERNS = Inr idf"
proof (cases "find valid_pattern PATTERNS")
  case None
  then show ?thesis by (simp add: OsvrHdkLedIdentifier_create_def)
next
  case (Some p)
  have "\<forall>q\<in>set PATTERNS. valid_pattern q \<longrightarrow> length q = length p"
    using codes_check_lengths [OF assms] find_Some_in [OF Some] by blast
  then obtain ps where "wrap_patterns (length p) PATTERNS = Inr ps" by (simp add: wrap_patterns_spec)
  with Some show ?thesis by (simp add: OsvrHdkLedIdentifier_create_def)
qed

text \<open>
  C18: every LED of the headset is recognised as itself. Take any of the five code tables of the
  headset, as built or as documented, of one sensor or of both: its identifier is created, and a
  LED that blinks the code of a pattern that is not turned off, from any frame on and with any
  brightnesses apart, has the number of that pattern after every measurement from the sixteenth
  on, whether or not blobs keep their identity.
\<close>

theorem hdk_leds_identified:
  assumes "PATTERNS \<in> hdk_tables" and "i < length PATTERNS" and "valid_pattern (PATTERNS ! i)"
    and "levels_apart A D B" and "blinks D B (PATTERNS ! i) phase (map lm_brightness (m # ms))"
    and "length ms \<ge> 15"
  shows "\<exists>idf led led'. OsvrHdkLedIdentifier_create PATTERNS = Inr idf \<and> Led_create A garbage (Some idf) m = Some led \<and>
    add_measurements A keep ms led = Some led' \<and> m_id led' = int i \<and>
    (m_lastBright led' \<longleftrightarrow> lm_brightness (last (m # ms)) \<in> B)"
proof -
  note check = hdk_tables_check [OF assms(1)]
  note codes = codes_check_apart [OF check] assms(2,3)
  obtain idf where idf: "OsvrHdkLedIdentifier_create PATTERNS = Inr idf" using codes_check_created [OF check] by blast
  have "\<exists>pat\<in>set PATTERNS. valid_pattern pat" using assms(2,3) by (meson nth_mem)
  then have n: "d_length idf = length (PATTERNS ! i)" using identifier_created(1) [OF idf] assms(2,3) by simp
  have "length p = 16" if "p \<in> set PATTERNS" "valid_pattern p" for p
  proof -
    have "list_all (\<lambda>p. valid_pattern p \<longrightarrow> length p = 16) (UNIFIED_PATTERNS @ SENSOR0_PATTERNS_ORIGINAL @ SENSOR1_PATTERNS_ORIGINAL)"
      by code_simp
    with assms(1) that show ?thesis by (auto simp: hdk_tables_def UNIFIED_PATTERNS_def list_all_iff)
  qed
  then have n16: "d_length idf = 16" using n assms(2,3) by simp
  have "follows_code idf B i []
      \<lparr>m_latestMeasurement = m, m_brightnessHistory = [], m_id = - 1, m_identifier = Some idf,
       m_lastBright = False, m_novelty = garbage, m_wasUsedLastFrame = False\<rparr>"
    using n16 by (simp add: follows_code_def)
  from follows_code_step [OF idf codes assms(4) this, of phase m False]
    blinks_append [of D B _ phase "[lm_brightness m]"] assms(5)
  obtain led where led: "Led_create A garbage (Some idf) m = Some led" "follows_code idf B i [lm_brightness m] led"
    by (auto simp: Led_create_def SENTINEL_NO_IDENTIFIER_OBJECT_OR_INSUFFICIENT_DATA_def)
  from follows_code_run [OF idf codes assms(4) led(2), of phase ms keep] assms(5)
  obtain led' where "add_measurements A keep ms led = Some led'"
    "follows_code idf B i (map lm_brightness (m # ms)) led'"
    by auto
  then show ?thesis using idf led(1) assms(6) n16
    by (auto simp: follows_code_def last_map)
qed

definition demo_measurement :: "int \<Rightarrow> (int, int) LedMeasurement" where
  "demo_measurement b = \<lparr>lm_loc = 0, lm_brightness = b, lm_diameter = b, lm_area = b, lm_circularity = 1,
     lm_knowBoundingBox = False, lm_boundingBox = (0, 0)\<rparr>"

text \<open>The third LED of the face plate, from the fourth frame of its code on.\<close>

theorem hdk_leds_identified_witness:
  "\<exists>idf led led'. OsvrHdkLedIdentifier_create SENSOR0_PATTERNS = Inr idf \<and>
     Led_create int_arith 0 (Some idf) (demo_measurement 1) = Some led \<and>
     add_measurements int_arith True (map demo_measurement [1, 9, 9, 1, 1, 2, 1, 1, 1, 1, 1, 1, 1, 9, 2]) led = Some led' \<and>
     m_id led' = int 2 \<and> \<not> m_lastBright led'"
proof -
  let ?ms = "map demo_measurement [1, 9, 9, 1, 1, 2, 1, 1, 1, 1, 1, 1, 1, 9, 2]"
  have p: "2 < length SENSOR0_PATTERNS" "valid_pattern (SENSOR0_PATTERNS ! 2)" by code_simp+
  have code: "SENSOR0_PATTERNS ! 2 = ''.*...**.........''" by code_simp
  have t: "SENSOR0_PATTERNS \<in> hdk_tables" by (simp add: hdk_tables_def)
  have apart: "levels_apart int_arith {1, 2} {9}" by (simp add: levels_apart_def int_arith_def)
  have "list_all (\<lambda>t. map lm_brightness (demo_measurement 1 # ?ms) ! t \<in>
      (if ''.*...**.........'' ! ((3 + t) mod 16) = CHR ''*'' then {9} else {1, 2})) [0..<16]"
    by code_simp
  then have b: "blinks {1, 2} {9} (SENSOR0_PATTERNS ! 2) 3 (map lm_brightness (demo_measurement 1 # ?ms))"
    unfolding blinks_def code by (simp add: list_all_iff)
  have "lm_brightness (last (demo_measurement 1 # ?ms)) \<notin> {9}" by (simp add: demo_measurement_def)
  with hdk_leds_identified [OF t p apart b, of 0 True] show ?thesis by auto
qed



subsection \<open>Following the LEDs from frame to frame\<close>

lemma nearest_loop_spec:
  assumes "nearest_loop f (drop it ms) it ret d = (i, d')" and "ret < length ms" and "d = f (lm_loc (ms ! ret))"
    and "\<forall>j<it. d \<le> f (lm_loc (ms ! j))"
  shows "i < length ms \<and> d' = f (lm_loc (ms ! i)) \<and> (\<forall>j<length ms. d' \<le> f (lm_loc (ms ! j)))"
  using assms
proof (induction "length ms - it" arbitrary: it ret d)
  case 0
  then show ?case by auto
next
  case (Suc k)
  then have it: "it < length ms" by simp
  then have dr: "drop it ms = ms ! it # drop (Suc it) ms" by (simp add: Cons_nth_drop_Suc)
  have k: "k = length ms - Suc it" using Suc.hyps(2) by simp
  show ?case
  proof (cases "f (lm_loc (ms ! it)) < d")
    case True
    with Suc.prems(1) have r: "nearest_loop f (drop (Suc it) ms) (Suc it) it (f (lm_loc (ms ! it))) = (i, d')"
      by (simp add: dr Let_def)
    have "\<forall>j<Suc it. f (lm_loc (ms ! it)) \<le> f (lm_loc (ms ! j))"
      using True Suc.prems(4) by (auto simp: less_Suc_eq intro: less_imp_le order_less_le_trans)
    from Suc.hyps(1) [OF k r it refl this] show ?thesis .
  next
    case False
    with Suc.prems(1) have r: "nearest_loop f (drop (Suc it) ms) (Suc it) ret d = (i, d')"
      by (simp add: dr Let_def)
    have "\<forall>j<Suc it. d \<le> f (lm_loc (ms ! j))" using False Suc.prems(4) by (auto simp: less_Suc_eq)
    from Suc.hyps(1) [OF k r Suc.prems(2,3) this] show ?thesis .
  qed
qed

lemma nearest_spec:
  "nearest f ms thr = Some i \<Longrightarrow>
     i < length ms \<and> f (lm_loc (ms ! i)) \<le> thr \<and> (\<forall>j<length ms. f (lm_loc (ms ! i)) \<le> f (lm_loc (ms ! j)))"
  "nearest f ms thr = None \<Longrightarrow> m \<in> set ms \<Longrightarrow> thr < f (lm_loc m)"
proof -
  obtain i' d' where loop: "nearest_loop f ms 0 0 (f (lm_loc (hd ms))) = (i', d')" by fastforce
  have spec: "i' < length ms \<and> d' = f (lm_loc (ms ! i')) \<and> (\<forall>j<length ms. d' \<le> f (lm_loc (ms ! j)))" if "ms \<noteq> []"
  proof -
    have "nearest_loop f (drop 0 ms) 0 0 (f (lm_loc (hd ms))) = (i', d')" by (simp add: loop)
    from nearest_loop_spec [OF this] that show ?thesis
      by (metis hd_conv_nth length_greater_0_conv less_nat_zero_code)
  qed
  show "i < length ms \<and> f (lm_loc (ms ! i)) \<le> thr \<and> (\<forall>j<length ms. f (lm_loc (ms ! i)) \<le> f (lm_loc (ms ! j)))"
    if "nearest f ms thr = Some i"
  proof -
    have "ms \<noteq> []" "i = i'" "d' \<le> thr" using that loop by (auto simp: nearest_def split: if_splits)
    with spec show ?thesis by metis
  qed
  show "thr < f (lm_loc m)" if "nearest f ms thr = None" "m \<in> set ms"
  proof -
    have "ms \<noteq> []" using that(2) by auto
    with that spec loop have "thr < d'" by (auto simp: nearest_def split: if_splits)
    then show ?thesis using spec [OF \<open>ms \<noteq> []\<close>] that(2) by (metis in_set_conv_nth order_less_le_trans)
  qed
qed

lemma mset_take_drop:
  "i < length xs \<Longrightarrow> mset xs = {#xs ! i#} + mset (take i xs @ drop (Suc i) xs)"
  by (subst id_take_nth_drop [of i xs]) auto

text \<open>
  An LED's identifier has codes, so that no history is empty; its history is no longer than a
  code; an LED moves to a measurement that was close enough.
\<close>

definition codes_exist :: "OsvrHdkLedIdentifier option \<Rightarrow> bool" where
  "codes_exist identifier \<longleftrightarrow> (case identifier of None \<Rightarrow> True | Some idf \<Rightarrow> d_length idf > 0)"

definition history_bounded :: "('b, 'p) Led \<Rightarrow> bool" where
  "history_bounded led \<longleftrightarrow>
     (case m_identifier led of None \<Rightarrow> True | Some idf \<Rightarrow> length (m_brightnessHistory led) \<le> d_length idf)"

definition in_reach :: "('b::linorder, 'p, 'd::linorder) tracker_params \<Rightarrow> ('b, 'p) Led \<Rightarrow> ('b, 'p) LedMeasurement \<Rightarrow> bool" where
  "in_reach P led m \<longleftrightarrow>
     distSquared P (lm_loc (m_latestMeasurement led)) (lm_loc m) \<le> thresholdSquared P (lm_diameter (m_latestMeasurement led))"

definition moves_to :: "('b::linorder, 'p, 'd::linorder) tracker_params \<Rightarrow> ('b, 'p) Led \<Rightarrow> ('b, 'p) Led \<Rightarrow> bool" where
  "moves_to P led led' \<longleftrightarrow> in_reach P led (m_latestMeasurement led') \<and>
     addMeasurement (brightness_arith P) (m_latestMeasurement led') (blobsKeepIdentity P) (resetUsed led) = Some led'"

lemma getId_total:
  assumes "d_length idf > 0"
  shows "\<exists>i bs' b. getId A idf cur bs lb keep = Some (i, bs', b) \<and> length bs' \<le> d_length idf"
proof (cases "length bs < d_length idf")
  case True
  then show ?thesis by (simp add: getId_def)
next
  case False
  define w where "w = drop (length bs - d_length idf) bs"
  have w: "w \<noteq> []" "length w = d_length idf" using False assms by (auto simp: w_def)
  show ?thesis
    using False w by (simp add: getId_def truncate_drop Let_def w_def [symmetric] find_min_max)
qed

lemma addMeasurement_total:
  assumes "codes_exist (m_identifier led)"
  shows "\<exists>led'. addMeasurement A m keep led = Some led' \<and> m_latestMeasurement led' = m \<and>
    m_identifier led' = m_identifier led \<and> history_bounded led'"
proof (cases "m_identifier led")
  case None
  then show ?thesis by (simp add: addMeasurement_def Let_def history_bounded_def)
next
  case (Some idf)
  with assms obtain i bs' b where g: "length bs' \<le> d_length idf"
    "getId A idf (m_id led) (m_brightnessHistory led @ [lm_brightness m]) (m_lastBright led) keep = Some (i, bs', b)"
    using getId_total [of idf A "m_id led" "m_brightnessHistory led @ [lm_brightness m]" "m_lastBright led" keep]
    by (auto simp: codes_exist_def)
  have "addMeasurement A m keep led = Some (led\<lparr>m_latestMeasurement := m, m_brightnessHistory := bs', m_id := i,
      m_lastBright := b, m_novelty := (if m_id led \<noteq> i then MAX_NOVELTY
        else if m_novelty led \<noteq> 0 then m_novelty led - 1 else m_novelty led)\<rparr>)"
    using Some g(2) by (simp add: addMeasurement_def Let_def)
  then show ?thesis using Some g(1) by (simp add: history_bounded_def)
qed


lemma track_leds_spec:
  assumes "\<forall>led\<in>set leds. m_identifier led = identifier" and "codes_exist identifier"
  shows "\<exists>olds kept rest. track_leds P leds meas = Some (kept, rest) \<and>
    mset meas = mset (map m_latestMeasurement kept) + mset rest \<and> subseq olds leds \<and>
    list_all2 (moves_to P) olds kept \<and>
    (\<forall>led\<in>set leds - set olds. \<forall>m\<in>set rest. \<not> in_reach P led m) \<and>
    (\<forall>led\<in>set kept. m_identifier led = identifier \<and> history_bounded led)"
  using assms(1)
proof (induction leds arbitrary: meas)
  case Nil
  then show ?case by (intro exI [of _ "[]"] exI [of _ meas]) auto
next
  case (Cons led leds)
  let ?d = "distSquared P (lm_loc (m_latestMeasurement led))"
  let ?thr = "thresholdSquared P (lm_diameter (m_latestMeasurement led))"
  have led0: "m_latestMeasurement (resetUsed led) = m_latestMeasurement led" "m_identifier (resetUsed led) = identifier"
    using Cons.prems by (simp_all add: resetUsed_def)
  have leds: "\<forall>led\<in>set leds. m_identifier led = identifier" using Cons.prems by simp
  show ?case
  proof (cases "nearest ?d meas ?thr")
    case None
    obtain olds kept rest where r: "track_leds P leds meas = Some (kept, rest)"
      "mset meas = mset (map m_latestMeasurement kept) + mset rest" "subseq olds leds" "list_all2 (moves_to P) olds kept"
      "\<forall>led\<in>set leds - set olds. \<forall>m\<in>set rest. \<not> in_reach P led m"
      "\<forall>led\<in>set kept. m_identifier led = identifier \<and> history_bounded led"
      using Cons.IH [OF leds, of meas] by blast
    have "m \<in> set meas" if "m \<in> set rest" for m
      using that r(2) by (metis in_multiset_in_set union_iff)
    then have "\<forall>m\<in>set rest. \<not> in_reach P led m"
      using nearest_spec(2) [OF None] unfolding in_reach_def by (metis leD)
    moreover have "track_leds P (led # leds) meas = Some (kept, rest)"
      using None r(1) by (simp add: led0)
    ultimately show ?thesis using r
      by (intro exI [of _ olds] exI [of _ kept] exI [of _ rest]) auto
  next
    case (Some i)
    note near = nearest_spec(1) [OF Some]
    obtain led' where led': "addMeasurement (brightness_arith P) (meas ! i) (blobsKeepIdentity P) (resetUsed led) = Some led'"
      "m_latestMeasurement led' = meas ! i" "m_identifier led' = identifier" "history_bounded led'"
      using addMeasurement_total [of "resetUsed led" "brightness_arith P" "meas ! i" "blobsKeepIdentity P"] assms(2) led0
      by auto
    obtain olds kept rest where r: "track_leds P leds (take i meas @ drop (Suc i) meas) = Some (kept, rest)"
      "mset (take i meas @ drop (Suc i) meas) = mset (map m_latestMeasurement kept) + mset rest"
      "subseq olds leds" "list_all2 (moves_to P) olds kept"
      "\<forall>led\<in>set leds - set olds. \<forall>m\<in>set rest. \<not> in_reach P led m"
      "\<forall>led\<in>set kept. m_identifier led = identifier \<and> history_bounded led"
      using Cons.IH [OF leds, of "take i meas @ drop (Suc i) meas"] by blast
    have m: "moves_to P led led'" using near led' by (simp add: moves_to_def in_reach_def)
    have "track_leds P (led # leds) meas = Some (led' # kept, rest)"
      using Some r(1) led'(1) by (simp add: led0)
    moreover have "mset meas = mset (map m_latestMeasurement (led' # kept)) + mset rest"
      using mset_take_drop [of i meas] near r(2) led'(2) by simp
    ultimately show ?thesis using r(3-6) m led'(3,4)
      by (intro exI [of _ "led # olds"] exI [of _ "led' # kept"] exI [of _ rest]) auto
  qed
qed

lemma new_leds_spec:
  assumes "codes_exist identifier"
  shows "\<exists>added. new_leds A garbage identifier ms = Some added \<and> map m_latestMeasurement added = ms \<and>
    list_all (\<lambda>led. Led_create A garbage identifier (m_latestMeasurement led) = Some led) added \<and>
    (\<forall>led\<in>set added. m_identifier led = identifier \<and> history_bounded led)"
proof (induction ms)
  case Nil
  then show ?case by simp
next
  case (Cons m ms)
  let ?l = "\<lparr>m_latestMeasurement = m, m_brightnessHistory = [],
        m_id = SENTINEL_NO_IDENTIFIER_OBJECT_OR_INSUFFICIENT_DATA, m_identifier = identifier,
        m_lastBright = False, m_novelty = garbage, m_wasUsedLastFrame = False\<rparr>"
  obtain led where "Led_create A garbage identifier m = Some led" "m_latestMeasurement led = m"
    "m_identifier led = identifier" "history_bounded led"
    using addMeasurement_total [of ?l A m False] assms by (auto simp: Led_create_def)
  with Cons show ?case by auto
qed

text \<open>
  C19: each blob of a frame is exactly one LED's. The frame leaves an LED for every blob; the
  first ones are LEDs of the last frame, in their order, each moved to a blob within its reach
  and given that measurement; the others are new; no LED was deleted that a new one's blob was
  in reach of. No history is longer than a code.
\<close>

theorem blobs_tracked:
  assumes "codes_exist identifier" and "\<forall>led\<in>set leds. m_identifier led = identifier"
  shows "\<exists>olds kept added. process_leds P garbage identifier meas leds = Some (kept @ added) \<and>
    mset (map m_latestMeasurement (kept @ added)) = mset meas \<and>
    subseq olds leds \<and> list_all2 (moves_to P) olds kept \<and>
    list_all (\<lambda>led. Led_create (brightness_arith P) garbage identifier (m_latestMeasurement led) = Some led) added \<and>
    (\<forall>led\<in>set leds - set olds. \<forall>new\<in>set added. \<not> in_reach P led (m_latestMeasurement new)) \<and>
    (\<forall>led\<in>set (kept @ added). m_identifier led = identifier \<and> history_bounded led)"
proof -
  obtain olds kept rest where t: "track_leds P leds meas = Some (kept, rest)"
    "mset meas = mset (map m_latestMeasurement kept) + mset rest" "subseq olds leds" "list_all2 (moves_to P) olds kept"
    "\<forall>led\<in>set leds - set olds. \<forall>m\<in>set rest. \<not> in_reach P led m"
    "\<forall>led\<in>set kept. m_identifier led = identifier \<and> history_bounded led"
    using track_leds_spec [OF assms(2,1)] by blast
  obtain added where a: "new_leds (brightness_arith P) garbage identifier rest = Some added"
    "map m_latestMeasurement added = rest"
    "list_all (\<lambda>led. Led_create (brightness_arith P) garbage identifier (m_latestMeasurement led) = Some led) added"
    "\<forall>led\<in>set added. m_identifier led = identifier \<and> history_bounded led"
    using new_leds_spec [OF assms(1)] by blast
  have "process_leds P garbage identifier meas leds = Some (kept @ added)" using t(1) a(1) by (simp add: process_leds_def)
  moreover have "\<forall>led\<in>set leds - set olds. \<forall>new\<in>set added. \<not> in_reach P led (m_latestMeasurement new)"
    using t(5) a(2) by auto
  ultimately show ?thesis using t a
    by (intro exI [of _ olds] exI [of _ kept] exI [of _ added]) auto
qed

definition demo_params :: "(int, int, int) tracker_params" where
  "demo_params = \<lparr>distSquared = (\<lambda>p q. (p - q) * (p - q)), thresholdSquared = (\<lambda>d. d * d),
     blobsKeepIdentity = False, brightness_arith = int_arith\<rparr>"

definition demo_led :: "(int, int) Led" where
  "demo_led = \<lparr>m_latestMeasurement = demo_measurement 4, m_brightnessHistory = [4], m_id = - 1, m_identifier = None,
     m_lastBright = False, m_novelty = 0, m_wasUsedLastFrame = True\<rparr>"

theorem blobs_tracked_witness:
  "\<exists>leds'. process_leds demo_params 0 None [demo_measurement 3, demo_measurement 5] [demo_led] = Some leds' \<and>
     length leds' = 2"
proof -
  have "codes_exist None" "\<forall>led\<in>set [demo_led]. m_identifier led = None"
    by (simp_all add: codes_exist_def demo_led_def)
  from blobs_tracked [OF this, of demo_params 0 "[demo_measurement 3, demo_measurement 5]"]
  obtain leds' where "process_leds demo_params 0 None [demo_measurement 3, demo_measurement 5] [demo_led] = Some leds'"
    "mset (map m_latestMeasurement leds') = mset [demo_measurement 3, demo_measurement 5]"
    by blast
  moreover from this(2) have "length leds' = 2" using mset_eq_length by fastforce
  ultimately show ?thesis by blast
qed

end
