(* ===== verification/Spec2Isabelle.thy ===== *)
theory Spec2Isabelle
  imports Tree_Sync Routes Imaging Device_Descriptor Async_Access Client_Interfaces Remote_Handlers
    Image_Eye_Handlers Tracker_Handler Server_Tree Server_Threads Server_Config Plugin_Host Display_Config
    Led_Identification
begin

text \<open>
  A verification library for the core of the OSVR framework, in the C++ of
  \<^verbatim>\<open>inc/osvr\<close> and \<^verbatim>\<open>src/osvr\<close>.

  \<^bold>\<open>The program.\<close> An OSVR server loads plugins, whose devices describe themselves by JSON
  descriptors and report what they measure. The server keeps a \<^emph>\<open>path tree\<close> of devices,
  interfaces, sensors, strings and aliases and sends it to the clients. A client opens
  interfaces by path; a path is resolved through aliases in the client's copy of the tree to an
  original source, a handler for that source is connected, and from then on the reports of the
  device reach the state and the callbacks of the interface. Everything but the shared-memory
  images goes through a VRPN connection.

  \<^bold>\<open>The tree.\<close> \<open>Tree_Node\<close> models the generic tree of \<^verbatim>\<open>inc/osvr/Util/TreeNode.h\<close>: nodes are
  positions in a list in allocation order, \<open>wf_tree\<close> is the representation invariant, \<open>lookup\<close>
  the partial map from name paths to values that the operations are proved against, and
  \<open>traverseWith\<close> the traversal, which need not end when its functor adds nodes. \<open>Path_Retrieve\<close>
  models \<^verbatim>\<open>PathParseAndRetrieve.h\<close>; its locale \<open>child_access\<close> is what the retrieval loop needs of
  the functor that steps to a child, extended to \<open>total_child_access\<close> for the functor that
  creates. \<open>Json_Value\<close> models the accessors of the JSON values, \<open>Path_Elements\<close> the elements of the
  path tree and its JSON form, \<open>Alias_Processing\<close> and \<open>Alias_Effects\<close> the aliases with priorities
  and wildcards, \<open>Tree_Resolution\<close> the resolution of paths, \<open>Routes\<close> the route container,
  \<open>Device_Descriptor\<close> what a device descriptor does to the tree, \<open>Tree_Sync\<close> how a tree reaches a
  client (\<^verbatim>\<open>SystemComponent\<close>, \<^verbatim>\<open>PathTreeOwner\<close>, the context's handling of a new tree).

  \<^bold>\<open>Messages.\<close> \<open>Time_Value\<close> models \<^verbatim>\<open>TimeValueC\<close> with machine integers and undefined overflow as
  \<open>None\<close>; \<open>Wire_Buffer\<close> the byte buffers, alignment and byte order; \<open>Serialization\<close> the
  serialization traits, whose contract is the locale \<open>codec\<close> with its extensions; \<open>Messages\<close> the
  messages of the components, each interpreted as a codec (the locale \<open>report_codec\<close>);
  \<open>Device_Components\<close> devices, components and the registration and dispatch of handlers (the locale
  \<open>callback_registration\<close>); \<open>Imaging\<close> the imaging component, with images either on the
  wire or in shared memory.

  \<^bold>\<open>Concurrency.\<close> \<open>Ring_Buffer\<close> models the bookkeeping of the shared-memory ring at its machine
  widths, \<open>Ring_Locks\<close> its lock protocol as a step relation over any number of producers and
  readers, \<open>Async_Access\<close> the protocol by which the thread of an asynchronous device gets its
  turn on the connection, as a step relation with spurious wakeups.

  \<^bold>\<open>The client.\<close> \<open>Type_Pack\<close> models the type-level lists and the containers keyed by types,
  \<open>Interface_State\<close> the state and callbacks of an interface and the delivery of reports,
  \<open>Client_Interfaces\<close> the tree of opened interfaces, its handlers, the manager that connects them
  and the client context. The handlers themselves, which turn messages into reports, are in
  \<open>Remote_Handlers\<close> (analogs and buttons, with their contract as the locale \<open>report_handler\<close>, on the
  integer ranges of \<open>Value_Range\<close>), \<open>Tracker_Handler\<close>, \<open>Network_Handlers\<close> (2D locations, directions,
  locomotion; the locale \<open>remote_channel\<close> follows a report from the sending component to the
  interfaces) and \<open>Image_Eye_Handlers\<close>, which also holds the typing of interface states.
  \<open>Display_Config\<close> models what a client makes of the display descriptor in the tree: its parsing,
  the eyes, viewports and display inputs, and the C functions that report them.

  \<^bold>\<open>The server.\<close> \<open>Server_Tree\<close> models what can change the server's tree and the update that
  sends it (\<^verbatim>\<open>src/osvr/Server/ServerImpl.cpp\<close>), over the lemmas of \<open>Change_Flags\<close>, which show that
  the operations on aliases and descriptors report every change they make; \<open>Server_Threads\<close> models
  the threads, the two mutexes and the run loop of the same class as a step relation.
  \<open>Server_Config\<close> models how a server is set up from a configuration file
  (\<^verbatim>\<open>ConfigureServer.cpp\<close>, \<^verbatim>\<open>JSONResolvePossibleRef.cpp\<close>, \<^verbatim>\<open>ConfigureServerFromFile.h\<close>): what a
  configuration does to the tree is a list of events of \<open>Server_Tree\<close>, so that the invariant of the
  server holds of a configured one. \<open>Plugin_Host\<close> models the host of the plugins
  (\<^verbatim>\<open>src/osvr/PluginHost\<close>): loading, registrations, drivers, hardware detection, and who deletes
  the plugins' objects.

  \<^bold>\<open>A plugin.\<close> \<open>Led_Identification\<close> models how the video-based tracker recognises the LEDs of a
  headset by their blink codes and follows them from frame to frame.

  \<^bold>\<open>Conventions.\<close> An exception is the left value of a result; an operation that changes a state
  and may throw returns the state it leaves next to the result, since C++ does not roll back.
  Undefined behaviour and recursion or iteration that does not end are \<open>None\<close>. Machine integers
  are words, doubles their bit patterns where they are only copied. A release build is
  modelled: assertions are recorded (\<open>Async_Access\<close>) or left out. The library behind the program
  is a parameter: the reader and writers of jsoncpp (\<open>json_lib\<close>), the VRPN connection (which
  messages it accepts, which numbers it gives), the shared-memory allocator, the specific
  handler factories. The only step bound in a statement is the number of nodes of the tree in
  \<open>resolve_terminates_iff\<close>, which is enough because a chain of aliases that visits more positions
  than there are nodes has visited one twice.

  \<^bold>\<open>What the groups of lemmas show.\<close> Every operation on a tree keeps \<open>wf_tree\<close> and is a function on
  \<open>lookup\<close> (or \<open>content\<close>, or \<open>view\<close>), so that properties of compositions are properties of maps.
  Every codec reads back what it wrote and nothing more. The step relations have an invariant
  that each step keeps. The claims \<open>C1\<close> ... state what the components promise each other.

  \<^bold>\<open>Not modelled.\<close> The C wrappers of the plugin kit and the client kit, which check pointers and
  forward to the components here; where plugins are searched and how their
  libraries are opened, the USB enumeration and the applications, which are I/O; the matrices of views,
  projections and transforms and the Kalman filter, which are floating-point arithmetic over
  Eigen; the video-based tracker's image processing over OpenCV and its pose estimation; VRPN's servers and remotes; the
  joint client kit, which puts the parts modelled here into one process; vendored code.
\<close>

end
